(* ===== verification/Ap_Prelude.thy ===== *)
theory Ap_Prelude
  imports Main "HOL-Library.Word" "HOL-Library.Code_Target_Nat"
begin

text \<open>
  Shared vocabulary of the development: the C machine types of the QCA9531 target, undefined
  behaviour as a value of a sum type, and the pieces of the C library that the sources call
  (\<^verbatim>\<open>ctype.h\<close>, \<^verbatim>\<open>strtol\<close>, \<^verbatim>\<open>strtok\<close>, \<^verbatim>\<open>strstr\<close>, \<^verbatim>\<open>strlcpy\<close>, decimal printing).

  A C string is the list of the characters before its terminating NUL. A fixed buffer
  \<^verbatim>\<open>char buf[n]\<close> is a list of \<open>n\<close> characters where its bytes after the NUL matter, and just its
  string where they do not.
\<close>

unbundle bit_operations_syntax

named_theorems cres_simps
  \<open>evaluation of C results\<close>
named_theorems cstr_simps
  \<open>evaluation of C string functions\<close>

section \<open>Machine types and results\<close>

type_synonym u8 = "8 word"
type_synonym u16 = "16 word"
type_synonym u32 = "32 word"

text \<open>
  What the C standard leaves undefined is not given a value, nor is a loop that can never end: an
  operation that would do it returns \<open>Inl\<close> with the reason. Everything else is \<open>Inr\<close>.
\<close>

datatype fault = NullDeref | OutOfBounds | UninitRead | DivideByZero | Diverges

type_synonym 'a cres = "fault + 'a"

fun bind_ok :: "'a cres \<Rightarrow> ('a \<Rightarrow> 'b cres) \<Rightarrow> 'b cres" where
  "bind_ok (Inl f) k = Inl f"
| "bind_ok (Inr x) k = k x"

definition guard_c :: "bool \<Rightarrow> fault \<Rightarrow> 'a cres \<Rightarrow> 'a cres" where
  "guard_c b f r = (if b then r else Inl f)"

definition faulty :: "'a cres \<Rightarrow> bool" where
  "faulty r = (case r of Inl _ \<Rightarrow> True | Inr _ \<Rightarrow> False)"

section \<open>Characters\<close>

abbreviation NUL :: char where
  "NUL \<equiv> CHR 0x00"

definition code_of :: "char \<Rightarrow> nat" where
  "code_of c = of_char c"

definition c_isdigit :: "char \<Rightarrow> bool" where
  "c_isdigit c \<longleftrightarrow> 48 \<le> code_of c \<and> code_of c \<le> 57"

definition c_isspace :: "char \<Rightarrow> bool" where
  "c_isspace c \<longleftrightarrow> code_of c = 32 \<or> (9 \<le> code_of c \<and> code_of c \<le> 13)"

definition c_islower :: "char \<Rightarrow> bool" where
  "c_islower c \<longleftrightarrow> 97 \<le> code_of c \<and> code_of c \<le> 122"

definition c_isxdigit :: "char \<Rightarrow> bool" where
  "c_isxdigit c \<longleftrightarrow> c_isdigit c \<or> (97 \<le> code_of c \<and> code_of c \<le> 102)
     \<or> (65 \<le> code_of c \<and> code_of c \<le> 70)"

definition c_isprint :: "char \<Rightarrow> bool" where
  "c_isprint c \<longleftrightarrow> 32 \<le> code_of c \<and> code_of c \<le> 126"

definition digit_val :: "char \<Rightarrow> nat" where
  "digit_val c = code_of c - 48"

definition digit_char :: "nat \<Rightarrow> char" where
  "digit_char d = char_of (48 + d)"

definition is_cstr :: "string \<Rightarrow> bool" where
  "is_cstr s \<longleftrightarrow> NUL \<notin> set s"

section \<open>Numbers in strings\<close>

text \<open>The digits of a decimal number, read from the left and stopping at the first non-digit.\<close>

fun scan_dec :: "nat \<Rightarrow> string \<Rightarrow> nat" where
  "scan_dec acc [] = acc"
| "scan_dec acc (c # cs) = (if c_isdigit c then scan_dec (acc * 10 + digit_val c) cs else acc)"

abbreviation dec_val :: "string \<Rightarrow> nat" where
  "dec_val \<equiv> scan_dec 0"

text \<open>
  \<^verbatim>\<open>strtol\<close>, base 10: white space, an optional sign, digits; out of range saturates at the
  32-bit \<^verbatim>\<open>LONG_MIN\<close> or \<^verbatim>\<open>LONG_MAX\<close>. \<^verbatim>\<open>atoi\<close> is this function.
\<close>

definition atoi :: "string \<Rightarrow> int" where
  "atoi s =
     (let s1 = dropWhile c_isspace s;
          neg = (s1 \<noteq> [] \<and> hd s1 = CHR ''-'');
          s2 = (if s1 \<noteq> [] \<and> (hd s1 = CHR ''-'' \<or> hd s1 = CHR ''+'') then tl s1 else s1);
          n = int (dec_val s2)
      in if neg then max (- (2 ^ 31)) (- n) else min (2 ^ 31 - 1) n)"

text \<open>
  \<^verbatim>\<open>strtoul\<close>, base 10: the value, and whether it set \<^verbatim>\<open>errno\<close> to \<^verbatim>\<open>ERANGE\<close> (the value is then
  \<^verbatim>\<open>ULONG_MAX\<close>).
\<close>

definition strtoul10 :: "string \<Rightarrow> u32 \<times> bool" where
  "strtoul10 s =
     (let s1 = dropWhile c_isspace s;
          neg = (s1 \<noteq> [] \<and> hd s1 = CHR ''-'');
          s2 = (if s1 \<noteq> [] \<and> (hd s1 = CHR ''-'' \<or> hd s1 = CHR ''+'') then tl s1 else s1);
          n = dec_val s2
      in if 2 ^ 32 \<le> n then (- 1, True)
         else (if neg then - of_nat n else of_nat n, False))"

text \<open>Decimal printing, \<^verbatim>\<open>%d\<close> and \<^verbatim>\<open>%u\<close> of a value that is not negative.\<close>

fun show_nat :: "nat \<Rightarrow> string" where
  "show_nat n = (if n < 10 then [digit_char n] else show_nat (n div 10) @ [digit_char (n mod 10)])"

declare show_nat.simps [simp del]

definition show_int :: "int \<Rightarrow> string" where
  "show_int i = (if i < 0 then CHR ''-'' # show_nat (nat (- i)) else show_nat (nat i))"

section \<open>String functions\<close>

text \<open>\<^verbatim>\<open>strlcpy(dst, src, n)\<close>: at most \<open>n - 1\<close> characters arrive.\<close>

definition strlcpy :: "string \<Rightarrow> nat \<Rightarrow> string" where
  "strlcpy src n = take (n - 1) src"

text \<open>\<^verbatim>\<open>strstr\<close>: the suffix that starts at the first match.\<close>

fun strstr :: "string \<Rightarrow> string \<Rightarrow> string option" where
  "strstr [] needle = (if needle = [] then Some [] else None)"
| "strstr (c # cs) needle =
     (if take (length needle) (c # cs) = needle then Some (c # cs) else strstr cs needle)"

text \<open>
  \<^verbatim>\<open>strtok\<close>: \<open>None\<close> when nothing but delimiters is left, otherwise the token and what the next
  call continues from (\<open>None\<close> when the token ended the string, after which \<^verbatim>\<open>strtok\<close> returns NULL).
\<close>

definition strtok_step :: "string \<Rightarrow> string \<Rightarrow> (string \<times> string option) option" where
  "strtok_step delims s =
     (let s1 = dropWhile (\<lambda>c. c \<in> set delims) s;
          tok = takeWhile (\<lambda>c. c \<notin> set delims) s1;
          rest = dropWhile (\<lambda>c. c \<notin> set delims) s1
      in if s1 = [] then None
         else Some (tok, if rest = [] then None else Some (tl rest)))"

definition strtok_next :: "string \<Rightarrow> string option \<Rightarrow> (string \<times> string option) option" where
  "strtok_next delims lasts = (case lasts of None \<Rightarrow> None | Some s \<Rightarrow> strtok_step delims s)"

text \<open>The characters of a buffer up to its first NUL; without one a string function runs past
  the end of the buffer.\<close>

definition cstr_of_buf :: "char list \<Rightarrow> string cres" where
  "cstr_of_buf b = (if NUL \<in> set b then Inr (takeWhile (\<lambda>c. c \<noteq> NUL) b) else Inl OutOfBounds)"

text \<open>Words separated by single spaces.\<close>

abbreviation SPACE :: char where
  "SPACE \<equiv> CHR 0x20"

fun unwords :: "string list \<Rightarrow> string" where
  "unwords [] = []"
| "unwords [w] = w"
| "unwords (w # ws) = w @ SPACE # unwords ws"

section \<open>Facts about results\<close>

lemma bind_ok_Inr [simp, cres_simps]: "bind_ok (Inr x) k = k x"
  by simp

lemma bind_ok_eq_Inr [cres_simps]:
  "bind_ok m k = Inr y \<longleftrightarrow> (\<exists>x. m = Inr x \<and> k x = Inr y)"
  by (cases m) auto

lemma bind_ok_eq_Inl [cres_simps]:
  "bind_ok m k = Inl f \<longleftrightarrow> m = Inl f \<or> (\<exists>x. m = Inr x \<and> k x = Inl f)"
  by (cases m) auto

lemma bind_okE:
  assumes "bind_ok m k = Inr y"
  obtains x where "m = Inr x" "k x = Inr y"
  using assms by (cases m) simp_all

lemma bind_ok_cong [fundef_cong]:
  assumes "m = m'" "\<And>x. m' = Inr x \<Longrightarrow> k x = k' x"
  shows "bind_ok m k = bind_ok m' k'"
  using assms by (cases m') simp_all

lemma bind_ok_split:
  "P (bind_ok m k) \<longleftrightarrow> (\<forall>f. m = Inl f \<longrightarrow> P (Inl f)) \<and> (\<forall>x. m = Inr x \<longrightarrow> P (k x))"
  by (cases m) auto

lemma guard_c_eq [cres_simps]:
  "guard_c b f r = Inr x \<longleftrightarrow> b \<and> r = Inr x"
  "guard_c b f r = Inl g \<longleftrightarrow> (\<not> b \<and> f = g) \<or> (b \<and> r = Inl g)"
  by (auto simp: guard_c_def)

lemma guard_c_True [simp]: "b \<Longrightarrow> guard_c b f r = r"
  by (simp add: guard_c_def)

lemma faulty_simps [simp, cres_simps]:
  "faulty (Inl f)" "\<not> faulty (Inr x)"
  by (simp_all add: faulty_def)

lemma not_faulty_iff: "\<not> faulty r \<longleftrightarrow> (\<exists>x. r = Inr x)"
  by (cases r) simp_all

section \<open>Facts about characters and numbers\<close>

lemma code_of_char_of [simp]: "n < 256 \<Longrightarrow> code_of (char_of n) = n"
  by (simp add: code_of_def)

lemma code_of_inject: "code_of a = code_of b \<longleftrightarrow> a = b"
  by (simp add: code_of_def)

lemma code_of_less_256 [simp]: "code_of c < 256"
  by (simp add: code_of_def)

lemma digit_char_code: "d < 10 \<Longrightarrow> code_of (digit_char d) = 48 + d"
  by (simp add: digit_char_def)

lemma isdigit_digit_char [simp]: "d < 10 \<Longrightarrow> c_isdigit (digit_char d)"
  by (simp add: c_isdigit_def digit_char_code)

lemma digit_val_digit_char [simp]: "d < 10 \<Longrightarrow> digit_val (digit_char d) = d"
  by (simp add: digit_val_def digit_char_code)

lemma digit_val_bound: "c_isdigit c \<Longrightarrow> digit_val c < 10"
  unfolding c_isdigit_def digit_val_def by linarith

lemma isdigit_not_dot [simp]: "c_isdigit c \<Longrightarrow> c \<noteq> CHR ''.''"
  by (auto simp: c_isdigit_def code_of_def)

lemma not_isdigit_dot [simp]: "\<not> c_isdigit (CHR ''.'')"
  by (simp add: c_isdigit_def code_of_def)

lemma isdigit_not_space [simp]: "c_isdigit c \<Longrightarrow> \<not> c_isspace c"
  by (auto simp: c_isdigit_def c_isspace_def)

lemma isdigit_not_sign [simp]:
  "c_isdigit c \<Longrightarrow> c \<noteq> CHR ''-''" "c_isdigit c \<Longrightarrow> c \<noteq> CHR ''+''"
  by (auto simp: c_isdigit_def code_of_def)

lemma isdigit_not_NUL [simp]: "c_isdigit c \<Longrightarrow> c \<noteq> NUL"
  by (auto simp: c_isdigit_def code_of_def)

lemma isdigit_not_x [simp]:
  "c_isdigit c \<Longrightarrow> c \<noteq> CHR ''x''" "c_isdigit c \<Longrightarrow> c \<noteq> CHR ''X''"
  by (auto simp: c_isdigit_def code_of_def)

lemma digit_char_eq_0_iff: "d < 10 \<Longrightarrow> digit_char d = CHR ''0'' \<longleftrightarrow> d = 0"
proof -
  assume d: "d < 10"
  have "digit_char d = CHR ''0'' \<longleftrightarrow> code_of (digit_char d) = code_of (CHR ''0'')"
    by (simp add: code_of_inject)
  also have "\<dots> \<longleftrightarrow> d = 0"
    using d by (simp add: digit_char_code) (simp add: code_of_def)
  finally show ?thesis .
qed

lemma scan_dec_append:
  "\<forall>c \<in> set ds. c_isdigit c \<Longrightarrow> scan_dec acc (ds @ s) = scan_dec (scan_dec acc ds) s"
  by (induction ds arbitrary: acc) auto

lemma scan_dec_stop: "s = [] \<or> \<not> c_isdigit (hd s) \<Longrightarrow> scan_dec acc s = acc"
  by (cases s) auto

lemma scan_dec_acc:
  "\<forall>c \<in> set ds. c_isdigit c \<Longrightarrow> scan_dec acc ds = acc * 10 ^ length ds + dec_val ds"
proof (induction ds arbitrary: acc)
  case Nil
  then show ?case by simp
next
  case (Cons c cs)
  then have d: "c_isdigit c" and ds: "\<forall>c \<in> set cs. c_isdigit c"
    by simp_all
  have "scan_dec acc (c # cs) = (acc * 10 + digit_val c) * 10 ^ length cs + dec_val cs"
    using d Cons.IH [OF ds, of "acc * 10 + digit_val c"] by simp
  moreover have "dec_val (c # cs) = digit_val c * 10 ^ length cs + dec_val cs"
    using d Cons.IH [OF ds, of "digit_val c"] by simp
  ultimately show ?case
    by (simp add: algebra_simps)
qed

lemma dec_val_bound:
  "\<forall>c \<in> set ds. c_isdigit c \<Longrightarrow> dec_val ds < 10 ^ length ds"
proof (induction ds)
  case Nil
  then show ?case by simp
next
  case (Cons c cs)
  then have d: "c_isdigit c" and ds: "\<forall>c \<in> set cs. c_isdigit c"
    by simp_all
  have "dec_val (c # cs) = digit_val c * 10 ^ length cs + dec_val cs"
    using d scan_dec_acc [OF ds, of "digit_val c"] by simp
  also have "\<dots> < digit_val c * 10 ^ length cs + 10 ^ length cs"
    using Cons.IH [OF ds] by simp
  also have "\<dots> = Suc (digit_val c) * 10 ^ length cs"
    by simp
  also have "\<dots> \<le> 10 * 10 ^ length cs"
    using digit_val_bound [OF d] by (intro mult_right_mono) simp_all
  finally show ?case by simp
qed

lemma atoi_digits:
  assumes "\<forall>c \<in> set ds. c_isdigit c" and "length ds \<le> 9"
  shows "atoi ds = int (dec_val ds)"
proof -
  have "dec_val ds < 10 ^ length ds"
    using assms(1) by (rule dec_val_bound)
  also have "\<dots> \<le> 10 ^ 9"
    using assms(2) by (intro power_increasing) simp_all
  finally have b: "dec_val ds < 2 ^ 31 - 1" by simp
  show ?thesis
  proof (cases ds)
    case Nil
    then show ?thesis by (simp add: atoi_def)
  next
    case (Cons c cs)
    with assms(1) have "c_isdigit c" by simp
    with b Cons show ?thesis by (auto simp: atoi_def Let_def)
  qed
qed

lemma strtoul10_digits:
  assumes "\<forall>c \<in> set ds. c_isdigit c" and "length ds \<le> 9"
  shows "strtoul10 ds = (of_nat (dec_val ds), False)"
proof -
  have "dec_val ds < 10 ^ length ds"
    using assms(1) by (rule dec_val_bound)
  also have "\<dots> \<le> 10 ^ 9"
    using assms(2) by (intro power_increasing) simp_all
  finally have b: "\<not> 2 ^ 32 \<le> dec_val ds" by simp
  show ?thesis
  proof (cases ds)
    case Nil
    then show ?thesis by (simp add: strtoul10_def)
  next
    case (Cons c cs)
    with assms(1) have "c_isdigit c" by simp
    with b Cons show ?thesis by (auto simp: strtoul10_def Let_def)
  qed
qed

lemma show_nat_digits: "c \<in> set (show_nat n) \<Longrightarrow> c_isdigit c"
proof (induction n rule: show_nat.induct)
  case (1 n)
  show ?case
  proof (cases "n < 10")
    case True
    with "1.prems" show ?thesis by (simp add: show_nat.simps [of n])
  next
    case False
    with "1.prems" "1.IH" show ?thesis
      by (auto simp: show_nat.simps [of n])
  qed
qed

lemma show_nat_nonempty [simp]: "show_nat n \<noteq> []"
  by (subst show_nat.simps) simp

lemma dec_val_show_nat [simp]: "dec_val (show_nat n) = n"
proof (induction n rule: show_nat.induct)
  case (1 n)
  show ?case
  proof (cases "n < 10")
    case True
    then show ?thesis by (simp add: show_nat.simps [of n])
  next
    case False
    have ds: "\<forall>c \<in> set (show_nat (n div 10)). c_isdigit c"
      by (auto dest: show_nat_digits)
    have "dec_val (show_nat n) = scan_dec (n div 10) [digit_char (n mod 10)]"
      using False "1.IH" by (simp add: show_nat.simps [of n] scan_dec_append [OF ds])
    also have "\<dots> = n" by simp
    finally show ?thesis .
  qed
qed

lemma hd_show_nat: "hd (show_nat n) = CHR ''0'' \<longleftrightarrow> n = 0"
proof (induction n rule: show_nat.induct)
  case (1 n)
  show ?case
  proof (cases "n < 10")
    case True
    then show ?thesis by (simp add: show_nat.simps [of n] digit_char_eq_0_iff)
  next
    case False
    with "1.IH" show ?thesis
      by (simp add: show_nat.simps [of n] hd_append)
  qed
qed

lemma length_show_nat_pow: "n < 10 ^ Suc k \<Longrightarrow> length (show_nat n) \<le> Suc k"
proof (induction k arbitrary: n)
  case 0
  then show ?case by (simp add: show_nat.simps [of n])
next
  case (Suc k)
  then have "n div 10 < 10 ^ Suc k" by (simp add: less_mult_imp_div_less mult.commute)
  with Suc.IH [of "n div 10"] show ?case by (simp add: show_nat.simps [of n])
qed

lemma atoi_show_nat: "n < 1000000000 \<Longrightarrow> atoi (show_nat n) = int n"
  using length_show_nat_pow [of n 8] by (subst atoi_digits) (auto dest: show_nat_digits)

lemma length_show_nat_le: "n < 1000 \<Longrightarrow> length (show_nat n) \<le> 3"
  by (simp add: show_nat.simps [of n] show_nat.simps [of "n div 10"]
      show_nat.simps [of "n div 10 div 10"])

section \<open>Facts about strings\<close>

lemma takeWhile_word:
  assumes "SPACE \<notin> set w"
  shows "takeWhile (\<lambda>c. c \<noteq> SPACE) w = w" "takeWhile (\<lambda>c. c \<noteq> SPACE) (w @ SPACE # r) = w"
  using assms by (auto simp: takeWhile_eq_all_conv) (subst takeWhile_append2, auto)

lemma strtok_step_shorter:
  assumes "strtok_step d s = Some (t, Some r)"
  shows "length r < length s"
proof -
  define s1 where "s1 = dropWhile (\<lambda>c. c \<in> set d) s"
  define rest where "rest = dropWhile (\<lambda>c. c \<notin> set d) s1"
  have "(if s1 = [] then None
         else Some (takeWhile (\<lambda>c. c \<notin> set d) s1, if rest = [] then None else Some (tl rest))) = Some (t, Some r)"
    using assms unfolding strtok_step_def Let_def s1_def [symmetric] rest_def [symmetric] .
  then have "length r < length rest" by (cases "s1 = []"; cases rest) auto
  also have "\<dots> \<le> length s"
    unfolding s1_def rest_def by (rule order.trans [OF length_dropWhile_le length_dropWhile_le])
  finally show ?thesis .
qed

lemma length_strlcpy: "0 < n \<Longrightarrow> length (strlcpy s n) < n"
  by (simp add: strlcpy_def)

lemma strlcpy_fits: "length s < n \<Longrightarrow> strlcpy s n = s"
  by (simp add: strlcpy_def)

lemma is_cstr_strlcpy [simp]: "is_cstr s \<Longrightarrow> is_cstr (strlcpy s n)"
  by (auto simp: is_cstr_def strlcpy_def dest: in_set_takeD)

lemma strstr_Some: "strstr s t = Some u \<Longrightarrow> \<exists>p. s = p @ u \<and> take (length t) u = t"
proof (induction s t rule: strstr.induct)
  case (1 needle)
  then show ?case by (simp split: if_splits)
next
  case (2 c cs needle)
  show ?case
  proof (cases "take (length needle) (c # cs) = needle")
    case True
    with "2.prems" have "u = c # cs" by simp
    with True have "c # cs = [] @ u \<and> take (length needle) u = needle" by simp
    then show ?thesis by blast
  next
    case False
    with "2.prems" have "strstr cs needle = Some u"
      unfolding strstr.simps by simp
    with "2.IH" [OF False] obtain p where "cs = p @ u" "take (length needle) u = needle"
      by blast
    then have "c # cs = (c # p) @ u \<and> take (length needle) u = needle" by simp
    then show ?thesis by blast
  qed
qed

lemma strstr_prefix [simp]: "strstr (t @ s) t = Some (t @ s)"
proof (cases "t @ s")
  case Nil
  then show ?thesis by simp
next
  case (Cons a l)
  then have "take (length t) (a # l) = t"
    by (metis append_eq_conv_conj)
  with Cons show ?thesis by simp
qed

lemma strtok_step_first:
  assumes "s \<noteq> []" "\<forall>c \<in> set s. c \<notin> set delims" "d \<in> set delims"
  shows "strtok_step delims (s @ d # t) = Some (s, Some t)"
proof -
  have "dropWhile (\<lambda>c. c \<in> set delims) (s @ d # t) = s @ d # t"
    using assms(1,2) by (cases s) auto
  with assms show ?thesis
    by (simp add: strtok_step_def takeWhile_append dropWhile_append Let_def)
qed

lemma strtok_step_last:
  assumes "s \<noteq> []" "\<forall>c \<in> set s. c \<notin> set delims"
  shows "strtok_step delims s = Some (s, None)"
proof -
  have "dropWhile (\<lambda>c. c \<in> set delims) s = s"
    using assms by (cases s) auto
  moreover have "takeWhile (\<lambda>c. c \<notin> set delims) s = s" "dropWhile (\<lambda>c. c \<notin> set delims) s = []"
    using assms(2) by (simp_all add: takeWhile_eq_all_conv)
  ultimately show ?thesis
    using assms(1) by (simp add: strtok_step_def)
qed

section \<open>Small bounded quantifiers\<close>

lemma all_less_3: "(\<forall>i < 3. P i) \<longleftrightarrow> P 0 \<and> P 1 \<and> P (2 :: nat)"
  by (auto simp: less_Suc_eq numeral_3_eq_3 numeral_2_eq_2)

lemma ex_less_3: "(\<exists>i < 3. P i) \<longleftrightarrow> P 0 \<or> P 1 \<or> P (2 :: nat)"
  by (auto simp: less_Suc_eq numeral_3_eq_3 numeral_2_eq_2)

section \<open>Facts about words\<close>

lemma unat_of_nat_small:
  "n < 2 ^ LENGTH('a) \<Longrightarrow> unat (of_nat n :: 'a::len word) = n"
  by (simp add: unat_of_nat)

lemma not_bit_of_small: "(x :: nat) < 2 ^ k \<Longrightarrow> k \<le> n \<Longrightarrow> \<not> bit x n"
proof -
  assume "x < 2 ^ k" and "k \<le> n"
  then have "x < 2 ^ n"
    by (meson less_le_trans one_le_numeral power_increasing)
  then show "\<not> bit x n" by (simp add: bit_iff_odd)
qed

lemma bit_word_of_nat: "bit (of_nat x :: 'a::len word) n \<longleftrightarrow> n < LENGTH('a) \<and> bit x n"
  using bit_word_of_int_iff [where ?'a = 'a, of "int x" n] by (simp add: bit_of_nat_iff_bit)

text \<open>Putting a number below the bits of a shifted one is addition.\<close>

lemma or_push_bit_of_nat:
  assumes "x < 2 ^ k"
  shows "(of_nat x :: 'a::len word) OR push_bit k (of_nat y) = of_nat (y * 2 ^ k + x)"
proof -
  have "(of_nat x :: 'a word) AND push_bit k (of_nat y) = 0"
  proof (rule bit_word_eqI)
    fix n
    assume "n < LENGTH('a)"
    show "bit ((of_nat x :: 'a word) AND push_bit k (of_nat y)) n \<longleftrightarrow> bit (0 :: 'a word) n"
      using not_bit_of_small [OF assms, of n]
      by (auto simp: bit_and_iff bit_push_bit_iff bit_word_of_nat)
  qed
  then have "(of_nat x :: 'a word) OR push_bit k (of_nat y) = of_nat x + push_bit k (of_nat y)"
    by (simp add: disjunctive_add_eq_or)
  also have "\<dots> = of_nat (y * 2 ^ k + x)"
    by (simp add: push_bit_eq_mult)
  finally show ?thesis .
qed

lemma unat_and_low_mask: "unat (w AND mask k :: 'a::len word) = unat w mod 2 ^ k"
proof -
  have "unat (w AND mask k) = unat (take_bit k w)"
    by (simp add: take_bit_eq_mask)
  also have "\<dots> = take_bit k (unat w)"
    by (simp add: unsigned_take_bit_eq)
  finally show ?thesis by (simp add: take_bit_eq_mod)
qed

end
