(* ===== verification/Inet_Text.thy ===== *)
theory Inet_Text
  imports Ap_Prelude
begin

text \<open>
  IPv4 addresses in text: \<^verbatim>\<open>inet_aton\<close> and \<^verbatim>\<open>inet_addr\<close> of
  \<^verbatim>\<open>packages/net/common/current/src/inet_addr.c\<close> and \<^verbatim>\<open>inet_ntoa\<close> of \<^verbatim>\<open>inet_ntoa.c\<close>.

  An address is a 32-bit word in host order. The target is big-endian MIPS, so \<^verbatim>\<open>htonl\<close> is the
  identity and the first byte of \<^verbatim>\<open>s_addr\<close> in memory is its most significant one; the masks the
  configuration code applies to \<^verbatim>\<open>s_addr\<close> only make sense on such a target.
\<close>

section \<open>From text\<close>

text \<open>\<^verbatim>\<open>isascii\<close> as the file redefines it.\<close>

definition aton_isascii :: "char \<Rightarrow> bool" where
  "aton_isascii c \<longleftrightarrow> 0x20 \<le> code_of c \<and> code_of c \<le> 0x7F"

definition hex_val :: "char \<Rightarrow> u32" where
  "hex_val c = of_nat (code_of c + 10 - (if c_islower c then 97 else 65))"

text \<open>The inner loop: digits of one part, in the base its prefix selected. A part in octal accepts
  the digits 8 and 9 too.\<close>

fun aton_digits :: "u32 \<Rightarrow> u32 \<Rightarrow> string \<Rightarrow> u32 \<times> string" where
  "aton_digits base val [] = (val, [])"
| "aton_digits base val (c # cs) =
     (if aton_isascii c \<and> c_isdigit c
      then aton_digits base (val * base + of_nat (digit_val c)) cs
      else if base = 16 \<and> aton_isascii c \<and> c_isxdigit c
      then aton_digits base (push_bit 4 val OR hex_val c) cs
      else (val, c # cs))"

definition aton_number :: "string \<Rightarrow> (u32 \<times> string) option" where
  "aton_number s =
     (case s of
        [] \<Rightarrow> None
      | c # cs \<Rightarrow>
          if \<not> c_isdigit c then None
          else if c = CHR ''0'' then
            (if cs \<noteq> [] \<and> (hd cs = CHR ''x'' \<or> hd cs = CHR ''X'')
             then Some (aton_digits 16 0 (tl cs))
             else Some (aton_digits 8 0 cs))
          else Some (aton_digits 10 0 s))"

lemma aton_digits_length: "length (snd (aton_digits base val s)) \<le> length s"
  by (induction base val s rule: aton_digits.induct) auto

lemma aton_number_length: "aton_number s = Some (v, r) \<Longrightarrow> length r < length s"
proof -
  assume a: "aton_number s = Some (v, r)"
  then obtain c cs where s: "s = c # cs" and d: "c_isdigit c"
    by (auto simp: aton_number_def split: list.splits if_splits)
  have first: "length (snd (aton_digits 10 0 (c # cs))) \<le> length cs"
  proof -
    have "aton_isascii c"
      using d by (simp add: aton_isascii_def c_isdigit_def)
    with d show ?thesis
      using aton_digits_length by simp
  qed
  have "length (snd (aton_digits 16 0 (tl cs))) \<le> length cs"
    using aton_digits_length [of 16 0 "tl cs"] by simp
  with a s d first aton_digits_length [of 8 0 cs] show ?thesis
    by (auto simp: aton_number_def split: if_splits)
qed

text \<open>The outer loop: the parts before the last one, which is kept apart as \<^verbatim>\<open>val\<close> is in the code.
  A fourth dot ends it with failure.\<close>

function aton_parts :: "u32 list \<Rightarrow> string \<Rightarrow> (u32 list \<times> u32 \<times> string) option" where
  "aton_parts parts s =
     (case aton_number s of
        None \<Rightarrow> None
      | Some (val, rest) \<Rightarrow>
          if rest \<noteq> [] \<and> hd rest = CHR ''.'' then
            (if 3 \<le> length parts then None else aton_parts (parts @ [val]) (tl rest))
          else Some (parts, val, rest))"
  by pat_completeness auto
termination
  by (relation "measure (\<lambda>(parts, s). length s)")
    (auto dest!: aton_number_length simp del: length_tl, metis length_tl less_imp_diff_less)

declare aton_parts.simps [simp del]

definition inet_aton :: "string \<Rightarrow> u32 option" where
  "inet_aton cp =
     (case aton_parts [] cp of
        None \<Rightarrow> None
      | Some (parts, val, rest) \<Rightarrow>
          if rest \<noteq> [] \<and> (\<not> aton_isascii (hd rest) \<or> \<not> c_isspace (hd rest)) then None
          else (case parts of
              [] \<Rightarrow> Some val
            | [a] \<Rightarrow> if val > 0xffffff \<or> a > 0xff then None else Some (val OR push_bit 24 a)
            | [a, b] \<Rightarrow>
                if val > 0xffff \<or> a > 0xff \<or> b > 0xff then None
                else Some (val OR (push_bit 24 a OR push_bit 16 b))
            | [a, b, c] \<Rightarrow>
                if val > 0xff \<or> a > 0xff \<or> b > 0xff \<or> c > 0xff then None
                else Some (val OR (push_bit 24 a OR push_bit 16 b OR push_bit 8 c))
            | _ \<Rightarrow> Some val))"

definition INADDR_NONE :: u32 where
  "INADDR_NONE = 0xffffffff"

definition inet_addr :: "string \<Rightarrow> u32" where
  "inet_addr cp = (case inet_aton cp of Some v \<Rightarrow> v | None \<Rightarrow> INADDR_NONE)"

section \<open>To text\<close>

text \<open>The byte of an address that \<^verbatim>\<open>((unsigned char *)&ina)[i]\<close> reads.\<close>

definition addr_byte :: "u32 \<Rightarrow> nat \<Rightarrow> nat" where
  "addr_byte w i = unat (drop_bit (24 - 8 * i) w AND 0xff)"

definition inet_ntoa :: "u32 \<Rightarrow> string" where
  "inet_ntoa w =
     show_nat (addr_byte w 0) @ CHR ''.'' # show_nat (addr_byte w 1) @ CHR ''.'' #
     show_nat (addr_byte w 2) @ CHR ''.'' # show_nat (addr_byte w 3)"

text \<open>An address from its four octets.\<close>

definition quad :: "nat \<Rightarrow> nat \<Rightarrow> nat \<Rightarrow> nat \<Rightarrow> u32" where
  "quad a b c d = of_nat (a * 2 ^ 24 + b * 2 ^ 16 + c * 2 ^ 8 + d)"

section \<open>Reading digits\<close>

text \<open>The digits of a part in a base up to ten, without wrap-around.\<close>

fun scan_base :: "nat \<Rightarrow> nat \<Rightarrow> string \<Rightarrow> nat" where
  "scan_base b acc [] = acc"
| "scan_base b acc (c # cs) = (if c_isdigit c then scan_base b (acc * b + digit_val c) cs else acc)"

lemma isdigit_isascii [simp]: "c_isdigit c \<Longrightarrow> aton_isascii c"
  by (simp add: aton_isascii_def c_isdigit_def)

lemma scan_base_10: "scan_base 10 acc s = scan_dec acc s"
  by (induction s arbitrary: acc) auto

lemma aton_digits_base:
  assumes "base \<le> 10"
    and "\<forall>c \<in> set ds. c_isdigit c" and "rest = [] \<or> \<not> c_isdigit (hd rest)"
  shows "aton_digits (of_nat base) (of_nat acc) (ds @ rest)
     = (of_nat (scan_base base acc ds), rest)"
  using assms(2)
proof (induction ds arbitrary: acc)
  case Nil
  have "(of_nat base :: u32) \<noteq> 16"
    using assms(1) by (auto dest!: arg_cong [where f = unat] simp: unat_of_nat)
  with assms(3) show ?case
    by (cases rest) auto
next
  case (Cons c cs)
  then show ?case
    by (simp flip: of_nat_mult of_nat_add)
qed

lemma aton_number_digits:
  assumes "ds \<noteq> []" and "\<forall>c \<in> set ds. c_isdigit c"
    and "rest = [] \<or> \<not> c_isdigit (hd rest)"
    and "hd ds = CHR ''0'' \<Longrightarrow> length ds = 1 \<Longrightarrow> rest = [] \<or> (hd rest \<noteq> CHR ''x'' \<and> hd rest \<noteq> CHR ''X'')"
  shows "aton_number (ds @ rest)
     = Some (of_nat (scan_base (if hd ds = CHR ''0'' then 8 else 10) 0 ds), rest)"
proof -
  obtain c cs where ds: "ds = c # cs"
    using assms(1) by (cases ds) auto
  have c: "c_isdigit c" and cs: "\<forall>c \<in> set cs. c_isdigit c"
    using assms(2) ds by auto
  show ?thesis
  proof (cases "c = CHR ''0''")
    case True
    have "\<not> (cs @ rest \<noteq> [] \<and> (hd (cs @ rest) = CHR ''x'' \<or> hd (cs @ rest) = CHR ''X''))"
    proof (cases cs)
      case Nil
      with True ds assms(4) show ?thesis by auto
    next
      case (Cons a as)
      with cs have "c_isdigit a" by simp
      with Cons show ?thesis by (auto dest: isdigit_not_x)
    qed
    moreover have "scan_base 8 0 ds = scan_base 8 0 cs"
      using True ds c by (simp add: digit_val_def) (simp add: code_of_def)
    moreover have "aton_digits 8 0 (cs @ rest) = (of_nat (scan_base 8 0 cs), rest)"
      using aton_digits_base [OF _ cs assms(3), of 8 0] by simp
    moreover from calculation have "aton_number (ds @ rest) = Some (aton_digits 8 0 (cs @ rest))"
      using True ds c by (simp only: aton_number_def append_Cons list.case if_False if_True
          not_True_eq_False simp_thms)
    ultimately show ?thesis
      using True ds by simp
  next
    case False
    have "aton_digits 10 0 (ds @ rest) = (of_nat (scan_base 10 0 ds), rest)"
      using aton_digits_base [OF _ assms(2,3), of 10 0] by simp
    with False ds c show ?thesis
      by (simp add: aton_number_def)
  qed
qed

lemma aton_parts_dot:
  assumes "ds \<noteq> []" and "\<forall>c \<in> set ds. c_isdigit c" and "length parts < 3"
  shows "aton_parts parts (ds @ CHR ''.'' # s)
     = aton_parts (parts @ [of_nat (scan_base (if hd ds = CHR ''0'' then 8 else 10) 0 ds)]) s"
  using assms
  by (subst aton_parts.simps) (simp add: aton_number_digits)

lemma aton_parts_end:
  assumes "ds \<noteq> []" and "\<forall>c \<in> set ds. c_isdigit c"
  shows "aton_parts parts ds
     = Some (parts, of_nat (scan_base (if hd ds = CHR ''0'' then 8 else 10) 0 ds), [])"
  using aton_number_digits [OF assms, of "[]"]
  by (subst aton_parts.simps) simp

lemmas aton_parts_run = aton_parts_dot aton_parts_end

section \<open>Octets\<close>

lemma addr_byte_div: "addr_byte w i = unat w div 2 ^ (24 - 8 * i) mod 256"
proof -
  have "(0xff :: u32) = mask 8"
    by (simp add: mask_eq_exp_minus_1)
  then have "addr_byte w i = unat (drop_bit (24 - 8 * i) w) mod 2 ^ 8"
    by (simp only: addr_byte_def unat_and_low_mask)
  then show ?thesis
    by (simp only: unat_drop_bit_eq) (simp add: drop_bit_eq_div)
qed

lemma addr_byte_less [simp]: "addr_byte w i < 256"
  by (simp add: addr_byte_div)

lemma unat_quad:
  assumes "a < 256" "b < 256" "c < 256" "d < 256"
  shows "unat (quad a b c d) = a * 2 ^ 24 + b * 2 ^ 16 + c * 2 ^ 8 + d"
  unfolding quad_def using assms by (intro unat_of_nat_small) simp

lemma byte_div_mod:
  assumes "b < (256 :: nat)"
  shows "(a * 256 + b) div 256 = a" "(a * 256 + b) mod 256 = b"
  using assms by simp_all

lemma octets_horner:
  "((a * 256 + b) * 256 + c) * 256 + (d :: nat) = a * 2 ^ 24 + b * 2 ^ 16 + c * 2 ^ 8 + d"
  by simp

lemma addr_byte_steps:
  "addr_byte w 0 = unat w div 256 div 256 div 256 mod 256"
  "addr_byte w 1 = unat w div 256 div 256 mod 256"
  "addr_byte w 2 = unat w div 256 mod 256"
  "addr_byte w 3 = unat w mod 256"
  by (simp_all add: addr_byte_div flip: div_mult2_eq)

lemma addr_byte_quad:
  assumes "a < 256" "b < 256" "c < 256" "d < 256"
  shows "addr_byte (quad a b c d) 0 = a" "addr_byte (quad a b c d) 1 = b"
    "addr_byte (quad a b c d) 2 = c" "addr_byte (quad a b c d) 3 = d"
proof -
  have n: "unat (quad a b c d) = ((a * 256 + b) * 256 + c) * 256 + d"
    using assms by (simp add: unat_quad)
  show "addr_byte (quad a b c d) 0 = a" "addr_byte (quad a b c d) 1 = b"
    "addr_byte (quad a b c d) 2 = c" "addr_byte (quad a b c d) 3 = d"
    unfolding addr_byte_steps n by (simp_all only: byte_div_mod assms mod_less)
qed

lemma quad_addr_byte: "quad (addr_byte w 0) (addr_byte w 1) (addr_byte w 2) (addr_byte w 3) = w"
proof -
  define m where "m = unat w"
  have "m < 2 ^ 32"
    using unsigned_less [of w] by (simp add: m_def)
  then have "m div 256 div 256 div 256 < 256"
    by (simp flip: div_mult2_eq)
  then have "addr_byte w 0 * 2 ^ 24 + addr_byte w 1 * 2 ^ 16 + addr_byte w 2 * 2 ^ 8 + addr_byte w 3
      = ((m div 256 div 256 div 256 * 256 + m div 256 div 256 mod 256) * 256 + m div 256 mod 256) * 256
        + m mod 256"
    unfolding addr_byte_steps m_def [symmetric] octets_horner by (simp only: mod_less)
  also have "\<dots> = m"
    by (simp only: div_mult_mod_eq)
  finally show ?thesis
    by (simp add: quad_def m_def)
qed

lemma or_octets:
  assumes "a < 256" "b < 256" "c < 256" "d < 256"
  shows "of_nat d OR (push_bit 24 (of_nat a) OR push_bit 16 (of_nat b) OR push_bit 8 (of_nat c))
     = quad a b c d"
proof -
  have "of_nat d OR (push_bit 24 (of_nat a) OR push_bit 16 (of_nat b) OR push_bit 8 (of_nat c))
     = ((of_nat d OR push_bit 8 (of_nat c)) OR push_bit 16 (of_nat b)) OR push_bit 24 (of_nat a :: u32)"
    by (simp only: ac_simps)
  also have "of_nat d OR push_bit 8 (of_nat c) = (of_nat (c * 2 ^ 8 + d) :: u32)"
    using assms by (intro or_push_bit_of_nat) simp
  also have "of_nat (c * 2 ^ 8 + d) OR push_bit 16 (of_nat b)
      = (of_nat (b * 2 ^ 16 + (c * 2 ^ 8 + d)) :: u32)"
    using assms by (intro or_push_bit_of_nat) simp
  also have "of_nat (b * 2 ^ 16 + (c * 2 ^ 8 + d)) OR push_bit 24 (of_nat a)
      = (of_nat (a * 2 ^ 24 + (b * 2 ^ 16 + (c * 2 ^ 8 + d))) :: u32)"
    using assms by (intro or_push_bit_of_nat) simp
  finally show ?thesis
    by (simp add: quad_def add.assoc)
qed

text \<open>Bitwise operations on addresses work octet by octet.\<close>

lemma byte_bit_high: "a < (256 :: nat) \<Longrightarrow> bit a n \<Longrightarrow> n < 8"
  using not_bit_of_small [of a 8 n] by (force simp: not_le)

lemma bit_quad:
  assumes "a < 256" "b < 256" "c < 256" "d < 256"
  shows "bit (quad a b c d) n \<longleftrightarrow>
     (if n < 8 then bit d n else if n < 16 then bit c (n - 8)
      else if n < 24 then bit b (n - 16) else n < 32 \<and> bit a (n - 24))"
  using assms
  by (auto simp flip: or_octets simp: bit_or_iff bit_push_bit_iff bit_word_of_nat dest: byte_bit_high)

lemma byte_bitop:
  assumes "a < 256" "b < (256 :: nat)"
  shows "a AND b < 256" "a OR b < 256"
proof -
  have "take_bit 8 a = a" "take_bit 8 b = b"
    using assms by (simp_all add: take_bit_nat_eq_self_iff)
  then have "take_bit 8 (a AND b) = a AND b" "take_bit 8 (a OR b) = a OR b"
    by (simp_all only: take_bit_and take_bit_or)
  then show "a AND b < 256" "a OR b < 256"
    by (simp_all only: take_bit_nat_eq_self_iff) simp_all
qed

lemma quad_and:
  assumes "a < 256" "b < 256" "c < 256" "d < 256" "a' < 256" "b' < 256" "c' < 256" "d' < 256"
  shows "quad a b c d AND quad a' b' c' d' = quad (a AND a') (b AND b') (c AND c') (d AND d')"
  using assms by (intro bit_word_eqI) (simp add: bit_and_iff bit_quad byte_bitop)

lemma quad_or:
  assumes "a < 256" "b < 256" "c < 256" "d < 256" "a' < 256" "b' < 256" "c' < 256" "d' < 256"
  shows "quad a b c d OR quad a' b' c' d' = quad (a OR a') (b OR b') (c OR c') (d OR d')"
  using assms by (intro bit_word_eqI) (simp add: bit_or_iff bit_quad byte_bitop)

lemma byte_and_255: "a < 256 \<Longrightarrow> a AND 255 = (a :: nat)"
proof -
  assume "a < 256"
  then have "take_bit 8 a = a" by (simp add: take_bit_nat_eq_self_iff)
  moreover have "take_bit 8 a = a AND 255" by (simp add: take_bit_eq_mask mask_eq_exp_minus_1)
  ultimately show ?thesis by simp
qed

lemma quad_masks: "0xFF000000 = quad 255 0 0 0" "0x00FF0000 = quad 0 255 0 0"
 "0x0000FF00 = quad 0 0 255 0" "0x000000FF = quad 0 0 0 255" "0xFFFF0000 = quad 255 255 0 0"
 "0xFFFF00FF = quad 255 255 0 255" "0xFF0000FF = quad 255 0 0 255" "0xFFFFFF00 = quad 255 255 255 0"
 "0x0000FFFF = quad 0 0 255 255" "0xFF00FFFF = quad 255 0 255 255" 
  by (simp_all add: quad_def)

lemma drop_bit_quad: assumes "a < 256"
  shows "drop_bit 8 (quad 0 0 a 0) = of_nat a" "drop_bit 16 (quad 0 a 0 0) = of_nat a" "drop_bit 24 (quad a 0 0 0) = of_nat a"
proof -
  have "unat (of_nat a :: u32) = a"
    using assms by (intro unat_of_nat_small) simp
  with assms show "drop_bit 8 (quad 0 0 a 0) = of_nat a" "drop_bit 16 (quad 0 a 0 0) = of_nat a"
    "drop_bit 24 (quad a 0 0 0) = of_nat a"
    by (simp_all only: word_unat_eq_iff unat_drop_bit_eq) (simp_all add: unat_quad drop_bit_eq_div)
qed


lemma is_byte_top: "a < 256 \<Longrightarrow> (of_nat a = (0xFF::u32) \<or> of_nat a = (0xFE::u32)) \<longleftrightarrow> 254 \<le> a"
proof -
  assume a: "a < 256"
  then have "unat (of_nat a :: u32) = a"
    by (intro unat_of_nat_small) simp
  then have "(of_nat a = (0xFF::u32) \<or> of_nat a = (0xFE::u32)) \<longleftrightarrow> a = 255 \<or> a = 254"
    by (simp add: word_unat_eq_iff)
  with a show ?thesis by auto
qed

lemma quad_0_0_0: "quad 0 0 0 d = of_nat d" by (simp add: quad_def)

section \<open>Dotted quads\<close>

text \<open>The text of four parts joined with dots, and what \<^verbatim>\<open>inet_aton\<close> makes of such a text: a part
  that starts with \<^verbatim>\<open>0\<close> is read in base 8.\<close>

definition dotted :: "string \<Rightarrow> string \<Rightarrow> string \<Rightarrow> string \<Rightarrow> string" where
  "dotted a b c d = a @ CHR ''.'' # b @ CHR ''.'' # c @ CHR ''.'' # d"

definition aton_part :: "string \<Rightarrow> nat" where
  "aton_part ds = scan_base (if hd ds = CHR ''0'' then 8 else 10) 0 ds"

definition all_digits :: "string \<Rightarrow> bool" where
  "all_digits ds \<longleftrightarrow> ds \<noteq> [] \<and> (\<forall>c \<in> set ds. c_isdigit c)"

lemma digits_dot_inject:
  assumes "\<forall>c \<in> set a. c_isdigit c" "\<forall>c \<in> set b. c_isdigit c"
  shows "a @ CHR ''.'' # s = b @ CHR ''.'' # t \<longleftrightarrow> a = b \<and> s = t"
proof
  assume eq: "a @ CHR ''.'' # s = b @ CHR ''.'' # t"
  have "takeWhile c_isdigit (a @ CHR ''.'' # s) = a" "takeWhile c_isdigit (b @ CHR ''.'' # t) = b"
    using assms by (simp_all add: takeWhile_append)
  with eq have "a = b" by simp
  with eq show "a = b \<and> s = t" by simp
qed simp

lemma dotted_inject:
  assumes "all_digits a" "all_digits b" "all_digits c" "all_digits a'" "all_digits b'" "all_digits c'"
  shows "dotted a b c d = dotted a' b' c' d' \<longleftrightarrow> a = a' \<and> b = b' \<and> c = c' \<and> d = d'"
  using assms by (simp add: dotted_def all_digits_def digits_dot_inject)

lemma u32_le_255: "n < 2 ^ 32 \<Longrightarrow> (of_nat n :: u32) > 0xff \<longleftrightarrow> 255 < n"
  by (simp add: word_less_nat_alt unat_of_nat)

lemma inet_aton_dotted:
  assumes "all_digits a" "all_digits b" "all_digits c" "all_digits d"
    and "aton_part a < 256" "aton_part b < 256" "aton_part c < 256" "aton_part d < 256"
  shows "inet_aton (dotted a b c d)
     = Some (quad (aton_part a) (aton_part b) (aton_part c) (aton_part d))"
proof -
  have "aton_parts [] (dotted a b c d)
      = Some ([of_nat (aton_part a), of_nat (aton_part b), of_nat (aton_part c)],
          of_nat (aton_part d), [])"
    using assms(1-4) unfolding dotted_def all_digits_def aton_part_def
    by (simp add: aton_parts_run)
  then show ?thesis
    using assms(5-8)
    by (simp add: inet_aton_def u32_le_255 or_octets)
qed

lemma inet_ntoa_dotted:
  "inet_ntoa w = dotted (show_nat (addr_byte w 0)) (show_nat (addr_byte w 1))
     (show_nat (addr_byte w 2)) (show_nat (addr_byte w 3))"
  by (simp add: inet_ntoa_def dotted_def)

lemma all_digits_show_nat [simp]: "all_digits (show_nat n)"
  by (auto simp: all_digits_def dest: show_nat_digits)

lemma aton_part_show_nat [simp]: "aton_part (show_nat n) = n"
proof (cases "n = 0")
  case True
  then show ?thesis
    by (simp add: aton_part_def show_nat.simps [of 0])
next
  case False
  then show ?thesis
    by (simp add: aton_part_def hd_show_nat scan_base_10)
qed

text \<open>The round trip, and that printing is injective.\<close>

lemma inet_aton_inet_ntoa: "inet_aton (inet_ntoa w) = Some w"
  unfolding inet_ntoa_dotted
  by (subst inet_aton_dotted) (simp_all add: quad_addr_byte [unfolded One_nat_def])

lemma inet_ntoa_inject: "inet_ntoa v = inet_ntoa w \<longleftrightarrow> v = w"
  by (metis inet_aton_inet_ntoa option.inject)

lemma length_inet_ntoa: "length (inet_ntoa w) < 16"
proof -
  have "\<And>i. length (show_nat (addr_byte w i)) \<le> 3"
    by (rule length_show_nat_le) (rule less_trans [OF addr_byte_less], simp)
  from this [of 0] this [of 1] this [of 2] this [of 3] show ?thesis
    by (simp add: inet_ntoa_def)
qed

end
