(* ===== verification/Ip_Checks.thy ===== *)
theory Ip_Checks
  imports Inet_Text
begin

text \<open>
  The address checks of \<^verbatim>\<open>packages/net/common/current/src/ecosap_nw.c\<close> (and \<^verbatim>\<open>isvalidTime\<close> of the
  shell), which every configuration command runs on its arguments before the configuration is
  written: the dotted-quad scanners \<^verbatim>\<open>isvalidip\<close> and \<^verbatim>\<open>isvalid_subnetip\<close>, the classful helpers behind
  \<^verbatim>\<open>isvalidrange\<close>, the mask test, the broadcast address, and the choice of another LAN subnet
  (\<^verbatim>\<open>change_octal\<close>).

  Array accesses outside a buffer and reads of uninitialised bytes are faults. Where the source
  reads stack bytes that it did not write, they are the argument \<open>junk\<close>.
\<close>

section \<open>Dotted quads\<close>

text \<open>
  The loop that \<^verbatim>\<open>isvalidip\<close> and \<^verbatim>\<open>isvalid_subnetip\<close> share. \<open>temp\<close> is the buffer (\<open>None\<close> before its
  first write), \<open>digit\<close> its index, \<open>arr\<close> the part of \<^verbatim>\<open>addr_arr[8]\<close> that has been written.
  \<open>Inr None\<close> is \<^verbatim>\<open>return false\<close>. \<open>conv\<close> is the conversion of one octet: \<^verbatim>\<open>atoi\<close> in one function,
  \<^verbatim>\<open>strtoul\<close> with its range check in the other.
\<close>

fun octet_loop ::
  "(string \<Rightarrow> int option) \<Rightarrow> string option \<Rightarrow> nat \<Rightarrow> int list \<Rightarrow> nat \<Rightarrow> string
     \<Rightarrow> (string option \<times> int list \<times> nat) option cres" where
  "octet_loop conv temp digit arr dots [] = Inr (Some (temp, arr, dots))"
| "octet_loop conv temp digit arr dots (c # cs) =
     (if c_isdigit c \<and> digit < 4
      then octet_loop conv (Some (take digit (case temp of None \<Rightarrow> [] | Some t \<Rightarrow> t) @ [c]))
             (digit + 1) arr dots cs
      else if digit = 4 then Inr None
      else if c = CHR ''.'' \<and> cs \<noteq> [] then
        (if digit = 0 then Inr None
         else (case temp of
             None \<Rightarrow> Inl UninitRead
           | Some t \<Rightarrow>
               (case conv t of
                  None \<Rightarrow> Inr None
                | Some v \<Rightarrow>
                    guard_c (length arr < 8) OutOfBounds
                      (octet_loop conv temp 0 (arr @ [v]) (dots + 1) cs))))
      else Inr None)"

text \<open>What follows the loop: the last octet is stored, then the counts and the ranges are tested.\<close>

definition octet_end :: "string \<Rightarrow> int list \<Rightarrow> nat \<Rightarrow> int list option" where
  "octet_end addr arr dots =
     (if length arr \<noteq> 4 \<or> dots > 3 then None
      else if \<exists>x \<in> set arr. x < 0 \<or> x > 255 then None
      else if addr = ''0.0.0.0'' \<or> addr = ''255.255.255.255'' then None
      else Some arr)"

definition octet_scan :: "(string \<Rightarrow> int option) \<Rightarrow> string \<Rightarrow> int list option cres" where
  "octet_scan conv addr =
     bind_ok (octet_loop conv None 0 [] 0 addr) (\<lambda>r.
       case r of
         None \<Rightarrow> Inr None
       | Some (None, _, _) \<Rightarrow> Inl UninitRead
       | Some (Some t, arr, dots) \<Rightarrow>
           (case conv t of
              None \<Rightarrow> Inr None
            | Some v \<Rightarrow>
                guard_c (length arr < 8) OutOfBounds (Inr (octet_end addr (arr @ [v]) dots))))"

definition conv_atoi :: "string \<Rightarrow> int option" where
  "conv_atoi t = Some (atoi t)"

definition conv_strtoul :: "string \<Rightarrow> int option" where
  "conv_strtoul t = (case strtoul10 t of (v, erange) \<Rightarrow>
     if v = 0xffffffff \<and> erange then None else Some (uint v))"

definition isvalidip :: "string \<Rightarrow> bool cres" where
  "isvalidip addr =
     bind_ok (octet_scan conv_atoi addr) (\<lambda>r. Inr (case r of
         None \<Rightarrow> False
       | Some a \<Rightarrow> \<not> (a ! 0 = 0 \<or> a ! 0 = 127 \<or> a ! 3 = 255 \<or> a ! 3 = 0)))"

definition isvalid_subnetip :: "string \<Rightarrow> bool cres" where
  "isvalid_subnetip addr =
     bind_ok (octet_scan conv_strtoul addr) (\<lambda>r. Inr (case r of
         None \<Rightarrow> False
       | Some a \<Rightarrow> \<not> (a ! 0 = 0 \<or> a ! 3 = 255)))"

section \<open>Digits, units and ranges\<close>

fun isvalid_digit :: "string \<Rightarrow> bool" where
  "isvalid_digit [] = True"
| "isvalid_digit (c # cs) = (if c_isdigit c then isvalid_digit cs else False)"

text \<open>The backwards loop has no lower bound: a name of digits only reads the byte before it.\<close>

definition get_unit :: "string \<Rightarrow> int cres" where
  "get_unit interface_name =
     (let digits = length (takeWhile c_isdigit (rev interface_name)) in
      if digits = length interface_name then Inl OutOfBounds
      else Inr (atoi (drop (length interface_name - digits) interface_name)))"

definition is_valid_mtu :: "u16 \<Rightarrow> bool" where
  "is_valid_mtu c \<longleftrightarrow> c \<ge> 1340 \<and> c \<le> 1492"

definition isvalidTime :: "u32 \<Rightarrow> bool" where
  "isvalidTime x \<longleftrightarrow> x < 400000 \<and> x > 0"

section \<open>Classful addresses\<close>

datatype ip_class = ClassA | ClassB | ClassC | ClassD | ClassE | ClassX

text \<open>
  \<^verbatim>\<open>findClass\<close> copies the first octet into \<^verbatim>\<open>temp[4]\<close> and never terminates it: \<^verbatim>\<open>strtoul\<close> reads on into
  \<open>junk\<close>, the bytes that follow. A string with no dot is copied past its end.
\<close>

definition findClass :: "string \<Rightarrow> string \<Rightarrow> ip_class cres" where
  "findClass junk str =
     (let oct = takeWhile (\<lambda>c. c \<noteq> CHR ''.'') str in
      if oct = str \<or> length oct > 4 then Inl OutOfBounds
      else (case strtoul10 (oct @ junk) of (v, erange) \<Rightarrow>
        let ip = sint v in
        Inr (if v = 0xffffffff \<and> erange then ClassX
             else if 1 \<le> ip \<and> ip \<le> 126 then ClassA
             else if 128 \<le> ip \<and> ip \<le> 191 then ClassB
             else if 192 \<le> ip \<and> ip \<le> 223 then ClassC
             else if 224 \<le> ip \<and> ip \<le> 239 then ClassD
             else ClassE)))"

record nw_host =
  network :: "char list"
  host :: "char list"

text \<open>A 16-byte field whose first 12 bytes were zeroed and into which \<open>s\<close> was then copied without
  its NUL; \<open>junk\<close> is what the last four bytes held.\<close>

definition fill_field :: "string \<Rightarrow> char list \<Rightarrow> char list cres" where
  "fill_field s junk =
     (if length s > 16 then Inl OutOfBounds
      else Inr (s @ drop (length s) (replicate 12 NUL @ take 4 junk)))"

text \<open>The copy loop of classes B and C: a character is stored before the next one is tested, until
  \<open>n\<close> dots have been seen. It yields the network part and the rest from the last dot on.\<close>

fun copy_to_dot :: "nat \<Rightarrow> string \<Rightarrow> string \<Rightarrow> (string \<times> string) cres" where
  "copy_to_dot n acc [] = (if n = 0 then Inr (acc, []) else Inl OutOfBounds)"
| "copy_to_dot n acc (c # cs) =
     (if n = 0 then Inr (acc, c # cs)
      else copy_to_dot (if cs \<noteq> [] \<and> hd cs = CHR ''.'' then n - 1 else n) (acc @ [c]) cs)"

definition separate_parts :: "string \<Rightarrow> ip_class \<Rightarrow> (string \<times> string) cres" where
  "separate_parts ip_addr ipClass =
     (case ipClass of
        ClassA \<Rightarrow>
          (let net = takeWhile (\<lambda>c. c \<noteq> CHR ''.'') ip_addr in
           if net = ip_addr then Inl OutOfBounds
           else Inr (net, drop (length net + 1) ip_addr))
      | ClassB \<Rightarrow> bind_ok (copy_to_dot 2 [] ip_addr) (\<lambda>(net, rest). Inr (net, drop 1 rest))
      | ClassC \<Rightarrow> bind_ok (copy_to_dot 3 [] ip_addr) (\<lambda>(net, rest). Inr (net, drop 1 rest))
      | _ \<Rightarrow> Inr ([], []))"

definition separate :: "nw_host \<Rightarrow> string \<Rightarrow> ip_class \<Rightarrow> nw_host cres" where
  "separate var ip_addr ipClass =
     bind_ok (separate_parts ip_addr ipClass) (\<lambda>(net, hst).
     bind_ok (fill_field net (drop 12 (network var))) (\<lambda>n.
     bind_ok (fill_field hst (drop 12 (host var))) (\<lambda>h.
     Inr \<lparr> network = n, host = h \<rparr>)))"

definition remove_dots :: "string \<Rightarrow> u32" where
  "remove_dots str = word_of_int (atoi (map (\<lambda>c. if c = CHR ''.'' then CHR ''0'' else c) str))"

text \<open>\<open>junk1\<close>, \<open>junk2\<close>: what the two calls of \<^verbatim>\<open>findClass\<close> read after the octet; \<open>var1\<close>, \<open>var2\<close>: the
  local structures before they are filled.\<close>

definition isvalidrange ::
  "string \<Rightarrow> string \<Rightarrow> nw_host \<Rightarrow> nw_host \<Rightarrow> string \<Rightarrow> string \<Rightarrow> bool cres" where
  "isvalidrange junk1 junk2 var1 var2 ip_str1 ip_str2 =
     bind_ok (findClass junk1 ip_str1) (\<lambda>ipClass1.
     bind_ok (findClass junk2 ip_str2) (\<lambda>ipClass2.
     if ipClass1 = ipClass2 then
       bind_ok (separate var1 ip_str1 ipClass1) (\<lambda>v1.
       bind_ok (separate var2 ip_str2 ipClass1) (\<lambda>v2.
       if ipClass1 \<in> {ClassA, ClassB, ClassC} then
         bind_ok (cstr_of_buf (network v1)) (\<lambda>n1.
         bind_ok (cstr_of_buf (network v2)) (\<lambda>n2.
         bind_ok (cstr_of_buf (host v1)) (\<lambda>h1.
         bind_ok (cstr_of_buf (host v2)) (\<lambda>h2.
         if ipClass1 = ClassC then Inr (n1 = n2 \<and> atoi h1 \<le> atoi h2)
         else Inr (n1 = n2 \<and> remove_dots h1 \<le> remove_dots h2)))))
       else Inr False))
     else Inr False))"

section \<open>Masks and broadcast addresses\<close>

definition isvalid_mask :: "string \<Rightarrow> bool" where
  "isvalid_mask netmask =
     (case inet_aton netmask of
        None \<Rightarrow> False
      | Some m \<Rightarrow>
          if m = 0 \<or> m = 0xffffffff then False
          else if m AND drop_bit 1 (NOT m) \<noteq> 0 then False
          else True)"

text \<open>\<open>None\<close>: the function returned 1 and the caller's buffer is as it was.\<close>

definition gen_broadcast_addr :: "string \<Rightarrow> string \<Rightarrow> string option" where
  "gen_broadcast_addr host_ip netmask =
     (case inet_aton host_ip of
        None \<Rightarrow> None
      | Some h \<Rightarrow>
          (case inet_aton netmask of
             None \<Rightarrow> None
           | Some m \<Rightarrow> Some (strlcpy (inet_ntoa (h OR NOT m)) 16)))"

text \<open>The new contents of \<^verbatim>\<open>LAN_config_addrs.Mask\<close>; \<open>None\<close> is the return value -1.\<close>

fun set_lanmask :: "ip_class \<Rightarrow> string option" where
  "set_lanmask ClassA = Some (strlcpy ''255.0.0.0'' 16)"
| "set_lanmask ClassB = Some (strlcpy ''255.255.0.0'' 16)"
| "set_lanmask ClassC = Some (strlcpy ''255.255.255.0'' 16)"
| "set_lanmask _ = None"

definition is_bcast_ip :: "string \<Rightarrow> bool" where
  "is_bcast_ip ip_str =
     (case inet_aton ip_str of
        None \<Rightarrow> False
      | Some a \<Rightarrow> a AND 0xFF = 0xFF \<and> a AND 0xFF000000 \<noteq> 0)"

section \<open>Subnets\<close>

text \<open>The LAN address up to its third dot.\<close>

fun upto_third_dot :: "nat \<Rightarrow> string \<Rightarrow> string" where
  "upto_third_dot n [] = []"
| "upto_third_dot n (c # cs) =
     (if c = CHR ''.'' then (if n + 1 = 3 then [] else c # upto_third_dot (n + 1) cs)
      else c # upto_third_dot n cs)"

definition issamesubnet :: "string \<Rightarrow> string \<Rightarrow> bool cres" where
  "issamesubnet wan_ip lan_ip =
     bind_ok (isvalidip wan_ip) (\<lambda>result.
       let temp = strlcpy lan_ip 32 in
       if result then Inr (strstr wan_ip (upto_third_dot 0 temp) \<noteq> None)
       else Inr False)"

text \<open>The octets are tested from the third to the first: one that is 0xFE or 0xFF is not
  incremented and the octet before it is taken instead.\<close>

definition is_top :: "u32 \<Rightarrow> bool" where
  "is_top x \<longleftrightarrow> x = 0xFF \<or> x = 0xFE"

definition change_octal :: "u32 \<Rightarrow> u32" where
  "change_octal ip =
     (let o3 = drop_bit 8 (ip AND 0x0000FF00);
          o2 = drop_bit 16 (ip AND 0x00FF0000);
          o1 = drop_bit 24 (ip AND 0xFF000000)
      in if \<not> is_top o3 then
           (let s = push_bit 8 (o3 + 1);
                temp = ip AND 0x000000FF
            in if is_top temp then (ip AND 0xFFFF0000) + s
               else (ip AND 0xFFFF00FF) + s)
         else if \<not> is_top o2 then
           (let s = push_bit 16 (o2 + 1);
                temp = drop_bit 8 (ip AND 0x0000FF00)
            in if is_top temp then (ip AND 0xFF0000FF) + s
               else (ip AND 0xFF00FFFF) + s)
         else if is_top o1 then 0
         else
           (let s = push_bit 24 (o1 + 1);
                temp = drop_bit 16 (ip AND 0x00FF0000);
                n = (if is_top temp then (ip AND 0x0000FFFF) + s
                     else (ip AND 0xFF00FFFF) + s);
                temp1 = drop_bit 8 (n AND 0x0000FF00)
            in if is_top temp1 then n AND 0xFFFF00FF else n))"

section \<open>The scanner, one octet at a time\<close>

lemma octet_loop_run:
  assumes "\<forall>c \<in> set ds. c_isdigit c" and "length t + length ds \<le> 4"
  shows "octet_loop conv (Some t) (length t) arr dots (ds @ s)
     = octet_loop conv (Some (t @ ds)) (length t + length ds) arr dots s"
  using assms
proof (induction ds arbitrary: t)
  case Nil
  then show ?case by simp
next
  case (Cons c cs)
  from Cons.IH [of "t @ [c]"] Cons.prems show ?case by simp
qed

lemma octet_loop_first:
  assumes "all_digits ds" and "length ds \<le> 4"
  shows "octet_loop conv temp 0 arr dots (ds @ s)
     = octet_loop conv (Some ds) (length ds) arr dots s"
proof -
  obtain c cs where ds: "ds = c # cs"
    using assms(1) by (cases ds) (auto simp: all_digits_def)
  have "octet_loop conv (Some [c]) (length [c]) arr dots (cs @ s)
      = octet_loop conv (Some ([c] @ cs)) (length [c] + length cs) arr dots s"
    using assms ds by (intro octet_loop_run) (simp_all add: all_digits_def)
  with assms ds show ?thesis by (simp add: all_digits_def)
qed

lemma octet_loop_long:
  assumes "all_digits ds" and "4 < length ds"
  shows "octet_loop conv temp 0 arr dots (ds @ s) = Inr None"
proof -
  let ?a = "take 4 ds" and ?b = "drop 4 ds"
  have a: "all_digits ?a"
    using assms by (auto simp: all_digits_def dest: in_set_takeD)
  have "octet_loop conv temp 0 arr dots (?a @ (?b @ s))
      = octet_loop conv (Some ?a) (length ?a) arr dots (?b @ s)"
    using a by (rule octet_loop_first) simp
  moreover obtain b bs where "?b = b # bs"
    using assms(2) by (cases ?b) simp_all
  ultimately have "octet_loop conv temp 0 arr dots (?a @ (?b @ s)) = Inr None"
    using assms(2) by simp
  then show ?thesis
    by (metis append_assoc append_take_drop_id)
qed

text \<open>One octet and what decides what comes after it.\<close>

lemma octet_loop_step:
  assumes "s \<noteq> []" and "ds = takeWhile c_isdigit s" and "rest = dropWhile c_isdigit s"
  shows "octet_loop conv temp 0 arr dots s =
     (if ds = [] \<or> 4 < length ds then Inr None
      else if rest = [] then Inr (Some (Some ds, arr, dots))
      else if length ds = 4 then Inr None
      else if hd rest = CHR ''.'' \<and> tl rest \<noteq> [] then
        (case conv ds of
           None \<Rightarrow> Inr None
         | Some v \<Rightarrow> guard_c (length arr < 8) OutOfBounds
             (octet_loop conv (Some ds) 0 (arr @ [v]) (dots + 1) (tl rest)))
      else Inr None)"
proof (cases "ds = []")
  case True
  with assms obtain c cs where "s = c # cs" "\<not> c_isdigit c"
    by (cases s) (auto split: if_splits)
  with True show ?thesis by simp
next
  case False
  have s: "s = ds @ rest"
    using assms by simp
  have ds: "all_digits ds"
    using False assms(2) by (auto simp: all_digits_def dest: set_takeWhileD)
  show ?thesis
  proof (cases "4 < length ds")
    case True
    with ds s show ?thesis by (simp add: octet_loop_long)
  next
    case short: False
    have stop: "rest \<noteq> [] \<Longrightarrow> \<not> c_isdigit (hd rest)"
      using assms(3) hd_dropWhile by blast
    have "octet_loop conv temp 0 arr dots s
        = octet_loop conv (Some ds) (length ds) arr dots rest"
      unfolding s using ds short by (intro octet_loop_first) simp_all
    with False short stop show ?thesis
      by (cases rest) (auto split: option.splits)
  qed
qed

lemma octet_loop_Some_cases:
  assumes "octet_loop conv temp 0 arr dots s = Inr (Some (t, arr', dots'))" and "s \<noteq> []"
  obtains (last) "all_digits s" "length s \<le> 4" "t = Some s" "arr' = arr" "dots' = dots"
  | (more) ds s' v where "all_digits ds" "length ds \<le> 3" "s = ds @ CHR ''.'' # s'" "s' \<noteq> []"
      "conv ds = Some v" "length arr < 8"
      "octet_loop conv (Some ds) 0 (arr @ [v]) (dots + 1) s' = Inr (Some (t, arr', dots'))"
proof -
  let ?ds = "takeWhile c_isdigit s" and ?rest = "dropWhile c_isdigit s"
  have eq: "s = ?ds @ ?rest" by simp
  have step: "Inr (Some (t, arr', dots')) =
     (if ?ds = [] \<or> 4 < length ?ds then Inr None
      else if ?rest = [] then Inr (Some (Some ?ds, arr, dots))
      else if length ?ds = 4 then Inr None
      else if hd ?rest = CHR ''.'' \<and> tl ?rest \<noteq> [] then
        (case conv ?ds of
           None \<Rightarrow> Inr None
         | Some v \<Rightarrow> guard_c (length arr < 8) OutOfBounds
             (octet_loop conv (Some ?ds) 0 (arr @ [v]) (dots + 1) (tl ?rest)))
      else Inr None)"
    using octet_loop_step [OF assms(2) refl refl, of conv temp arr dots] assms(1) by simp
  from step have ne: "?ds \<noteq> []" and le: "length ?ds \<le> 4"
    by (auto split: if_splits)
  have digits: "all_digits ?ds"
    using ne by (auto simp: all_digits_def dest: set_takeWhileD)
  show thesis
  proof (cases "?rest = []")
    case True
    with eq have "?ds = s" by simp
    with True step ne le digits show thesis
      by (intro last) simp_all
  next
    case False
    with step ne le obtain v where v: "conv ?ds = Some v" "length ?ds \<noteq> 4"
      "hd ?rest = CHR ''.''" "tl ?rest \<noteq> []" "length arr < 8"
      "octet_loop conv (Some ?ds) 0 (arr @ [v]) (dots + 1) (tl ?rest) = Inr (Some (t, arr', dots'))"
      by (auto simp: guard_c_def split: if_splits option.splits)
    have "s = ?ds @ CHR ''.'' # tl ?rest"
      using eq False v(3) by (metis list.collapse)
    with v le digits show thesis
      by (intro more [of ?ds "tl ?rest" v]) simp_all
  qed
qed

lemma octet_loop_count:
  assumes "octet_loop conv temp 0 arr dots s = Inr (Some (t, arr', dots'))" and "s \<noteq> []"
  shows "length arr \<le> length arr' \<and> dots' + length arr = dots + length arr'"
  using assms
proof (induction "length s" arbitrary: temp arr dots s rule: less_induct)
  case less
  from less.prems show ?case
  proof (cases rule: octet_loop_Some_cases)
    case last
    then show ?thesis by simp
  next
    case (more ds s' v)
    then have "length s' < length s" by simp
    from less.hyps [OF this more(7,4)] show ?thesis by simp
  qed
qed

text \<open>The scan stays inside \<^verbatim>\<open>addr_arr\<close> when there are fewer than eight dots.\<close>

lemma octet_loop_no_fault:
  assumes "s \<noteq> []" and "length arr + length (filter (\<lambda>c. c = CHR ''.'') s) < 8"
  shows "\<exists>r. octet_loop conv temp 0 arr dots s = Inr r
     \<and> (\<forall>t arr' dots'. r = Some (t, arr', dots') \<longrightarrow> t \<noteq> None \<and> length arr' < 8)"
  using assms
proof (induction "length s" arbitrary: temp arr dots s rule: less_induct)
  case less
  let ?ds = "takeWhile c_isdigit s" and ?rest = "dropWhile c_isdigit s"
  have eq: "s = ?ds @ ?rest" by simp
  show ?case
  proof (cases "?rest \<noteq> [] \<and> hd ?rest = CHR ''.'' \<and> tl ?rest \<noteq> [] \<and> conv ?ds \<noteq> None")
    case True
    then obtain v where v: "conv ?ds = Some v" by auto
    have s: "s = ?ds @ CHR ''.'' # tl ?rest"
      using eq True by (metis list.collapse)
    have sm: "length (tl ?rest) < length s"
      by (subst (2) s) simp
    have "length (filter (\<lambda>c. c = CHR ''.'') s)
        = Suc (length (filter (\<lambda>c. c = CHR ''.'') ?ds) + length (filter (\<lambda>c. c = CHR ''.'') (tl ?rest)))"
      by (subst s) simp
    with less.prems have "length (arr @ [v]) + length (filter (\<lambda>c. c = CHR ''.'') (tl ?rest)) < 8"
      by simp
    from less.hyps [OF sm _ this, of "Some ?ds" "dots + 1"] True less.prems v show ?thesis
      by (simp add: octet_loop_step [OF less.prems(1) refl refl] guard_c_def)
  next
    case False
    with less.prems show ?thesis
      by (auto simp add: octet_loop_step [OF less.prems(1) refl refl] guard_c_def
          split: option.splits)
  qed
qed

section \<open>What the scanners accept\<close>

text \<open>
  The shape both scanners accept: four groups of digits with values up to 255, at most three
  digits in the first three groups and at most four in the last, whose length is never tested
  after the loop.
\<close>

definition quad_text :: "string \<Rightarrow> string \<Rightarrow> string \<Rightarrow> string \<Rightarrow> bool" where
  "quad_text a b c d \<longleftrightarrow>
     all_digits a \<and> all_digits b \<and> all_digits c \<and> all_digits d
     \<and> length a \<le> 3 \<and> length b \<le> 3 \<and> length c \<le> 3 \<and> length d \<le> 4
     \<and> dec_val a \<le> 255 \<and> dec_val b \<le> 255 \<and> dec_val c \<le> 255 \<and> dec_val d \<le> 255"

text \<open>The interface of the octet conversion: on up to four digits it is their value.\<close>

locale octet_conversion =
  fixes conv :: "string \<Rightarrow> int option"
  assumes conv_digits: "\<And>ds. all_digits ds \<Longrightarrow> length ds \<le> 4 \<Longrightarrow> conv ds = Some (int (dec_val ds))"
begin

lemma loop_dot:
  assumes "all_digits ds" "length ds \<le> 3" "s \<noteq> []" "length arr < 8"
  shows "octet_loop conv temp 0 arr dots (ds @ CHR ''.'' # s)
     = octet_loop conv (Some ds) 0 (arr @ [int (dec_val ds)]) (dots + 1) s"
proof -
  have "octet_loop conv temp 0 arr dots (ds @ CHR ''.'' # s)
      = octet_loop conv (Some ds) (length ds) arr dots (CHR ''.'' # s)"
    using assms by (intro octet_loop_first) simp_all
  with assms show ?thesis
    by (simp add: conv_digits guard_c_def all_digits_def)
qed

lemma loop_end:
  assumes "all_digits ds" "length ds \<le> 4"
  shows "octet_loop conv temp 0 arr dots ds = Inr (Some (Some ds, arr, dots))"
  using octet_loop_first [OF assms, of conv temp arr dots "[]"] by simp

lemma scan_quad:
  assumes "quad_text a b c d"
    and "dotted a b c d \<noteq> ''0.0.0.0''" "dotted a b c d \<noteq> ''255.255.255.255''"
  shows "octet_scan conv (dotted a b c d)
     = Inr (Some [int (dec_val a), int (dec_val b), int (dec_val c), int (dec_val d)])"
proof -
  have q: "all_digits a" "all_digits b" "all_digits c" "all_digits d"
    "length a \<le> 3" "length b \<le> 3" "length c \<le> 3" "length d \<le> 4"
    using assms(1) by (simp_all add: quad_text_def)
  have "octet_loop conv None 0 [] 0 (dotted a b c d)
      = Inr (Some (Some d, [int (dec_val a), int (dec_val b), int (dec_val c)], 3))"
    using q by (simp add: dotted_def loop_dot loop_end all_digits_def [of d])
  with assms q show ?thesis
    by (simp add: octet_scan_def octet_end_def conv_digits quad_text_def)
qed

lemma scan_Some_quad:
  assumes "octet_scan conv s = Inr (Some arr)"
  obtains a b c d where "quad_text a b c d" "s = dotted a b c d"
    "s \<noteq> ''0.0.0.0''" "s \<noteq> ''255.255.255.255''"
proof -
  from assms obtain t arr3 dots v where l: "octet_loop conv None 0 [] 0 s = Inr (Some (Some t, arr3, dots))"
    and v: "conv t = Some v" "length arr3 = 3" "\<forall>x \<in> set (arr3 @ [v]). 0 \<le> x \<and> x \<le> 255"
    and ne: "s \<noteq> ''0.0.0.0''" "s \<noteq> ''255.255.255.255''"
  proof -
    from assms obtain t arr3 dots v where "octet_loop conv None 0 [] 0 s = Inr (Some (Some t, arr3, dots))"
      "conv t = Some v" "octet_end s (arr3 @ [v]) dots = Some arr"
      unfolding octet_scan_def
      by (elim bind_okE) (auto simp: guard_c_eq split: option.split_asm prod.split_asm)
    then show thesis
      by (intro that) (auto simp: octet_end_def not_less split: if_splits)
  qed
  have "s \<noteq> []"
    using l by auto
  from l this obtain a s1 va where a: "all_digits a" "length a \<le> 3" "s = a @ CHR ''.'' # s1" "s1 \<noteq> []"
    "conv a = Some va" "octet_loop conv (Some a) 0 [va] (Suc 0) s1 = Inr (Some (Some t, arr3, dots))"
    by (cases rule: octet_loop_Some_cases) (use v in auto)
  from a(6,4) obtain b s2 vb where b: "all_digits b" "length b \<le> 3" "s1 = b @ CHR ''.'' # s2" "s2 \<noteq> []"
    "conv b = Some vb" "octet_loop conv (Some b) 0 [va, vb] (Suc (Suc 0)) s2 = Inr (Some (Some t, arr3, dots))"
    by (cases rule: octet_loop_Some_cases) (use v in auto)
  from b(6,4) obtain c s3 vc where c: "all_digits c" "length c \<le> 3" "s2 = c @ CHR ''.'' # s3" "s3 \<noteq> []"
    "conv c = Some vc" "octet_loop conv (Some c) 0 [va, vb, vc] (Suc (Suc (Suc 0))) s3 = Inr (Some (Some t, arr3, dots))"
    by (cases rule: octet_loop_Some_cases) (use v in auto)
  have "all_digits s3 \<and> length s3 \<le> 4 \<and> t = s3 \<and> arr3 = [va, vb, vc]"
    using c(6,4)
  proof (cases rule: octet_loop_Some_cases)
    case last
    then show ?thesis by simp
  next
    case (more ds s' w)
    from octet_loop_count [OF more(7,4)] v(2) show ?thesis by simp
  qed
  then have d: "all_digits s3" "length s3 \<le> 4" "t = s3" "arr3 = [va, vb, vc]"
    by blast+
  have vals: "va = int (dec_val a)" "vb = int (dec_val b)" "vc = int (dec_val c)" "v = int (dec_val s3)"
    using a b c d v(1) by (simp_all add: conv_digits)
  show thesis
  proof (rule that)
    show "quad_text a b c s3"
      using a b c d vals v(3) by (simp add: quad_text_def)
    show "s = dotted a b c s3"
      using a b c by (simp add: dotted_def)
  qed (use ne in simp_all)
qed

lemma scan_no_fault:
  assumes "s \<noteq> []" and "length (filter (\<lambda>c. c = CHR ''.'') s) < 8"
  shows "\<exists>r. octet_scan conv s = Inr r"
  using octet_loop_no_fault [of s "[]" conv None 0] assms
  by (auto simp: octet_scan_def split: option.splits)

end

lemma conv_strtoul_digits:
  assumes "all_digits ds" and "length ds \<le> 4"
  shows "conv_strtoul ds = Some (int (dec_val ds))"
proof -
  have "dec_val ds < 10 ^ length ds"
    using assms by (intro dec_val_bound) (simp add: all_digits_def)
  also have "\<dots> \<le> 10 ^ 4"
    using assms(2) by (intro power_increasing) simp_all
  finally have "dec_val ds < 10000" by simp
  with assms strtoul10_digits [of ds] show ?thesis
    by (simp add: conv_strtoul_def all_digits_def take_bit_nat_eq_self unsigned_of_nat)
qed

interpretation oct_atoi: octet_conversion conv_atoi
  by unfold_locales (simp add: conv_atoi_def all_digits_def atoi_digits)

interpretation oct_strtoul: octet_conversion conv_strtoul
  by unfold_locales (rule conv_strtoul_digits)

lemma dotted_extremes:
  assumes "quad_text a b c d"
  shows "dotted a b c d = ''0.0.0.0'' \<Longrightarrow> dec_val a = 0 \<and> dec_val d = 0"
    "dotted a b c d = ''255.255.255.255'' \<Longrightarrow> dec_val a = 255 \<and> dec_val d = 255"
proof -
  have t: "''0.0.0.0'' = dotted ''0'' ''0'' ''0'' ''0''"
    "''255.255.255.255'' = dotted ''255'' ''255'' ''255'' ''255''"
    by (simp_all add: dotted_def)
  have v: "dec_val ''0'' = 0" "dec_val ''255'' = 255" "all_digits ''0''" "all_digits ''255''"
    by code_simp+
  show "dotted a b c d = ''0.0.0.0'' \<Longrightarrow> dec_val a = 0 \<and> dec_val d = 0"
    "dotted a b c d = ''255.255.255.255'' \<Longrightarrow> dec_val a = 255 \<and> dec_val d = 255"
    using assms v unfolding t by (simp_all add: dotted_inject quad_text_def)
qed

lemma isvalidip_iff:
  "isvalidip s = Inr True \<longleftrightarrow>
     (\<exists>a b c d. quad_text a b c d \<and> s = dotted a b c d
        \<and> dec_val a \<noteq> 0 \<and> dec_val a \<noteq> 127 \<and> dec_val d \<noteq> 0 \<and> dec_val d \<noteq> 255)"
  (is "?L \<longleftrightarrow> ?R")
proof
  assume ?L
  then obtain arr where scan: "octet_scan conv_atoi s = Inr (Some arr)"
    and arr: "\<not> (arr ! 0 = 0 \<or> arr ! 0 = 127 \<or> arr ! 3 = 255 \<or> arr ! 3 = 0)"
    unfolding isvalidip_def by (elim bind_okE) (auto split: option.split_asm)
  from oct_atoi.scan_Some_quad [OF scan] obtain a b c d where q: "quad_text a b c d" "s = dotted a b c d"
    and ne: "s \<noteq> ''0.0.0.0''" "s \<noteq> ''255.255.255.255''" .
  from oct_atoi.scan_quad [OF q(1)] q(2) ne scan
  have "arr = [int (dec_val a), int (dec_val b), int (dec_val c), int (dec_val d)]" by simp
  with arr q show ?R by (intro exI conjI) auto
next
  assume ?R
  then obtain a b c d where q: "quad_text a b c d" "s = dotted a b c d"
    and v: "dec_val a \<noteq> 0" "dec_val a \<noteq> 127" "dec_val d \<noteq> 0" "dec_val d \<noteq> 255" by blast
  have "s \<noteq> ''0.0.0.0'' \<and> s \<noteq> ''255.255.255.255''"
    using q v dotted_extremes [of a b c d] by auto
  with oct_atoi.scan_quad [OF q(1)] q(2) v show ?L
    by (simp add: isvalidip_def)
qed

lemma isvalid_subnetip_iff:
  "isvalid_subnetip s = Inr True \<longleftrightarrow>
     (\<exists>a b c d. quad_text a b c d \<and> s = dotted a b c d \<and> dec_val a \<noteq> 0 \<and> dec_val d \<noteq> 255)"
  (is "?L \<longleftrightarrow> ?R")
proof
  assume ?L
  then obtain arr where scan: "octet_scan conv_strtoul s = Inr (Some arr)"
    and arr: "\<not> (arr ! 0 = 0 \<or> arr ! 3 = 255)"
    unfolding isvalid_subnetip_def by (elim bind_okE) (auto split: option.split_asm)
  from oct_strtoul.scan_Some_quad [OF scan] obtain a b c d where q: "quad_text a b c d" "s = dotted a b c d"
    and ne: "s \<noteq> ''0.0.0.0''" "s \<noteq> ''255.255.255.255''" .
  from oct_strtoul.scan_quad [OF q(1)] q(2) ne scan
  have "arr = [int (dec_val a), int (dec_val b), int (dec_val c), int (dec_val d)]" by simp
  with arr q show ?R by (intro exI conjI) auto
next
  assume ?R
  then obtain a b c d where q: "quad_text a b c d" "s = dotted a b c d"
    and v: "dec_val a \<noteq> 0" "dec_val d \<noteq> 255" by blast
  have "s \<noteq> ''0.0.0.0'' \<and> s \<noteq> ''255.255.255.255''"
    using q v dotted_extremes [of a b c d] by auto
  with oct_strtoul.scan_quad [OF q(1)] q(2) v show ?L
    by (simp add: isvalid_subnetip_def)
qed

lemma scanners_no_fault:
  assumes "s \<noteq> []" and "length (filter (\<lambda>c. c = CHR ''.'') s) < 8"
  shows "\<exists>b. isvalidip s = Inr b" "\<exists>b. isvalid_subnetip s = Inr b"
  using oct_atoi.scan_no_fault [OF assms] oct_strtoul.scan_no_fault [OF assms]
  by (auto simp: isvalidip_def isvalid_subnetip_def)

text \<open>An address that \<^verbatim>\<open>isvalidip\<close> accepts is accepted by \<^verbatim>\<open>isvalid_subnetip\<close>.\<close>

lemma isvalidip_imp_subnetip: "isvalidip s = Inr True \<Longrightarrow> isvalid_subnetip s = Inr True"
  unfolding isvalidip_iff isvalid_subnetip_iff by blast

section \<open>Agreement with \<^verbatim>\<open>inet_aton\<close>\<close>

text \<open>Octal reading never exceeds decimal reading of the same digits.\<close>

lemma scan_base_mono:
  "acc \<le> acc' \<Longrightarrow> b \<le> b' \<Longrightarrow> scan_base b acc ds \<le> scan_base b' acc' ds"
proof (induction ds arbitrary: acc acc')
  case Nil
  then show ?case by simp
next
  case (Cons c cs)
  then have "acc * b + digit_val c \<le> acc' * b' + digit_val c"
    by (intro add_right_mono mult_mono) simp_all
  with Cons show ?case by auto
qed

lemma aton_part_le: "aton_part ds \<le> dec_val ds"
  unfolding aton_part_def by (simp add: scan_base_mono flip: scan_base_10)

lemma aton_part_decimal: "hd ds \<noteq> CHR ''0'' \<Longrightarrow> aton_part ds = dec_val ds"
  by (simp add: aton_part_def scan_base_10)

lemma inet_aton_quad_text:
  assumes "quad_text a b c d"
  shows "inet_aton (dotted a b c d)
     = Some (quad (aton_part a) (aton_part b) (aton_part c) (aton_part d))"
  using assms aton_part_le [of a] aton_part_le [of b] aton_part_le [of c] aton_part_le [of d]
  by (intro inet_aton_dotted) (simp_all add: quad_text_def)

lemma quad_text_inet_ntoa:
  "quad_text (show_nat (addr_byte w 0)) (show_nat (addr_byte w 1))
     (show_nat (addr_byte w 2)) (show_nat (addr_byte w 3))"
proof -
  have l: "length (show_nat (addr_byte w i)) \<le> 3" for i
    by (intro length_show_nat_le less_trans [OF addr_byte_less]) simp
  moreover have "addr_byte w i \<le> 255" for i
    using addr_byte_less [of w i] by linarith
  moreover have "length (show_nat (addr_byte w 3)) \<le> 4"
    using l [of 3] by linarith
  ultimately show ?thesis
    by (simp add: quad_text_def)
qed

text \<open>The contract of an address check: what it accepts, \<^verbatim>\<open>inet_aton\<close> can read; and on an address
  printed by \<^verbatim>\<open>inet_ntoa\<close> it is a test of the address itself.\<close>

locale address_check =
  fixes check :: "string \<Rightarrow> bool cres" and good :: "u32 \<Rightarrow> bool"
  assumes accepted_shape: "\<And>s. check s = Inr True \<Longrightarrow> \<exists>a b c d. quad_text a b c d \<and> s = dotted a b c d"
    and printed: "\<And>w. check (inet_ntoa w) = Inr (good w)"
begin

lemma accepted_aton:
  assumes "check s = Inr True"
  shows "\<exists>w. inet_aton s = Some w"
  using accepted_shape [OF assms] inet_aton_quad_text by blast

lemma accepted_length:
  assumes "check s = Inr True"
  shows "length s < 17"
  using accepted_shape [OF assms] by (auto simp: quad_text_def dotted_def)

lemma accepted_cstr:
  assumes "check s = Inr True"
  shows "is_cstr s"
proof -
  obtain a b c d where "quad_text a b c d" "s = dotted a b c d"
    using accepted_shape [OF assms] by blast
  moreover have "all_digits ds \<Longrightarrow> NUL \<notin> set ds" for ds
    by (auto simp: all_digits_def dest: isdigit_not_NUL)
  ultimately show ?thesis
    by (simp add: is_cstr_def quad_text_def dotted_def)
qed

end

definition good_host :: "u32 \<Rightarrow> bool" where
  "good_host w \<longleftrightarrow> addr_byte w 0 \<noteq> 0 \<and> addr_byte w 0 \<noteq> 127 \<and> addr_byte w 3 \<noteq> 0 \<and> addr_byte w 3 \<noteq> 255"

definition good_subnet :: "u32 \<Rightarrow> bool" where
  "good_subnet w \<longleftrightarrow> addr_byte w 0 \<noteq> 0 \<and> addr_byte w 3 \<noteq> 255"

lemma dots_dotted:
  assumes "quad_text a b c d"
  shows "length (filter (\<lambda>c. c = CHR ''.'') (dotted a b c d)) < 8"
proof -
  have no: "\<forall>x \<in> set ds. c_isdigit x \<Longrightarrow> filter (\<lambda>c. c = CHR ''.'') ds = []" for ds
    by (auto simp: filter_empty_conv dest: isdigit_not_dot)
  from assms show ?thesis
    by (simp add: quad_text_def all_digits_def dotted_def no)
qed

lemma checks_printed:
  "isvalidip (inet_ntoa w) = Inr (good_host w)"
  "isvalid_subnetip (inet_ntoa w) = Inr (good_subnet w)"
proof -
  let ?s = "\<lambda>i. show_nat (addr_byte w i)"
  have ne: "inet_ntoa w \<noteq> []"
    by (simp add: inet_ntoa_def)
  obtain b1 b2 where b: "isvalidip (inet_ntoa w) = Inr b1" "isvalid_subnetip (inet_ntoa w) = Inr b2"
    using scanners_no_fault [OF ne] dots_dotted [OF quad_text_inet_ntoa]
    unfolding inet_ntoa_dotted by blast
  have uniq: "quad_text a b c d \<Longrightarrow> inet_ntoa w = dotted a b c d
      \<longleftrightarrow> a = ?s 0 \<and> b = ?s 1 \<and> c = ?s 2 \<and> d = ?s 3" for a b c d
    unfolding inet_ntoa_dotted by (subst dotted_inject) (auto simp: quad_text_def)
  have ex: "(\<exists>a b c d. quad_text a b c d \<and> inet_ntoa w = dotted a b c d \<and> P a d) \<longleftrightarrow> P (?s 0) (?s 3)"
    for P
    using uniq quad_text_inet_ntoa by metis
  have "b1 = good_host w"
    using b(1) isvalidip_iff [of "inet_ntoa w"] unfolding ex by (auto simp: good_host_def)
  moreover have "b2 = good_subnet w"
    using b(2) isvalid_subnetip_iff [of "inet_ntoa w"] unfolding ex by (auto simp: good_subnet_def)
  ultimately show "isvalidip (inet_ntoa w) = Inr (good_host w)"
    "isvalid_subnetip (inet_ntoa w) = Inr (good_subnet w)"
    using b by simp_all
qed

interpretation host_check: address_check isvalidip good_host
  by unfold_locales (auto simp: isvalidip_iff checks_printed)

interpretation subnet_check: address_check isvalid_subnetip good_subnet
  by unfold_locales (auto simp: isvalid_subnetip_iff checks_printed)

section \<open>Masks\<close>

lemma bit_not_mask: "bit (NOT (mask k) :: u32) n \<longleftrightarrow> n < 32 \<and> k \<le> n"
  by (auto simp: bit_not_iff bit_mask_iff not_less)

lemma bits_upward:
  fixes m :: u32
  assumes "m AND drop_bit 1 (NOT m) = 0" and "bit m n" and "n \<le> j" and "j < 32"
  shows "bit m j"
  using assms(3,4)
proof (induction j rule: dec_induct)
  case base
  show ?case by (rule assms(2))
next
  case (step i)
  have "\<not> bit (m AND drop_bit 1 (NOT m)) i"
    unfolding assms(1) by simp
  with step show ?case
    by (simp add: bit_and_iff bit_drop_bit_eq bit_not_iff)
qed

lemma contiguous_mask_iff:
  fixes m :: u32
  shows "m AND drop_bit 1 (NOT m) = 0 \<longleftrightarrow> (\<exists>k \<le> 32. m = NOT (mask k))"
proof
  assume a: "m AND drop_bit 1 (NOT m) = 0"
  show "\<exists>k \<le> 32. m = NOT (mask k)"
  proof (cases "m = 0")
    case True
    have "m = NOT (mask 32)"
      by (rule bit_word_eqI) (simp add: True bit_not_mask)
    then show ?thesis by blast
  next
    case False
    have "\<exists>n < 32. bit m n"
    proof (rule ccontr)
      assume none: "\<not> (\<exists>n < 32. bit m n)"
      have "m = 0"
        by (rule bit_word_eqI) (use none in auto)
      with False show False by simp
    qed
    then obtain n where n: "bit m n" "n < 32"
      by blast
    define k where "k = (LEAST n. bit m n)"
    have k: "bit m k" "k \<le> n"
      unfolding k_def by (rule LeastI [of "bit m", OF n(1)]) (rule Least_le [of "bit m", OF n(1)])
    have "m = NOT (mask k)"
    proof (rule bit_word_eqI)
      fix j
      assume j: "j < LENGTH(32)"
      show "bit m j \<longleftrightarrow> bit (NOT (mask k) :: u32) j"
      proof
        assume "bit m j"
        then show "bit (NOT (mask k) :: u32) j"
          using j Least_le [of "bit m" j] by (simp add: bit_not_mask k_def)
      next
        assume "bit (NOT (mask k) :: u32) j"
        then show "bit m j"
          using bits_upward [OF a k(1)] by (simp add: bit_not_mask)
      qed
    qed
    with k n show ?thesis by (intro exI [of _ k]) simp
  qed
next
  assume "\<exists>k \<le> 32. m = NOT (mask k)"
  then obtain k where m: "m = NOT (mask k)" by blast
  show "m AND drop_bit 1 (NOT m) = 0"
    unfolding m
    by (rule bit_word_eqI) (auto simp: bit_and_iff bit_drop_bit_eq bit_not_mask bit_mask_iff)
qed

lemma isvalid_mask_iff:
  "isvalid_mask s \<longleftrightarrow> (\<exists>k. 0 < k \<and> k < 32 \<and> inet_aton s = Some (NOT (mask k)))"
proof (cases "inet_aton s")
  case None
  then show ?thesis by (simp add: isvalid_mask_def)
next
  case (Some m)
  have e: "(NOT (mask 0) :: u32) = 0xffffffff"
    by simp
  have e32: "(NOT (mask 32) :: u32) = 0"
    by (rule bit_word_eqI) (simp add: bit_not_mask)
  have nz: "k < 32 \<Longrightarrow> (NOT (mask k) :: u32) \<noteq> 0" "0 < k \<Longrightarrow> (NOT (mask k) :: u32) \<noteq> 0xffffffff" for k
  proof -
    assume "k < 32"
    then have "bit (NOT (mask k) :: u32) k"
      unfolding bit_not_mask by simp
    then show "(NOT (mask k) :: u32) \<noteq> 0" by auto
  next
    assume "0 < k"
    then have "\<not> bit (NOT (mask k) :: u32) 0"
      unfolding bit_not_mask by simp
    then show "(NOT (mask k) :: u32) \<noteq> 0xffffffff" by auto
  qed
  have "isvalid_mask s \<longleftrightarrow> m \<noteq> 0 \<and> m \<noteq> 0xffffffff \<and> (\<exists>k \<le> 32. m = NOT (mask k))"
    using Some contiguous_mask_iff [of m] by (simp add: isvalid_mask_def)
  also have "\<dots> \<longleftrightarrow> (\<exists>k. 0 < k \<and> k < 32 \<and> m = NOT (mask k))"
    using e e32 nz by (metis le_neq_implies_less less_imp_le not_gr_zero)
  finally show ?thesis
    using Some by simp
qed

section \<open>Another subnet\<close>

lemma is_top_byte: "a < 256 \<Longrightarrow> is_top (of_nat a) \<longleftrightarrow> 254 \<le> a"
  using is_byte_top by (simp add: is_top_def)

lemma quad_plus_octet:
  "quad a b 0 d + push_bit 8 (of_nat c + 1) = quad a b (c + 1) d"
  "quad a 0 c d + push_bit 16 (of_nat b + 1) = quad a (b + 1) c d"
  "quad 0 b c d + push_bit 24 (of_nat a + 1) = quad (a + 1) b c d"
  by (simp_all add: quad_def push_bit_eq_mult algebra_simps)

lemmas quad_and_mask = quad_and byte_and_255 drop_bit_quad is_top_byte quad_plus_octet

lemma change_octal_quad:
  assumes "a < 256" "b < 256" "c < 256" "d < 256"
  shows "change_octal (quad a b c d) =
     (if c < 254 then quad a b (c + 1) (if 254 \<le> d then 0 else d)
      else if b < 254 then quad a (b + 1) 0 d
      else if a < 254 then quad (a + 1) 0 0 d
      else 0)"
proof -
  have top: "is_top (drop_bit 8 (quad a b c d AND 0x0000FF00)) \<longleftrightarrow> 254 \<le> c"
    "is_top (drop_bit 16 (quad a b c d AND 0x00FF0000)) \<longleftrightarrow> 254 \<le> b"
    "is_top (drop_bit 24 (quad a b c d AND 0xFF000000)) \<longleftrightarrow> 254 \<le> a"
    using assms by (simp_all only: quad_masks) (simp_all add: quad_and_mask)
  have "quad a b c d AND 0x000000FF = quad 0 0 0 d"
    using assms by (simp only: quad_masks) (simp add: quad_and_mask)
  then have top4: "is_top (quad a b c d AND 0x000000FF) \<longleftrightarrow> 254 \<le> d"
    using assms by (simp only: quad_0_0_0 is_top_byte)
  have cl: "quad a b c d AND 0xFFFF0000 = quad a b 0 0" "quad a b c d AND 0xFFFF00FF = quad a b 0 d"
    "quad a b c d AND 0xFF0000FF = quad a 0 0 d" "quad a b c d AND 0x0000FFFF = quad 0 0 c d"
    using assms by (simp_all only: quad_masks) (simp_all add: quad_and_mask)
  have sh: "drop_bit 8 (quad a b c d AND 0x0000FF00) = of_nat c"
    "drop_bit 16 (quad a b c d AND 0x00FF0000) = of_nat b"
    "drop_bit 24 (quad a b c d AND 0xFF000000) = of_nat a"
    using assms by (simp_all only: quad_masks) (simp_all add: quad_and_mask)
  show ?thesis
  proof (cases "c < 254")
    case True
    with top top4 cl sh show ?thesis
      by (simp add: change_octal_def Let_def quad_plus_octet)
  next
    case c: False
    show ?thesis
    proof (cases "b < 254")
      case True
      with c top top4 cl sh show ?thesis
        by (simp add: change_octal_def Let_def quad_plus_octet)
    next
      case b: False
      show ?thesis
      proof (cases "a < 254")
        case True
        have "is_top (drop_bit 8 (quad (a + 1) 0 c d AND 0x0000FF00))"
          "quad (a + 1) 0 c d AND 0xFFFF00FF = quad (a + 1) 0 0 d"
          using True c assms by (simp_all only: quad_masks) (simp_all add: quad_and_mask)
        with True b c top cl sh show ?thesis
          by (simp add: change_octal_def Let_def quad_plus_octet)
      next
        case False
        with b c top show ?thesis
          by (simp add: change_octal_def Let_def)
      qed
    qed
  qed
qed

section \<open>Ranges\<close>

text \<open>What \<^verbatim>\<open>strtoul\<close> finds after the octet does not matter when it is not a digit.\<close>

definition junk_stops :: "string \<Rightarrow> bool" where
  "junk_stops junk \<longleftrightarrow> junk = [] \<or> \<not> c_isdigit (hd junk)"

definition class_of_octet :: "nat \<Rightarrow> ip_class" where
  "class_of_octet n =
     (if 1 \<le> n \<and> n \<le> 126 then ClassA
      else if 128 \<le> n \<and> n \<le> 191 then ClassB
      else if 192 \<le> n \<and> n \<le> 223 then ClassC
      else if 224 \<le> n \<and> n \<le> 239 then ClassD
      else ClassE)"

lemma strtoul10_stops:
  assumes "all_digits ds" "length ds \<le> 9" "junk_stops junk"
  shows "strtoul10 (ds @ junk) = (of_nat (dec_val ds), False)"
proof -
  obtain c cs where ds: "ds = c # cs"
    using assms(1) by (cases ds) (auto simp: all_digits_def)
  have digits: "\<forall>c \<in> set ds. c_isdigit c"
    using assms(1) by (simp add: all_digits_def)
  have v: "dec_val (ds @ junk) = dec_val ds"
    using assms(3) by (simp add: scan_dec_append [OF digits] scan_dec_stop junk_stops_def)
  have "strtoul10 (ds @ junk) = (if 2 ^ 32 \<le> dec_val ds then (- 1, True) else (of_nat (dec_val ds), False))"
    using v ds digits by (simp add: strtoul10_def)
  moreover have "strtoul10 ds = (if 2 ^ 32 \<le> dec_val ds then (- 1, True) else (of_nat (dec_val ds), False))"
    using ds digits by (simp add: strtoul10_def)
  ultimately show ?thesis
    using strtoul10_digits [OF digits assms(2)] by simp
qed

lemma takeWhile_first_octet:
  assumes "\<forall>c \<in> set a. c_isdigit c"
  shows "takeWhile (\<lambda>c. c \<noteq> CHR ''.'') (a @ CHR ''.'' # s) = a"
  using assms by (subst takeWhile_append2) auto

lemma findClass_dotted:
  assumes "quad_text a b c d" "junk_stops junk"
  shows "findClass junk (dotted a b c d) = Inr (class_of_octet (dec_val a))"
proof -
  have a: "all_digits a" "length a \<le> 3" "dec_val a \<le> 255"
    using assms(1) by (simp_all add: quad_text_def)
  have oct: "takeWhile (\<lambda>c. c \<noteq> CHR ''.'') (dotted a b c d) = a" "a \<noteq> dotted a b c d"
    using a(1) by (simp_all add: dotted_def all_digits_def takeWhile_first_octet)
  have v: "strtoul10 (a @ junk) = (of_nat (dec_val a), False)"
    using a assms(2) by (intro strtoul10_stops) simp_all
  have "sint (of_nat (dec_val a) :: u32) = int (dec_val a)"
    using a(3) by (simp add: signed_of_nat signed_take_bit_int_eq_self)
  with a oct v show ?thesis
    by (simp add: findClass_def Let_def class_of_octet_def)
qed

lemma copy_to_dot_group:
  assumes "ds \<noteq> []" "\<forall>c \<in> set ds. c_isdigit c" "0 < n"
  shows "copy_to_dot n acc (ds @ CHR ''.'' # s) = copy_to_dot (n - 1) (acc @ ds) (CHR ''.'' # s)"
  using assms
proof (induction ds arbitrary: acc)
  case Nil
  then show ?case by simp
next
  case (Cons c cs)
  show ?case
  proof (cases cs)
    case Nil
    with Cons.prems show ?thesis by simp
  next
    case (Cons x xs)
    with Cons.prems Cons.IH [of "acc @ [c]"] show ?thesis by auto
  qed
qed

lemma copy_to_dot_dot:
  assumes "ds \<noteq> []" "\<forall>c \<in> set ds. c_isdigit c" "0 < n"
  shows "copy_to_dot n acc (CHR ''.'' # ds @ s) = copy_to_dot n (acc @ ''.'') (ds @ s)"
  using assms by (cases ds) auto

lemma copy_to_dot_three:
  assumes "all_digits a" "all_digits b" "all_digits c"
  shows "copy_to_dot 3 [] (dotted a b c d) = Inr (a @ ''.'' @ b @ ''.'' @ c, CHR ''.'' # d)"
  using assms unfolding dotted_def all_digits_def
  by (simp add: copy_to_dot_group copy_to_dot_dot)

lemma fill_field_cstr:
  assumes "length s < 12" "is_cstr s"
  shows "\<exists>buf. fill_field s junk = Inr buf \<and> cstr_of_buf buf = Inr s"
proof -
  let ?buf = "s @ drop (length s) (replicate 12 NUL @ take 4 junk)"
  have pad: "drop (length s) (replicate 12 NUL @ take 4 junk)
      = NUL # replicate (11 - length s) NUL @ take 4 junk"
  proof -
    have "12 - length s = Suc (11 - length s)"
      using assms(1) by simp
    with assms(1) show ?thesis by simp
  qed
  have "fill_field s junk = Inr ?buf"
    using assms(1) by (simp add: fill_field_def)
  moreover have "cstr_of_buf ?buf = Inr s"
    using assms(2) unfolding pad by (auto simp: cstr_of_buf_def is_cstr_def takeWhile_append)
  ultimately show ?thesis by blast
qed

lemma all_digits_cstr: "all_digits ds \<Longrightarrow> is_cstr ds"
  by (auto simp: all_digits_def is_cstr_def dest: isdigit_not_NUL)

lemma separate_class_C:
  assumes "quad_text a b c d"
  shows "\<exists>v. separate var (dotted a b c d) ClassC = Inr v
     \<and> cstr_of_buf (network v) = Inr (a @ ''.'' @ b @ ''.'' @ c) \<and> cstr_of_buf (host v) = Inr d"
proof -
  let ?net = "a @ ''.'' @ b @ ''.'' @ c"
  have q: "all_digits a" "all_digits b" "all_digits c" "all_digits d"
    "length a \<le> 3" "length b \<le> 3" "length c \<le> 3" "length d \<le> 4"
    using assms by (simp_all add: quad_text_def)
  have "is_cstr ?net" "length ?net < 12"
    using q all_digits_cstr by (auto simp: is_cstr_def)
  then obtain n where n: "fill_field ?net (drop 12 (network var)) = Inr n" "cstr_of_buf n = Inr ?net"
    using fill_field_cstr by blast
  obtain h where h: "fill_field d (drop 12 (host var)) = Inr h" "cstr_of_buf h = Inr d"
    using fill_field_cstr [OF _ all_digits_cstr [OF q(4)]] q(8) by fastforce
  have "separate_parts (dotted a b c d) ClassC = Inr (?net, d)"
    using copy_to_dot_three [OF q(1-3)] by (simp add: separate_parts_def)
  with n h show ?thesis
    by (simp add: separate_def)
qed

lemma isvalidrange_class_C:
  assumes "quad_text a b c d" "quad_text a' b' c' d'"
    and "junk_stops junk1" "junk_stops junk2"
    and "class_of_octet (dec_val a) = ClassC" "class_of_octet (dec_val a') = ClassC"
  shows "isvalidrange junk1 junk2 var1 var2 (dotted a b c d) (dotted a' b' c' d')
     = Inr (a = a' \<and> b = b' \<and> c = c' \<and> dec_val d \<le> dec_val d')"
proof -
  obtain v1 where v1: "separate var1 (dotted a b c d) ClassC = Inr v1"
    "cstr_of_buf (network v1) = Inr (a @ ''.'' @ b @ ''.'' @ c)" "cstr_of_buf (host v1) = Inr d"
    using separate_class_C [OF assms(1)] by blast
  obtain v2 where v2: "separate var2 (dotted a' b' c' d') ClassC = Inr v2"
    "cstr_of_buf (network v2) = Inr (a' @ ''.'' @ b' @ ''.'' @ c')" "cstr_of_buf (host v2) = Inr d'"
    using separate_class_C [OF assms(2)] by blast
  have "a @ ''.'' @ b @ ''.'' @ c = a' @ ''.'' @ b' @ ''.'' @ c' \<longleftrightarrow> a = a' \<and> b = b' \<and> c = c'"
    using assms(1,2) by (simp add: quad_text_def all_digits_def digits_dot_inject)
  moreover have "atoi d = int (dec_val d)" "atoi d' = int (dec_val d')"
    using assms(1,2) by (auto simp: quad_text_def all_digits_def intro: atoi_digits)
  ultimately show ?thesis
    using v1 v2 findClass_dotted [OF assms(1,3)] findClass_dotted [OF assms(2,4)] assms(5,6)
    by (simp add: isvalidrange_def)
qed

lemma isvalidrange_other_class:
  assumes "quad_text a b c d" "quad_text a' b' c' d'"
    and "junk_stops junk1" "junk_stops junk2"
    and "class_of_octet (dec_val a) \<noteq> class_of_octet (dec_val a')"
  shows "isvalidrange junk1 junk2 var1 var2 (dotted a b c d) (dotted a' b' c' d') = Inr False"
  using findClass_dotted [OF assms(1,3)] findClass_dotted [OF assms(2,4)] assms(5)
  by (simp add: isvalidrange_def)

section \<open>Same subnet\<close>

lemma upto_third_dot_group:
  assumes "\<forall>c \<in> set ds. c_isdigit c"
  shows "upto_third_dot n (ds @ CHR ''.'' # s)
     = ds @ (if n + 1 = 3 then [] else CHR ''.'' # upto_third_dot (n + 1) s)"
  using assms by (induction ds) auto

lemma upto_third_dot_dotted:
  assumes "all_digits a" "all_digits b" "all_digits c"
  shows "upto_third_dot 0 (dotted a b c d) = a @ ''.'' @ b @ ''.'' @ c"
  using assms by (simp add: dotted_def all_digits_def upto_third_dot_group)

lemma issamesubnet_same_octets:
  assumes "good_host w" and "\<forall>i < 3. addr_byte w i = addr_byte l i"
  shows "issamesubnet (inet_ntoa w) (inet_ntoa l) = Inr True"
proof -
  let ?s = "\<lambda>x i. show_nat (addr_byte x i)"
  have eq: "?s l 0 = ?s w 0" "?s l 1 = ?s w 1" "?s l 2 = ?s w 2"
    using assms(2) by simp_all
  have "strlcpy (inet_ntoa l) 32 = inet_ntoa l"
    using length_inet_ntoa [of l] by (intro strlcpy_fits) simp
  moreover have "upto_third_dot 0 (inet_ntoa l) = ?s w 0 @ ''.'' @ ?s w 1 @ ''.'' @ ?s w 2"
    unfolding inet_ntoa_dotted by (subst upto_third_dot_dotted) (simp_all only: all_digits_show_nat eq)
  moreover have "inet_ntoa w = (?s w 0 @ ''.'' @ ?s w 1 @ ''.'' @ ?s w 2) @ CHR ''.'' # ?s w 3"
    by (simp add: inet_ntoa_def)
  ultimately have "strstr (inet_ntoa w) (upto_third_dot 0 (strlcpy (inet_ntoa l) 32)) = Some (inet_ntoa w)"
    by (metis strstr_prefix)
  then show ?thesis
    using assms(1) checks_printed(1) [of w] by (simp add: issamesubnet_def Let_def)
qed

section \<open>Characters of printed addresses\<close>

lemma inet_ntoa_chars: "c \<in> set (inet_ntoa w) \<Longrightarrow> c_isdigit c \<or> c = CHR ''.''"
  by (auto simp: inet_ntoa_def dest: show_nat_digits)

lemma inet_ntoa_no_delim:
  assumes "\<not> c_isdigit d" "d \<noteq> CHR ''.''"
  shows "d \<notin> set (inet_ntoa w)"
  using inet_ntoa_chars assms by blast

lemma inet_ntoa_nonempty [simp]: "inet_ntoa w \<noteq> []"
  by (simp add: inet_ntoa_def)

lemma isvalid_digit_iff: "isvalid_digit s \<longleftrightarrow> (\<forall>c \<in> set s. c_isdigit c)"
  by (induction s) auto

section \<open>Properties\<close>

text \<open>
  (C4) \<^verbatim>\<open>isvalidip\<close> accepts exactly the texts of four dot-separated groups of digits with values up to
  255, of at most three digits each (four in the last), whose first number is neither 0 nor 127
  and whose last is neither 0 nor 255.
\<close>

theorem isvalidip_exact:
  "isvalidip s = Inr True \<longleftrightarrow>
     (\<exists>a b c d. quad_text a b c d \<and> s = dotted a b c d
        \<and> dec_val a \<noteq> 0 \<and> dec_val a \<noteq> 127 \<and> dec_val d \<noteq> 0 \<and> dec_val d \<noteq> 255)"
  by (rule isvalidip_iff)

text \<open>
  (C32) On a text that is not empty and has fewer than eight dots both scanners return: they neither
  write past \<^verbatim>\<open>addr_arr[8]\<close> nor read \<^verbatim>\<open>temp\<close> before it is written.
\<close>

theorem address_scanners_in_bounds:
  assumes "s \<noteq> []" and "length (filter (\<lambda>c. c = CHR ''.'') s) < 8"
  shows "\<not> faulty (isvalidip s) \<and> \<not> faulty (isvalid_subnetip s)"
  using scanners_no_fault [OF assms] by (auto simp: not_faulty_iff)

theorem address_scanners_in_bounds_witness:
  "\<not> faulty (isvalidip ''10.0.0.1.2.3.4.5'') \<and> \<not> faulty (isvalid_subnetip ''10.0.0.1.2.3.4.5'')"
  by (rule address_scanners_in_bounds) simp_all

text \<open>
  What \<^verbatim>\<open>isvalidip\<close> accepts, \<^verbatim>\<open>inet_aton\<close> can read, and no octet that it reads is larger than the
  one that was checked; a part without a leading zero is read as the same number.
\<close>

theorem accepted_address_is_readable:
  assumes "isvalidip s = Inr True"
  shows "\<exists>a b c d. s = dotted a b c d
     \<and> inet_aton s = Some (quad (aton_part a) (aton_part b) (aton_part c) (aton_part d))
     \<and> (\<forall>p \<in> {a, b, c, d}. aton_part p \<le> dec_val p \<and> (hd p \<noteq> CHR ''0'' \<longrightarrow> aton_part p = dec_val p))"
proof -
  obtain a b c d where q: "quad_text a b c d" "s = dotted a b c d"
    using host_check.accepted_shape [OF assms] by blast
  then show ?thesis
    using inet_aton_quad_text aton_part_le aton_part_decimal
    by (intro exI [of _ a] exI [of _ b] exI [of _ c] exI [of _ d]) blast
qed

theorem accepted_address_is_readable_witness:
  "\<exists>a b c d. ''192.168.0.1'' = dotted a b c d
     \<and> inet_aton ''192.168.0.1'' = Some (quad (aton_part a) (aton_part b) (aton_part c) (aton_part d))
     \<and> (\<forall>p \<in> {a, b, c, d}. aton_part p \<le> dec_val p \<and> (hd p \<noteq> CHR ''0'' \<longrightarrow> aton_part p = dec_val p))"
  by (rule accepted_address_is_readable) code_simp

text \<open>
  (C33) \<^verbatim>\<open>inet_aton\<close> reads back what \<^verbatim>\<open>inet_ntoa\<close> printed, for every address.
\<close>

theorem inet_text_roundtrip:
  "inet_aton (inet_ntoa w) = Some w \<and> inet_addr (inet_ntoa w) = w"
  by (simp add: inet_aton_inet_ntoa inet_addr_def)

text \<open>
  The bit trick of \<^verbatim>\<open>isvalid_mask\<close> is right: a text passes exactly when it denotes a mask of
  leading ones that is neither empty nor full.
\<close>

theorem isvalid_mask_exact:
  "isvalid_mask s \<longleftrightarrow> (\<exists>k. 0 < k \<and> k < 32 \<and> inet_aton s = Some (NOT (mask k)))"
  by (rule isvalid_mask_iff)

text \<open>
  On printed addresses of class C \<^verbatim>\<open>isvalidrange\<close> is the test that both lie in the same /24
  network and are in order, whatever the uninitialised bytes of its local structures are, as long
  as the byte after the first octet in \<^verbatim>\<open>findClass\<close> is not a digit.
\<close>

theorem isvalidrange_class_C_exact:
  assumes "junk_stops junk1" "junk_stops junk2"
    and "192 \<le> addr_byte v 0" "addr_byte v 0 \<le> 223" "192 \<le> addr_byte w 0" "addr_byte w 0 \<le> 223"
  shows "isvalidrange junk1 junk2 var1 var2 (inet_ntoa v) (inet_ntoa w)
     = Inr ((\<forall>i < 3. addr_byte v i = addr_byte w i) \<and> addr_byte v 3 \<le> addr_byte w 3)"
proof -
  have inj: "show_nat m = show_nat n \<longleftrightarrow> m = n" for m n
    by (metis dec_val_show_nat)
  have "class_of_octet (addr_byte v 0) = ClassC" "class_of_octet (addr_byte w 0) = ClassC"
    using assms by (simp_all add: class_of_octet_def)
  then show ?thesis
    using isvalidrange_class_C [OF quad_text_inet_ntoa [of v] quad_text_inet_ntoa [of w] assms(1,2)]
    by (simp add: inet_ntoa_dotted inj all_less_3)
qed

theorem isvalidrange_class_C_exact_witness:
  "isvalidrange [] [] \<lparr>network = [], host = []\<rparr> \<lparr>network = [], host = []\<rparr>
       (inet_ntoa (quad 192 168 0 2)) (inet_ntoa (quad 192 168 0 200))
     = Inr ((\<forall>i < 3. addr_byte (quad 192 168 0 2) i = addr_byte (quad 192 168 0 200) i)
         \<and> addr_byte (quad 192 168 0 2) 3 \<le> addr_byte (quad 192 168 0 200) 3)"
  by (rule isvalidrange_class_C_exact) (simp_all add: junk_stops_def addr_byte_quad)

text \<open>
  For classes A and B the comparison is made on digits with the dots turned into zeros, and is
  not the order of addresses: a pool from 172.16.9.200 to 172.16.10.1 is refused, the reversed one
  is accepted.
\<close>

theorem isvalidrange_class_B_misorders:
  "isvalidrange [] [] \<lparr>network = [], host = []\<rparr> \<lparr>network = [], host = []\<rparr>
       ''172.16.9.200'' ''172.16.10.1'' = Inr False
   \<and> isvalidrange [] [] \<lparr>network = [], host = []\<rparr> \<lparr>network = [], host = []\<rparr>
       ''172.16.10.1'' ''172.16.9.200'' = Inr True
   \<and> quad 172 16 9 200 < quad 172 16 10 1"
  by code_simp

text \<open>
  Unless all three leading octets are 254 or 255, \<^verbatim>\<open>change_octal\<close> moves an address to another
  /24 network and keeps its last octet, except that a last octet of 254 or 255 becomes 0 when the
  third octet is the one incremented.
\<close>

theorem change_octal_moves_subnet:
  assumes "\<not> (\<forall>i < 3. 254 \<le> addr_byte w i)"
  shows "(\<exists>i < 3. addr_byte (change_octal w) i \<noteq> addr_byte w i)
     \<and> addr_byte (change_octal w) 3 =
         (if addr_byte w 2 < 254 \<and> 254 \<le> addr_byte w 3 then 0 else addr_byte w 3)"
proof -
  define a b c d where abcd: "a = addr_byte w 0" "b = addr_byte w 1" "c = addr_byte w 2" "d = addr_byte w 3"
  have lt: "a < 256" "b < 256" "c < 256" "d < 256"
    by (simp_all add: abcd)
  have w: "w = quad a b c d"
    unfolding abcd by (rule quad_addr_byte [symmetric])
  consider "c < 254" | "\<not> c < 254" "b < 254" | "\<not> c < 254" "\<not> b < 254" "a < 254"
    using assms unfolding all_less_3 abcd by linarith
  then show ?thesis
    by cases (simp_all add: w ex_less_3 lt change_octal_quad addr_byte_quad [unfolded One_nat_def])
qed

theorem change_octal_moves_subnet_witness:
  "(\<exists>i < 3. addr_byte (change_octal (quad 192 168 0 1)) i \<noteq> addr_byte (quad 192 168 0 1) i)
     \<and> addr_byte (change_octal (quad 192 168 0 1)) 3 =
         (if addr_byte (quad 192 168 0 1) 2 < 254 \<and> 254 \<le> addr_byte (quad 192 168 0 1) 3
          then 0 else addr_byte (quad 192 168 0 1) 3)"
proof (rule change_octal_moves_subnet)
  have "\<not> 254 \<le> addr_byte (quad 192 168 0 1) 0"
    by (simp add: addr_byte_quad)
  then show "\<not> (\<forall>i < 3. 254 \<le> addr_byte (quad 192 168 0 1) i)"
    by (intro notI) simp
qed

text \<open>
  \<^verbatim>\<open>issamesubnet\<close> reports every conflict: a valid WAN address that shares its first three octets
  with the LAN address is found.
\<close>

theorem issamesubnet_detects_conflict:
  assumes "good_host w" and "\<forall>i < 3. addr_byte w i = addr_byte l i"
  shows "issamesubnet (inet_ntoa w) (inet_ntoa l) = Inr True"
  using assms by (rule issamesubnet_same_octets)

theorem issamesubnet_detects_conflict_witness:
  "issamesubnet (inet_ntoa (quad 192 168 0 7)) (inet_ntoa (quad 192 168 0 1)) = Inr True"
  by (rule issamesubnet_detects_conflict)
    (simp_all add: good_host_def all_less_3 addr_byte_quad [unfolded One_nat_def])

text \<open>
  It also reports conflicts that do not exist, because the network text is searched for
  anywhere in the WAN address and without the dot that ends it.
\<close>

theorem issamesubnet_false_conflict:
  "issamesubnet ''192.168.10.5'' ''192.168.1.1'' = Inr True"
  by code_simp

end
