(* ===== verification/Nw_Config.thy ===== *)
theory Nw_Config
  imports Ip_Checks
begin

text \<open>
  The network configuration: the structures of
  \<^verbatim>\<open>packages/net/common/current/include/ecosap_nw_http.h\<close>, their memory image (what is written to
  flash is the bytes of \<^verbatim>\<open>ECOSAP_CONFIG_STRUCT\<close>), and the functions of \<^verbatim>\<open>ecosap_nw.c\<close> that load,
  default, store and change it.

  A record per structure, fields in the order of the source. A character array is its C string; the
  bytes behind its NUL are written as zeros. Multi-byte numbers are big-endian and padding is what
  the MIPS ABI inserts. The two copies of the configuration, \<^verbatim>\<open>ecosap_config_struct\<close> and
  \<^verbatim>\<open>ecosap_new_nw_config\<close>, are fields of the state \<open>nw_state\<close>.

  The build modelled has the components IPTV, PPPoE, bridge, IPFW, DHCP server and DMZ enabled, the
  WAN address of the board is not fixed at build time, and \<^verbatim>\<open>FLASH_VALIDATION\<close> is 0, as in the source.
\<close>

section \<open>Structures\<close>

record bridgeConf =
  inaddr_ip :: u32
  inaddr_mas :: u32
  inaddr_gw :: u32
  inaddr_broad :: u32

record WAN_config_struct =
  wan_IPAddr :: string
  wan_Mask :: string
  wan_Gateway :: string
  wan_DNS :: string
  wan_ADNS :: string
  wan_Broadcast :: string
  wan_Server :: string

record LAN_config_struct =
  lan_IPAddr :: string
  lan_Mask :: string
  lan_Broadcast :: string

record PPPoE_config_struct =
  Username :: string
  Passwd :: string
  MTU :: u16
  Service_Name :: string
  Server_Name :: string
  MAX_Idle_Time :: u32

record DHCP_config_struct =
  dhcps_enable :: u32
  DHCP_From :: string
  DHCP_To :: string
  Lease_Time :: u32

record IPFW_config_struct =
  ipfw_rules :: "string list"
  ipfw_argc :: u32
  is_deleted :: u32

record vpnpt_config_struct =
  is_pptp_enable :: u32
  is_l2tp_enable :: u32
  is_ipsec_enable :: u32

record br_info =
  br_name :: string
  br_intno :: u8
  br_interfaces :: "string list"

record VLAN_config =
  vlan_flag :: u32
  is_tagged :: u32
  inet_value :: u32
  iptv_value :: u32

record DMZ_config =
  dmz_status :: u32
  dmz_host :: string

record WLAN_AP_Config =
  ap_if_idx :: u32
  ap_ssid :: string
  ap_channel :: u32
  ap_bw :: u32
  ap_wlan_mode :: string
  ap_security :: string
  ap_passphrase :: string
  ap_beacon_int :: u32
  ap_wds :: u32

record WLAN_STA_Config =
  sta_if_idx :: u32
  sta_ssid :: string
  sta_security :: string
  sta_passphrase :: string
  sta_wds :: u32

record WLAN_AP_VLAN_IPTV_Config =
  iptv_ssid :: string
  iptv_channel :: u32
  iptv_security :: string
  iptv_passphrase :: string
  iptv_beacon_int :: u32

record WLAN_Default_Config =
  magic_num :: u32
  wlan_op_mode :: string
  ap_config :: WLAN_AP_Config
  vlan_iptv_ap_config :: WLAN_AP_VLAN_IPTV_Config
  sta_config :: WLAN_STA_Config

record ecosap_config_struct =
  mac_addr :: "u8 list"
  Magic_Number :: u32
  Connection_Type :: u32
  lan_status :: u32
  wan_status :: u32
  is_flashrule_full :: u32
  vlan_config :: VLAN_config
  VPNPT_config :: vpnpt_config_struct
  WAN_config_addrs :: WAN_config_struct
  PPPoE_config_values :: PPPoE_config_struct
  bridge_conf :: bridgeConf
  dhcp_server_config :: DHCP_config_struct
  br_info_struct :: br_info
  ipfw_config :: "IPFW_config_struct list"
  dmz_config :: DMZ_config
  igmp_status :: u32
  WLAN_config :: WLAN_Default_Config

definition conn_DHCP :: u32 where "conn_DHCP = 0"
definition conn_PPPoE :: u32 where "conn_PPPoE = 1"
definition conn_STATIC_IP :: u32 where "conn_STATIC_IP = 2"

definition CONFIG_MAGIC_NUM :: u32 where "CONFIG_MAGIC_NUM = 0x210818"
definition CONFIG_WLAN_MAGIC_NUM :: u32 where "CONFIG_WLAN_MAGIC_NUM = 98765"
definition IPADDR_SIZE :: nat where "IPADDR_SIZE = 16"

section \<open>Memory images\<close>

text \<open>An array of \<open>n\<close> elements.\<close>

fun get_list :: "(u8 list \<Rightarrow> 'a \<times> u8 list) \<Rightarrow> nat \<Rightarrow> u8 list \<Rightarrow> 'a list \<times> u8 list" where
  "get_list get 0 bs = ([], bs)"
| "get_list get (Suc n) bs =
     (case get bs of (x, r) \<Rightarrow> case get_list get n r of (xs, r') \<Rightarrow> (x # xs, r'))"

text \<open>The contract of a field or structure layout: reading what was written returns the value and
  leaves the bytes that follow.\<close>

locale layout =
  fixes put :: "'a \<Rightarrow> u8 list" and get :: "u8 list \<Rightarrow> 'a \<times> u8 list" and wf :: "'a \<Rightarrow> bool"
  assumes get_put: "\<And>x r. wf x \<Longrightarrow> get (put x @ r) = (x, r)"
begin

lemma get_list_put:
  "\<forall>x \<in> set xs. wf x \<Longrightarrow> get_list get (length xs) (concat (map put xs) @ r) = (xs, r)"
  by (induction xs) (simp_all add: get_put)

lemma get_array:
  "length xs = n \<Longrightarrow> \<forall>x \<in> set xs. wf x \<Longrightarrow> get_list get n (concat (map put xs) @ r) = (xs, r)"
  using get_list_put by blast

lemma image_unique: "wf x \<Longrightarrow> wf y \<Longrightarrow> put x = put y \<Longrightarrow> x = y"
  using get_put [of x "[]"] get_put [of y "[]"] by simp

end

definition put_u8 :: "u8 \<Rightarrow> u8 list" where
  "put_u8 w = [w]"

definition get_u8 :: "u8 list \<Rightarrow> u8 \<times> u8 list" where
  "get_u8 bs = (hd bs, tl bs)"

definition put_u16 :: "u16 \<Rightarrow> u8 list" where
  "put_u16 w = [ucast (drop_bit 8 w), ucast w]"

definition get_u16 :: "u8 list \<Rightarrow> u16 \<times> u8 list" where
  "get_u16 bs = (push_bit 8 (ucast (bs ! 0)) OR ucast (bs ! 1), drop 2 bs)"

definition put_u32 :: "u32 \<Rightarrow> u8 list" where
  "put_u32 w = [ucast (drop_bit 24 w), ucast (drop_bit 16 w), ucast (drop_bit 8 w), ucast w]"

definition get_u32 :: "u8 list \<Rightarrow> u32 \<times> u8 list" where
  "get_u32 bs =
     (push_bit 24 (ucast (bs ! 0)) OR push_bit 16 (ucast (bs ! 1)) OR push_bit 8 (ucast (bs ! 2))
        OR ucast (bs ! 3), drop 4 bs)"

definition byte_of_char :: "char \<Rightarrow> u8" where
  "byte_of_char c = of_nat (code_of c)"

definition char_of_byte :: "u8 \<Rightarrow> char" where
  "char_of_byte b = char_of (unat b)"

definition put_str :: "nat \<Rightarrow> string \<Rightarrow> u8 list" where
  "put_str n s = take n (map byte_of_char s @ replicate n 0)"

definition get_str :: "nat \<Rightarrow> u8 list \<Rightarrow> string \<times> u8 list" where
  "get_str n bs = (map char_of_byte (takeWhile (\<lambda>b. b \<noteq> 0) (take n bs)), drop n bs)"

definition fits :: "nat \<Rightarrow> string \<Rightarrow> bool" where
  "fits n s \<longleftrightarrow> length s < n \<and> is_cstr s"

definition pad :: "nat \<Rightarrow> u8 list" where
  "pad n = replicate n 0"

definition skip :: "nat \<Rightarrow> u8 list \<Rightarrow> u8 list" where
  "skip n bs = drop n bs"

text \<open>The structures.\<close>

definition put_bridge :: "bridgeConf \<Rightarrow> u8 list" where
  "put_bridge x =
     put_u32 (inaddr_ip x) @ put_u32 (inaddr_mas x) @ put_u32 (inaddr_gw x) @
     put_u32 (inaddr_broad x)"

definition get_bridge :: "u8 list \<Rightarrow> bridgeConf \<times> u8 list" where
  "get_bridge bs =
     (let (v_inaddr_ip, bs) = get_u32 bs;
          (v_inaddr_mas, bs) = get_u32 bs;
          (v_inaddr_gw, bs) = get_u32 bs;
          (v_inaddr_broad, bs) = get_u32 bs
      in (\<lparr> inaddr_ip = v_inaddr_ip, inaddr_mas = v_inaddr_mas, inaddr_gw = v_inaddr_gw,
          inaddr_broad = v_inaddr_broad \<rparr>, bs))"

definition wf_bridge :: "bridgeConf \<Rightarrow> bool" where
  "wf_bridge x \<longleftrightarrow>
     True"

definition put_wan :: "WAN_config_struct \<Rightarrow> u8 list" where
  "put_wan x =
     put_str 16 (wan_IPAddr x) @ put_str 16 (wan_Mask x) @ put_str 16 (wan_Gateway x) @
     put_str 16 (wan_DNS x) @ put_str 16 (wan_ADNS x) @ put_str 16 (wan_Broadcast x) @
     put_str 16 (wan_Server x)"

definition get_wan :: "u8 list \<Rightarrow> WAN_config_struct \<times> u8 list" where
  "get_wan bs =
     (let (v_wan_IPAddr, bs) = get_str 16 bs;
          (v_wan_Mask, bs) = get_str 16 bs;
          (v_wan_Gateway, bs) = get_str 16 bs;
          (v_wan_DNS, bs) = get_str 16 bs;
          (v_wan_ADNS, bs) = get_str 16 bs;
          (v_wan_Broadcast, bs) = get_str 16 bs;
          (v_wan_Server, bs) = get_str 16 bs
      in (\<lparr> wan_IPAddr = v_wan_IPAddr, wan_Mask = v_wan_Mask, wan_Gateway = v_wan_Gateway,
          wan_DNS = v_wan_DNS, wan_ADNS = v_wan_ADNS, wan_Broadcast = v_wan_Broadcast,
          wan_Server = v_wan_Server \<rparr>, bs))"

definition wf_wan :: "WAN_config_struct \<Rightarrow> bool" where
  "wf_wan x \<longleftrightarrow>
     fits 16 (wan_IPAddr x) \<and> fits 16 (wan_Mask x) \<and> fits 16 (wan_Gateway x) \<and>
     fits 16 (wan_DNS x) \<and> fits 16 (wan_ADNS x) \<and> fits 16 (wan_Broadcast x) \<and>
     fits 16 (wan_Server x)"

definition put_pppoe :: "PPPoE_config_struct \<Rightarrow> u8 list" where
  "put_pppoe x =
     put_str 32 (Username x) @ put_str 32 (Passwd x) @ put_u16 (MTU x) @
     put_str 16 (Service_Name x) @ put_str 16 (Server_Name x) @ pad 2 @
     put_u32 (MAX_Idle_Time x)"

definition get_pppoe :: "u8 list \<Rightarrow> PPPoE_config_struct \<times> u8 list" where
  "get_pppoe bs =
     (let (v_Username, bs) = get_str 32 bs;
          (v_Passwd, bs) = get_str 32 bs;
          (v_MTU, bs) = get_u16 bs;
          (v_Service_Name, bs) = get_str 16 bs;
          (v_Server_Name, bs) = get_str 16 bs;
          bs = skip 2 bs;
          (v_MAX_Idle_Time, bs) = get_u32 bs
      in (\<lparr> Username = v_Username, Passwd = v_Passwd, MTU = v_MTU, Service_Name = v_Service_Name,
          Server_Name = v_Server_Name, MAX_Idle_Time = v_MAX_Idle_Time \<rparr>, bs))"

definition wf_pppoe :: "PPPoE_config_struct \<Rightarrow> bool" where
  "wf_pppoe x \<longleftrightarrow>
     fits 32 (Username x) \<and> fits 32 (Passwd x) \<and> fits 16 (Service_Name x) \<and>
     fits 16 (Server_Name x)"

definition put_dhcps :: "DHCP_config_struct \<Rightarrow> u8 list" where
  "put_dhcps x =
     put_u32 (dhcps_enable x) @ put_str 16 (DHCP_From x) @ put_str 16 (DHCP_To x) @
     put_u32 (Lease_Time x)"

definition get_dhcps :: "u8 list \<Rightarrow> DHCP_config_struct \<times> u8 list" where
  "get_dhcps bs =
     (let (v_dhcps_enable, bs) = get_u32 bs;
          (v_DHCP_From, bs) = get_str 16 bs;
          (v_DHCP_To, bs) = get_str 16 bs;
          (v_Lease_Time, bs) = get_u32 bs
      in (\<lparr> dhcps_enable = v_dhcps_enable, DHCP_From = v_DHCP_From, DHCP_To = v_DHCP_To,
          Lease_Time = v_Lease_Time \<rparr>, bs))"

definition wf_dhcps :: "DHCP_config_struct \<Rightarrow> bool" where
  "wf_dhcps x \<longleftrightarrow>
     fits 16 (DHCP_From x) \<and> fits 16 (DHCP_To x)"

definition put_ipfw :: "IPFW_config_struct \<Rightarrow> u8 list" where
  "put_ipfw x =
     concat (map (put_str 24) (ipfw_rules x)) @ put_u32 (ipfw_argc x) @
     put_u32 (is_deleted x)"

definition get_ipfw :: "u8 list \<Rightarrow> IPFW_config_struct \<times> u8 list" where
  "get_ipfw bs =
     (let (v_ipfw_rules, bs) = get_list (get_str 24) 16 bs;
          (v_ipfw_argc, bs) = get_u32 bs;
          (v_is_deleted, bs) = get_u32 bs
      in (\<lparr> ipfw_rules = v_ipfw_rules, ipfw_argc = v_ipfw_argc, is_deleted = v_is_deleted \<rparr>, bs))"

definition wf_ipfw :: "IPFW_config_struct \<Rightarrow> bool" where
  "wf_ipfw x \<longleftrightarrow>
     length (ipfw_rules x) = 16 \<and> (\<forall>e \<in> set (ipfw_rules x). fits 24 e)"

definition put_vpnpt :: "vpnpt_config_struct \<Rightarrow> u8 list" where
  "put_vpnpt x =
     put_u32 (is_pptp_enable x) @ put_u32 (is_l2tp_enable x) @ put_u32 (is_ipsec_enable x)"

definition get_vpnpt :: "u8 list \<Rightarrow> vpnpt_config_struct \<times> u8 list" where
  "get_vpnpt bs =
     (let (v_is_pptp_enable, bs) = get_u32 bs;
          (v_is_l2tp_enable, bs) = get_u32 bs;
          (v_is_ipsec_enable, bs) = get_u32 bs
      in (\<lparr> is_pptp_enable = v_is_pptp_enable, is_l2tp_enable = v_is_l2tp_enable,
          is_ipsec_enable = v_is_ipsec_enable \<rparr>, bs))"

definition wf_vpnpt :: "vpnpt_config_struct \<Rightarrow> bool" where
  "wf_vpnpt x \<longleftrightarrow>
     True"

definition put_br :: "br_info \<Rightarrow> u8 list" where
  "put_br x =
     put_str 16 (br_name x) @ put_u8 (br_intno x) @
     concat (map (put_str 16) (br_interfaces x))"

definition get_br :: "u8 list \<Rightarrow> br_info \<times> u8 list" where
  "get_br bs =
     (let (v_br_name, bs) = get_str 16 bs;
          (v_br_intno, bs) = get_u8 bs;
          (v_br_interfaces, bs) = get_list (get_str 16) 10 bs
      in (\<lparr> br_name = v_br_name, br_intno = v_br_intno, br_interfaces = v_br_interfaces \<rparr>, bs))"

definition wf_br :: "br_info \<Rightarrow> bool" where
  "wf_br x \<longleftrightarrow>
     fits 16 (br_name x) \<and> length (br_interfaces x) = 10 \<and>
     (\<forall>e \<in> set (br_interfaces x). fits 16 e)"

definition put_vlan :: "VLAN_config \<Rightarrow> u8 list" where
  "put_vlan x =
     put_u32 (vlan_flag x) @ put_u32 (is_tagged x) @ put_u32 (inet_value x) @
     put_u32 (iptv_value x)"

definition get_vlan :: "u8 list \<Rightarrow> VLAN_config \<times> u8 list" where
  "get_vlan bs =
     (let (v_vlan_flag, bs) = get_u32 bs;
          (v_is_tagged, bs) = get_u32 bs;
          (v_inet_value, bs) = get_u32 bs;
          (v_iptv_value, bs) = get_u32 bs
      in (\<lparr> vlan_flag = v_vlan_flag, is_tagged = v_is_tagged, inet_value = v_inet_value,
          iptv_value = v_iptv_value \<rparr>, bs))"

definition wf_vlan :: "VLAN_config \<Rightarrow> bool" where
  "wf_vlan x \<longleftrightarrow>
     True"

definition put_dmz :: "DMZ_config \<Rightarrow> u8 list" where
  "put_dmz x =
     put_u32 (dmz_status x) @ put_str 16 (dmz_host x)"

definition get_dmz :: "u8 list \<Rightarrow> DMZ_config \<times> u8 list" where
  "get_dmz bs =
     (let (v_dmz_status, bs) = get_u32 bs;
          (v_dmz_host, bs) = get_str 16 bs
      in (\<lparr> dmz_status = v_dmz_status, dmz_host = v_dmz_host \<rparr>, bs))"

definition wf_dmz :: "DMZ_config \<Rightarrow> bool" where
  "wf_dmz x \<longleftrightarrow>
     fits 16 (dmz_host x)"

definition put_ap :: "WLAN_AP_Config \<Rightarrow> u8 list" where
  "put_ap x =
     put_u32 (ap_if_idx x) @ put_str 36 (ap_ssid x) @ put_u32 (ap_channel x) @
     put_u32 (ap_bw x) @ put_str 16 (ap_wlan_mode x) @ put_str 16 (ap_security x) @
     put_str 65 (ap_passphrase x) @ pad 3 @ put_u32 (ap_beacon_int x) @ put_u32 (ap_wds x)"

definition get_ap :: "u8 list \<Rightarrow> WLAN_AP_Config \<times> u8 list" where
  "get_ap bs =
     (let (v_ap_if_idx, bs) = get_u32 bs;
          (v_ap_ssid, bs) = get_str 36 bs;
          (v_ap_channel, bs) = get_u32 bs;
          (v_ap_bw, bs) = get_u32 bs;
          (v_ap_wlan_mode, bs) = get_str 16 bs;
          (v_ap_security, bs) = get_str 16 bs;
          (v_ap_passphrase, bs) = get_str 65 bs;
          bs = skip 3 bs;
          (v_ap_beacon_int, bs) = get_u32 bs;
          (v_ap_wds, bs) = get_u32 bs
      in (\<lparr> ap_if_idx = v_ap_if_idx, ap_ssid = v_ap_ssid, ap_channel = v_ap_channel, ap_bw = v_ap_bw,
          ap_wlan_mode = v_ap_wlan_mode, ap_security = v_ap_security,
          ap_passphrase = v_ap_passphrase, ap_beacon_int = v_ap_beacon_int, ap_wds = v_ap_wds \<rparr>, bs))"

definition wf_ap :: "WLAN_AP_Config \<Rightarrow> bool" where
  "wf_ap x \<longleftrightarrow>
     fits 36 (ap_ssid x) \<and> fits 16 (ap_wlan_mode x) \<and> fits 16 (ap_security x) \<and>
     fits 65 (ap_passphrase x)"

definition put_sta :: "WLAN_STA_Config \<Rightarrow> u8 list" where
  "put_sta x =
     put_u32 (sta_if_idx x) @ put_str 36 (sta_ssid x) @ put_str 16 (sta_security x) @
     put_str 64 (sta_passphrase x) @ put_u32 (sta_wds x)"

definition get_sta :: "u8 list \<Rightarrow> WLAN_STA_Config \<times> u8 list" where
  "get_sta bs =
     (let (v_sta_if_idx, bs) = get_u32 bs;
          (v_sta_ssid, bs) = get_str 36 bs;
          (v_sta_security, bs) = get_str 16 bs;
          (v_sta_passphrase, bs) = get_str 64 bs;
          (v_sta_wds, bs) = get_u32 bs
      in (\<lparr> sta_if_idx = v_sta_if_idx, sta_ssid = v_sta_ssid, sta_security = v_sta_security,
          sta_passphrase = v_sta_passphrase, sta_wds = v_sta_wds \<rparr>, bs))"

definition wf_sta :: "WLAN_STA_Config \<Rightarrow> bool" where
  "wf_sta x \<longleftrightarrow>
     fits 36 (sta_ssid x) \<and> fits 16 (sta_security x) \<and> fits 64 (sta_passphrase x)"

definition put_iptv_ap :: "WLAN_AP_VLAN_IPTV_Config \<Rightarrow> u8 list" where
  "put_iptv_ap x =
     put_str 36 (iptv_ssid x) @ put_u32 (iptv_channel x) @ put_str 16 (iptv_security x) @
     put_str 65 (iptv_passphrase x) @ pad 3 @ put_u32 (iptv_beacon_int x)"

definition get_iptv_ap :: "u8 list \<Rightarrow> WLAN_AP_VLAN_IPTV_Config \<times> u8 list" where
  "get_iptv_ap bs =
     (let (v_iptv_ssid, bs) = get_str 36 bs;
          (v_iptv_channel, bs) = get_u32 bs;
          (v_iptv_security, bs) = get_str 16 bs;
          (v_iptv_passphrase, bs) = get_str 65 bs;
          bs = skip 3 bs;
          (v_iptv_beacon_int, bs) = get_u32 bs
      in (\<lparr> iptv_ssid = v_iptv_ssid, iptv_channel = v_iptv_channel, iptv_security = v_iptv_security,
          iptv_passphrase = v_iptv_passphrase, iptv_beacon_int = v_iptv_beacon_int \<rparr>, bs))"

definition wf_iptv_ap :: "WLAN_AP_VLAN_IPTV_Config \<Rightarrow> bool" where
  "wf_iptv_ap x \<longleftrightarrow>
     fits 36 (iptv_ssid x) \<and> fits 16 (iptv_security x) \<and>
     fits 65 (iptv_passphrase x)"

definition put_wlan :: "WLAN_Default_Config \<Rightarrow> u8 list" where
  "put_wlan x =
     put_u32 (magic_num x) @ put_str 16 (wlan_op_mode x) @ put_ap (ap_config x) @
     put_iptv_ap (vlan_iptv_ap_config x) @ put_sta (sta_config x)"

definition get_wlan :: "u8 list \<Rightarrow> WLAN_Default_Config \<times> u8 list" where
  "get_wlan bs =
     (let (v_magic_num, bs) = get_u32 bs;
          (v_wlan_op_mode, bs) = get_str 16 bs;
          (v_ap_config, bs) = get_ap bs;
          (v_vlan_iptv_ap_config, bs) = get_iptv_ap bs;
          (v_sta_config, bs) = get_sta bs
      in (\<lparr> magic_num = v_magic_num, wlan_op_mode = v_wlan_op_mode, ap_config = v_ap_config,
          vlan_iptv_ap_config = v_vlan_iptv_ap_config, sta_config = v_sta_config \<rparr>, bs))"

definition wf_wlan :: "WLAN_Default_Config \<Rightarrow> bool" where
  "wf_wlan x \<longleftrightarrow>
     fits 16 (wlan_op_mode x) \<and> wf_ap (ap_config x) \<and>
     wf_iptv_ap (vlan_iptv_ap_config x) \<and> wf_sta (sta_config x)"

definition put_config :: "ecosap_config_struct \<Rightarrow> u8 list" where
  "put_config x =
     concat (map put_u8 (mac_addr x)) @ pad 8 @ put_u32 (Magic_Number x) @
     put_u32 (Connection_Type x) @ put_u32 (lan_status x) @ put_u32 (wan_status x) @
     put_u32 (is_flashrule_full x) @ put_vlan (vlan_config x) @ put_vpnpt (VPNPT_config x) @
     put_wan (WAN_config_addrs x) @ put_pppoe (PPPoE_config_values x) @
     put_bridge (bridge_conf x) @ put_dhcps (dhcp_server_config x) @
     put_br (br_info_struct x) @ pad 3 @ concat (map put_ipfw (ipfw_config x)) @
     put_dmz (dmz_config x) @ put_u32 (igmp_status x) @ pad 24 @ put_wlan (WLAN_config x)"

definition get_config :: "u8 list \<Rightarrow> ecosap_config_struct \<times> u8 list" where
  "get_config bs =
     (let (v_mac_addr, bs) = get_list get_u8 24 bs;
          bs = skip 8 bs;
          (v_Magic_Number, bs) = get_u32 bs;
          (v_Connection_Type, bs) = get_u32 bs;
          (v_lan_status, bs) = get_u32 bs;
          (v_wan_status, bs) = get_u32 bs;
          (v_is_flashrule_full, bs) = get_u32 bs;
          (v_vlan_config, bs) = get_vlan bs;
          (v_VPNPT_config, bs) = get_vpnpt bs;
          (v_WAN_config_addrs, bs) = get_wan bs;
          (v_PPPoE_config_values, bs) = get_pppoe bs;
          (v_bridge_conf, bs) = get_bridge bs;
          (v_dhcp_server_config, bs) = get_dhcps bs;
          (v_br_info_struct, bs) = get_br bs;
          bs = skip 3 bs;
          (v_ipfw_config, bs) = get_list get_ipfw 5 bs;
          (v_dmz_config, bs) = get_dmz bs;
          (v_igmp_status, bs) = get_u32 bs;
          bs = skip 24 bs;
          (v_WLAN_config, bs) = get_wlan bs
      in (\<lparr> mac_addr = v_mac_addr, Magic_Number = v_Magic_Number,
          Connection_Type = v_Connection_Type, lan_status = v_lan_status,
          wan_status = v_wan_status, is_flashrule_full = v_is_flashrule_full,
          vlan_config = v_vlan_config, VPNPT_config = v_VPNPT_config,
          WAN_config_addrs = v_WAN_config_addrs, PPPoE_config_values = v_PPPoE_config_values,
          bridge_conf = v_bridge_conf, dhcp_server_config = v_dhcp_server_config,
          br_info_struct = v_br_info_struct, ipfw_config = v_ipfw_config,
          dmz_config = v_dmz_config, igmp_status = v_igmp_status, WLAN_config = v_WLAN_config \<rparr>, bs))"

definition wf_config :: "ecosap_config_struct \<Rightarrow> bool" where
  "wf_config x \<longleftrightarrow>
     length (mac_addr x) = 24 \<and> wf_vlan (vlan_config x) \<and> wf_vpnpt (VPNPT_config x) \<and>
     wf_wan (WAN_config_addrs x) \<and> wf_pppoe (PPPoE_config_values x) \<and>
     wf_bridge (bridge_conf x) \<and> wf_dhcps (dhcp_server_config x) \<and>
     wf_br (br_info_struct x) \<and> length (ipfw_config x) = 5 \<and>
     (\<forall>e \<in> set (ipfw_config x). wf_ipfw e) \<and> wf_dmz (dmz_config x) \<and>
     wf_wlan (WLAN_config x)"

section \<open>The images can be read back\<close>

named_theorems layout_simps
  \<open>reading back a field that was written\<close>

lemma ucast_parts_u16: "push_bit 8 (ucast (ucast (drop_bit 8 w) :: u8)) OR ucast (ucast w :: u8) = (w :: u16)"
  by (rule bit_word_eqI) (auto simp: bit_or_iff bit_push_bit_iff bit_ucast_iff bit_drop_bit_eq)

lemma ucast_parts_u32:
  "push_bit 24 (ucast (ucast (drop_bit 24 w) :: u8)) OR push_bit 16 (ucast (ucast (drop_bit 16 w) :: u8))
     OR push_bit 8 (ucast (ucast (drop_bit 8 w) :: u8)) OR ucast (ucast w :: u8) = (w :: u32)"
proof (rule bit_word_eqI)
  fix n
  assume "n < LENGTH(32)"
  then consider "n < 8" | "8 \<le> n" "n < 16" | "16 \<le> n" "n < 24" | "24 \<le> n" "n < 32"
    by fastforce
  then show "bit (push_bit 24 (ucast (ucast (drop_bit 24 w) :: u8)) OR push_bit 16 (ucast (ucast (drop_bit 16 w) :: u8))
     OR push_bit 8 (ucast (ucast (drop_bit 8 w) :: u8)) OR ucast (ucast w :: u8) :: u32) n \<longleftrightarrow> bit w n"
    by cases (auto simp: bit_or_iff bit_push_bit_iff bit_ucast_iff bit_drop_bit_eq)
qed

interpretation lay_u8: layout put_u8 get_u8 "\<lambda>_. True"
  by unfold_locales (simp add: put_u8_def get_u8_def)

interpretation lay_u16: layout put_u16 get_u16 "\<lambda>_. True"
  by unfold_locales (simp add: put_u16_def get_u16_def ucast_parts_u16)

interpretation lay_u32: layout put_u32 get_u32 "\<lambda>_. True"
  by unfold_locales (simp add: put_u32_def get_u32_def ucast_parts_u32)

lemma char_byte [simp]: "char_of_byte (byte_of_char c) = c"
  by (simp add: char_of_byte_def byte_of_char_def unat_of_nat take_bit_nat_eq_self code_of_def)

lemma byte_of_char_0: "byte_of_char c = 0 \<longleftrightarrow> c = NUL"
proof -
  have "byte_of_char c = 0 \<longleftrightarrow> code_of c = 0"
  proof
    assume "byte_of_char c = 0"
    then have "unat (of_nat (code_of c) :: u8) = 0"
      by (simp add: byte_of_char_def)
    moreover have "unat (of_nat (code_of c) :: u8) = code_of c"
      using code_of_less_256 [of c] by (intro unat_of_nat_small) simp
    ultimately show "code_of c = 0" by simp
  qed (simp add: byte_of_char_def)
  also have "\<dots> \<longleftrightarrow> c = NUL"
    using code_of_inject [of c NUL] by (simp add: code_of_def)
  finally show ?thesis .
qed

interpretation lay_str: layout "put_str n" "get_str n" "fits n" for n
proof
  fix s r
  assume f: "fits n s"
  have "put_str n s = map byte_of_char s @ replicate (n - length s) 0"
    using f by (simp add: put_str_def fits_def)
  moreover obtain k where "n - length s = Suc k"
    using f by (cases "n - length s") (auto simp: fits_def)
  moreover have "takeWhile (\<lambda>b. b \<noteq> 0) (map byte_of_char s @ 0 # t) = map byte_of_char s" for t
    using f by (subst takeWhile_append2) (auto simp: fits_def is_cstr_def byte_of_char_0)
  ultimately show "get_str n (put_str n s @ r) = (s, r)"
    using f by (simp add: get_str_def fits_def comp_def)
qed

lemma skip_pad [layout_simps]: "skip n (pad n @ bs) = bs"
  by (simp add: pad_def skip_def)

lemmas [layout_simps] = lay_u8.get_put [simplified] lay_u16.get_put [simplified]
  lay_u32.get_put [simplified] lay_str.get_put lay_str.get_array lay_u8.get_array [simplified]

interpretation lay_bridge: layout put_bridge get_bridge wf_bridge
  by unfold_locales (simp add: put_bridge_def get_bridge_def wf_bridge_def layout_simps Let_def)

lemmas [layout_simps] = lay_bridge.get_put

interpretation lay_wan: layout put_wan get_wan wf_wan
  by unfold_locales (simp add: put_wan_def get_wan_def wf_wan_def layout_simps Let_def)

lemmas [layout_simps] = lay_wan.get_put

interpretation lay_pppoe: layout put_pppoe get_pppoe wf_pppoe
  by unfold_locales (simp add: put_pppoe_def get_pppoe_def wf_pppoe_def layout_simps Let_def)

lemmas [layout_simps] = lay_pppoe.get_put

interpretation lay_dhcps: layout put_dhcps get_dhcps wf_dhcps
  by unfold_locales (simp add: put_dhcps_def get_dhcps_def wf_dhcps_def layout_simps Let_def)

lemmas [layout_simps] = lay_dhcps.get_put

interpretation lay_ipfw: layout put_ipfw get_ipfw wf_ipfw
  by unfold_locales (simp add: put_ipfw_def get_ipfw_def wf_ipfw_def layout_simps Let_def)

lemmas [layout_simps] = lay_ipfw.get_put lay_ipfw.get_array

interpretation lay_vpnpt: layout put_vpnpt get_vpnpt wf_vpnpt
  by unfold_locales (simp add: put_vpnpt_def get_vpnpt_def wf_vpnpt_def layout_simps Let_def)

lemmas [layout_simps] = lay_vpnpt.get_put

interpretation lay_br: layout put_br get_br wf_br
  by unfold_locales (simp add: put_br_def get_br_def wf_br_def layout_simps Let_def)

lemmas [layout_simps] = lay_br.get_put

interpretation lay_vlan: layout put_vlan get_vlan wf_vlan
  by unfold_locales (simp add: put_vlan_def get_vlan_def wf_vlan_def layout_simps Let_def)

lemmas [layout_simps] = lay_vlan.get_put

interpretation lay_dmz: layout put_dmz get_dmz wf_dmz
  by unfold_locales (simp add: put_dmz_def get_dmz_def wf_dmz_def layout_simps Let_def)

lemmas [layout_simps] = lay_dmz.get_put

interpretation lay_ap: layout put_ap get_ap wf_ap
  by unfold_locales (simp add: put_ap_def get_ap_def wf_ap_def layout_simps Let_def)

lemmas [layout_simps] = lay_ap.get_put

interpretation lay_sta: layout put_sta get_sta wf_sta
  by unfold_locales (simp add: put_sta_def get_sta_def wf_sta_def layout_simps Let_def)

lemmas [layout_simps] = lay_sta.get_put

interpretation lay_iptv_ap: layout put_iptv_ap get_iptv_ap wf_iptv_ap
  by unfold_locales (simp add: put_iptv_ap_def get_iptv_ap_def wf_iptv_ap_def layout_simps Let_def)

lemmas [layout_simps] = lay_iptv_ap.get_put

interpretation lay_wlan: layout put_wlan get_wlan wf_wlan
  by unfold_locales (simp add: put_wlan_def get_wlan_def wf_wlan_def layout_simps Let_def)

lemmas [layout_simps] = lay_wlan.get_put

interpretation lay_config: layout put_config get_config wf_config
  by unfold_locales (simp add: put_config_def get_config_def wf_config_def layout_simps Let_def)

lemmas [layout_simps] = lay_config.get_put

section \<open>State and store\<close>

text \<open>\<^verbatim>\<open>cyg_flash_setconf\<close> and \<^verbatim>\<open>cyg_flash_getconf\<close>, over a store of type \<open>'f\<close>. The second number is the
  domain; \<open>getconf\<close> returns the bytes that arrived in the caller's buffer.\<close>

record 'f conf_ops =
  setconf :: "u8 list \<Rightarrow> nat \<Rightarrow> 'f \<Rightarrow> (int \<times> 'f) cres"
  getconf :: "nat \<Rightarrow> nat \<Rightarrow> 'f \<Rightarrow> (int \<times> u8 list \<times> 'f) cres"

text \<open>Calls into code that is not part of the repository (the firewall of the kernel, the watchdog) are
  recorded in order in the state. What they return is a parameter, a function of the calls made so
  far.\<close>

datatype ext_call =
    IpfwRulesConfig nat "string list"
  | NatConfig nat nat "string list"
  | IpfwRulesShow
  | EnableDmzRule
  | DisableDmzRule
  | WatchdogReboot

record 'f nw_state =
  config :: ecosap_config_struct
  new_config :: ecosap_config_struct
  LAN_config_addrs :: LAN_config_struct
  is_flash_rule :: int
  ipfw_args :: "string list"
  vlan_names :: "string list"
  store :: 'f
  trace :: "ext_call list"

definition CONFIG_SIZE :: nat where
  "CONFIG_SIZE = 2968"

text \<open>The result also says which of its two messages \<^verbatim>\<open>write_nw_flash\<close> prints: true for success.\<close>

definition write_nw_flash :: "'f conf_ops \<Rightarrow> 'f nw_state \<Rightarrow> (bool \<times> 'f nw_state) cres" where
  "write_nw_flash cops st =
     bind_ok (setconf cops (put_config (new_config st)) 0 (store st)) (\<lambda>(n, f).
     Inr (\<not> n < 0, st\<lparr> store := f \<rparr>))"

definition nw_flash :: "'f conf_ops \<Rightarrow> 'f nw_state \<Rightarrow> 'f nw_state cres" where
  "nw_flash cops st = bind_ok (write_nw_flash cops st) (\<lambda>(_, st'). Inr st')"

definition copy_nw_config_to_new_struct :: "'f nw_state \<Rightarrow> 'f nw_state" where
  "copy_nw_config_to_new_struct st = st\<lparr> new_config := config st \<rparr>"

definition Is_Config_Available :: "'f conf_ops \<Rightarrow> 'f nw_state \<Rightarrow> (int \<times> 'f nw_state) cres" where
  "Is_Config_Available cops st =
     bind_ok (getconf cops CONFIG_SIZE 0 (store st)) (\<lambda>(n, bytes, f).
     let c = (if bytes = [] then config st else fst (get_config bytes));
         st' = st\<lparr> config := c, store := f \<rparr>
     in if n < 0 then Inr (- 1, st')
        else if Magic_Number c = CONFIG_MAGIC_NUM then Inr (1, st')
        else Inr (0, st'))"

section \<open>Defaults\<close>

definition default_rule :: "string list \<Rightarrow> IPFW_config_struct" where
  "default_rule args = \<lparr> ipfw_rules = args @ replicate (16 - length args) [], ipfw_argc = 10, is_deleted = 1 \<rparr>"

definition default_rules :: "IPFW_config_struct list" where
  "default_rules =
     [default_rule [''ipfw'', ''add'', ''140'', ''allow'', ''tcp'', ''from'', ''any'', ''to'', ''any'', ''80''],
      default_rule [''ipfw'', ''add'', ''150'', ''allow'', ''tcp'', ''from'', ''any'', ''80'', ''to'', ''any''],
      default_rule [''ipfw'', ''add'', ''160'', ''allow'', ''udp'', ''from'', ''any'', ''to'', ''any'', ''53''],
      default_rule [''ipfw'', ''add'', ''170'', ''allow'', ''udp'', ''from'', ''any'', ''53'', ''to'', ''any''],
      default_rule [''ipfw'', ''add'', ''180'', ''allow'', ''udp'', ''from'', ''any'', ''to'', ''any'', ''123'']]"

definition default_flash_rule :: "'f nw_state \<Rightarrow> 'f nw_state" where
  "default_flash_rule st =
     st\<lparr> config := (config st)\<lparr> ipfw_config := default_rules \<rparr>,
         new_config := (new_config st)\<lparr> ipfw_config := default_rules \<rparr> \<rparr>"

definition default_mac :: "u8 list" where
  "default_mac =
     [0x00, 0x03, 0x7F, 0xFF, 0xFF, 0xFF, 0x00, 0x03, 0x7F, 0xFF, 0xFF, 0xFE,
      0x8C, 0xFD, 0xF0, 0xAA, 0xBB, 0xCC, 0, 0, 0, 0, 0, 0]"

definition default_wan :: WAN_config_struct where
  "default_wan =
     \<lparr> wan_IPAddr = strlcpy ''172.16.7.50'' IPADDR_SIZE,
       wan_Mask = strlcpy ''255.255.255.0'' IPADDR_SIZE,
       wan_Gateway = strlcpy ''172.16.7.1'' IPADDR_SIZE,
       wan_DNS = strlcpy ''172.16.2.31'' IPADDR_SIZE,
       wan_ADNS = strlcpy ''8.8.4.4'' IPADDR_SIZE,
       wan_Broadcast = strlcpy ''172.16.7.255'' IPADDR_SIZE,
       wan_Server = strlcpy ''172.16.7.166'' IPADDR_SIZE \<rparr>"

definition default_pppoe :: PPPoE_config_struct where
  "default_pppoe =
     \<lparr> Username = strlcpy ''username'' 32, Passwd = strlcpy ''password'' 32, MTU = 1492,
       Service_Name = strlcpy ''Service_Name'' 16, Server_Name = strlcpy ''Server_Name'' 16,
       MAX_Idle_Time = 24 * 60 * 60 \<rparr>"

definition default_dhcps :: DHCP_config_struct where
  "default_dhcps =
     \<lparr> dhcps_enable = 1, DHCP_From = strlcpy ''192.168.0.2'' IPADDR_SIZE,
       DHCP_To = strlcpy ''192.168.0.200'' IPADDR_SIZE, Lease_Time = 24 * 60 * 60 \<rparr>"

definition default_bridge :: bridgeConf where
  "default_bridge =
     \<lparr> inaddr_ip = inet_addr ''192.168.0.1'', inaddr_mas = inet_addr ''255.255.255.0'',
       inaddr_gw = 0, inaddr_broad = inet_addr ''192.168.0.255'' \<rparr>"

definition default_wlan :: WLAN_Default_Config where
  "default_wlan =
     \<lparr> magic_num = CONFIG_WLAN_MAGIC_NUM, wlan_op_mode = ''ap'',
       ap_config = \<lparr> ap_if_idx = 0, ap_ssid = ''hello_tenda'', ap_channel = 6, ap_bw = 40,
         ap_wlan_mode = ''11NG'', ap_security = ''open'', ap_passphrase = ''1234567890'',
         ap_beacon_int = 100, ap_wds = 0 \<rparr>,
       vlan_iptv_ap_config = \<lparr> iptv_ssid = ''hello_tenda_iptv'', iptv_channel = 6,
         iptv_security = ''open'', iptv_passphrase = ''1234567890'', iptv_beacon_int = 100 \<rparr>,
       sta_config = \<lparr> sta_if_idx = 1, sta_ssid = ''hello_tenda'', sta_security = ''open'',
         sta_passphrase = [], sta_wds = 0 \<rparr> \<rparr>"

text \<open>The third argument of the \<^verbatim>\<open>strlcpy\<close> of \<^verbatim>\<open>eth1\<close> is the destination pointer; as a size it does not
  truncate.\<close>

definition default_br :: br_info where
  "default_br =
     \<lparr> br_name = strlcpy ''br0'' 16, br_intno = 1, br_interfaces = ''eth1'' # replicate 9 [] \<rparr>"

definition default_config :: "IPFW_config_struct list \<Rightarrow> ecosap_config_struct" where
  "default_config rules =
     \<lparr> mac_addr = default_mac, Magic_Number = CONFIG_MAGIC_NUM, Connection_Type = conn_DHCP,
       lan_status = 0, wan_status = 0, is_flashrule_full = 0,
       vlan_config = \<lparr> vlan_flag = 0, is_tagged = 0, inet_value = 1, iptv_value = 4 \<rparr>,
       VPNPT_config = \<lparr> is_pptp_enable = 1, is_l2tp_enable = 1, is_ipsec_enable = 1 \<rparr>,
       WAN_config_addrs = default_wan, PPPoE_config_values = default_pppoe,
       bridge_conf = default_bridge, dhcp_server_config = default_dhcps,
       br_info_struct = default_br, ipfw_config = rules,
       dmz_config = \<lparr> dmz_status = 0, dmz_host = strlcpy ''192.168.0.10'' IPADDR_SIZE \<rparr>,
       igmp_status = 0, WLAN_config = default_wlan \<rparr>"

definition empty_rules :: "IPFW_config_struct list" where
  "empty_rules = replicate 5 \<lparr> ipfw_rules = replicate 16 [], ipfw_argc = 0, is_deleted = 0 \<rparr>"

definition ecosap_nw_config_default :: "'f conf_ops \<Rightarrow> 'f nw_state \<Rightarrow> 'f nw_state cres" where
  "ecosap_nw_config_default cops st =
     (let st1 = default_flash_rule (st\<lparr> config := default_config empty_rules \<rparr>) in
      bind_ok (setconf cops (put_config (config st1)) 0 (store st1)) (\<lambda>(n, f).
      Inr (st1\<lparr> store := f \<rparr>)))"

text \<open>\<^verbatim>\<open>ecosap_read_nw_config\<close> prints the configuration; the state it changes is the four VLAN interface
  names. The numbers are printed into buffers of eight bytes.\<close>

definition ecosap_read_nw_config :: "'f nw_state \<Rightarrow> 'f nw_state cres" where
  "ecosap_read_nw_config st =
     (let v = vlan_config (config st);
          VLANID1 = show_int (sint (inet_value v));
          VLANID2 = show_int (sint (iptv_value v));
          VLANID3 = show_nat 3
      in if vlan_flag v \<noteq> 0
         then guard_c (length VLANID1 < 8 \<and> length VLANID2 < 8) OutOfBounds
           (Inr (st\<lparr> vlan_names := [''eth0v'' @ VLANID1, ''eth0v'' @ VLANID2,
                                   ''eth1v'' @ VLANID2, ''eth1v'' @ VLANID3] \<rparr>))
         else Inr st)"

definition ecosap_nw_default_start :: "'f conf_ops \<Rightarrow> 'f nw_state \<Rightarrow> 'f nw_state cres" where
  "ecosap_nw_default_start cops st =
     bind_ok (Is_Config_Available cops st) (\<lambda>(Config_Status, st1).
     bind_ok (if Config_Status = 0 then ecosap_nw_config_default cops st1
              else ecosap_read_nw_config st1) (\<lambda>st2.
     Inr (copy_nw_config_to_new_struct st2)))"

section \<open>Moving the LAN\<close>

text \<open>An address that \<^verbatim>\<open>inet_aton\<close> cannot read leaves the local variable uninitialised.\<close>

definition change_dhcp_pool :: "'f nw_state \<Rightarrow> 'f nw_state cres" where
  "change_dhcp_pool st =
     (let d = dhcp_server_config (new_config st);
          ip = inaddr_ip (bridge_conf (new_config st));
          move = (\<lambda>a. (a AND 0x000000FF) OR (ip AND 0xFFFFFF00))
      in case inet_aton (DHCP_From d) of
           None \<Rightarrow> Inl UninitRead
         | Some dhcp_from \<Rightarrow>
             (case inet_aton (DHCP_To d) of
                None \<Rightarrow> Inl UninitRead
              | Some dhcp_to \<Rightarrow>
                  Inr (st\<lparr> new_config := (new_config st)\<lparr> dhcp_server_config :=
                     d\<lparr> DHCP_From := strlcpy (inet_ntoa (move dhcp_from)) IPADDR_SIZE,
                        DHCP_To := strlcpy (inet_ntoa (move dhcp_to)) IPADDR_SIZE \<rparr> \<rparr> \<rparr>)))"

definition change_lan_subnet :: "'f conf_ops \<Rightarrow> 'f nw_state \<Rightarrow> 'f nw_state cres" where
  "change_lan_subnet cops st =
     (let c = new_config st;
          ip = change_octal (inaddr_ip (bridge_conf c));
          b = (bridge_conf c)\<lparr> inaddr_ip := ip, inaddr_broad := (ip AND 0xFFFFFF00) OR 0x000000FF \<rparr>;
          st1 = st\<lparr> new_config := c\<lparr> bridge_conf := b \<rparr> \<rparr>
      in bind_ok (change_dhcp_pool st1) (\<lambda>st2.
         bind_ok (nw_flash cops st2) (\<lambda>st3.
         Inr (st3\<lparr> trace := trace st3 @ [WatchdogReboot] \<rparr>))))"

section \<open>Well-formed configurations\<close>

lemma length_concat_map:
  "\<forall>x \<in> set xs. length (f x) = k \<Longrightarrow> length (concat (map f xs)) = k * length xs"
  by (induction xs) simp_all

lemma length_fields [simp]:
  "length (put_u8 a) = 1" "length (put_u16 b) = 2" "length (put_u32 c) = 4"
  "length (put_str n s) = n" "length (pad n) = n"
  by (simp_all add: put_u8_def put_u16_def put_u32_def put_str_def pad_def)

lemma length_strs: "length (concat (map (put_str k) xs)) = k * length xs"
  by (rule length_concat_map) simp

lemma length_bytes: "length (concat (map put_u8 xs)) = length xs"
  using length_concat_map [of xs put_u8 1] by simp

lemma length_structs:
  "length (put_bridge br) = 16" "length (put_wan w) = 112" "length (put_pppoe pp) = 104"
  "length (put_dhcps dh) = 40" "length (put_vpnpt vp) = 12" "length (put_vlan vl) = 16"
  "length (put_dmz dm) = 20" "length (put_ap ap) = 156" "length (put_sta sta) = 124"
  "length (put_iptv_ap ia) = 128" "length (put_wlan wl) = 428"
  by (simp_all add: put_bridge_def put_wan_def put_pppoe_def put_dhcps_def put_vpnpt_def put_vlan_def
      put_dmz_def put_ap_def put_sta_def put_iptv_ap_def put_wlan_def)

lemma length_put_config:
  assumes "wf_config c"
  shows "length (put_config c) = CONFIG_SIZE"
proof -
  have "length (put_br (br_info_struct c)) = 177"
    using assms by (simp add: wf_config_def wf_br_def put_br_def length_strs)
  moreover have "\<forall>x \<in> set (ipfw_config c). length (put_ipfw x) = 392"
    using assms by (simp add: wf_config_def wf_ipfw_def put_ipfw_def length_strs)
  then have "length (concat (map put_ipfw (ipfw_config c))) = 392 * length (ipfw_config c)"
    by (rule length_concat_map)
  ultimately show ?thesis
    using assms by (simp add: put_config_def length_structs length_bytes wf_config_def CONFIG_SIZE_def)
qed

lemma get_put_config:
  assumes "wf_config c"
  shows "fst (get_config (put_config c)) = c" "put_config c \<noteq> []"
  using lay_config.get_put [OF assms, of "[]"] length_put_config [OF assms]
  by (auto simp: CONFIG_SIZE_def)

lemma rest_of_bytes: "snd (get_list get_u8 n bs) = drop n bs"
  by (induction n arbitrary: bs) (simp_all add: get_u8_def split_beta drop_Suc)

lemma magic_of_image: "Magic_Number (fst (get_config bs)) = fst (get_u32 (drop 32 bs))"
  by (simp add: get_config_def Let_def split_beta rest_of_bytes skip_def)

lemma wf_default_config: "wf_config (default_config default_rules)"
  by code_simp

text \<open>VLAN numbers that fit the buffers of \<^verbatim>\<open>ecosap_read_nw_config\<close>.\<close>

definition vlan_printable :: "VLAN_config \<Rightarrow> bool" where
  "vlan_printable v \<longleftrightarrow> vlan_flag v = 0 \<or>
     (length (show_int (sint (inet_value v))) < 8 \<and> length (show_int (sint (iptv_value v))) < 8)"

section \<open>A store that keeps what it is given\<close>

locale conf_store =
  fixes cops :: "'f conf_ops" and ok :: "'f \<Rightarrow> bool" and image :: "'f \<Rightarrow> nat \<Rightarrow> u8 list"
  assumes set_ok: "\<And>f b. ok f \<Longrightarrow> length b \<le> 4096 \<Longrightarrow>
        \<exists>f'. setconf cops b 0 f = Inr (int (length b), f') \<and> ok f' \<and> image f' (length b) = b"
    and get_ok: "\<And>f n. ok f \<Longrightarrow> n \<le> 4096 \<Longrightarrow>
        \<exists>f'. getconf cops n 0 f = Inr (0, image f n, f') \<and> ok f' \<and> (\<forall>k. image f' k = image f k)"
begin

text \<open>The store holds the image of the configuration \<open>c\<close>.\<close>

definition holds :: "'f \<Rightarrow> ecosap_config_struct \<Rightarrow> bool" where
  "holds f c \<longleftrightarrow> ok f \<and> image f CONFIG_SIZE = put_config c"

lemma set_holds:
  assumes "ok f" "wf_config c"
  shows "\<exists>f'. setconf cops (put_config c) 0 f = Inr (int CONFIG_SIZE, f') \<and> holds f' c"
  using set_ok [OF assms(1), of "put_config c"] length_put_config [OF assms(2)]
  by (auto simp: holds_def CONFIG_SIZE_def)

lemma write_nw_flash_holds:
  assumes "ok (store st)" "wf_config (new_config st)"
  shows "\<exists>f'. write_nw_flash cops st = Inr (True, st\<lparr> store := f' \<rparr>) \<and> holds f' (new_config st)"
  using set_holds [OF assms] by (auto simp: write_nw_flash_def)

lemma nw_flash_holds:
  assumes "ok (store st)" "wf_config (new_config st)"
  shows "\<exists>f'. nw_flash cops st = Inr (st\<lparr> store := f' \<rparr>) \<and> holds f' (new_config st)"
  using write_nw_flash_holds [OF assms] by (auto simp: nw_flash_def)

lemma config_available:
  assumes "holds (store st) c" "wf_config c"
  shows "\<exists>f'. Is_Config_Available cops st =
       Inr (if Magic_Number c = CONFIG_MAGIC_NUM then 1 else 0, st\<lparr> config := c, store := f' \<rparr>)
     \<and> holds f' c"
proof -
  obtain f' where f': "getconf cops CONFIG_SIZE 0 (store st) = Inr (0, put_config c, f')" "holds f' c"
    using get_ok [of "store st" CONFIG_SIZE] assms(1) by (auto simp: holds_def CONFIG_SIZE_def)
  then show ?thesis
    using get_put_config [OF assms(2)] by (auto simp: Is_Config_Available_def Let_def)
qed

lemma default_start_loads:
  assumes "holds (store st) c" "wf_config c" "Magic_Number c = CONFIG_MAGIC_NUM"
    and "vlan_flag (vlan_config c) = 0 \<or>
      (length (show_int (sint (inet_value (vlan_config c)))) < 8 \<and> length (show_int (sint (iptv_value (vlan_config c)))) < 8)"
  shows "\<exists>st'. ecosap_nw_default_start cops st = Inr st' \<and> config st' = c \<and> new_config st' = c
     \<and> holds (store st') c"
proof -
  obtain f' where "Is_Config_Available cops st = Inr (1, st\<lparr> config := c, store := f' \<rparr>)" "holds f' c"
    using config_available [OF assms(1,2)] assms(3) by auto
  then show ?thesis
    using assms(4)
    by (auto simp: ecosap_nw_default_start_def ecosap_read_nw_config_def copy_nw_config_to_new_struct_def Let_def)
qed

lemma default_start_blank:
  assumes "ok (store st)" and "Magic_Number (fst (get_config (image (store st) CONFIG_SIZE))) \<noteq> CONFIG_MAGIC_NUM"
    and "image (store st) CONFIG_SIZE \<noteq> []"
  shows "\<exists>st'. ecosap_nw_default_start cops st = Inr st' \<and> config st' = default_config default_rules
     \<and> new_config st' = default_config default_rules \<and> holds (store st') (default_config default_rules)"
proof -
  obtain f1 where f1: "getconf cops CONFIG_SIZE 0 (store st) = Inr (0, image (store st) CONFIG_SIZE, f1)" "ok f1"
    using get_ok [OF assms(1), of CONFIG_SIZE] by (auto simp: CONFIG_SIZE_def)
  obtain f2 where f2: "setconf cops (put_config (default_config default_rules)) 0 f1 = Inr (int CONFIG_SIZE, f2)"
    "holds f2 (default_config default_rules)"
    using set_holds [OF f1(2) wf_default_config] by blast
  have "(default_config empty_rules)\<lparr> ipfw_config := default_rules \<rparr> = default_config default_rules"
    by (simp add: default_config_def)
  with f1 f2 assms(2,3) show ?thesis
    by (simp add: ecosap_nw_default_start_def Is_Config_Available_def ecosap_nw_config_default_def
        default_flash_rule_def copy_nw_config_to_new_struct_def Let_def)
qed

end

section \<open>The LAN after a move\<close>

lemma and_low_high_bytes:
  "addr_byte ((a AND 0x000000FF) OR (ip AND 0xFFFFFF00)) 3 = addr_byte a 3"
  "i < 3 \<Longrightarrow> addr_byte ((a AND 0x000000FF) OR (ip AND 0xFFFFFF00)) i = addr_byte ip i"
  "addr_byte ((ip AND 0xFFFFFF00) OR 0x000000FF) 3 = 255"
  "i < 3 \<Longrightarrow> addr_byte ((ip AND 0xFFFFFF00) OR 0x000000FF) i = addr_byte ip i"
proof -
  let ?b = addr_byte
  have a: "a = quad (?b a 0) (?b a 1) (?b a 2) (?b a 3)" and ip: "ip = quad (?b ip 0) (?b ip 1) (?b ip 2) (?b ip 3)"
    by (rule quad_addr_byte [symmetric])+
  have lo: "a AND quad 0 0 0 255 = quad 0 0 0 (?b a 3)"
    by (subst a) (simp add: quad_and byte_and_255)
  have hi: "ip AND quad 255 255 255 0 = quad (?b ip 0) (?b ip 1) (?b ip 2) 0"
    by (subst ip) (simp add: quad_and byte_and_255)
  have m: "(a AND 0x000000FF) OR (ip AND 0xFFFFFF00) = quad (?b ip 0) (?b ip 1) (?b ip 2) (?b a 3)"
    "(ip AND 0xFFFFFF00) OR 0x000000FF = quad (?b ip 0) (?b ip 1) (?b ip 2) 255"
    unfolding quad_masks lo hi by (simp_all add: quad_or)
  show "?b ((a AND 0x000000FF) OR (ip AND 0xFFFFFF00)) 3 = ?b a 3"
    "?b ((ip AND 0xFFFFFF00) OR 0x000000FF) 3 = 255"
    unfolding m by (simp_all add: addr_byte_quad)
  have i3: "i < 3 \<longleftrightarrow> i = 0 \<or> i = 1 \<or> i = 2" by auto
  show "i < 3 \<Longrightarrow> ?b ((a AND 0x000000FF) OR (ip AND 0xFFFFFF00)) i = ?b ip i"
    "i < 3 \<Longrightarrow> ?b ((ip AND 0xFFFFFF00) OR 0x000000FF) i = ?b ip i"
    unfolding m i3 by (auto simp: addr_byte_quad [unfolded One_nat_def])
qed

lemma strlcpy_ntoa: "strlcpy (inet_ntoa w) IPADDR_SIZE = inet_ntoa w"
  using length_inet_ntoa by (simp add: strlcpy_fits IPADDR_SIZE_def)

lemma fits_ntoa: "fits 16 (inet_ntoa w)"
proof -
  have "is_cstr (inet_ntoa w)"
    using show_nat_digits isdigit_not_NUL by (fastforce simp: inet_ntoa_def is_cstr_def)
  then show ?thesis
    using length_inet_ntoa by (simp add: fits_def)
qed

text \<open>The new configuration that \<^verbatim>\<open>change_lan_subnet\<close> writes, and when it is well formed.\<close>

definition moved_config :: "u32 \<Rightarrow> u32 \<Rightarrow> ecosap_config_struct \<Rightarrow> ecosap_config_struct" where
  "moved_config f t c =
     (let ip = change_octal (inaddr_ip (bridge_conf c));
          move = (\<lambda>a. (a AND 0x000000FF) OR (ip AND 0xFFFFFF00))
      in c\<lparr> bridge_conf := (bridge_conf c)\<lparr> inaddr_ip := ip, inaddr_broad := (ip AND 0xFFFFFF00) OR 0x000000FF \<rparr>,
            dhcp_server_config := (dhcp_server_config c)\<lparr> DHCP_From := inet_ntoa (move f), DHCP_To := inet_ntoa (move t) \<rparr> \<rparr>)"

lemma wf_moved_config: "wf_config c \<Longrightarrow> wf_config (moved_config f t c)"
  by (simp add: wf_config_def moved_config_def Let_def wf_bridge_def wf_dhcps_def fits_ntoa)

lemma change_dhcp_pool_moved:
  assumes "inet_aton (DHCP_From (dhcp_server_config (new_config st))) = Some f"
    and "inet_aton (DHCP_To (dhcp_server_config (new_config st))) = Some t"
  shows "change_dhcp_pool (st\<lparr> new_config := (new_config st)\<lparr> bridge_conf := (bridge_conf (new_config st))\<lparr>
           inaddr_ip := change_octal (inaddr_ip (bridge_conf (new_config st))),
           inaddr_broad := (change_octal (inaddr_ip (bridge_conf (new_config st))) AND 0xFFFFFF00) OR 0x000000FF \<rparr> \<rparr> \<rparr>)
     = Inr (st\<lparr> new_config := moved_config f t (new_config st) \<rparr>)"
  using assms by (simp add: change_dhcp_pool_def moved_config_def Let_def strlcpy_ntoa)

context conf_store
begin

lemma change_lan_subnet_holds:
  assumes "ok (store st)" "wf_config (new_config st)"
    and "inet_aton (DHCP_From (dhcp_server_config (new_config st))) = Some f"
    and "inet_aton (DHCP_To (dhcp_server_config (new_config st))) = Some t"
  shows "\<exists>st'. change_lan_subnet cops st = Inr st' \<and> new_config st' = moved_config f t (new_config st)
     \<and> trace st' = trace st @ [WatchdogReboot] \<and> holds (store st') (new_config st')"
proof -
  let ?st2 = "st\<lparr> new_config := moved_config f t (new_config st) \<rparr>"
  obtain f' where "nw_flash cops ?st2 = Inr (?st2\<lparr> store := f' \<rparr>)" "holds f' (new_config ?st2)"
    using nw_flash_holds [of ?st2] assms(1) wf_moved_config [OF assms(2)] by auto
  then show ?thesis
    using change_dhcp_pool_moved [OF assms(3,4)] by (simp add: change_lan_subnet_def Let_def)
qed

end

end
