(* ===== verification/Ipfw_Store.thy ===== *)
theory Ipfw_Store
  imports Nw_Config "HOL-Library.Multiset"
begin

text \<open>
  Firewall rules: the syntax checks on their arguments and the five rule slots of the configuration,
  both of \<^verbatim>\<open>packages/net/common/current/src/ecosap_nw.c\<close>.

  The arguments of a rule are an array of sixteen strings of at most 23 characters. A check that
  edits its argument in place (\<^verbatim>\<open>replace\<close>, \<^verbatim>\<open>strtok\<close>) returns the edited arguments beside its verdict.
  The packet filter itself is not part of the repository: \<^verbatim>\<open>ecosap_nw_ipfw_rules_config\<close> is a recorded
  call whose return value is the parameter \<open>ext_ret\<close>, and the table of rule actions, which it owns,
  is the parameter \<open>rule_actions\<close>.
\<close>

section \<open>What surrounds the program\<close>

text \<open>\<open>stack_junk\<close> and \<open>stack_host\<close> are the stack bytes that \<^verbatim>\<open>findClass\<close> and \<^verbatim>\<open>isvalidrange\<close> read.\<close>

record env =
  ext_ret :: "ext_call list \<Rightarrow> int"
  rule_actions :: "string list"
  stack_junk :: string
  stack_host :: nw_host

definition call_ext :: "env \<Rightarrow> ext_call \<Rightarrow> 'f nw_state \<Rightarrow> int \<times> 'f nw_state" where
  "call_ext env c st =
     (let t = trace st @ [c] in (ext_ret env t, st\<lparr> trace := t \<rparr>))"

definition MAX_IPFW_RULE_ARGC :: nat where "MAX_IPFW_RULE_ARGC = 16"
definition MAX_IPFW_RULE_ARGS_SIZE :: nat where "MAX_IPFW_RULE_ARGS_SIZE = 24"
definition FLASH_IPFW_INDEX_SIZE :: nat where "FLASH_IPFW_INDEX_SIZE = 5"

definition protocol_names :: "string list" where
  "protocol_names =
     [''ip'', ''all'', ''icmp'', ''igmp'', ''ggp'', ''ipencap'', ''st'', ''tcp'', ''egp'', ''pup'',
      ''udp'', ''hmp'', ''xns-idp'', ''rdp'', ''iso-tp4'', ''xtp'', ''ddp'', ''idpr-cmtp'', ''gre'',
      ''esp'', ''ah'', ''ipv6-icmp'', ''rspf'', ''vmtp'', ''ospf'', ''ipip'', ''encap'']"

section \<open>Checks on arguments\<close>

definition replace :: "string \<Rightarrow> string \<Rightarrow> string \<Rightarrow> string" where
  "replace ori_str old_str new_str =
     (case strstr ori_str old_str of
        None \<Rightarrow> ori_str
      | Some pos \<Rightarrow>
          let before = take (length ori_str - length pos) ori_str;
              newlen = length ori_str - length old_str + length new_str
          in if newlen < MAX_IPFW_RULE_ARGS_SIZE
             then before @ new_str @ drop (length old_str) pos
             else ori_str)"

text \<open>An address with a prefix length, after \<^verbatim>\<open>%2F\<close> has been turned into a slash in the argument
  itself.\<close>

definition addr_with_len :: "string \<Rightarrow> bool cres" where
  "addr_with_len buffer =
     (case strtok_step ''/'' buffer of
        None \<Rightarrow> Inr False
      | Some (token, rest) \<Rightarrow>
          bind_ok (isvalid_subnetip token) (\<lambda>ok.
          if \<not> ok then Inr False
          else
            (case strtok_next ''/'' rest of
               None \<Rightarrow> Inr False
             | Some (token2, _) \<Rightarrow>
                 Inr (isvalid_digit token2 \<and> atoi token2 < 32))))"

definition isvalid_addr :: "string \<Rightarrow> (bool \<times> string) cres" where
  "isvalid_addr addr =
     (let addr' = replace addr ''%2F'' ''/'' in
      bind_ok (addr_with_len (strlcpy addr' MAX_IPFW_RULE_ARGS_SIZE)) (\<lambda>b. Inr (b, addr')))"

definition isvalid_ip_mask :: "string \<Rightarrow> bool cres" where
  "isvalid_ip_mask addr = addr_with_len (strlcpy addr 32)"

text \<open>\<^verbatim>\<open>isvalid_ipfw_digit\<close> is \<^verbatim>\<open>isvalid_digit\<close> again.\<close>

definition isvalid_ipfw_digit :: "string \<Rightarrow> bool" where
  "isvalid_ipfw_digit str = isvalid_digit str"

text \<open>\<^verbatim>\<open>strtok\<close> puts a NUL behind the address: what is left of the argument is returned.\<close>

definition isvalidip_port :: "string \<Rightarrow> (bool \<times> string) cres" where
  "isvalidip_port str =
     (case strtok_step '': '' str of
        None \<Rightarrow> Inr (False, str)
      | Some (token1, rest) \<Rightarrow>
          let str' = takeWhile (\<lambda>c. c \<in> set '': '') str @ token1 in
          bind_ok (isvalidip token1) (\<lambda>ok.
          if \<not> ok then Inr (False, str')
          else
            (case strtok_next '':'' rest of
               None \<Rightarrow> Inr (False, str')
             | Some (token2, _) \<Rightarrow> Inr (isvalid_ipfw_digit token2, str'))))"

text \<open>\<^verbatim>\<open>isvalidip(a) || isvalid_addr(a) || !strcmp(a, "any")\<close>, with the edit that \<^verbatim>\<open>isvalid_addr\<close> makes to the
  argument.\<close>

definition rule_endpoint :: "string list \<Rightarrow> nat \<Rightarrow> bool \<Rightarrow> (bool \<times> string list) cres" where
  "rule_endpoint cmd i any_ok =
     bind_ok (isvalidip (cmd ! i)) (\<lambda>b.
     if b then Inr (True, cmd)
     else
       bind_ok (isvalid_addr (cmd ! i)) (\<lambda>(b2, a).
       Inr (b2 \<or> (any_ok \<and> a = ''any''), cmd[i := a])))"

definition isvalid_cmd_add :: "env \<Rightarrow> string list \<Rightarrow> (bool \<times> string list) cres" where
  "isvalid_cmd_add env cmd =
     (let i = (if \<not> isvalid_digit (cmd ! 2) then 2 else 3) in
      if cmd ! i = ''check-state'' then Inr (length (cmd ! (i + 1)) = 0, cmd)
      else if cmd ! i \<notin> set (take 29 (rule_actions env)) then Inr (False, cmd)
      else
        (let i1 = i + 1 in
         if cmd ! (i1 - 1) = ''nat'' \<and> \<not> isvalid_digit (cmd ! i1) then Inr (False, cmd)
         else
           (let i2 = (if cmd ! (i1 - 1) = ''nat'' then i1 + 1 else i1) in
            if cmd ! i2 \<notin> set protocol_names then Inr (False, cmd)
            else if cmd ! (i2 + 1) \<noteq> ''from'' then Inr (False, cmd)
            else
              bind_ok (rule_endpoint cmd (i2 + 2) True) (\<lambda>(src_ok, cmd1).
              if \<not> src_ok then Inr (False, cmd1)
              else
                (let i3 = (if isvalid_digit (cmd1 ! (i2 + 3)) then i2 + 4 else i2 + 3) in
                 if cmd1 ! i3 \<noteq> ''to'' then Inr (False, cmd1)
                 else rule_endpoint cmd1 (i3 + 1) True)))))"

definition isvalid_cmd_nat :: "string list \<Rightarrow> (bool \<times> string list) cres" where
  "isvalid_cmd_nat cmd =
     (if isvalid_digit (cmd ! 2) then
        (if cmd ! 3 = ''config'' then
           (if cmd ! 4 \<in> set protocol_names then rule_endpoint cmd 5 False
            else if cmd ! 4 = ''if'' then Inr (cmd ! 5 = ''eth0'' \<or> cmd ! 5 = ''ppp0'', cmd)
            else Inr (False, cmd))
         else Inr (False, cmd))
      else if cmd ! 2 = ''show'' then Inr (cmd ! 3 = ''config'', cmd)
      else Inr (False, cmd))"

definition isvalid_cmd :: "env \<Rightarrow> string list \<Rightarrow> (bool \<times> string list) cres" where
  "isvalid_cmd env cmd =
     (if cmd ! 0 = ''ipfw'' then
        (if cmd ! 1 = ''add'' then isvalid_cmd_add env cmd
         else if cmd ! 1 = ''nat'' then isvalid_cmd_nat cmd
         else Inr (False, cmd))
      else Inr (False, cmd))"

definition is_valid_nat_cmd :: "string list \<Rightarrow> (bool \<times> string list) cres" where
  "is_valid_nat_cmd cmd =
     (if \<not> isvalid_ipfw_digit (cmd ! 2) then Inr (False, cmd)
      else if cmd ! 3 \<noteq> ''config'' then Inr (False, cmd)
      else if cmd ! 4 \<noteq> ''if'' then Inr (False, cmd)
      else if \<not> (cmd ! 5 = ''ppp0'' \<or> cmd ! 5 = ''eth0'') then Inr (False, cmd)
      else if cmd ! 6 \<noteq> ''redirect_port'' then Inr (False, cmd)
      else if \<not> (cmd ! 7 = ''tcp'' \<or> cmd ! 7 = ''udp'') then Inr (False, cmd)
      else
        bind_ok (isvalidip_port (cmd ! 8)) (\<lambda>(ok, a).
        let cmd' = cmd[8 := a] in
        if \<not> ok then Inr (False, cmd')
        else Inr (isvalid_ipfw_digit (cmd' ! 9), cmd')))"

definition is_valid_nat_config :: "string list \<Rightarrow> bool cres" where
  "is_valid_nat_config arg =
     (if arg ! 0 \<noteq> ''ipfw'' then Inr False
      else if arg ! 1 \<noteq> ''nat'' then Inr False
      else if \<not> isvalid_ipfw_digit (arg ! 2) then Inr False
      else if arg ! 3 \<noteq> ''config'' then Inr False
      else if arg ! 4 = ''ip'' then
        bind_ok (isvalidip (arg ! 5)) (\<lambda>b. if b then Inr True else isvalid_ip_mask (arg ! 5))
      else if arg ! 4 = ''if'' then Inr (arg ! 5 = ''eth0'' \<or> arg ! 5 = ''ppp0'')
      else Inr False)"

section \<open>The slots\<close>

text \<open>\<open>hits\<close> says which slots a loop over the five slots marks as deleted, in both copies.\<close>

definition mark_deleted :: "bool list \<Rightarrow> IPFW_config_struct list \<Rightarrow> IPFW_config_struct list" where
  "mark_deleted hits slots = map2 (\<lambda>h s. if h then s\<lparr> is_deleted := 1 \<rparr> else s) hits slots"

definition mark_both :: "bool list \<Rightarrow> 'f nw_state \<Rightarrow> 'f nw_state" where
  "mark_both hits st =
     st\<lparr> config := (config st)\<lparr> ipfw_config := mark_deleted hits (ipfw_config (config st)) \<rparr>,
         new_config := (new_config st)\<lparr> ipfw_config := mark_deleted hits (ipfw_config (new_config st)) \<rparr> \<rparr>"

definition set_full :: "u32 \<Rightarrow> 'f nw_state \<Rightarrow> 'f nw_state" where
  "set_full v st =
     st\<lparr> config := (config st)\<lparr> is_flashrule_full := v \<rparr>,
         new_config := (new_config st)\<lparr> is_flashrule_full := v \<rparr> \<rparr>"

definition slot_matches :: "string \<Rightarrow> string \<Rightarrow> IPFW_config_struct \<Rightarrow> bool" where
  "slot_matches kind str s \<longleftrightarrow> ipfw_rules s ! 1 = kind \<and> ipfw_rules s ! 2 = str \<and> is_deleted s = 0"

definition delete_rule_from_flash :: "string \<Rightarrow> 'f nw_state \<Rightarrow> 'f nw_state" where
  "delete_rule_from_flash str st =
     (let hits = map (slot_matches ''add'' str) (ipfw_config (config st));
          flag = (if True \<in> set hits then 1 else 0 :: int)
      in set_full (word_of_int flag) ((mark_both hits st)\<lparr> is_flash_rule := flag \<rparr>))"

definition delete_nat_from_flash :: "string \<Rightarrow> 'f nw_state \<Rightarrow> 'f nw_state" where
  "delete_nat_from_flash str st =
     (let hits = map (slot_matches ''nat'' str) (ipfw_config (config st));
          flag = (if True \<in> set hits then 1 else 0 :: int)
      in set_full (word_of_int flag) ((mark_both hits st)\<lparr> is_flash_rule := flag \<rparr>))"

definition cli_http_rule_deletion :: "'f conf_ops \<Rightarrow> 'f nw_state \<Rightarrow> 'f nw_state cres" where
  "cli_http_rule_deletion cops st =
     (if is_flash_rule st = 1 then nw_flash cops (set_full 0 st) else Inr st)"

definition is_flash_ipfw_full :: "'f nw_state \<Rightarrow> bool" where
  "is_flash_ipfw_full st \<longleftrightarrow> (\<forall>s \<in> set (ipfw_config (config st)). is_deleted s \<noteq> 1)"

definition del_duplicate_nat :: "string \<Rightarrow> 'f nw_state \<Rightarrow> 'f nw_state" where
  "del_duplicate_nat ident st =
     mark_both (map (\<lambda>s. ipfw_rules s ! 2 = ident \<and> is_deleted s = 0) (ipfw_config (new_config st))) st"

text \<open>The first free slot of the new configuration.\<close>

fun first_free :: "IPFW_config_struct list \<Rightarrow> nat option" where
  "first_free [] = None"
| "first_free (s # ss) = (if is_deleted s = 1 then Some 0 else map_option Suc (first_free ss))"

definition rule_slot :: "nat \<Rightarrow> string list \<Rightarrow> IPFW_config_struct" where
  "rule_slot argc args =
     \<lparr> ipfw_rules = take argc args @ replicate (MAX_IPFW_RULE_ARGC - argc) [],
       ipfw_argc = of_nat argc, is_deleted = 0 \<rparr>"

definition put_rule :: "nat \<Rightarrow> IPFW_config_struct \<Rightarrow> 'f nw_state \<Rightarrow> 'f nw_state" where
  "put_rule k slot st =
     st\<lparr> config := (config st)\<lparr> ipfw_config := (ipfw_config (config st))[k := slot] \<rparr>,
         new_config := (new_config st)\<lparr> ipfw_config := (ipfw_config (new_config st))[k := slot] \<rparr> \<rparr>"

definition store_rule ::
  "'f conf_ops \<Rightarrow> nat \<Rightarrow> string list \<Rightarrow> 'f nw_state \<Rightarrow> 'f nw_state cres" where
  "store_rule cops argc args st =
     (if is_flash_ipfw_full st then Inr (set_full 1 st)
      else
        (case first_free (ipfw_config (new_config st)) of
           None \<Rightarrow> Inr (set_full 0 st)
         | Some k \<Rightarrow> nw_flash cops (put_rule k (rule_slot argc args) (set_full 0 st))))"

definition write_ipfw_rules_in_flash ::
  "'f conf_ops \<Rightarrow> nat \<Rightarrow> string list \<Rightarrow> 'f nw_state \<Rightarrow> 'f nw_state cres" where
  "write_ipfw_rules_in_flash cops argc args st =
     store_rule cops argc args
       (if args ! 1 = ''nat'' then del_duplicate_nat (args ! 2) st else st)"

section \<open>Flush and zero\<close>

text \<open>The result is the return value, the edited arguments and the state.\<close>

definition do_flush_action ::
  "env \<Rightarrow> 'f conf_ops \<Rightarrow> nat \<Rightarrow> string list \<Rightarrow> 'f nw_state \<Rightarrow> (int \<times> string list \<times> 'f nw_state) cres" where
  "do_flush_action env cops ac flush_arg st =
     (let arg = flush_arg[0 := ''ipfw'', 1 := ''flush''];
          flush = (\<lambda>code. call_ext env (IpfwRulesConfig ac (arg[2 := code])) st);
          finish = (\<lambda>arg st. bind_ok (nw_flash cops st) (\<lambda>st'. Inr (0, arg, st')))
      in if ac \<noteq> 3 then Inr (- 1, arg, st)
         else if arg ! 2 = ''all'' then
           (let (r, st1) = flush ''0'' in
            if r = - 1 then Inr (- 1, arg[2 := ''0''], st1)
            else finish (arg[2 := ''0'']) (set_full 0 (default_flash_rule st1)))
         else if arg ! 2 = ''user'' then
           (let (r, st1) = flush ''1'' in
            if r = - 1 then Inr (- 1, arg[2 := ''1''], st1)
            else finish (arg[2 := ''1''])
                   (set_full 0 (mark_both (replicate 5 True) st1)))
         else if arg ! 2 = ''default'' then
           (let (r, st1) = flush ''2'' in
            if r = - 1 then Inr (- 1, arg[2 := ''2''], st1)
            else finish (arg[2 := ''2'']) st1)
         else Inr (- 1, arg, st))"

definition do_ipfw_zero ::
  "env \<Rightarrow> nat \<Rightarrow> string list \<Rightarrow> 'f nw_state \<Rightarrow> int \<times> 'f nw_state" where
  "do_ipfw_zero env ac args st =
     (if \<exists>i \<in> {2..<ac}. \<not> isvalid_ipfw_digit (args ! i) then (- 1, st)
      else
        (let (r, st1) = call_ext env (IpfwRulesConfig ac args) st in
         if r = - 1 then (- 1, st1) else (0, st1)))"

section \<open>The slots stay in step\<close>

definition slots_wf :: "IPFW_config_struct list \<Rightarrow> bool" where
  "slots_wf slots \<longleftrightarrow> length slots = 5 \<and> (\<forall>s \<in> set slots. wf_ipfw s \<and> (is_deleted s = 0 \<or> is_deleted s = 1))"

text \<open>Both copies of the configuration have the same, well-formed slots.\<close>

definition slots_inv :: "'f nw_state \<Rightarrow> bool" where
  "slots_inv st \<longleftrightarrow>
     ipfw_config (config st) = ipfw_config (new_config st) \<and> slots_wf (ipfw_config (config st))"

definition active :: "ecosap_config_struct \<Rightarrow> string list list" where
  "active c = map ipfw_rules (filter (\<lambda>s. is_deleted s = 0) (ipfw_config c))"

definition args_wf :: "string list \<Rightarrow> bool" where
  "args_wf args \<longleftrightarrow> length args = 16 \<and> (\<forall>a \<in> set args. fits 24 a)"

lemma mark_deleted_map:
  "mark_deleted (map P slots) slots = map (\<lambda>s. if P s then s\<lparr> is_deleted := 1 \<rparr> else s) slots"
  unfolding mark_deleted_def by (induction slots) simp_all

lemma length_mark_deleted: "length (mark_deleted hits slots) = min (length hits) (length slots)"
  by (simp add: mark_deleted_def)

lemma slots_wf_mark:
  assumes "slots_wf slots" "length hits = 5"
  shows "slots_wf (mark_deleted hits slots)"
proof -
  have "wf_ipfw s \<and> (is_deleted s = 0 \<or> is_deleted s = 1)" if "s \<in> set (mark_deleted hits slots)" for s
  proof -
    from that obtain h t where s: "s = (if h then t\<lparr> is_deleted := 1 \<rparr> else t)" and t: "t \<in> set slots"
      by (auto simp: mark_deleted_def dest: set_zip_rightD)
    from t assms(1) have "wf_ipfw t" "is_deleted t = 0 \<or> is_deleted t = 1"
      by (auto simp: slots_wf_def)
    with s show ?thesis
      by (cases h) (simp_all add: wf_ipfw_def)
  qed
  with assms show ?thesis
    by (simp add: slots_wf_def length_mark_deleted)
qed

lemma slots_wf_update:
  assumes "slots_wf slots" "args_wf args" "argc \<le> 16"
  shows "slots_wf (slots[k := rule_slot argc args])"
proof -
  have "wf_ipfw (rule_slot argc args)"
    using assms(2,3)
    by (auto simp: rule_slot_def wf_ipfw_def args_wf_def MAX_IPFW_RULE_ARGC_def fits_def is_cstr_def
        dest: in_set_takeD)
  moreover have "is_deleted (rule_slot argc args) = 0"
    by (simp add: rule_slot_def)
  ultimately show ?thesis
    using assms(1) set_update_subset_insert [of slots k] by (auto simp: slots_wf_def)
qed

lemma slots_inv_store [simp]: "slots_inv (st\<lparr> store := f \<rparr>) = slots_inv st"
  "slots_inv (st\<lparr> trace := t \<rparr>) = slots_inv st" "slots_inv (st\<lparr> is_flash_rule := r \<rparr>) = slots_inv st"
  by (simp_all add: slots_inv_def)

lemma slots_inv_set_full [simp]: "slots_inv (set_full v st) = slots_inv st"
  by (simp add: set_full_def slots_inv_def)

lemma slots_inv_mark_both:
  assumes "slots_inv st" "length hits = 5"
  shows "slots_inv (mark_both hits st)"
  using assms slots_wf_mark by (auto simp: mark_both_def slots_inv_def)

lemma nw_flash_only_store:
  assumes "nw_flash cops st = Inr st'"
  obtains f where "st' = st\<lparr> store := f \<rparr>"
  using assms unfolding nw_flash_def write_nw_flash_def
  by (elim bind_okE) (auto split: prod.splits)

lemma nw_flash_slots_inv: "nw_flash cops st = Inr st' \<Longrightarrow> slots_inv st \<Longrightarrow> slots_inv st'"
  by (elim nw_flash_only_store) simp

lemma slots_wf_default: "slots_wf default_rules"
  by code_simp

text \<open>The contract of an operation on the slots.\<close>

locale slot_operation =
  fixes op :: "'f nw_state \<Rightarrow> 'f nw_state cres"
  assumes keeps: "\<And>st st'. slots_inv st \<Longrightarrow> op st = Inr st' \<Longrightarrow> slots_inv st'"
begin

lemma keeps_five: "slots_inv st \<Longrightarrow> op st = Inr st' \<Longrightarrow> length (ipfw_config (new_config st')) = 5"
  using keeps [of st st'] by (auto simp: slots_inv_def slots_wf_def)

lemma keeps_active: "slots_inv st \<Longrightarrow> op st = Inr st' \<Longrightarrow> active (new_config st') = active (config st')"
  using keeps [of st st'] by (auto simp: slots_inv_def active_def)

lemma keeps_again: "slots_inv st \<Longrightarrow> op st = Inr st1 \<Longrightarrow> op st1 = Inr st2 \<Longrightarrow> slots_inv st2"
  using keeps by blast

end

lemma length_hits: "slots_inv st \<Longrightarrow> length (ipfw_config (config st)) = 5 \<and> length (ipfw_config (new_config st)) = 5"
  by (auto simp: slots_inv_def slots_wf_def)

interpretation op_delete_rule: slot_operation "\<lambda>st. Inr (delete_rule_from_flash str st)" for str
  by unfold_locales (auto simp: delete_rule_from_flash_def Let_def length_hits intro!: slots_inv_mark_both)

interpretation op_delete_nat: slot_operation "\<lambda>st. Inr (delete_nat_from_flash str st)" for str
  by unfold_locales (auto simp: delete_nat_from_flash_def Let_def length_hits intro!: slots_inv_mark_both)

interpretation op_del_duplicate: slot_operation "\<lambda>st. Inr (del_duplicate_nat ident st)" for ident
  by unfold_locales (auto simp: del_duplicate_nat_def length_hits intro!: slots_inv_mark_both)

interpretation op_rule_deletion: slot_operation "cli_http_rule_deletion cops" for cops
  by unfold_locales (auto simp: cli_http_rule_deletion_def split: if_splits dest: nw_flash_slots_inv)

interpretation op_default_rules: slot_operation "\<lambda>st. Inr (default_flash_rule st)"
  by unfold_locales (auto simp: default_flash_rule_def slots_inv_def slots_wf_default)

lemma slots_inv_put_rule:
  assumes "slots_inv st" "args_wf args" "argc \<le> 16"
  shows "slots_inv (put_rule k (rule_slot argc args) st)"
  using assms slots_wf_update [OF _ assms(2,3)] by (auto simp: put_rule_def slots_inv_def)

lemma store_rule_slots_inv:
  assumes "slots_inv st" "args_wf args" "argc \<le> 16" "store_rule cops argc args st = Inr st'"
  shows "slots_inv st'"
proof (cases "is_flash_ipfw_full st")
  case True
  with assms(1,4) show ?thesis
    by (auto simp: store_rule_def)
next
  case False
  with assms show ?thesis
    by (cases "first_free (ipfw_config (new_config st))")
      (auto simp: store_rule_def dest!: nw_flash_slots_inv intro!: slots_inv_put_rule)
qed

lemma write_ipfw_slots_inv:
  assumes "slots_inv st" "args_wf args" "argc \<le> 16" "write_ipfw_rules_in_flash cops argc args st = Inr st'"
  shows "slots_inv st'"
proof (rule store_rule_slots_inv [OF _ assms(2,3)])
  show "slots_inv (if args ! 1 = ''nat'' then del_duplicate_nat (args ! 2) st else st)"
    using assms(1) op_del_duplicate.keeps by (cases "args ! 1 = ''nat''") auto
qed (use assms(4) in \<open>simp add: write_ipfw_rules_in_flash_def\<close>)

interpretation op_write: slot_operation
  "\<lambda>st. if args_wf args \<and> argc \<le> 16 then write_ipfw_rules_in_flash cops argc args st else Inr st" for cops argc args
  by unfold_locales (auto split: if_splits intro: write_ipfw_slots_inv)

lemma call_ext_slots_inv [simp]: "slots_inv (snd (call_ext env c st)) = slots_inv st"
  by (simp add: call_ext_def Let_def)

lemma slots_inv_default_rule: "slots_inv st \<Longrightarrow> slots_inv (default_flash_rule st)"
  using op_default_rules.keeps by blast

lemma do_flush_slots_inv:
  assumes "slots_inv st" "do_flush_action env cops ac arg st = Inr (r, arg', st')"
  shows "slots_inv st'"
  using assms
  unfolding do_flush_action_def call_ext_def Let_def
  by (auto simp: cres_simps split: if_splits dest!: nw_flash_slots_inv
      intro!: slots_inv_mark_both slots_inv_default_rule)

section \<open>Sequences of commands\<close>

text \<open>The steps by which the firewall commands change the slots.\<close>

inductive fw_step :: "env \<Rightarrow> 'f conf_ops \<Rightarrow> 'f nw_state \<Rightarrow> 'f nw_state \<Rightarrow> bool"
  for env :: env and cops :: "'f conf_ops" where
  add_rule: "args_wf args \<Longrightarrow> argc \<le> 16 \<Longrightarrow> write_ipfw_rules_in_flash cops argc args st = Inr st'
     \<Longrightarrow> fw_step env cops st st'"
| delete_rule: "cli_http_rule_deletion cops (delete_rule_from_flash str st) = Inr st'
     \<Longrightarrow> fw_step env cops st st'"
| delete_nat: "cli_http_rule_deletion cops (delete_nat_from_flash str st) = Inr st'
     \<Longrightarrow> fw_step env cops st st'"
| flush: "do_flush_action env cops ac arg st = Inr (r, arg', st') \<Longrightarrow> fw_step env cops st st'"

inductive_cases fw_stepE: "fw_step env cops st st'"

lemma fw_step_slots_inv: "fw_step env cops st st' \<Longrightarrow> slots_inv st \<Longrightarrow> slots_inv st'"
  by (elim fw_stepE)
    (auto intro: write_ipfw_slots_inv do_flush_slots_inv op_rule_deletion.keeps
      op_delete_rule.keeps op_delete_nat.keeps)

lemma fw_steps_slots_inv: "(fw_step env cops)\<^sup>*\<^sup>* st st' \<Longrightarrow> slots_inv st \<Longrightarrow> slots_inv st'"
  by (induction rule: rtranclp_induct) (auto intro: fw_step_slots_inv)

section \<open>What the operations do to the active rules\<close>

lemma first_free_Some:
  "first_free ss = Some k \<Longrightarrow> k < length ss \<and> is_deleted (ss ! k) = 1 \<and> (\<forall>j < k. is_deleted (ss ! j) \<noteq> 1)"
proof (induction ss arbitrary: k)
  case (Cons s ss)
  show ?case
  proof (cases "is_deleted s = 1")
    case False
    with Cons.prems obtain k' where k': "first_free ss = Some k'" "k = Suc k'"
      by auto
    from Cons.IH [OF k'(1)] False k'(2) show ?thesis
      by (auto simp: less_Suc_eq_0_disj)
  qed (use Cons.prems in auto)
qed simp

lemma first_free_None: "first_free ss = None \<longleftrightarrow> (\<forall>s \<in> set ss. is_deleted s \<noteq> 1)"
  by (induction ss) auto

lemma active_mark:
  assumes "ipfw_config c = slots"
  shows "active (c\<lparr> ipfw_config := mark_deleted (map P slots) slots \<rparr>)
     = map ipfw_rules (filter (\<lambda>s. is_deleted s = 0 \<and> \<not> P s) slots)"
proof -
  have "map ipfw_rules (filter (\<lambda>s. is_deleted s = 0) (map (\<lambda>s. if P s then s\<lparr> is_deleted := 1 \<rparr> else s) slots))
      = map ipfw_rules (filter (\<lambda>s. is_deleted s = 0 \<and> \<not> P s) slots)"
    by (induction slots) auto
  then show ?thesis
    by (simp add: active_def mark_deleted_map)
qed

lemma filter_active:
  "map ipfw_rules (filter (\<lambda>s. is_deleted s = 0 \<and> \<not> (Q (ipfw_rules s) \<and> is_deleted s = 0)) slots)
   = filter (\<lambda>r. \<not> Q r) (map ipfw_rules (filter (\<lambda>s. is_deleted s = 0) slots))"
  by (induction slots) auto

lemma active_delete_rule:
  assumes "slots_inv st"
  shows "active (new_config (delete_rule_from_flash str st))
     = filter (\<lambda>r. \<not> (r ! 1 = ''add'' \<and> r ! 2 = str)) (active (new_config st))"
proof -
  have eq: "ipfw_config (config st) = ipfw_config (new_config st)"
    using assms by (simp add: slots_inv_def)
  have "active (new_config (delete_rule_from_flash str st))
      = map ipfw_rules (filter (\<lambda>s. is_deleted s = 0 \<and> \<not> slot_matches ''add'' str s) (ipfw_config (new_config st)))"
    using active_mark [OF refl, where c = "new_config st" and P = "slot_matches ''add'' str"]
    by (simp add: delete_rule_from_flash_def Let_def set_full_def mark_both_def eq active_def)
  then show ?thesis
    using filter_active [of "\<lambda>r. r ! 1 = ''add'' \<and> r ! 2 = str" "ipfw_config (new_config st)"]
    by (simp add: slot_matches_def active_def conj_assoc)
qed

lemma mset_filter_update:
  assumes "k < length xs" "\<not> P (xs ! k)" "P y"
  shows "mset (filter P (xs[k := y])) = add_mset y (mset (filter P xs))"
proof -
  have "xs ! k \<in># mset xs"
    using assms(1) by simp
  then obtain M where M: "mset xs = add_mset (xs ! k) M"
    by (meson multi_member_split)
  have "mset (filter P (xs[k := y])) = filter_mset P (add_mset y M)"
    using assms(1) by (simp add: mset_update M)
  also have "\<dots> = add_mset y (filter_mset P (mset xs))"
    using assms(2,3) by (simp add: M)
  finally show ?thesis by simp
qed

lemma active_put_rule:
  assumes "first_free (ipfw_config (new_config st)) = Some k"
  shows "mset (active (new_config (put_rule k (rule_slot argc args) st)))
     = add_mset (ipfw_rules (rule_slot argc args)) (mset (active (new_config st)))"
proof -
  have k: "k < length (ipfw_config (new_config st))" "is_deleted (ipfw_config (new_config st) ! k) = 1"
    using first_free_Some [OF assms] by simp_all
  have "mset (filter (\<lambda>s. is_deleted s = 0) ((ipfw_config (new_config st))[k := rule_slot argc args]))
      = add_mset (rule_slot argc args) (mset (filter (\<lambda>s. is_deleted s = 0) (ipfw_config (new_config st))))"
    using k by (intro mset_filter_update) (simp_all add: rule_slot_def)
  then have "image_mset ipfw_rules (mset (filter (\<lambda>s. is_deleted s = 0) ((ipfw_config (new_config st))[k := rule_slot argc args])))
      = image_mset ipfw_rules (add_mset (rule_slot argc args) (mset (filter (\<lambda>s. is_deleted s = 0) (ipfw_config (new_config st)))))"
    by simp
  then show ?thesis
    by (simp add: active_def put_rule_def)
qed

lemma set_full_simps [simp]:
  "ipfw_config (new_config (set_full v st)) = ipfw_config (new_config st)"
  "ipfw_config (config (set_full v st)) = ipfw_config (config st)"
  "store (set_full v st) = store st" "trace (set_full v st) = trace st"
  "is_flashrule_full (new_config (set_full v st)) = v"
  by (simp_all add: set_full_def)

lemma full_iff_no_free:
  assumes "slots_inv st"
  shows "is_flash_ipfw_full st \<longleftrightarrow> first_free (ipfw_config (new_config st)) = None"
  using assms by (simp add: is_flash_ipfw_full_def first_free_None slots_inv_def)

section \<open>Checks on printed addresses\<close>

lemma delim_facts:
  "\<not> c_isdigit (CHR ''/'')" "\<not> c_isdigit (CHR '':'')" "\<not> c_isdigit (CHR '' '')"
  by code_simp+

lemma addr_with_len_printed:
  assumes "n < 1000"
  shows "addr_with_len (inet_ntoa w @ CHR ''/'' # show_nat n) = Inr (good_subnet w \<and> n < 32)"
proof -
  have digits: "\<forall>c \<in> set (show_nat n). c_isdigit c"
    by (auto dest: show_nat_digits)
  have t1: "strtok_step ''/'' (inet_ntoa w @ CHR ''/'' # show_nat n) = Some (inet_ntoa w, Some (show_nat n))"
    using inet_ntoa_no_delim [OF delim_facts(1), of w] by (intro strtok_step_first) auto
  have t2: "strtok_step ''/'' (show_nat n) = Some (show_nat n, None)"
    using digits delim_facts(1) by (intro strtok_step_last) auto
  have "atoi (show_nat n) = int n"
    using atoi_digits [OF digits] length_show_nat_le [OF assms] by simp
  with t1 t2 digits show ?thesis
    by (simp add: addr_with_len_def strtok_next_def checks_printed isvalid_digit_iff)
qed

lemma isvalid_ip_mask_printed:
  assumes "n < 1000"
  shows "isvalid_ip_mask (inet_ntoa w @ CHR ''/'' # show_nat n) = Inr (good_subnet w \<and> n < 32)"
proof -
  have "length (inet_ntoa w @ CHR ''/'' # show_nat n) < 32"
    using length_inet_ntoa [of w] length_show_nat_le [OF assms] by simp
  then show ?thesis
    using addr_with_len_printed [OF assms] by (simp add: isvalid_ip_mask_def strlcpy_fits del: length_append)
qed

lemma isvalidip_port_printed:
  "isvalidip_port (inet_ntoa w @ CHR '':'' # show_nat p) = Inr (good_host w, inet_ntoa w)"
proof -
  have digits: "\<forall>c \<in> set (show_nat p). c_isdigit c"
    by (auto dest: show_nat_digits)
  have no: "CHR '':'' \<notin> set (inet_ntoa w)" "CHR '' '' \<notin> set (inet_ntoa w)"
    by (auto dest: inet_ntoa_chars simp: delim_facts)
  have t1: "strtok_step '': '' (inet_ntoa w @ CHR '':'' # show_nat p) = Some (inet_ntoa w, Some (show_nat p))"
    using no by (intro strtok_step_first) auto
  have t2: "strtok_step '':'' (show_nat p) = Some (show_nat p, None)"
    using digits delim_facts(2) by (intro strtok_step_last) auto
  have lead: "takeWhile (\<lambda>c. c \<in> set '': '') (inet_ntoa w @ CHR '':'' # show_nat p) = []"
  proof -
    obtain c cs where c: "inet_ntoa w = c # cs" "c \<noteq> CHR '':''" "c \<noteq> CHR '' ''"
      using no by (cases "inet_ntoa w") auto
    then show ?thesis by simp
  qed
  show ?thesis
    using t1 t2 digits unfolding isvalidip_port_def
    by (simp add: strtok_next_def checks_printed isvalid_digit_iff isvalid_ipfw_digit_def lead [simplified] Let_def)
qed

section \<open>A store in memory\<close>

definition ram_conf_ops :: "u8 list conf_ops" where
  "ram_conf_ops = \<lparr> setconf = (\<lambda>b w f. Inr (int (length b), b)), getconf = (\<lambda>n w f. Inr (0, take n f, f)) \<rparr>"

definition demo_env :: env where
  "demo_env = \<lparr> ext_ret = (\<lambda>_. 0), rule_actions = [''allow'', ''deny'', ''nat''], stack_junk = [],
     stack_host = \<lparr> network = [], host = [] \<rparr> \<rparr>"

definition demo_state :: "u8 list nw_state" where
  "demo_state =
     \<lparr> config = default_config default_rules, new_config = default_config default_rules,
       LAN_config_addrs = \<lparr> lan_IPAddr = [], lan_Mask = [], lan_Broadcast = [] \<rparr>, is_flash_rule = 0,
       ipfw_args = replicate 16 [], vlan_names = replicate 4 [], store = [], trace = [] \<rparr>"

definition demo_args :: "string list" where
  "demo_args = [''ipfw'', ''add'', ''300'', ''allow'', ''ip'', ''from'', ''192.168.0.100'', ''to'', ''any''] @ replicate 7 []"

lemma demo_state_inv: "slots_inv demo_state"
  by (simp add: slots_inv_def demo_state_def default_config_def slots_wf_default)

lemma demo_args_wf: "args_wf demo_args"
  by code_simp

section \<open>Properties\<close>

text \<open>
  (C3) Whatever sequence of firewall commands is run (rules and NAT entries added and deleted, flushes),
  the two copies of the configuration keep the same five well-formed rule slots.
\<close>

theorem fw_commands_keep_slots_in_step:
  assumes "(fw_step env cops)\<^sup>*\<^sup>* st st'" and "slots_inv st"
  shows "slots_inv st'"
  using assms by (rule fw_steps_slots_inv)

theorem fw_commands_keep_slots_in_step_witness:
  "\<exists>st'. (fw_step demo_env ram_conf_ops)\<^sup>*\<^sup>* demo_state st' \<and> st' \<noteq> demo_state \<and> slots_inv st'"
proof -
  obtain st' where w: "write_ipfw_rules_in_flash ram_conf_ops 9 demo_args demo_state = Inr st'" "store st' \<noteq> []"
  proof -
    have "write_ipfw_rules_in_flash ram_conf_ops 9 demo_args demo_state
        = nw_flash ram_conf_ops (put_rule 0 (rule_slot 9 demo_args) (set_full 0 demo_state))"
      by (simp add: write_ipfw_rules_in_flash_def store_rule_def is_flash_ipfw_full_def demo_args_def
          demo_state_def default_config_def default_rules_def default_rule_def)
    moreover have "put_config c \<noteq> []" for c
      by (simp add: put_config_def pad_def)
    ultimately show thesis
      by (intro that) (auto simp: nw_flash_def write_nw_flash_def ram_conf_ops_def)
  qed
  have "(fw_step demo_env ram_conf_ops)\<^sup>*\<^sup>* demo_state st'"
    by (rule r_into_rtranclp, rule fw_step.add_rule [OF demo_args_wf _ w(1)]) simp
  moreover have "st' \<noteq> demo_state"
    using w(2) by (auto simp: demo_state_def)
  ultimately show ?thesis
    using fw_commands_keep_slots_in_step [OF _ demo_state_inv] by blast
qed





text \<open>
  \<^verbatim>\<open>isvalid_ip_mask\<close> and \<^verbatim>\<open>isvalidip_port\<close> on texts built from an address and a number: the first
  accepts exactly the subnet addresses with a prefix length below 32, the second accepts exactly the
  host addresses, and cuts its argument down to the address.
\<close>

theorem rule_argument_checks_exact:
  assumes "n < 1000"
  shows "isvalid_ip_mask (inet_ntoa w @ CHR ''/'' # show_nat n) = Inr (good_subnet w \<and> n < 32)
     \<and> isvalidip_port (inet_ntoa w @ CHR '':'' # show_nat p) = Inr (good_host w, inet_ntoa w)"
  using isvalid_ip_mask_printed [OF assms] isvalidip_port_printed by blast

theorem rule_argument_checks_exact_witness:
  "isvalid_ip_mask (inet_ntoa (quad 10 0 0 0) @ CHR ''/'' # show_nat 8) = Inr (good_subnet (quad 10 0 0 0) \<and> 8 < (32 :: nat))
     \<and> isvalidip_port (inet_ntoa (quad 10 0 0 0) @ CHR '':'' # show_nat 22) = Inr (good_host (quad 10 0 0 0), inet_ntoa (quad 10 0 0 0))"
  by (rule rule_argument_checks_exact) simp

end
