(* ===== verification/Cli_Commands.thy ===== *)
theory Cli_Commands
  imports Ipfw_Store
begin

text \<open>
  The configuration commands of the shell, \<^verbatim>\<open>ecosap/shell/cli_utils.c\<close>. A command takes its arguments
  (\<^verbatim>\<open>argc\<close> is their number, as the shell passes them) and returns its exit code and the new state.
  Messages are not modelled; the return of every error branch is. The mutexes are not modelled:
  commands are run one at a time by the shell.
\<close>

definition SHELL_OK :: int where "SHELL_OK = 0"
definition SHELL_INVALID_ARGUMENT :: int where "SHELL_INVALID_ARGUMENT = 3"

type_synonym 'f command = "string list \<Rightarrow> 'f nw_state \<Rightarrow> (int \<times> 'f nw_state) cres"

definition save :: "'f conf_ops \<Rightarrow> int \<Rightarrow> ecosap_config_struct \<Rightarrow> 'f nw_state \<Rightarrow> (int \<times> 'f nw_state) cres" where
  "save cops code c st = bind_ok (nw_flash cops (st\<lparr> new_config := c \<rparr>)) (\<lambda>st'. Inr (code, st'))"

section \<open>IPTV and VPN\<close>

definition setiptvconfig :: "'f conf_ops \<Rightarrow> 'f command" where
  "setiptvconfig cops argv st =
     (let c = new_config st; argc = length argv in
      if argc = 0 then Inr (SHELL_INVALID_ARGUMENT, st)
      else if argv ! 0 = ''enable'' \<and> argc = 3 then
        (if isvalid_digit (argv ! 1) then
           (let vlan_id = (word_of_int (atoi (argv ! 1)) :: u32) in
            if \<not> (vlan_id \<ge> 4 \<and> vlan_id \<le> 4096) then Inr (SHELL_INVALID_ARGUMENT, st)
            else if argv ! 2 = ''access'' \<or> argv ! 2 = ''trunk'' then
              save cops SHELL_OK
                (c\<lparr> vlan_config := (vlan_config c)\<lparr> vlan_flag := 1,
                     is_tagged := (if argv ! 2 = ''access'' then 0 else 1),
                     iptv_value := vlan_id \<rparr> \<rparr>) st
            else Inr (SHELL_INVALID_ARGUMENT, st))
         else Inr (SHELL_INVALID_ARGUMENT, st))
      else if argv ! 0 = ''disable'' \<and> argc = 1 then
        save cops SHELL_OK (c\<lparr> vlan_config := (vlan_config c)\<lparr> vlan_flag := 0 \<rparr> \<rparr>) st
      else Inr (SHELL_INVALID_ARGUMENT, st))"

definition vpn_passthrough :: "'f conf_ops \<Rightarrow> 'f command" where
  "vpn_passthrough cops argv st =
     (let c = new_config st; v = VPNPT_config c in
      if length argv \<noteq> 2 then Inr (SHELL_INVALID_ARGUMENT, st)
      else if argv ! 1 \<noteq> ''enable'' \<and> argv ! 1 \<noteq> ''disable'' then Inr (SHELL_INVALID_ARGUMENT, st)
      else
        (let is_enable = (if argv ! 1 = ''enable'' then 1 else 0) in
         if argv ! 0 = ''pptp'' then save cops SHELL_OK (c\<lparr> VPNPT_config := v\<lparr> is_pptp_enable := is_enable \<rparr> \<rparr>) st
         else if argv ! 0 = ''l2tp'' then save cops SHELL_OK (c\<lparr> VPNPT_config := v\<lparr> is_l2tp_enable := is_enable \<rparr> \<rparr>) st
         else if argv ! 0 = ''ipsec'' then save cops SHELL_OK (c\<lparr> VPNPT_config := v\<lparr> is_ipsec_enable := is_enable \<rparr> \<rparr>) st
         else Inr (SHELL_INVALID_ARGUMENT, st)))"

definition make_default :: "'f conf_ops \<Rightarrow> 'f command" where
  "make_default cops argv st =
     bind_ok (ecosap_nw_config_default cops st) (\<lambda>st1.
     Inr (SHELL_OK, st1\<lparr> trace := trace st1 @ [WatchdogReboot] \<rparr>))"

definition wflash :: "'f conf_ops \<Rightarrow> 'f command" where
  "wflash cops argv st = save cops SHELL_OK (new_config st) st"

section \<open>WAN\<close>

record ppp_opts =
  ppp_username :: "string option"
  ppp_password :: "string option"
  ppp_mtu :: u16

text \<open>The option loops go through the arguments in pairs. \<open>None\<close>: an option or a value was refused.\<close>

fun parse_ppp :: "string list \<Rightarrow> ppp_opts \<Rightarrow> ppp_opts option" where
  "parse_ppp (opt # v # rest) p =
     (if opt = ''-U'' then parse_ppp rest (p\<lparr> ppp_username := Some v \<rparr>)
      else if opt = ''-P'' then parse_ppp rest (p\<lparr> ppp_password := Some v \<rparr>)
      else if opt = ''-M'' then
        (if isvalid_digit v then
           (let mtu = (word_of_int (atoi v) :: u16) in
            if is_valid_mtu mtu then parse_ppp rest (p\<lparr> ppp_mtu := mtu \<rparr>) else None)
         else None)
      else None)"
| "parse_ppp _ p = Some p"

record static_opts =
  static_ip :: "string option"
  static_mask :: "string option"
  static_gateway :: "string option"
  static_dns :: "string option"
  static_adns :: "string option"
  static_server :: "string option"

fun parse_static :: "string list \<Rightarrow> static_opts \<Rightarrow> static_opts option cres" where
  "parse_static (opt # v # rest) s =
     (if opt = ''-I'' then
        bind_ok (isvalidip v) (\<lambda>b. if b then parse_static rest (s\<lparr> static_ip := Some v \<rparr>) else Inr None)
      else if opt = ''-G'' then
        bind_ok (isvalidip v) (\<lambda>b. if b then parse_static rest (s\<lparr> static_gateway := Some v \<rparr>) else Inr None)
      else if opt = ''-M'' then
        (if isvalid_mask v then parse_static rest (s\<lparr> static_mask := Some v \<rparr>) else Inr None)
      else if opt = ''-D1'' then
        bind_ok (isvalidip v) (\<lambda>b. if b then parse_static rest (s\<lparr> static_dns := Some v \<rparr>) else Inr None)
      else if opt = ''-D2'' then
        bind_ok (isvalidip v) (\<lambda>b. if b then parse_static rest (s\<lparr> static_adns := Some v \<rparr>) else Inr None)
      else if opt = ''-S'' then
        bind_ok (isvalidip v) (\<lambda>b. if b then parse_static rest (s\<lparr> static_server := Some v \<rparr>) else Inr None)
      else Inr None)"
| "parse_static _ s = Inr (Some s)"

text \<open>A use of a pointer that may be NULL.\<close>

definition deref :: "'a option \<Rightarrow> 'a cres" where
  "deref p = (case p of None \<Rightarrow> Inl NullDeref | Some x \<Rightarrow> Inr x)"

definition is_lan_ip :: "string option \<Rightarrow> 'f nw_state \<Rightarrow> bool" where
  "is_lan_ip p st \<longleftrightarrow> (case p of None \<Rightarrow> False | Some s \<Rightarrow> inet_addr s = inaddr_ip (bridge_conf (config st)))"

definition set_wan_pppoe :: "'f conf_ops \<Rightarrow> 'f command" where
  "set_wan_pppoe cops argv st =
     (let c = new_config st in
      if length argv \<noteq> 7 then Inr (SHELL_INVALID_ARGUMENT, st)
      else
        (case parse_ppp (tl argv) \<lparr> ppp_username = None, ppp_password = None, ppp_mtu = 0 \<rparr> of
           None \<Rightarrow> Inr (SHELL_INVALID_ARGUMENT, st)
         | Some p \<Rightarrow>
             bind_ok (deref (ppp_username p)) (\<lambda>u.
             bind_ok (deref (ppp_password p)) (\<lambda>w.
             save cops SHELL_OK
               (c\<lparr> Connection_Type := conn_PPPoE,
                    PPPoE_config_values := (PPPoE_config_values c)\<lparr> Username := strlcpy u 32,
                      Passwd := strlcpy w 32, MTU := ppp_mtu p \<rparr> \<rparr>) st))))"

definition set_wan_static :: "'f conf_ops \<Rightarrow> 'f command" where
  "set_wan_static cops argv st =
     (let c = new_config st in
      if length argv \<noteq> 13 then Inr (SHELL_INVALID_ARGUMENT, st)
      else
        bind_ok (parse_static (tl argv) \<lparr> static_ip = None, static_mask = None, static_gateway = None,
                   static_dns = None, static_adns = None, static_server = None \<rparr>) (\<lambda>r.
        case r of
          None \<Rightarrow> Inr (0, st)
        | Some s \<Rightarrow>
            if is_lan_ip (static_ip s) st \<or> is_lan_ip (static_dns s) st \<or> is_lan_ip (static_adns s) st
            then Inr (0, st)
            else
              bind_ok (deref (static_ip s)) (\<lambda>ip.
              bind_ok (deref (static_mask s)) (\<lambda>m.
              case gen_broadcast_addr ip m of
                None \<Rightarrow> Inr (1, st)
              | Some bcast \<Rightarrow>
                  bind_ok (issamesubnet ip (inet_ntoa (inaddr_ip (bridge_conf (config st))))) (\<lambda>same.
                  if same then Inr (0, st)
                  else
                    bind_ok (deref (static_gateway s)) (\<lambda>gw.
                    bind_ok (deref (static_dns s)) (\<lambda>d1.
                    bind_ok (deref (static_adns s)) (\<lambda>d2.
                    bind_ok (deref (static_server s)) (\<lambda>srv.
                    save cops SHELL_OK
                      (c\<lparr> Connection_Type := conn_STATIC_IP,
                           WAN_config_addrs := \<lparr> wan_IPAddr = strlcpy ip 16, wan_Mask = strlcpy m 16,
                             wan_Gateway = strlcpy gw 16, wan_DNS = strlcpy d1 16, wan_ADNS = strlcpy d2 16,
                             wan_Broadcast = strlcpy bcast 16, wan_Server = strlcpy srv 16 \<rparr> \<rparr>) st)))))))))"

definition set_wan_config :: "'f conf_ops \<Rightarrow> 'f command" where
  "set_wan_config cops argv st =
     (if length argv < 1 then Inr (0, st)
      else if argv ! 0 = ''-h'' then Inr (SHELL_INVALID_ARGUMENT, st)
      else if argv ! 0 = ''0'' then
        (if length argv > 2 then Inr (SHELL_INVALID_ARGUMENT, st)
         else save cops 0 ((new_config st)\<lparr> Connection_Type := conn_DHCP \<rparr>) st)
      else if argv ! 0 = ''1'' then set_wan_pppoe cops argv st
      else if argv ! 0 = ''2'' then set_wan_static cops argv st
      else Inr (SHELL_OK, st))"

section \<open>LAN and DHCP server\<close>

definition aton_unchecked :: "string \<Rightarrow> u32 cres" where
  "aton_unchecked s = (case inet_aton s of None \<Rightarrow> Inl UninitRead | Some w \<Rightarrow> Inr w)"

definition set_lan_config :: "env \<Rightarrow> 'f conf_ops \<Rightarrow> 'f command" where
  "set_lan_config env cops argv st =
     (if length argv < 1 then Inr (0, st)
      else
        bind_ok (isvalidip (argv ! 0)) (\<lambda>ok.
        if \<not> ok then Inr (- 1, st)
        else
          (let ip = strlcpy (argv ! 0) 16;
               st1 = st\<lparr> LAN_config_addrs := (LAN_config_addrs st)\<lparr> lan_IPAddr := ip \<rparr> \<rparr>
           in
           bind_ok (issamesubnet (wan_IPAddr (WAN_config_addrs (config st))) ip) (\<lambda>same.
           if same then Inr (0, st1)
           else
             bind_ok (findClass (stack_junk env) ip) (\<lambda>class_type.
             case set_lanmask class_type of
               None \<Rightarrow> Inr (- 1, st1)
             | Some m \<Rightarrow>
                 (let st2 = st1\<lparr> LAN_config_addrs := (LAN_config_addrs st1)\<lparr> lan_Mask := m \<rparr> \<rparr> in
                  case gen_broadcast_addr ip m of
                    None \<Rightarrow> Inr (- 1, st2)
                  | Some b \<Rightarrow>
                      (let st3 = st2\<lparr> LAN_config_addrs := (LAN_config_addrs st2)\<lparr> lan_Broadcast := b \<rparr> \<rparr>;
                           c = new_config st3
                       in
                       bind_ok (aton_unchecked ip) (\<lambda>addr1.
                       bind_ok (aton_unchecked b) (\<lambda>addr2.
                       bind_ok (aton_unchecked m) (\<lambda>addr3.
                       bind_ok (change_dhcp_pool (st3\<lparr> new_config := c\<lparr> bridge_conf := (bridge_conf c)\<lparr>
                           inaddr_ip := addr1, inaddr_broad := addr2, inaddr_mas := addr3 \<rparr> \<rparr> \<rparr>)) (\<lambda>st4.
                       bind_ok (nw_flash cops st4) (\<lambda>st5. Inr (SHELL_OK, st5)))))))))))))"

record dhcp_opts =
  opt_ip1 :: "string option"
  opt_ip2 :: "string option"
  opt_ltime :: u32

fun parse_dhcp :: "string list \<Rightarrow> dhcp_opts \<Rightarrow> dhcp_opts option cres" where
  "parse_dhcp (opt # v # rest) d =
     (if opt = ''-S'' then
        bind_ok (isvalidip v) (\<lambda>b. if b then parse_dhcp rest (d\<lparr> opt_ip1 := Some v \<rparr>) else Inr None)
      else if opt = ''-E'' then
        bind_ok (isvalidip v) (\<lambda>b. if b then parse_dhcp rest (d\<lparr> opt_ip2 := Some v \<rparr>) else Inr None)
      else if opt = ''-T'' then
        (if isvalidTime (word_of_int (atoi v)) then parse_dhcp rest (d\<lparr> opt_ltime := word_of_int (atoi v) \<rparr>)
         else Inr None)
      else Inr None)"
| "parse_dhcp _ d = Inr (Some d)"

definition in_range :: "env \<Rightarrow> string \<Rightarrow> string \<Rightarrow> bool cres" where
  "in_range env a b =
     isvalidrange (stack_junk env) (stack_junk env) (stack_host env) (stack_host env) a b"

definition dhcp_serv_config :: "env \<Rightarrow> 'f conf_ops \<Rightarrow> 'f command" where
  "dhcp_serv_config env cops argv st =
     (let c = new_config st in
      if length argv < 2 then Inr (0, st)
      else if argv ! 0 = ''-h'' then Inr (0, st)
      else if length argv \<noteq> 6 then Inr (SHELL_OK, st)
      else
        bind_ok (parse_dhcp argv \<lparr> opt_ip1 = None, opt_ip2 = None, opt_ltime = 0 \<rparr>) (\<lambda>r.
        case r of
          None \<Rightarrow> Inr (0, st)
        | Some d \<Rightarrow>
            (case (opt_ip1 d, opt_ip2 d) of
               (Some ip1, Some ip2) \<Rightarrow>
                 bind_ok (in_range env ip1 ip2) (\<lambda>ok.
                 if ok then
                   save cops SHELL_OK
                     (c\<lparr> dhcp_server_config := (dhcp_server_config c)\<lparr> DHCP_From := strlcpy ip1 16,
                          DHCP_To := strlcpy ip2 16, Lease_Time := opt_ltime d \<rparr> \<rparr>) st
                 else Inr (SHELL_INVALID_ARGUMENT, st))
             | _ \<Rightarrow> Inr (SHELL_INVALID_ARGUMENT, st))))"

definition start_dhcpd :: "'f conf_ops \<Rightarrow> 'f command" where
  "start_dhcpd cops argv st =
     (let c = new_config st in
      if length argv = 1 then
        (if argv ! 0 = ''enable'' then
           save cops SHELL_OK (c\<lparr> dhcp_server_config := (dhcp_server_config c)\<lparr> dhcps_enable := 1 \<rparr> \<rparr>) st
         else if argv ! 0 = ''disable'' then
           save cops SHELL_OK (c\<lparr> dhcp_server_config := (dhcp_server_config c)\<lparr> dhcps_enable := 0 \<rparr> \<rparr>) st
         else Inr (SHELL_INVALID_ARGUMENT, st))
      else Inr (SHELL_OK, st))"

text \<open>\<^verbatim>\<open>route add\<close> only checks and prints its arguments.\<close>

fun route_args_ok :: "string list \<Rightarrow> bool cres" where
  "route_args_ok (opt # v # rest) =
     (if opt = ''-I'' \<or> opt = ''-M'' \<or> opt = ''-G'' then
        bind_ok (isvalidip v) (\<lambda>b. if b then route_args_ok rest else Inr False)
      else Inr False)"
| "route_args_ok _ = Inr True"

definition route_add :: "'f command" where
  "route_add argv st =
     (if length argv \<noteq> 7 then Inr (SHELL_INVALID_ARGUMENT, st)
      else if argv ! 0 \<noteq> ''add'' then Inr (SHELL_INVALID_ARGUMENT, st)
      else bind_ok (route_args_ok (tl argv)) (\<lambda>ok.
        Inr (if ok then SHELL_OK else SHELL_INVALID_ARGUMENT, st)))"

section \<open>DMZ and IGMP\<close>

text \<open>\<^verbatim>\<open>strncmp(word, arg, strlen(arg)) == 0\<close>: the argument is a prefix of the word.\<close>

definition abbreviates :: "string \<Rightarrow> string \<Rightarrow> bool" where
  "abbreviates arg word \<longleftrightarrow> take (length arg) word = arg"

definition dmz_config_cmd :: "env \<Rightarrow> 'f conf_ops \<Rightarrow> 'f command" where
  "dmz_config_cmd env cops argv st =
     (let from_ip = strlcpy (DHCP_From (dhcp_server_config (config st))) 16;
          to_ip = strlcpy (DHCP_To (dhcp_server_config (config st))) 16;
          c = new_config st
      in
      if length argv = 1 then
        (if abbreviates (argv ! 0) ''disable'' then
           (if dmz_status (dmz_config c) = 1 then
              bind_ok (nw_flash cops (st\<lparr> new_config := c\<lparr> dmz_config := (dmz_config c)\<lparr> dmz_status := 0 \<rparr> \<rparr> \<rparr>)) (\<lambda>st1.
              let (r, st2) = call_ext env DisableDmzRule st1 in
              Inr (if r \<noteq> 0 then - 1 else SHELL_OK, st2))
            else Inr (SHELL_OK, st))
         else Inr (SHELL_OK, st))
      else if length argv = 2 then
        (if abbreviates (argv ! 0) ''enable'' then
           bind_ok (isvalidip (argv ! 1)) (\<lambda>ok.
           if \<not> ok then Inr (SHELL_INVALID_ARGUMENT, st)
           else
             (let dmz_h = strlcpy (argv ! 1) 16 in
              bind_ok (in_range env from_ip dmz_h) (\<lambda>from_range.
              bind_ok (in_range env dmz_h to_ip) (\<lambda>to_range.
              if from_range \<and> to_range then
                bind_ok (nw_flash cops (st\<lparr> new_config := c\<lparr> dmz_config := \<lparr> dmz_status = 1, dmz_host = dmz_h \<rparr> \<rparr> \<rparr>)) (\<lambda>st1.
                let (r, st2) = call_ext env EnableDmzRule st1 in
                Inr (if r \<noteq> 0 then - 1 else SHELL_OK, st2))
              else Inr (SHELL_OK, st)))))
         else Inr (SHELL_OK, st))
      else Inr (SHELL_OK, st))"

definition setigmpconfig :: "'f conf_ops \<Rightarrow> 'f command" where
  "setigmpconfig cops argv st =
     (let enabled = igmp_status (config st) AND 1 \<noteq> 0 in
      if length argv \<noteq> 1 then Inr (SHELL_INVALID_ARGUMENT, st)
      else if argv ! 0 = ''enable'' then
        (if enabled then Inr (SHELL_OK, st)
         else save cops SHELL_OK ((new_config st)\<lparr> igmp_status := 1 \<rparr>) st)
      else if argv ! 0 = ''disable'' then
        (if enabled then save cops SHELL_OK ((new_config st)\<lparr> igmp_status := 0 \<rparr>) st
         else Inr (SHELL_OK, st))
      else Inr (SHELL_INVALID_ARGUMENT, st))"

section \<open>Firewall\<close>

definition fromto_ok :: "string \<Rightarrow> bool cres" where
  "fromto_ok a =
     bind_ok (isvalidip a) (\<lambda>b. if b \<or> a = ''any'' then Inr True else isvalid_ip_mask a)"

definition isvalid_fromto_ips :: "string \<Rightarrow> string \<Rightarrow> bool cres" where
  "isvalid_fromto_ips from_ip to_ip =
     bind_ok (fromto_ok from_ip) (\<lambda>a. if \<not> a then Inr False else fromto_ok to_ip)"

definition ipfw_add :: "env \<Rightarrow> 'f conf_ops \<Rightarrow> nat \<Rightarrow> 'f nw_state \<Rightarrow> (int \<times> 'f nw_state) cres" where
  "ipfw_add env cops argc st =
     (let args = ipfw_args st in
      bind_ok
        (if argc > 8 \<and> args ! 3 \<noteq> ''nat'' then isvalid_fromto_ips (args ! 6) (args ! 8)
         else if args ! 3 = ''nat'' then
           (if \<not> isvalid_digit (args ! 2) \<or> \<not> isvalid_digit (args ! 4) then Inr False
            else isvalid_fromto_ips (args ! 7) (args ! 9))
         else Inr True) (\<lambda>ok.
      if \<not> ok then Inr (SHELL_INVALID_ARGUMENT, st)
      else
        (let (r, st1) = call_ext env (IpfwRulesConfig argc args) st in
         if r = - 1 then Inr (SHELL_INVALID_ARGUMENT, st1)
         else if argc > 8 then
           bind_ok (write_ipfw_rules_in_flash cops argc args st1) (\<lambda>st2. Inr (SHELL_OK, st2))
         else Inr (SHELL_OK, st1))))"

definition both_ips :: "string \<Rightarrow> string \<Rightarrow> bool cres" where
  "both_ips a b = bind_ok (isvalidip a) (\<lambda>x. if \<not> x then Inr False else isvalidip b)"

definition nat_redirect_ok :: "string list \<Rightarrow> bool cres" where
  "nat_redirect_ok args =
     (if args ! 4 = ''redirect_port'' then
        bind_ok (isvalidip_port (strlcpy (args ! 6) MAX_IPFW_RULE_ARGS_SIZE)) (\<lambda>(ok, _). Inr ok)
      else if args ! 4 = ''redirect_addr'' \<or> args ! 6 = ''redirect_addr'' then
        bind_ok (both_ips (args ! 5) (args ! 6)) (\<lambda>x. if x then Inr True else both_ips (args ! 7) (args ! 8))
      else Inr False)"

definition ipfw_nat :: "env \<Rightarrow> 'f conf_ops \<Rightarrow> nat \<Rightarrow> 'f nw_state \<Rightarrow> (int \<times> 'f nw_state) cres" where
  "ipfw_nat env cops argc st =
     (let args = ipfw_args st in
      bind_ok (if argc > 6 then nat_redirect_ok args else Inr True) (\<lambda>ok.
      if \<not> ok then Inr (SHELL_INVALID_ARGUMENT, st)
      else if argc \<ge> 6 then
        (let (r, st1) = call_ext env (NatConfig 0 argc args) st in
         if r = - 1 then Inr (SHELL_INVALID_ARGUMENT, st1)
         else bind_ok (write_ipfw_rules_in_flash cops argc args st1) (\<lambda>st2. Inr (SHELL_OK, st2)))
      else if argc = 4 \<and> args ! 2 = ''delete'' \<and> isvalid_digit (args ! 3) then
        (let (r, st1) = call_ext env (IpfwRulesConfig argc args) st in
         if r = - 1 then Inr (- 1, st1)
         else bind_ok (cli_http_rule_deletion cops (delete_nat_from_flash (args ! 3) st1)) (\<lambda>st2.
           Inr (SHELL_OK, st2)))
      else Inr (SHELL_OK, st)))"

text \<open>\<^verbatim>\<open>ipfw_args\<close> is a static array: entries past the arguments of this command are those of earlier
  ones. \<^verbatim>\<open>argv[1]\<close> of the delete branch is read without a test of \<^verbatim>\<open>argc\<close>.\<close>

definition ipfw_func :: "env \<Rightarrow> 'f conf_ops \<Rightarrow> 'f command" where
  "ipfw_func env cops argv st =
     (let argc = length argv + 1;
          st0 = st\<lparr> ipfw_args := (ipfw_args st)[0 := ''ipfw''] \<rparr>
      in
      if argc < 2 \<or> argc > 14 then Inr (SHELL_INVALID_ARGUMENT, st0)
      else
        (let args = ''ipfw'' # map (\<lambda>a. strlcpy a MAX_IPFW_RULE_ARGS_SIZE) argv @ drop argc (ipfw_args st0);
             st1 = st0\<lparr> ipfw_args := args \<rparr>
         in
         if args ! 1 = ''add'' then ipfw_add env cops argc st1
         else if args ! 1 = ''zero'' then
           (let (r, st2) = do_ipfw_zero env argc args st1 in
            Inr (if r = - 1 then SHELL_INVALID_ARGUMENT else SHELL_OK, st2))
         else if args ! 1 = ''delete'' \<and> isvalid_digit (args ! 2) then
           (let (r, st2) = call_ext env (IpfwRulesConfig argc args) st1 in
            if r = - 1 then Inr (SHELL_INVALID_ARGUMENT, st2)
            else
              guard_c (length argv > 1) OutOfBounds
                (bind_ok (cli_http_rule_deletion cops (delete_rule_from_flash (argv ! 1) st2)) (\<lambda>st3.
                 Inr (SHELL_OK, st3))))
         else if args ! 1 = ''flush'' then
           bind_ok (do_flush_action env cops argc args st1) (\<lambda>(r, args', st2).
           Inr (if r = - 1 then SHELL_INVALID_ARGUMENT else SHELL_OK, st2\<lparr> ipfw_args := args' \<rparr>))
         else if args ! 1 = ''show'' \<or> args ! 1 = ''list'' then
           Inr (SHELL_OK, snd (call_ext env IpfwRulesShow st1))
         else if args ! 1 = ''nat'' then ipfw_nat env cops argc st1
         else Inr (SHELL_OK, st1)))"

section \<open>The contract of a configuration command\<close>

text \<open>A command only changes the new configuration, which takes effect at the next start; it keeps it
  well formed; and when its exit code reports an error, the new configuration and the flash are as
  they were.\<close>

locale config_command =
  fixes cmd :: "'f command"
  assumes keeps_running: "\<And>argv st r st'. cmd argv st = Inr (r, st') \<Longrightarrow> config st' = config st"
    and keeps_wf: "\<And>argv st r st'. cmd argv st = Inr (r, st') \<Longrightarrow> wf_config (new_config st) \<Longrightarrow>
        \<forall>a \<in> set argv. is_cstr a \<Longrightarrow> wf_config (new_config st')"
    and error_keeps: "\<And>argv st r st'. cmd argv st = Inr (r, st') \<Longrightarrow> r \<noteq> 0 \<Longrightarrow>
        new_config st' = new_config st \<and> store st' = store st"
begin

text \<open>A run of the command on one argument list after the other.\<close>

inductive runs :: "'f nw_state \<Rightarrow> 'f nw_state \<Rightarrow> bool" where
  refl: "runs st st"
| step: "runs st st1 \<Longrightarrow> \<forall>a \<in> set argv. is_cstr a \<Longrightarrow> cmd argv st1 = Inr (r, st2) \<Longrightarrow> runs st st2"

lemma runs_keep:
  "runs st st' \<Longrightarrow> wf_config (new_config st) \<Longrightarrow> wf_config (new_config st') \<and> config st' = config st"
  by (induction rule: runs.induct) (auto dest: keeps_wf keeps_running)

end

lemma saveD:
  assumes "save cops code c st = Inr (r, st')"
  shows "r = code \<and> config st' = config st \<and> new_config st' = c"
  using assms unfolding save_def
  by (elim bind_okE) (auto elim!: nw_flash_only_store)

lemma fits_strlcpy: "is_cstr s \<Longrightarrow> 0 < n \<Longrightarrow> fits n (strlcpy s n)"
  by (simp add: fits_def length_strlcpy)

lemma fits_gen_broadcast: "gen_broadcast_addr a m = Some b \<Longrightarrow> fits 16 b"
  using fits_ntoa length_inet_ntoa
  by (auto simp: gen_broadcast_addr_def strlcpy_fits split: option.splits)

lemmas wf_config_simps = wf_config_def wf_vlan_def wf_vpnpt_def wf_wan_def wf_pppoe_def wf_bridge_def
  wf_dhcps_def wf_dmz_def

lemma parse_ppp_cstr:
  assumes "parse_ppp args p = Some p'" "\<forall>a \<in> set args. is_cstr a"
    and "\<forall>u \<in> set_option (ppp_username p) \<union> set_option (ppp_password p). is_cstr u"
  shows "\<forall>u \<in> set_option (ppp_username p') \<union> set_option (ppp_password p'). is_cstr u"
  using assms
  by (induction args p rule: parse_ppp.induct) (auto simp: Let_def split: if_splits)

definition static_values :: "static_opts \<Rightarrow> string set" where
  "static_values s = set_option (static_ip s) \<union> set_option (static_mask s) \<union> set_option (static_gateway s)
     \<union> set_option (static_dns s) \<union> set_option (static_adns s) \<union> set_option (static_server s)"

lemma parse_static_step:
  assumes "parse_static (opt # v # rest) s = Inr (Some s')"
  obtains s1 where "parse_static rest s1 = Inr (Some s')" "static_values s1 \<subseteq> insert v (static_values s)"
  using assms
  by (auto split: if_splits elim!: bind_okE simp: static_values_def intro: that)

lemma parse_static_cstr:
  "parse_static args s = Inr (Some s') \<Longrightarrow> \<forall>a \<in> set args. is_cstr a \<Longrightarrow> \<forall>u \<in> static_values s. is_cstr u
   \<Longrightarrow> \<forall>u \<in> static_values s'. is_cstr u"
proof (induction args arbitrary: s rule: induct_list012)
  case (3 opt v rest)
  from "3.prems"(1) obtain s1 where "parse_static rest s1 = Inr (Some s')"
    and "static_values s1 \<subseteq> insert v (static_values s)"
    by (rule parse_static_step)
  with "3.IH"(1) [of s1] "3.prems" show ?case by auto
qed auto

text \<open>A command that stores one updated configuration, or leaves everything as it was.\<close>

definition all_or_nothing :: "'f conf_ops \<Rightarrow> 'f command \<Rightarrow> bool" where
  "all_or_nothing cops cmd \<longleftrightarrow>
     (\<forall>argv st r st'. cmd argv st = Inr (r, st') \<longrightarrow>
        st' = st \<or> (\<exists>c. save cops 0 c st = Inr (r, st') \<and>
          (wf_config (new_config st) \<longrightarrow> (\<forall>a \<in> set argv. is_cstr a) \<longrightarrow> wf_config c)))"

lemma config_command_save:
  assumes "all_or_nothing cops cmd"
  shows "config_command cmd"
  using assms unfolding all_or_nothing_def
  by unfold_locales (metis saveD)+

lemma all_or_nothingI:
  assumes "\<And>argv st r st'. cmd argv st = Inr (r, st') \<Longrightarrow> st' \<noteq> st \<Longrightarrow>
    \<exists>c. save cops 0 c st = Inr (r, st') \<and> (wf_config (new_config st) \<longrightarrow> (\<forall>a \<in> set argv. is_cstr a) \<longrightarrow> wf_config c)"
  shows "all_or_nothing cops cmd"
  using assms unfolding all_or_nothing_def by meson

lemma all_or_nothingD:
  assumes "all_or_nothing cops cmd" "cmd argv st = Inr (r, st')" "st' \<noteq> st"
  shows "\<exists>c. save cops 0 c st = Inr (r, st') \<and>
    (wf_config (new_config st) \<longrightarrow> (\<forall>a \<in> set argv. is_cstr a) \<longrightarrow> wf_config c)"
  using assms unfolding all_or_nothing_def by meson

lemmas save_codes = SHELL_OK_def SHELL_INVALID_ARGUMENT_def

lemma setiptv_all_or_nothing: "all_or_nothing cops (setiptvconfig cops)"
  unfolding all_or_nothing_def setiptvconfig_def
  by (auto simp: Let_def save_codes wf_config_simps split: if_splits)

interpretation iptv_cmd: config_command "setiptvconfig cops" for cops
  by (rule config_command_save) (rule setiptv_all_or_nothing)

lemma vpn_all_or_nothing: "all_or_nothing cops (vpn_passthrough cops)"
  unfolding all_or_nothing_def vpn_passthrough_def
  by (auto simp: Let_def save_codes wf_config_simps split: if_splits)

interpretation vpn_cmd: config_command "vpn_passthrough cops" for cops
  by (rule config_command_save) (rule vpn_all_or_nothing)

lemma wflash_all_or_nothing: "all_or_nothing cops (wflash cops)"
  unfolding all_or_nothing_def wflash_def by (auto simp: save_codes)

interpretation wflash_cmd: config_command "wflash cops" for cops
  by (rule config_command_save) (rule wflash_all_or_nothing)

lemma dhcpd_all_or_nothing: "all_or_nothing cops (start_dhcpd cops)"
  unfolding all_or_nothing_def start_dhcpd_def
  by (auto simp: Let_def save_codes wf_config_simps split: if_splits)

interpretation dhcpd_cmd: config_command "start_dhcpd cops" for cops
  by (rule config_command_save) (rule dhcpd_all_or_nothing)

lemma igmp_all_or_nothing: "all_or_nothing cops (setigmpconfig cops)"
  unfolding all_or_nothing_def setigmpconfig_def
  by (auto simp: Let_def save_codes wf_config_simps split: if_splits)

interpretation igmp_cmd: config_command "setigmpconfig cops" for cops
  by (rule config_command_save) (rule igmp_all_or_nothing)

interpretation route_cmd: config_command route_add
  by (rule config_command_save)
    (auto simp: all_or_nothing_def route_add_def split: if_splits elim!: bind_okE)

lemma parse_dhcp_step:
  assumes "parse_dhcp (opt # v # rest) d = Inr (Some d')"
  obtains d1 where "parse_dhcp rest d1 = Inr (Some d')"
    "set_option (opt_ip1 d1) \<union> set_option (opt_ip2 d1) \<subseteq> insert v (set_option (opt_ip1 d) \<union> set_option (opt_ip2 d))"
  using assms
  by (auto split: if_splits elim!: bind_okE intro: that)

lemma parse_dhcp_cstr:
  "parse_dhcp args d = Inr (Some d') \<Longrightarrow> \<forall>a \<in> set args. is_cstr a \<Longrightarrow>
   \<forall>u \<in> set_option (opt_ip1 d) \<union> set_option (opt_ip2 d). is_cstr u
   \<Longrightarrow> \<forall>u \<in> set_option (opt_ip1 d') \<union> set_option (opt_ip2 d'). is_cstr u"
proof (induction args arbitrary: d rule: induct_list012)
  case (3 opt v rest)
  from "3.prems"(1) obtain d1 where "parse_dhcp rest d1 = Inr (Some d')"
    and "set_option (opt_ip1 d1) \<union> set_option (opt_ip2 d1) \<subseteq> insert v (set_option (opt_ip1 d) \<union> set_option (opt_ip2 d))"
    by (rule parse_dhcp_step)
  with "3.IH"(1) [of d1] "3.prems" show ?case by auto
qed auto

lemma wf_config_updates:
  assumes "wf_config c"
  shows "fits 16 f \<Longrightarrow> fits 16 t \<Longrightarrow> wf_config (c\<lparr> dhcp_server_config := (dhcp_server_config c)\<lparr>
      DHCP_From := f, DHCP_To := t, Lease_Time := l \<rparr> \<rparr>)"
    and "fits 32 u \<Longrightarrow> fits 32 p \<Longrightarrow> wf_config (c\<lparr> Connection_Type := k, PPPoE_config_values :=
      (PPPoE_config_values c)\<lparr> Username := u, Passwd := p, MTU := m \<rparr> \<rparr>)"
    and "wf_wan w \<Longrightarrow> wf_config (c\<lparr> Connection_Type := k, WAN_config_addrs := w \<rparr>)"
    and "wf_config (c\<lparr> Connection_Type := k \<rparr>)"
    and "wf_config (c\<lparr> bridge_conf := (bridge_conf c)\<lparr> inaddr_ip := a1, inaddr_broad := a2, inaddr_mas := a3 \<rparr> \<rparr>)"
  using assms by (simp_all add: wf_config_simps)

lemma dhcp_stored:
  assumes "dhcp_serv_config env cops argv st = Inr (r, st')" "st' \<noteq> st"
  obtains d ip1 ip2 where "length argv = 6"
    "parse_dhcp argv \<lparr> opt_ip1 = None, opt_ip2 = None, opt_ltime = 0 \<rparr> = Inr (Some d)"
    "opt_ip1 d = Some ip1" "opt_ip2 d = Some ip2" "in_range env ip1 ip2 = Inr True"
    "save cops 0 ((new_config st)\<lparr> dhcp_server_config := (dhcp_server_config (new_config st))\<lparr>
       DHCP_From := strlcpy ip1 16, DHCP_To := strlcpy ip2 16, Lease_Time := opt_ltime d \<rparr> \<rparr>) st = Inr (r, st')"
  using assms unfolding dhcp_serv_config_def
  by (auto simp: Let_def save_codes split: if_splits option.splits elim!: bind_okE)

lemma dhcp_all_or_nothing: "all_or_nothing cops (dhcp_serv_config env cops)"
proof (rule all_or_nothingI, erule (1) dhcp_stored)
  fix argv r st st' d ip1 ip2
  assume parsed: "parse_dhcp argv \<lparr> opt_ip1 = None, opt_ip2 = None, opt_ltime = 0 \<rparr> = Inr (Some d)"
    and ips: "opt_ip1 d = Some ip1" "opt_ip2 d = Some ip2"
    and saved: "save cops 0 ((new_config st)\<lparr> dhcp_server_config := (dhcp_server_config (new_config st))\<lparr>
       DHCP_From := strlcpy ip1 16, DHCP_To := strlcpy ip2 16, Lease_Time := opt_ltime d \<rparr> \<rparr>) st = Inr (r, st')"
  have cstr: "\<forall>a \<in> set argv. is_cstr a \<Longrightarrow> is_cstr ip1 \<and> is_cstr ip2"
    using parse_dhcp_cstr [OF parsed] ips by auto
  show "\<exists>c. save cops 0 c st = Inr (r, st') \<and>
      (wf_config (new_config st) \<longrightarrow> (\<forall>a \<in> set argv. is_cstr a) \<longrightarrow> wf_config c)"
    by (intro exI conjI impI, rule saved) (intro wf_config_updates fits_strlcpy; simp add: cstr)
qed

interpretation dhcp_cmd: config_command "dhcp_serv_config env cops" for env cops
  by (rule config_command_save) (rule dhcp_all_or_nothing)

lemma deref_eq_Inr: "deref p = Inr x \<longleftrightarrow> p = Some x"
  by (simp add: deref_def split: option.splits)

lemma pppoe_stored:
  assumes "set_wan_pppoe cops argv st = Inr (r, st')" "st' \<noteq> st"
  obtains p u w where "length argv = 7"
    "parse_ppp (tl argv) \<lparr> ppp_username = None, ppp_password = None, ppp_mtu = 0 \<rparr> = Some p"
    "ppp_username p = Some u" "ppp_password p = Some w"
    "save cops 0 ((new_config st)\<lparr> Connection_Type := conn_PPPoE, PPPoE_config_values :=
       (PPPoE_config_values (new_config st))\<lparr> Username := strlcpy u 32, Passwd := strlcpy w 32,
         MTU := ppp_mtu p \<rparr> \<rparr>) st = Inr (r, st')"
  using assms unfolding set_wan_pppoe_def
  by (auto simp: Let_def save_codes deref_eq_Inr split: if_splits option.splits elim!: bind_okE)

definition static_wan :: "string \<Rightarrow> string \<Rightarrow> string \<Rightarrow> string \<Rightarrow> string \<Rightarrow> string \<Rightarrow> string \<Rightarrow> WAN_config_struct" where
  "static_wan ip m gw d1 d2 b srv = \<lparr> wan_IPAddr = strlcpy ip 16, wan_Mask = strlcpy m 16,
     wan_Gateway = strlcpy gw 16, wan_DNS = strlcpy d1 16, wan_ADNS = strlcpy d2 16,
     wan_Broadcast = strlcpy b 16, wan_Server = strlcpy srv 16 \<rparr>"

lemma static_stored:
  assumes "set_wan_static cops argv st = Inr (r, st')" "st' \<noteq> st"
  obtains s ip m gw d1 d2 b srv where "length argv = 13"
    "parse_static (tl argv) \<lparr> static_ip = None, static_mask = None, static_gateway = None,
       static_dns = None, static_adns = None, static_server = None \<rparr> = Inr (Some s)"
    "static_ip s = Some ip" "static_mask s = Some m" "static_gateway s = Some gw"
    "static_dns s = Some d1" "static_adns s = Some d2" "static_server s = Some srv"
    "\<not> is_lan_ip (Some ip) st" "\<not> is_lan_ip (Some d1) st" "\<not> is_lan_ip (Some d2) st"
    "gen_broadcast_addr ip m = Some b"
    "issamesubnet ip (inet_ntoa (inaddr_ip (bridge_conf (config st)))) = Inr False"
    "save cops 0 ((new_config st)\<lparr> Connection_Type := conn_STATIC_IP,
       WAN_config_addrs := static_wan ip m gw d1 d2 b srv \<rparr>) st = Inr (r, st')"
  using assms unfolding set_wan_static_def
  by (auto simp: Let_def save_codes deref_eq_Inr static_wan_def split: if_splits option.splits elim!: bind_okE)

lemma pppoe_all_or_nothing: "all_or_nothing cops (set_wan_pppoe cops)"
proof (rule all_or_nothingI, erule (1) pppoe_stored)
  fix argv r st st' p u w
  assume len: "length argv = 7"
    and parsed: "parse_ppp (tl argv) \<lparr> ppp_username = None, ppp_password = None, ppp_mtu = 0 \<rparr> = Some p"
    and fields: "ppp_username p = Some u" "ppp_password p = Some w"
    and saved: "save cops 0 ((new_config st)\<lparr> Connection_Type := conn_PPPoE, PPPoE_config_values :=
       (PPPoE_config_values (new_config st))\<lparr> Username := strlcpy u 32, Passwd := strlcpy w 32,
         MTU := ppp_mtu p \<rparr> \<rparr>) st = Inr (r, st')"
  have cstr: "\<forall>a \<in> set argv. is_cstr a \<Longrightarrow> is_cstr u \<and> is_cstr w"
    using parse_ppp_cstr [OF parsed] fields len by (cases argv) auto
  show "\<exists>c. save cops 0 c st = Inr (r, st') \<and>
      (wf_config (new_config st) \<longrightarrow> (\<forall>a \<in> set argv. is_cstr a) \<longrightarrow> wf_config c)"
    by (intro exI conjI impI, rule saved) (intro wf_config_updates fits_strlcpy; simp add: cstr)
qed

lemma wf_static_wan:
  "\<forall>u \<in> {ip, m, gw, d1, d2, b, srv}. is_cstr u \<Longrightarrow> wf_wan (static_wan ip m gw d1 d2 b srv)"
  by (simp add: static_wan_def wf_wan_def fits_strlcpy)

lemma static_all_or_nothing: "all_or_nothing cops (set_wan_static cops)"
proof (rule all_or_nothingI, erule (1) static_stored)
  fix argv r st st' s ip m gw d1 d2 b srv
  assume len: "length argv = 13"
    and parsed: "parse_static (tl argv) \<lparr> static_ip = None, static_mask = None, static_gateway = None,
       static_dns = None, static_adns = None, static_server = None \<rparr> = Inr (Some s)"
    and fields: "static_ip s = Some ip" "static_mask s = Some m" "static_gateway s = Some gw"
      "static_dns s = Some d1" "static_adns s = Some d2" "static_server s = Some srv"
    and bcast: "gen_broadcast_addr ip m = Some b"
    and saved: "save cops 0 ((new_config st)\<lparr> Connection_Type := conn_STATIC_IP,
       WAN_config_addrs := static_wan ip m gw d1 d2 b srv \<rparr>) st = Inr (r, st')"
  have "\<forall>a \<in> set argv. is_cstr a \<Longrightarrow> \<forall>u \<in> static_values s. is_cstr u"
    using parse_static_cstr [OF parsed] len by (cases argv) (auto simp: static_values_def)
  moreover have "is_cstr b" using fits_gen_broadcast [OF bcast] by (simp add: fits_def)
  ultimately have wf: "\<forall>a \<in> set argv. is_cstr a \<Longrightarrow> wf_wan (static_wan ip m gw d1 d2 b srv)"
    using fields by (intro wf_static_wan) (auto simp: static_values_def)
  show "\<exists>c. save cops 0 c st = Inr (r, st') \<and>
      (wf_config (new_config st) \<longrightarrow> (\<forall>a \<in> set argv. is_cstr a) \<longrightarrow> wf_config c)"
    by (intro exI conjI impI, rule saved) (intro wf_config_updates wf; simp)
qed

lemma wan_all_or_nothing: "all_or_nothing cops (set_wan_config cops)"
proof (rule all_or_nothingI)
  fix argv r and st st' :: "'a nw_state"
  assume run: "set_wan_config cops argv st = Inr (r, st')" and moved: "st' \<noteq> st"
  then consider "save cops 0 ((new_config st)\<lparr> Connection_Type := conn_DHCP \<rparr>) st = Inr (r, st')"
    | "set_wan_pppoe cops argv st = Inr (r, st')" | "set_wan_static cops argv st = Inr (r, st')"
    by (auto simp: set_wan_config_def split: if_splits)
  then show "\<exists>c. save cops 0 c st = Inr (r, st') \<and>
      (wf_config (new_config st) \<longrightarrow> (\<forall>a \<in> set argv. is_cstr a) \<longrightarrow> wf_config c)"
    by cases (blast intro: wf_config_updates all_or_nothingD [OF pppoe_all_or_nothing _ moved]
      all_or_nothingD [OF static_all_or_nothing _ moved])+
qed

interpretation wan_cmd: config_command "set_wan_config cops" for cops
  by (rule config_command_save) (rule wan_all_or_nothing)

lemma change_dhcp_poolD:
  assumes "change_dhcp_pool st = Inr st'"
  obtains f t where "inet_aton (DHCP_From (dhcp_server_config (new_config st))) = Some f"
    "inet_aton (DHCP_To (dhcp_server_config (new_config st))) = Some t"
    "st' = st\<lparr> new_config := (new_config st)\<lparr> dhcp_server_config := (dhcp_server_config (new_config st))\<lparr>
       DHCP_From := inet_ntoa ((f AND 0xFF) OR (inaddr_ip (bridge_conf (new_config st)) AND 0xFFFFFF00)),
       DHCP_To := inet_ntoa ((t AND 0xFF) OR (inaddr_ip (bridge_conf (new_config st)) AND 0xFFFFFF00)) \<rparr> \<rparr> \<rparr>"
  using assms by (auto simp: change_dhcp_pool_def Let_def strlcpy_ntoa split: option.splits)

text \<open>What a LAN change leaves in the configuration.\<close>

definition lan_config :: "u32 \<Rightarrow> u32 \<Rightarrow> u32 \<Rightarrow> u32 \<Rightarrow> u32 \<Rightarrow> ecosap_config_struct \<Rightarrow> ecosap_config_struct" where
  "lan_config ip b m f t c = c\<lparr>
     bridge_conf := (bridge_conf c)\<lparr> inaddr_ip := ip, inaddr_broad := b, inaddr_mas := m \<rparr>,
     dhcp_server_config := (dhcp_server_config c)\<lparr>
       DHCP_From := inet_ntoa ((f AND 0xFF) OR (ip AND 0xFFFFFF00)),
       DHCP_To := inet_ntoa ((t AND 0xFF) OR (ip AND 0xFFFFFF00)) \<rparr> \<rparr>"

lemma wf_lan_config: "wf_config c \<Longrightarrow> wf_config (lan_config ip b m f t c)"
  by (simp add: lan_config_def wf_config_simps fits_ntoa)

lemma change_dhcp_pool_lan:
  assumes "change_dhcp_pool (st\<lparr> LAN_config_addrs := L, new_config := (new_config st)\<lparr> bridge_conf :=
      (bridge_conf (new_config st))\<lparr> inaddr_ip := ip, inaddr_broad := b, inaddr_mas := m \<rparr> \<rparr> \<rparr>) = Inr st'"
  shows "\<exists>f t. st' = st\<lparr> LAN_config_addrs := L, new_config := lan_config ip b m f t (new_config st) \<rparr>"
proof -
  from assms obtain f t where "st' = st\<lparr> LAN_config_addrs := L, new_config := lan_config ip b m f t (new_config st) \<rparr>"
    by (rule change_dhcp_poolD) (simp add: lan_config_def)
  then show ?thesis by blast
qed

lemma lan_stored:
  assumes "set_lan_config env cops argv st = Inr (r, st')"
  obtains (kept) "new_config st' = new_config st" "store st' = store st" "config st' = config st"
  | (stored) L ip b m f t where "r = 0"
      "nw_flash cops (st\<lparr> LAN_config_addrs := L, new_config := lan_config ip b m f t (new_config st) \<rparr>) = Inr st'"
  using assms unfolding set_lan_config_def
  by (auto simp: Let_def save_codes split: if_splits option.splits elim!: bind_okE
      dest!: change_dhcp_pool_lan)

interpretation lan_cmd: config_command "set_lan_config env cops" for env cops
proof
  fix argv r and st st' :: "'a nw_state"
  assume run: "set_lan_config env cops argv st = Inr (r, st')"
  from run have "config st' = config st \<and> (wf_config (new_config st) \<longrightarrow> wf_config (new_config st'))
      \<and> (r \<noteq> 0 \<longrightarrow> new_config st' = new_config st \<and> store st' = store st)"
    by (cases rule: lan_stored) (auto elim!: nw_flash_only_store simp: wf_lan_config)
  then show "config st' = config st"
    and "wf_config (new_config st) \<Longrightarrow> wf_config (new_config st')"
    and "r \<noteq> 0 \<Longrightarrow> new_config st' = new_config st \<and> store st' = store st"
    by auto
qed

section \<open>Sessions\<close>

definition config_commands :: "env \<Rightarrow> 'f conf_ops \<Rightarrow> 'f command list" where
  "config_commands env cops =
     [setiptvconfig cops, vpn_passthrough cops, wflash cops, set_wan_config cops, set_lan_config env cops,
      dhcp_serv_config env cops, start_dhcpd cops, setigmpconfig cops, route_add]"

inductive session :: "env \<Rightarrow> 'f conf_ops \<Rightarrow> 'f nw_state \<Rightarrow> 'f nw_state \<Rightarrow> bool"
  for env :: env and cops :: "'f conf_ops" where
  start: "session env cops st st"
| run: "session env cops st st1 \<Longrightarrow> cmd \<in> set (config_commands env cops) \<Longrightarrow> \<forall>a \<in> set argv. is_cstr a
    \<Longrightarrow> cmd argv st1 = Inr (r, st2) \<Longrightarrow> session env cops st st2"

lemma config_commands_contract: "cmd \<in> set (config_commands env cops) \<Longrightarrow> config_command cmd"
  by (auto simp: config_commands_def intro: iptv_cmd.config_command_axioms vpn_cmd.config_command_axioms
      wflash_cmd.config_command_axioms wan_cmd.config_command_axioms lan_cmd.config_command_axioms
      dhcp_cmd.config_command_axioms dhcpd_cmd.config_command_axioms igmp_cmd.config_command_axioms
      route_cmd.config_command_axioms)

section \<open>Properties\<close>


definition iptv_state :: "u8 list nw_state" where
  "iptv_state = (case setiptvconfig ram_conf_ops [''enable'', ''100'', ''trunk''] demo_state of
     Inr (_, st) \<Rightarrow> st | Inl _ \<Rightarrow> demo_state)"




lemma parse_static_printed:
  assumes "good_host a" "good_host g" "good_host d1" "good_host d2" "good_host sv" "isvalid_mask m"
  shows "parse_static [''-I'', inet_ntoa a, ''-M'', m, ''-G'', inet_ntoa g, ''-D1'', inet_ntoa d1,
      ''-D2'', inet_ntoa d2, ''-S'', inet_ntoa sv] s =
    Inr (Some \<lparr> static_ip = Some (inet_ntoa a), static_mask = Some m, static_gateway = Some (inet_ntoa g),
      static_dns = Some (inet_ntoa d1), static_adns = Some (inet_ntoa d2), static_server = Some (inet_ntoa sv) \<rparr>)"
  using assms by (simp add: checks_printed)

lemma is_lan_ip_printed: "is_lan_ip (Some (inet_ntoa a)) st \<longleftrightarrow> a = inaddr_ip (bridge_conf (config st))"
  by (simp add: is_lan_ip_def inet_addr_def inet_aton_inet_ntoa)

lemma gen_broadcast_printed:
  "gen_broadcast_addr (inet_ntoa a) (inet_ntoa m) = Some (inet_ntoa (a OR NOT m))"
  by (simp add: gen_broadcast_addr_def inet_aton_inet_ntoa strlcpy_fits length_inet_ntoa less_Suc_eq_le)

lemma strlcpy_printed: "strlcpy (inet_ntoa a) 16 = inet_ntoa a"
  using strlcpy_ntoa [of a] by (simp add: IPADDR_SIZE_def)

lemma isvalid_mask_printed: "0 < k \<Longrightarrow> k < 32 \<Longrightarrow> isvalid_mask (inet_ntoa (NOT (mask k)))"
  by (auto simp: isvalid_mask_iff inet_aton_inet_ntoa)

interpretation ram: conf_store ram_conf_ops "\<lambda>_. True" "\<lambda>f n. take n f"
  by unfold_locales (simp_all add: ram_conf_ops_def)

text \<open>
  A static WAN with all six addresses is stored as entered, with the broadcast address of the
  entered address and mask, when neither the address nor a name server is the LAN address and the
  address is not in the LAN's subnet.
\<close>

theorem static_wan_is_stored:
  assumes "conf_store cops ok img" "ok (store st)" "wf_config (new_config st)"
    and "good_host a" "good_host g" "good_host d1" "good_host d2" "good_host sv" "0 < k" "k < 32"
    and "inaddr_ip (bridge_conf (config st)) \<notin> {a, d1, d2}"
    and "issamesubnet (inet_ntoa a) (inet_ntoa (inaddr_ip (bridge_conf (config st)))) = Inr False"
  shows "\<exists>st'. set_wan_config cops [''2'', ''-I'', inet_ntoa a, ''-M'', inet_ntoa (NOT (mask k)),
        ''-G'', inet_ntoa g, ''-D1'', inet_ntoa d1, ''-D2'', inet_ntoa d2, ''-S'', inet_ntoa sv] st = Inr (0, st')
     \<and> Connection_Type (new_config st') = conn_STATIC_IP
     \<and> WAN_config_addrs (new_config st') =
         \<lparr> wan_IPAddr = inet_ntoa a, wan_Mask = inet_ntoa (NOT (mask k)), wan_Gateway = inet_ntoa g,
           wan_DNS = inet_ntoa d1, wan_ADNS = inet_ntoa d2, wan_Broadcast = inet_ntoa (a OR mask k),
           wan_Server = inet_ntoa sv \<rparr>
     \<and> img (store st') CONFIG_SIZE = put_config (new_config st')"
proof -
  let ?w = "\<lparr> wan_IPAddr = inet_ntoa a, wan_Mask = inet_ntoa (NOT (mask k)), wan_Gateway = inet_ntoa g,
           wan_DNS = inet_ntoa d1, wan_ADNS = inet_ntoa d2, wan_Broadcast = inet_ntoa (a OR mask k),
           wan_Server = inet_ntoa sv \<rparr>"
  let ?c = "(new_config st)\<lparr> Connection_Type := conn_STATIC_IP, WAN_config_addrs := ?w \<rparr>"
  have "wf_config ?c"
    by (rule wf_config_updates(3) [OF assms(3)]) (simp add: wf_wan_def fits_ntoa)
  then obtain f where f: "nw_flash cops (st\<lparr> new_config := ?c \<rparr>) = Inr (st\<lparr> new_config := ?c, store := f \<rparr>)"
    "img f CONFIG_SIZE = put_config ?c"
    using conf_store.nw_flash_holds [OF assms(1), of "st\<lparr> new_config := ?c \<rparr>"] assms(2)
    by (auto simp: conf_store.holds_def [OF assms(1)])
  have lan: "a \<noteq> inaddr_ip (bridge_conf (config st))" "d1 \<noteq> inaddr_ip (bridge_conf (config st))"
    "d2 \<noteq> inaddr_ip (bridge_conf (config st))"
    using assms(11) by auto
  have "set_wan_config cops [''2'', ''-I'', inet_ntoa a, ''-M'', inet_ntoa (NOT (mask k)),
        ''-G'', inet_ntoa g, ''-D1'', inet_ntoa d1, ''-D2'', inet_ntoa d2, ''-S'', inet_ntoa sv] st
      = save cops 0 ?c st"
    using lan assms(12) isvalid_mask_printed [OF assms(9,10)]
    by (simp add: set_wan_config_def set_wan_static_def parse_static_printed [OF assms(4-8)] is_lan_ip_printed
        gen_broadcast_printed deref_def strlcpy_printed SHELL_OK_def del: parse_static.simps)
  with f show ?thesis by (simp add: save_def)
qed

theorem static_wan_is_stored_witness:
  "\<exists>st'. set_wan_config ram_conf_ops [''2'', ''-I'', inet_ntoa (quad 10 0 0 7), ''-M'', inet_ntoa (NOT (mask 8)),
        ''-G'', inet_ntoa (quad 10 0 0 1), ''-D1'', inet_ntoa (quad 8 8 8 8), ''-D2'', inet_ntoa (quad 8 8 4 4),
        ''-S'', inet_ntoa (quad 10 0 0 2)] demo_state = Inr (0, st')
     \<and> Connection_Type (new_config st') = conn_STATIC_IP
     \<and> WAN_config_addrs (new_config st') =
         \<lparr> wan_IPAddr = inet_ntoa (quad 10 0 0 7), wan_Mask = inet_ntoa (NOT (mask 8)),
           wan_Gateway = inet_ntoa (quad 10 0 0 1), wan_DNS = inet_ntoa (quad 8 8 8 8),
           wan_ADNS = inet_ntoa (quad 8 8 4 4), wan_Broadcast = inet_ntoa (quad 10 0 0 7 OR mask 8),
           wan_Server = inet_ntoa (quad 10 0 0 2) \<rparr>
     \<and> take CONFIG_SIZE (store st') = put_config (new_config st')"
proof (rule static_wan_is_stored [OF ram.conf_store_axioms])
  have lan: "inaddr_ip (bridge_conf (config demo_state)) = inaddr_ip default_bridge"
    by (simp add: demo_state_def default_config_def)
  show "wf_config (new_config demo_state)"
    by (simp add: demo_state_def wf_default_config)
  have "inaddr_ip default_bridge \<notin> {quad 10 0 0 7, quad 8 8 8 8, quad 8 8 4 4}"
    by code_simp
  then show "inaddr_ip (bridge_conf (config demo_state)) \<notin> {quad 10 0 0 7, quad 8 8 8 8, quad 8 8 4 4}"
    by (simp add: lan)
  have "issamesubnet (inet_ntoa (quad 10 0 0 7)) (inet_ntoa (inaddr_ip default_bridge)) = Inr False"
    by code_simp
  then show "issamesubnet (inet_ntoa (quad 10 0 0 7)) (inet_ntoa (inaddr_ip (bridge_conf (config demo_state)))) = Inr False"
    by (simp add: lan)
qed (simp_all add: good_host_def addr_byte_quad)

text \<open>
  The number of arguments is checked and not which options they are: an entry that gives the
  address twice and leaves out the mask passes NULL to \<^verbatim>\<open>inet_aton\<close>.
\<close>

theorem static_wan_repeated_option_faults:
  assumes "good_host a" "good_host a'" "good_host g" "good_host d1" "good_host d2" "good_host sv"
    and "inaddr_ip (bridge_conf (config st)) \<notin> {a', d1, d2}"
  shows "set_wan_config cops [''2'', ''-I'', inet_ntoa a, ''-I'', inet_ntoa a',
        ''-G'', inet_ntoa g, ''-D1'', inet_ntoa d1, ''-D2'', inet_ntoa d2, ''-S'', inet_ntoa sv] st = Inl NullDeref"
proof -
  have "a' \<noteq> inaddr_ip (bridge_conf (config st))" "d1 \<noteq> inaddr_ip (bridge_conf (config st))"
    "d2 \<noteq> inaddr_ip (bridge_conf (config st))"
    using assms(7) by auto
  with assms(1-6) show ?thesis
    by (simp add: set_wan_config_def set_wan_static_def checks_printed is_lan_ip_printed deref_def)
qed

theorem static_wan_repeated_option_faults_witness:
  "set_wan_config ram_conf_ops [''2'', ''-I'', inet_ntoa (quad 10 0 0 7), ''-I'', inet_ntoa (quad 10 0 0 8),
        ''-G'', inet_ntoa (quad 10 0 0 1), ''-D1'', inet_ntoa (quad 8 8 8 8), ''-D2'', inet_ntoa (quad 8 8 4 4),
        ''-S'', inet_ntoa (quad 10 0 0 2)] demo_state = Inl NullDeref"
proof (rule static_wan_repeated_option_faults)
  have "inaddr_ip default_bridge \<notin> {quad 10 0 0 8, quad 8 8 8 8, quad 8 8 4 4}"
    by code_simp
  then show "inaddr_ip (bridge_conf (config demo_state)) \<notin> {quad 10 0 0 8, quad 8 8 8 8, quad 8 8 4 4}"
    by (simp add: demo_state_def default_config_def)
qed (simp_all add: good_host_def addr_byte_quad)

lemma mask_C: "set_lanmask ClassC = Some (inet_ntoa (NOT (mask 8)))"
  by code_simp

lemma findClass_printed_C:
  assumes "junk_stops junk" "192 \<le> addr_byte w 0" "addr_byte w 0 \<le> 223"
  shows "findClass junk (inet_ntoa w) = Inr ClassC"
  using findClass_dotted [OF quad_text_inet_ntoa [of w] assms(1)] assms(2,3)
  by (simp add: inet_ntoa_dotted class_of_octet_def)

text \<open>
  Setting a class C LAN address outside the WAN's subnet stores the address, the class mask and
  the broadcast address that belong together, moves the DHCP pool into the new network with the last
  octets of its ends kept, and writes the flash.
\<close>

theorem lan_command_is_consistent:
  assumes "conf_store cops ok img" "ok (store st)" "wf_config (new_config st)"
    and "good_host w" "192 \<le> addr_byte w 0" "addr_byte w 0 \<le> 223" "junk_stops (stack_junk env)"
    and "issamesubnet (wan_IPAddr (WAN_config_addrs (config st))) (inet_ntoa w) = Inr False"
    and "inet_aton (DHCP_From (dhcp_server_config (new_config st))) = Some f"
    and "inet_aton (DHCP_To (dhcp_server_config (new_config st))) = Some t"
  shows "\<exists>st' f' t'. set_lan_config env cops [inet_ntoa w] st = Inr (0, st')
     \<and> bridge_conf (new_config st') = (bridge_conf (new_config st))\<lparr>
         inaddr_ip := w, inaddr_broad := w OR mask 8, inaddr_mas := NOT (mask 8) \<rparr>
     \<and> inet_aton (DHCP_From (dhcp_server_config (new_config st'))) = Some f'
     \<and> inet_aton (DHCP_To (dhcp_server_config (new_config st'))) = Some t'
     \<and> addr_byte f' 3 = addr_byte f 3 \<and> addr_byte t' 3 = addr_byte t 3
     \<and> (\<forall>i < 3. addr_byte f' i = addr_byte w i \<and> addr_byte t' i = addr_byte w i)
     \<and> img (store st') CONFIG_SIZE = put_config (new_config st')"
proof -
  let ?c = "lan_config w (w OR mask 8) (NOT (mask 8)) f t (new_config st)"
  let ?L = "(LAN_config_addrs st)\<lparr> lan_IPAddr := inet_ntoa w, lan_Mask := inet_ntoa (NOT (mask 8)),
    lan_Broadcast := inet_ntoa (w OR mask 8) \<rparr>"
  let ?st1 = "st\<lparr> LAN_config_addrs := ?L, new_config := ?c \<rparr>"
  obtain f1 where f1: "nw_flash cops ?st1 = Inr (?st1\<lparr> store := f1 \<rparr>)" "img f1 CONFIG_SIZE = put_config ?c"
    using conf_store.nw_flash_holds [OF assms(1), of ?st1] assms(2) wf_lan_config [OF assms(3)]
    by (auto simp: conf_store.holds_def [OF assms(1)])
  have "set_lan_config env cops [inet_ntoa w] st = Inr (0, ?st1\<lparr> store := f1 \<rparr>)"
    using f1(1) assms(4,8-10) findClass_printed_C [OF assms(7,5,6)]
    by (simp add: set_lan_config_def checks_printed strlcpy_printed mask_C gen_broadcast_printed
        aton_unchecked_def inet_aton_inet_ntoa change_dhcp_pool_def Let_def lan_config_def SHELL_OK_def
        IPADDR_SIZE_def del: set_lanmask.simps)
  with f1(2) show ?thesis
    by (simp add: lan_config_def inet_aton_inet_ntoa and_low_high_bytes)
qed

theorem lan_command_is_consistent_witness:
  "\<exists>st' f' t'. set_lan_config demo_env ram_conf_ops [inet_ntoa (quad 192 168 7 1)] demo_state = Inr (0, st')
     \<and> bridge_conf (new_config st') = (bridge_conf (new_config demo_state))\<lparr>
         inaddr_ip := quad 192 168 7 1, inaddr_broad := quad 192 168 7 1 OR mask 8, inaddr_mas := NOT (mask 8) \<rparr>
     \<and> inet_aton (DHCP_From (dhcp_server_config (new_config st'))) = Some f'
     \<and> inet_aton (DHCP_To (dhcp_server_config (new_config st'))) = Some t'
     \<and> addr_byte f' 3 = addr_byte (quad 192 168 0 2) 3 \<and> addr_byte t' 3 = addr_byte (quad 192 168 0 200) 3
     \<and> (\<forall>i < 3. addr_byte f' i = addr_byte (quad 192 168 7 1) i \<and> addr_byte t' i = addr_byte (quad 192 168 7 1) i)
     \<and> take CONFIG_SIZE (store st') = put_config (new_config st')"
proof (rule lan_command_is_consistent [OF ram.conf_store_axioms])
  have "inet_aton (DHCP_From default_dhcps) = Some (quad 192 168 0 2)"
    "inet_aton (DHCP_To default_dhcps) = Some (quad 192 168 0 200)"
    by code_simp+
  then show "inet_aton (DHCP_From (dhcp_server_config (new_config demo_state))) = Some (quad 192 168 0 2)"
    "inet_aton (DHCP_To (dhcp_server_config (new_config demo_state))) = Some (quad 192 168 0 200)"
    by (simp_all add: demo_state_def default_config_def)
  have "issamesubnet (wan_IPAddr default_wan) (inet_ntoa (quad 192 168 7 1)) = Inr False"
    by code_simp
  then show "issamesubnet (wan_IPAddr (WAN_config_addrs (config demo_state))) (inet_ntoa (quad 192 168 7 1)) = Inr False"
    by (simp add: demo_state_def default_config_def)
qed (simp_all add: demo_state_def wf_default_config good_host_def addr_byte_quad junk_stops_def demo_env_def)

lemma parse_dhcp_lease:
  "parse_dhcp args d = Inr (Some d') \<Longrightarrow> opt_ltime d = 0 \<or> isvalidTime (opt_ltime d) \<Longrightarrow>
   (opt_ltime d' = 0 \<or> isvalidTime (opt_ltime d'))
     \<and> (''-T'' \<notin> set args \<longrightarrow> opt_ltime d' = opt_ltime d)"
proof (induction args arbitrary: d rule: induct_list012)
  case (3 opt v rest)
  then show ?case by (auto split: if_splits elim!: bind_okE)
qed auto

lemma put_config_nonempty: "put_config c \<noteq> []"
  by (simp add: put_config_def put_u32_def)

text \<open>
  The DHCP command stores only a pool that passed \<^verbatim>\<open>isvalidrange\<close> and a lease time that passed
  \<^verbatim>\<open>isvalidTime\<close>, or zero: when the time is left out and another option is given twice, the zero the
  variable started with is stored.
\<close>

theorem dhcp_command_lease:
  assumes "dhcp_serv_config env cops argv st = Inr (r, st')" "st' \<noteq> st"
  shows "(\<exists>ip1 ip2. in_range env ip1 ip2 = Inr True
         \<and> DHCP_From (dhcp_server_config (new_config st')) = strlcpy ip1 16
         \<and> DHCP_To (dhcp_server_config (new_config st')) = strlcpy ip2 16)
     \<and> (Lease_Time (dhcp_server_config (new_config st')) = 0
        \<or> isvalidTime (Lease_Time (dhcp_server_config (new_config st'))))
     \<and> (''-T'' \<notin> set argv \<longrightarrow> Lease_Time (dhcp_server_config (new_config st')) = 0)"
  using assms
proof (rule dhcp_stored)
  fix d ip1 ip2
  assume parsed: "parse_dhcp argv \<lparr> opt_ip1 = None, opt_ip2 = None, opt_ltime = 0 \<rparr> = Inr (Some d)"
    and rng: "in_range env ip1 ip2 = Inr True"
    and saved: "save cops 0 ((new_config st)\<lparr> dhcp_server_config := (dhcp_server_config (new_config st))\<lparr>
       DHCP_From := strlcpy ip1 16, DHCP_To := strlcpy ip2 16, Lease_Time := opt_ltime d \<rparr> \<rparr>) st = Inr (r, st')"
  from saveD [OF saved] rng parse_dhcp_lease [OF parsed] show ?thesis by auto
qed

text \<open>The entry \<^verbatim>\<open>-S 192.168.0.2 -E 192.168.0.9 -E 192.168.0.200\<close> has six arguments and no lease time.\<close>

theorem dhcp_command_lease_witness:
  "\<exists>st'. dhcp_serv_config demo_env ram_conf_ops
       [''-S'', ''192.168.0.2'', ''-E'', ''192.168.0.9'', ''-E'', ''192.168.0.200''] demo_state = Inr (0, st')
     \<and> Lease_Time (dhcp_server_config (new_config st')) = 0"
proof -
  let ?argv = "[''-S'', ''192.168.0.2'', ''-E'', ''192.168.0.9'', ''-E'', ''192.168.0.200'']"
  have checks: "isvalidip ''192.168.0.2'' = Inr True" "isvalidip ''192.168.0.9'' = Inr True"
    "isvalidip ''192.168.0.200'' = Inr True" "in_range demo_env ''192.168.0.2'' ''192.168.0.200'' = Inr True"
    by code_simp+
  have "\<exists>st'. dhcp_serv_config demo_env ram_conf_ops ?argv demo_state = Inr (0, st') \<and> store st' \<noteq> []"
    by (simp add: dhcp_serv_config_def checks save_def nw_flash_def write_nw_flash_def ram_conf_ops_def SHELL_OK_def
        put_config_nonempty Let_def)
  then obtain st' where st': "dhcp_serv_config demo_env ram_conf_ops ?argv demo_state = Inr (0, st')" "store st' \<noteq> []"
    by blast
  moreover from st'(2) have "st' \<noteq> demo_state" by (auto simp: demo_state_def)
  ultimately show ?thesis
    using dhcp_command_lease [OF st'(1)] by simp
qed

text \<open>
  \<^verbatim>\<open>ipfw delete\<close> without a number is decided on the number an earlier command left in the static
  array \<^verbatim>\<open>ipfw_args\<close>; the firewall is then called and \<^verbatim>\<open>argv[1]\<close> is read past the end of the argument
  list.
\<close>

theorem ipfw_delete_reads_stale_number:
  assumes "length (ipfw_args st) = 16" "isvalid_digit (ipfw_args st ! 2)" "\<forall>tr. ext_ret env tr \<noteq> - 1"
  shows "ipfw_func env cops [''delete''] st = Inl OutOfBounds"
proof -
  have "strlcpy ''delete'' MAX_IPFW_RULE_ARGS_SIZE = ''delete''"
    by code_simp
  with assms show ?thesis
    by (simp add: ipfw_func_def call_ext_def Let_def nth_append guard_c_def numeral_2_eq_2)
qed

theorem ipfw_delete_reads_stale_number_witness:
  "ipfw_func demo_env ram_conf_ops [''delete''] (demo_state\<lparr> ipfw_args := demo_args \<rparr>) = Inl OutOfBounds"
proof (rule ipfw_delete_reads_stale_number)
  have "isvalid_digit (demo_args ! 2)" "length demo_args = 16" by code_simp+
  then show "isvalid_digit (ipfw_args (demo_state\<lparr> ipfw_args := demo_args \<rparr>) ! 2)"
    "length (ipfw_args (demo_state\<lparr> ipfw_args := demo_args \<rparr>)) = 16" by simp_all
qed (simp add: demo_env_def)

end
