(* ===== verification/Serial_Ring.thy ===== *)
theory Serial_Ring
  imports Ap_Prelude
begin

text \<open>
  The console driver \<^verbatim>\<open>packages/devs/serial/mips/qca/current/src/serial.c\<close> with
  \<^verbatim>\<open>ATH_ENABLE_SERIAL_INTERRUPTS\<close>, as the board's configuration defines it: the interrupt routine that
  moves received bytes into the ring \<^verbatim>\<open>srx_buf\<close>, the reader that waits for them, and the transmit
  side. The UART is a parameter: its registers are functions on a state of type \<open>'u\<close>. The ring's
  indices are bytes, so they wrap at the size of the buffer.

  The interrupt routine and the reader run interleaved; the step relation at the end says how.
\<close>

section \<open>The UART\<close>

record 'u uart_ops =
  rd_intr_id :: "'u \<Rightarrow> u8 \<times> 'u"
  rd_line_status :: "'u \<Rightarrow> u8 \<times> 'u"
  rd_modem_status :: "'u \<Rightarrow> u8 \<times> 'u"
  rd_rcv_buffer :: "'u \<Rightarrow> u8 \<times> 'u"
  wr_send_buffer :: "u8 \<Rightarrow> 'u \<Rightarrow> 'u"

record 'u serial =
  srx_buf :: "u8 list"
  srx_rd :: u8
  srx_wr :: u8
  serial_msr :: u8
  serial_lsr :: u8
  serial_events :: u32
  msec_timeout :: u32
  uart :: 'u

definition SERIAL_EVENT_RXRDY :: u32 where "SERIAL_EVENT_RXRDY = 0x01"
definition SERIAL_EVENT_TBMT :: u32 where "SERIAL_EVENT_TBMT = 0x02"
definition SERIAL_EVENT_MSC :: u32 where "SERIAL_EVENT_MSC = 0x04"
definition SERIAL_EVENT_LSC :: u32 where "SERIAL_EVENT_LSC = 0x08"

definition SIO_IIR_IID_MSC :: u8 where "SIO_IIR_IID_MSC = 0x00"
definition SIO_IIR_IID_NONE :: u8 where "SIO_IIR_IID_NONE = 0x01"
definition SIO_IIR_IID_THRE :: u8 where "SIO_IIR_IID_THRE = 0x02"
definition SIO_IIR_IID_RXDA :: u8 where "SIO_IIR_IID_RXDA = 0x04"
definition SIO_IIR_IID_RXS :: u8 where "SIO_IIR_IID_RXS = 0x06"
definition SIO_IIR_IID_CTO :: u8 where "SIO_IIR_IID_CTO = 0x0c"
definition SIO_IIR_IID_MASK :: u8 where "SIO_IIR_IID_MASK = 0x0e"

lemmas serial_consts = SERIAL_EVENT_RXRDY_def SERIAL_EVENT_TBMT_def SERIAL_EVENT_MSC_def SERIAL_EVENT_LSC_def
  SIO_IIR_IID_MSC_def SIO_IIR_IID_NONE_def SIO_IIR_IID_THRE_def SIO_IIR_IID_RXDA_def SIO_IIR_IID_RXS_def
  SIO_IIR_IID_CTO_def SIO_IIR_IID_MASK_def

section \<open>Receiving\<close>

definition cyg_flag_setbits :: "u32 \<Rightarrow> 'u serial \<Rightarrow> 'u serial" where
  "cyg_flag_setbits b s = s\<lparr> serial_events := serial_events s OR b \<rparr>"

definition srx_put :: "u8 \<Rightarrow> 'u serial \<Rightarrow> 'u serial" where
  "srx_put b s = s\<lparr> srx_buf := (srx_buf s)[unat (srx_wr s) := b], srx_wr := srx_wr s + 1 \<rparr>"

text \<open>A UART that never runs empty keeps the inner loop going, hence \<open>option\<close>.\<close>

partial_function (option) rx_loop :: "'u uart_ops \<Rightarrow> 'u serial \<Rightarrow> 'u serial option" where
  "rx_loop ops s =
     (case rd_line_status ops (uart s) of (ls, u1) \<Rightarrow>
      if ls AND 1 \<noteq> 0 then
        (case rd_rcv_buffer ops u1 of (b, u2) \<Rightarrow> rx_loop ops (srx_put b (s\<lparr> uart := u2 \<rparr>)))
      else Some (s\<lparr> uart := u1 \<rparr>))"

definition intr_cause :: "'u uart_ops \<Rightarrow> u8 \<Rightarrow> 'u serial \<Rightarrow> 'u serial option" where
  "intr_cause ops i s =
     (if i = SIO_IIR_IID_RXS then
        (case rd_line_status ops (uart s) of (ls, u) \<Rightarrow>
         Some (cyg_flag_setbits SERIAL_EVENT_LSC (s\<lparr> serial_lsr := serial_lsr s OR ls, uart := u \<rparr>)))
      else if i = SIO_IIR_IID_CTO \<or> i = SIO_IIR_IID_RXDA then
        map_option (\<lambda>s1. if srx_wr s1 \<noteq> srx_rd s1 then cyg_flag_setbits SERIAL_EVENT_RXRDY s1 else s1)
          (rx_loop ops s)
      else if i = SIO_IIR_IID_THRE then Some (cyg_flag_setbits SERIAL_EVENT_TBMT s)
      else if i = SIO_IIR_IID_MSC then
        (case rd_modem_status ops (uart s) of (ms, u) \<Rightarrow>
         Some (cyg_flag_setbits SERIAL_EVENT_MSC (s\<lparr> serial_msr := serial_msr s OR ms, uart := u \<rparr>)))
      else Some s)"

partial_function (option) qca_serial_intr :: "'u uart_ops \<Rightarrow> 'u serial \<Rightarrow> 'u serial option" where
  "qca_serial_intr ops s =
     (case rd_intr_id ops (uart s) of (i, u) \<Rightarrow>
      if i AND SIO_IIR_IID_NONE = 0 then
        Option.bind (intr_cause ops (i AND SIO_IIR_IID_MASK) (s\<lparr> uart := u \<rparr>)) (qca_serial_intr ops)
      else Some (s\<lparr> uart := u \<rparr>))"

text \<open>One pass of the reader: \<open>None\<close> when it has to wait for \<^verbatim>\<open>SERIAL_EVENT_RXRDY\<close>.\<close>

definition srx_get :: "'u serial \<Rightarrow> (u8 \<times> 'u serial) option" where
  "srx_get s =
     (if srx_wr s = srx_rd s then None
      else Some (srx_buf s ! unat (srx_rd s), s\<lparr> srx_rd := srx_rd s + 1 \<rparr>))"

definition qca_serial_tstc :: "'u uart_ops \<Rightarrow> 'u serial \<Rightarrow> bool \<times> 'u serial" where
  "qca_serial_tstc ops s =
     (case rd_line_status ops (uart s) of (ls, u) \<Rightarrow> (ls AND 1 \<noteq> 0, s\<lparr> uart := u \<rparr>))"

text \<open>\<^verbatim>\<open>qca_serial_read\<close> for bytes that have already arrived.\<close>

fun qca_serial_read :: "nat \<Rightarrow> 'u serial \<Rightarrow> (u8 list \<times> 'u serial) option" where
  "qca_serial_read 0 s = Some ([], s)"
| "qca_serial_read (Suc len) s =
     (case srx_get s of
        None \<Rightarrow> None
      | Some (b, s1) \<Rightarrow> map_option (\<lambda>(bs, s2). (b # bs, s2)) (qca_serial_read len s1))"

text \<open>\<^verbatim>\<open>delay_count\<close> is decremented after the test: the loop body runs that many times.\<close>

fun getc_poll :: "'u uart_ops \<Rightarrow> nat \<Rightarrow> 'u serial \<Rightarrow> u8 option \<times> 'u serial" where
  "getc_poll ops 0 s = (None, s)"
| "getc_poll ops (Suc n) s =
     (case qca_serial_tstc ops s of (ready, s1) \<Rightarrow>
      if ready then (case rd_rcv_buffer ops (uart s1) of (b, u) \<Rightarrow> (Some b, s1\<lparr> uart := u \<rparr>))
      else getc_poll ops n s1)"

text \<open>A negative \<^verbatim>\<open>int delay_count\<close> counts down through the whole range of \<^verbatim>\<open>int\<close>.\<close>

definition qca_serial_getc_timeout :: "'u uart_ops \<Rightarrow> 'u serial \<Rightarrow> u8 option \<times> 'u serial" where
  "qca_serial_getc_timeout ops s = getc_poll ops (unat (msec_timeout s * 10)) s"

section \<open>Transmitting\<close>

partial_function (option) wait_tbmt :: "'u uart_ops \<Rightarrow> 'u \<Rightarrow> 'u option" where
  "wait_tbmt ops u =
     (case rd_line_status ops u of (ls, u1) \<Rightarrow> if ls AND 0x20 = 0 then wait_tbmt ops u1 else Some u1)"

definition putc_raw :: "'u uart_ops \<Rightarrow> u8 \<Rightarrow> 'u serial \<Rightarrow> 'u serial option" where
  "putc_raw ops b s = map_option (\<lambda>u. s\<lparr> uart := wr_send_buffer ops b u \<rparr>) (wait_tbmt ops (uart s))"

definition qca_serial_putc :: "'u uart_ops \<Rightarrow> u8 \<Rightarrow> 'u serial \<Rightarrow> 'u serial option" where
  "qca_serial_putc ops b s =
     (if b = 0x0A then Option.bind (putc_raw ops 0x0D s) (putc_raw ops b) else putc_raw ops b s)"

fun qca_serial_write :: "'u uart_ops \<Rightarrow> u8 list \<Rightarrow> 'u serial \<Rightarrow> 'u serial option" where
  "qca_serial_write ops [] s = Some s"
| "qca_serial_write ops (b # bs) s = Option.bind (qca_serial_putc ops b s) (qca_serial_write ops bs)"

text \<open>\<^verbatim>\<open>qca_serial_puts\<close> on the bytes of a buffer that holds a terminated string.\<close>

definition qca_serial_puts :: "'u uart_ops \<Rightarrow> u8 list \<Rightarrow> 'u serial \<Rightarrow> 'u serial option" where
  "qca_serial_puts ops bytes s = qca_serial_write ops (takeWhile (\<lambda>b. b \<noteq> 0) bytes) s"

datatype comm_control = COMMCTL_SET_TIMEOUT u32 | COMMCTL_SETBAUD | COMMCTL_GETBAUD | COMMCTL_OTHER

definition CONFIG_BAUDRATE :: u32 where "CONFIG_BAUDRATE = 115200"

fun qca_serial_control :: "comm_control \<Rightarrow> 'u serial \<Rightarrow> u32 \<times> 'u serial" where
  "qca_serial_control (COMMCTL_SET_TIMEOUT t) s = (msec_timeout s, s\<lparr> msec_timeout := t \<rparr>)"
| "qca_serial_control COMMCTL_SETBAUD s = (0, s)"
| "qca_serial_control COMMCTL_GETBAUD s = (CONFIG_BAUDRATE, s)"
| "qca_serial_control COMMCTL_OTHER s = (0, s)"

section \<open>The ring as a queue\<close>

locale byte_queue =
  fixes put :: "'b \<Rightarrow> 's \<Rightarrow> 's" and get :: "'s \<Rightarrow> ('b \<times> 's) option"
    and content :: "'s \<Rightarrow> 'b list" and ok :: "'s \<Rightarrow> bool" and cap :: nat
  assumes put_content: "\<And>s b. ok s \<Longrightarrow> length (content s) < cap \<Longrightarrow> content (put b s) = content s @ [b]"
    and put_ok: "\<And>s b. ok s \<Longrightarrow> ok (put b s)"
    and get_empty: "\<And>s. ok s \<Longrightarrow> get s = None \<longleftrightarrow> content s = []"
    and get_content: "\<And>s b s'. ok s \<Longrightarrow> get s = Some (b, s') \<Longrightarrow> content s = b # content s' \<and> ok s'"
begin

lemma fold_put_ok: "ok s \<Longrightarrow> ok (fold put bs s)"
  by (induction bs arbitrary: s) (simp_all add: put_ok)

lemma fold_put_content:
  "ok s \<Longrightarrow> length (content s) + length bs \<le> cap \<Longrightarrow> content (fold put bs s) = content s @ bs"
  by (induction bs arbitrary: s) (simp_all add: put_ok put_content)

fun gets :: "nat \<Rightarrow> 's \<Rightarrow> ('b list \<times> 's) option" where
  "gets 0 s = Some ([], s)"
| "gets (Suc n) s = (case get s of None \<Rightarrow> None
     | Some (b, s1) \<Rightarrow> map_option (\<lambda>(bs, s2). (b # bs, s2)) (gets n s1))"

lemma gets_content:
  "ok s \<Longrightarrow> n \<le> length (content s) \<Longrightarrow>
   \<exists>s'. gets n s = Some (take n (content s), s') \<and> content s' = drop n (content s) \<and> ok s'"
proof (induction n arbitrary: s)
  case (Suc n)
  then obtain b s1 where g: "get s = Some (b, s1)" using get_empty [of s] by (cases "get s") auto
  with Suc.prems get_content [of s b s1] have "content s = b # content s1" "ok s1" "n \<le> length (content s1)"
    by auto
  with Suc.IH [of s1] g show ?case by auto
qed simp

lemma put_get_all:
  assumes "ok s" "content s = []" "length bs \<le> cap"
  shows "\<exists>s'. gets (length bs) (fold put bs s) = Some (bs, s') \<and> content s' = []"
  using gets_content [OF fold_put_ok [OF assms(1)], of "length bs" bs] fold_put_content [of s bs] assms by auto

end

definition ring_ok :: "'u serial \<Rightarrow> bool" where
  "ring_ok s \<longleftrightarrow> length (srx_buf s) = 256"

definition content :: "'u serial \<Rightarrow> u8 list" where
  "content s = map (\<lambda>i. srx_buf s ! unat (srx_rd s + of_nat i)) [0..<unat (srx_wr s - srx_rd s)]"

lemma unat_u8_less: "unat (w :: u8) < 256"
  using unsigned_less [of w, where 'a = nat] by simp

lemma unat_u8_succ: "unat (w + 1 :: u8) = (if unat w = 255 then 0 else unat w + 1)"
proof (cases "unat w = 255")
  case False
  then have "unat w + 1 < 256" using unat_u8_less [of w] by linarith
  with False show ?thesis by (simp add: unat_plus_if' [of w 1])
qed (simp add: unat_plus_if' [of w 1])

text \<open>Offsets below the fill level are different cells, none of them the one written next.\<close>

lemma ring_offset_ne:
  assumes "i < unat (w - r :: u8)"
  shows "unat w \<noteq> unat (r + of_nat i)"
proof
  assume "unat w = unat (r + of_nat i)"
  then have "r + of_nat i = w" by (metis unsigned_word_eqI)
  then have "of_nat i = w - r" by (simp add: algebra_simps)
  then have "unat (of_nat i :: u8) = unat (w - r)" by simp
  moreover have "i < 256" using assms unat_u8_less [of "w - r"] by simp
  ultimately show False using assms by (simp add: unat_of_nat_small)
qed

lemma srx_put_content:
  assumes "ring_ok s" "unat (srx_wr s - srx_rd s) < 255"
  shows "content (srx_put b s) = content s @ [b]"
proof -
  let ?n = "unat (srx_wr s - srx_rd s)"
  have n: "unat (srx_wr s + 1 - srx_rd s) = Suc ?n"
    using unat_u8_succ [of "srx_wr s - srx_rd s"] assms(2) by (simp add: algebra_simps)
  have last: "srx_rd s + of_nat ?n = srx_wr s"
    by simp
  show ?thesis
    using assms(1) n last ring_offset_ne [of _ "srx_wr s" "srx_rd s"]
    by (auto simp: content_def srx_put_def ring_ok_def unat_u8_less)
qed

lemma srx_get_content:
  assumes "srx_get s = Some (b, s')"
  shows "content s = b # content s'"
proof -
  have ne: "srx_wr s - srx_rd s \<noteq> 0" and b: "b = srx_buf s ! unat (srx_rd s)"
    and s': "s' = s\<lparr> srx_rd := srx_rd s + 1 \<rparr>"
    using assms by (auto simp: srx_get_def split: if_splits)
  let ?m = "srx_wr s - (srx_rd s + 1)"
  have "unat (srx_wr s - srx_rd s) = Suc (unat ?m)"
    using unat_u8_succ [of ?m] ne by (auto simp: unat_eq_0 split: if_splits)
  then show ?thesis
    unfolding content_def b s'
    by (simp add: upt_conv_Cons map_Suc_upt [symmetric] algebra_simps del: upt_Suc)
qed

interpretation ring: byte_queue srx_put srx_get content ring_ok 255
proof
  fix s :: "'a serial" and b s'
  show "length (content s) < 255 \<Longrightarrow> ring_ok s \<Longrightarrow> content (srx_put b s) = content s @ [b]"
    by (rule srx_put_content) (simp_all add: content_def)
  show "ring_ok s \<Longrightarrow> ring_ok (srx_put b s)"
    by (simp add: ring_ok_def srx_put_def)
  show "srx_get s = None \<longleftrightarrow> content s = []"
    by (simp add: srx_get_def content_def unat_eq_0)
  show "ring_ok s \<Longrightarrow> srx_get s = Some (b, s') \<Longrightarrow> content s = b # content s' \<and> ring_ok s'"
    using srx_get_content [of s b s'] by (auto simp: srx_get_def ring_ok_def split: if_splits)
qed

lemma qca_serial_read_gets: "qca_serial_read n s = ring.gets n s"
  by (induction n arbitrary: s) (simp_all split: option.splits)

section \<open>What the interrupt routine does\<close>

lemma srx_put_uart: "srx_put b (s\<lparr> uart := u \<rparr>) = (srx_put b s)\<lparr> uart := u \<rparr>"
  by (simp add: srx_put_def)

lemma fold_srx_put_uart: "fold srx_put bs (s\<lparr> uart := u \<rparr>) = (fold srx_put bs s)\<lparr> uart := u \<rparr>"
  by (induction bs arbitrary: s) (simp_all add: srx_put_uart)

lemma fold_srx_put_keeps [simp]:
  "srx_rd (fold srx_put bs s) = srx_rd s" "serial_events (fold srx_put bs s) = serial_events s"
  "srx_wr (fold srx_put bs s) = srx_wr s + of_nat (length bs)" "uart (fold srx_put bs s) = uart s"
  by (induction bs arbitrary: s) (simp_all add: srx_put_def algebra_simps)

text \<open>Two states with the same ring; and: bytes that wait in the ring have been signalled.\<close>

definition same_ring :: "'u serial \<Rightarrow> 'u serial \<Rightarrow> bool" where
  "same_ring s t \<longleftrightarrow> srx_buf s = srx_buf t \<and> srx_rd s = srx_rd t \<and> srx_wr s = srx_wr t"

definition signalled :: "'u serial \<Rightarrow> bool" where
  "signalled s \<longleftrightarrow> (srx_wr s \<noteq> srx_rd s \<longrightarrow> serial_events s AND SERIAL_EVENT_RXRDY \<noteq> 0)"

lemma flag_or: "(a OR b) AND m = 0 \<longleftrightarrow> a AND m = 0 \<and> b AND m = 0" for a b m :: u32
  by (simp add: bit.conj_disj_distrib2 or_eq_0_iff)

lemma same_ring_fold: "same_ring s t \<Longrightarrow> same_ring (fold srx_put bs s) (fold srx_put bs t)"
  by (induction bs arbitrary: s t) (simp_all add: srx_put_def same_ring_def)

lemma same_ring_content: "same_ring s t \<Longrightarrow> content s = content t \<and> (ring_ok s \<longleftrightarrow> ring_ok t)"
  by (simp add: same_ring_def content_def ring_ok_def)

text \<open>
  The UART as its data sheet describes it. \<open>fifo\<close> is what has been received and not yet read,
  \<open>causes\<close> the number of other interrupt causes that are pending: reading \<^verbatim>\<open>OFS_INTR_ID\<close> reports one
  of them or the receive cause, and handling a cause removes it.
\<close>

locale uart_rx =
  fixes ops :: "'u uart_ops" and fifo :: "'u \<Rightarrow> u8 list" and causes :: "'u \<Rightarrow> nat"
  assumes line_status: "\<And>u ls u'. rd_line_status ops u = (ls, u') \<Longrightarrow>
        (ls AND 1 \<noteq> 0 \<longleftrightarrow> fifo u \<noteq> []) \<and> fifo u' = fifo u \<and> causes u' \<le> causes u"
    and rcv_buffer: "\<And>u b u'. rd_rcv_buffer ops u = (b, u') \<Longrightarrow> fifo u \<noteq> [] \<Longrightarrow>
        b = hd (fifo u) \<and> fifo u' = tl (fifo u) \<and> causes u' \<le> causes u"
    and modem_status: "\<And>u ms u'. rd_modem_status ops u = (ms, u') \<Longrightarrow> fifo u' = fifo u \<and> causes u' \<le> causes u"
    and intr_id: "\<And>u i u'. rd_intr_id ops u = (i, u') \<Longrightarrow> fifo u' = fifo u \<and>
        (i AND SIO_IIR_IID_NONE \<noteq> 0 \<and> fifo u = []
         \<or> i AND SIO_IIR_IID_NONE = 0 \<and> i AND SIO_IIR_IID_MASK \<in> {SIO_IIR_IID_RXDA, SIO_IIR_IID_CTO}
           \<and> fifo u \<noteq> [] \<and> causes u' \<le> causes u
         \<or> i AND SIO_IIR_IID_NONE = 0 \<and> i AND SIO_IIR_IID_MASK \<notin> {SIO_IIR_IID_RXDA, SIO_IIR_IID_CTO}
           \<and> causes u' < causes u)"
begin

lemma rx_loop_drains:
  "\<exists>u'. rx_loop ops s = Some ((fold srx_put (fifo (uart s)) s)\<lparr> uart := u' \<rparr>)
     \<and> fifo u' = [] \<and> causes u' \<le> causes (uart s)"
proof (induction "fifo (uart s)" arbitrary: s)
  case Nil
  obtain ls u1 where "rd_line_status ops (uart s) = (ls, u1)" by fastforce
  with Nil line_status [OF this] show ?case by (subst rx_loop.simps) auto
next
  case (Cons b bs)
  obtain ls u1 where ls: "rd_line_status ops (uart s) = (ls, u1)" by fastforce
  obtain b' u2 where rb: "rd_rcv_buffer ops u1 = (b', u2)" by fastforce
  have b: "ls AND 1 \<noteq> 0" "b' = b" "fifo u2 = bs" "causes u2 \<le> causes (uart s)"
    using line_status [OF ls] rcv_buffer [OF rb] Cons.hyps(2) [symmetric] by auto
  let ?s = "srx_put b (s\<lparr> uart := u2 \<rparr>)"
  have u: "uart ?s = u2" by (simp add: srx_put_def)
  from Cons.hyps(1) [of ?s] b u show ?case
    by (subst rx_loop.simps) (auto simp: ls rb Cons.hyps(2) [symmetric] srx_put_uart fold_srx_put_uart)
qed

definition work :: "'u \<Rightarrow> nat" where
  "work u = causes u + (if fifo u = [] then 0 else 1)"

text \<open>One pass of the interrupt loop.\<close>

lemma intr_cause_effect:
  assumes "rd_intr_id ops (uart s) = (i, u)" "i AND SIO_IIR_IID_NONE = 0" "ring_ok s"
  shows "\<exists>s1. intr_cause ops (i AND SIO_IIR_IID_MASK) (s\<lparr> uart := u \<rparr>) = Some s1 \<and> work (uart s1) < work (uart s)
    \<and> same_ring (fold srx_put (fifo (uart s1)) s1) (fold srx_put (fifo (uart s)) s)
    \<and> (signalled s \<or> (fifo (uart s) \<noteq> [] \<and> fifo (uart s1) = []) \<longrightarrow> signalled s1) \<and> ring_ok s1"
proof (cases "i AND SIO_IIR_IID_MASK \<in> {SIO_IIR_IID_RXDA, SIO_IIR_IID_CTO}")
  case True
  then have id: "fifo u = fifo (uart s)" "fifo (uart s) \<noteq> []" "causes u \<le> causes (uart s)"
    using intr_id [OF assms(1)] assms(2) by auto
  obtain u' where "rx_loop ops (s\<lparr> uart := u \<rparr>) = Some ((fold srx_put (fifo u) s)\<lparr> uart := u' \<rparr>)"
    "fifo u' = []" "causes u' \<le> causes u"
    using rx_loop_drains [of "s\<lparr> uart := u \<rparr>"] by (auto simp: fold_srx_put_uart)
  with True id assms(3) ring.fold_put_ok [of s] show ?thesis
    by (auto simp: intr_cause_def work_def same_ring_def signalled_def cyg_flag_setbits_def ring_ok_def serial_consts flag_or)
next
  case False
  then have id: "fifo u = fifo (uart s)" "causes u < causes (uart s)"
    using intr_id [OF assms(1)] assms(2) by auto
  have "\<exists>s1. intr_cause ops (i AND SIO_IIR_IID_MASK) (s\<lparr> uart := u \<rparr>) = Some s1
      \<and> same_ring s1 s \<and> fifo (uart s1) = fifo u \<and> causes (uart s1) \<le> causes u
      \<and> (signalled s \<longrightarrow> signalled s1)"
    using False line_status modem_status
    by (auto simp: intr_cause_def same_ring_def signalled_def cyg_flag_setbits_def serial_consts flag_or
        split: prod.splits)
  then obtain s1 where s1: "intr_cause ops (i AND SIO_IIR_IID_MASK) (s\<lparr> uart := u \<rparr>) = Some s1"
    "same_ring s1 s" "fifo (uart s1) = fifo u" "causes (uart s1) \<le> causes u" "signalled s \<longrightarrow> signalled s1"
    by blast
  moreover from s1 id have "work (uart s1) < work (uart s)" by (simp add: work_def)
  moreover from s1 id have "same_ring (fold srx_put (fifo (uart s1)) s1) (fold srx_put (fifo (uart s)) s)"
    by (simp add: same_ring_fold)
  moreover from s1(2) assms(3) have "ring_ok s1" by (simp add: same_ring_content)
  ultimately show ?thesis using id(1) by auto
qed

lemma intr_effect:
  "ring_ok s \<Longrightarrow> \<exists>s'. qca_serial_intr ops s = Some s' \<and> fifo (uart s') = []
     \<and> same_ring s' (fold srx_put (fifo (uart s)) s) \<and> (signalled s \<or> fifo (uart s) \<noteq> [] \<longrightarrow> signalled s')"
proof (induction "work (uart s)" arbitrary: s rule: less_induct)
  case less
  obtain i u where iu: "rd_intr_id ops (uart s) = (i, u)" by fastforce
  show ?case
  proof (cases "i AND SIO_IIR_IID_NONE = 0")
    case False
    with intr_id [OF iu] show ?thesis
      by (subst qca_serial_intr.simps) (auto simp: iu same_ring_def signalled_def)
  next
    case True
    obtain s1 where s1: "intr_cause ops (i AND SIO_IIR_IID_MASK) (s\<lparr> uart := u \<rparr>) = Some s1"
      "work (uart s1) < work (uart s)" "ring_ok s1"
      "same_ring (fold srx_put (fifo (uart s1)) s1) (fold srx_put (fifo (uart s)) s)"
      "signalled s \<or> (fifo (uart s) \<noteq> [] \<and> fifo (uart s1) = []) \<longrightarrow> signalled s1"
      using intr_cause_effect [OF iu True less.prems] by blast
    from less.hyps [OF s1(2,3)] s1 True show ?thesis
      by (subst qca_serial_intr.simps) (auto simp: iu same_ring_def)
  qed
qed

lemma intr_queue:
  assumes "ring_ok s" "length (content s) + length (fifo (uart s)) \<le> 255"
  shows "\<exists>s'. qca_serial_intr ops s = Some s' \<and> content s' = content s @ fifo (uart s)"
  using intr_effect [OF assms(1)] ring.fold_put_content [OF assms] same_ring_content by metis

end

section \<open>A UART in memory\<close>

record uart16550 =
  u_fifo :: "u8 list"
  u_other :: "u8 list"
  u_sent :: "u8 list"

definition uart16550_ops :: "uart16550 uart_ops" where
  "uart16550_ops =
     \<lparr> rd_intr_id = (\<lambda>u. if u_fifo u \<noteq> [] then (SIO_IIR_IID_RXDA, u)
         else (case u_other u of [] \<Rightarrow> (SIO_IIR_IID_NONE, u)
               | c # cs \<Rightarrow> (c AND 0x0A, u\<lparr> u_other := cs \<rparr>))),
       rd_line_status = (\<lambda>u. (if u_fifo u = [] then 0x20 else 0x21, u)),
       rd_modem_status = (\<lambda>u. (0, u)),
       rd_rcv_buffer = (\<lambda>u. (hd (u_fifo u), u\<lparr> u_fifo := tl (u_fifo u) \<rparr>)),
       wr_send_buffer = (\<lambda>b u. u\<lparr> u_sent := u_sent u @ [b] \<rparr>) \<rparr>"

interpretation uart: uart_rx uart16550_ops u_fifo "\<lambda>u. length (u_other u)"
proof
  fix u i u'
  assume "rd_intr_id uart16550_ops u = (i, u')"
  moreover have "(c AND 10) AND 1 = 0" "(c AND 10) AND 14 = c AND 10" "c AND 10 \<noteq> 4" "c AND 10 \<noteq> 12" for c :: u8
  proof -
    show "(c AND 10) AND 1 = 0" "(c AND 10) AND 14 = c AND 10" by (simp_all add: and.assoc)
    have "\<not> bit (c AND 10) 2" by (simp add: bit_and_iff)
    then show "c AND 10 \<noteq> 4" "c AND 10 \<noteq> 12" by auto
  qed
  ultimately show "u_fifo u' = u_fifo u \<and>
        (i AND SIO_IIR_IID_NONE \<noteq> 0 \<and> u_fifo u = []
         \<or> i AND SIO_IIR_IID_NONE = 0 \<and> i AND SIO_IIR_IID_MASK \<in> {SIO_IIR_IID_RXDA, SIO_IIR_IID_CTO}
           \<and> u_fifo u \<noteq> [] \<and> length (u_other u') \<le> length (u_other u)
         \<or> i AND SIO_IIR_IID_NONE = 0 \<and> i AND SIO_IIR_IID_MASK \<notin> {SIO_IIR_IID_RXDA, SIO_IIR_IID_CTO}
           \<and> length (u_other u') < length (u_other u))"
    by (auto simp: uart16550_ops_def serial_consts split: if_splits list.splits)
qed (auto simp: uart16550_ops_def split: if_splits)

section \<open>Reader and interrupts interleaved\<close>

text \<open>
  \<open>Check\<close> is the test of the loop in \<^verbatim>\<open>qca_serial_getc\<close>, \<open>Waiting\<close> the call of \<^verbatim>\<open>cyg_flag_wait\<close>, \<open>Got\<close> its
  return. \<open>arrived\<close>, \<open>delivered\<close> and \<open>overran\<close> record the history: all bytes the UART received, all bytes
  returned, and whether an interrupt ever found more bytes than the ring had room for.
\<close>

datatype reader = Check | Waiting | Got u8

record 'u console =
  reader :: reader
  ser :: "'u serial"
  arrived :: "u8 list"
  delivered :: "u8 list"
  overran :: bool

datatype actor = Irq | Reader

inductive con_step :: "'u uart_ops \<Rightarrow> ('u \<Rightarrow> u8 list) \<Rightarrow> actor \<Rightarrow> 'u console \<Rightarrow> 'u console \<Rightarrow> bool"
  for ops :: "'u uart_ops" and fifo :: "'u \<Rightarrow> u8 list" where
  interrupt: "qca_serial_intr ops ((ser c)\<lparr> uart := u \<rparr>) = Some s' \<Longrightarrow>
    con_step ops fifo Irq c (c\<lparr> ser := s', arrived := arrived c @ fifo u,
      overran := overran c \<or> 255 < length (content (ser c)) + length (fifo u) \<rparr>)"
| check_empty: "reader c = Check \<Longrightarrow> srx_get (ser c) = None \<Longrightarrow>
    con_step ops fifo Reader c (c\<lparr> reader := Waiting \<rparr>)"
| check_byte: "reader c = Check \<Longrightarrow> srx_get (ser c) = Some (b, s') \<Longrightarrow>
    con_step ops fifo Reader c (c\<lparr> reader := Got b, ser := s', delivered := delivered c @ [b] \<rparr>)"
| wake: "reader c = Waiting \<Longrightarrow> serial_events (ser c) AND SERIAL_EVENT_RXRDY \<noteq> 0 \<Longrightarrow>
    con_step ops fifo Reader c (c\<lparr> reader := Check,
      ser := (ser c)\<lparr> serial_events := serial_events (ser c) AND NOT SERIAL_EVENT_RXRDY \<rparr> \<rparr>)"
| call_again: "reader c = Got b \<Longrightarrow> con_step ops fifo Reader c (c\<lparr> reader := Check \<rparr>)"

inductive_cases con_stepE: "con_step ops fifo a c c'"

inductive con_reach :: "'u uart_ops \<Rightarrow> ('u \<Rightarrow> u8 list) \<Rightarrow> 'u console \<Rightarrow> bool"
  for ops :: "'u uart_ops" and fifo :: "'u \<Rightarrow> u8 list" where
  boot: "ring_ok s \<Longrightarrow> content s = [] \<Longrightarrow>
    con_reach ops fifo \<lparr> reader = Check, ser = s, arrived = [], delivered = [], overran = False \<rparr>"
| step: "con_reach ops fifo c \<Longrightarrow> con_step ops fifo a c c' \<Longrightarrow> con_reach ops fifo c'"

lemma content_update [simp]:
  "content (s\<lparr> serial_events := e \<rparr>) = content s" "content (s\<lparr> uart := u \<rparr>) = content s"
  "ring_ok (s\<lparr> serial_events := e \<rparr>) = ring_ok s" "ring_ok (s\<lparr> uart := u \<rparr>) = ring_ok s"
  "signalled (s\<lparr> uart := u \<rparr>) = signalled s"
  by (simp_all add: content_def ring_ok_def signalled_def)

lemma content_empty: "ring_ok s \<Longrightarrow> content s = [] \<longleftrightarrow> srx_wr s = srx_rd s"
  using ring.get_empty [of s] by (auto simp: srx_get_def split: if_splits)

context uart_rx
begin

lemma intr_some:
  assumes "ring_ok s" "qca_serial_intr ops s = Some s'"
  shows "ring_ok s'" "signalled s \<Longrightarrow> signalled s'"
    "length (content s) + length (fifo (uart s)) \<le> 255 \<Longrightarrow> content s' = content s @ fifo (uart s)"
proof -
  obtain s1 where s1: "qca_serial_intr ops s = Some s1" "same_ring s1 (fold srx_put (fifo (uart s)) s)"
    "signalled s \<longrightarrow> signalled s1"
    using intr_effect [OF assms(1)] by blast
  then show "ring_ok s'" "signalled s \<Longrightarrow> signalled s'"
    using assms ring.fold_put_ok [OF assms(1)] same_ring_content by auto
  show "length (content s) + length (fifo (uart s)) \<le> 255 \<Longrightarrow> content s' = content s @ fifo (uart s)"
    using intr_queue [OF assms(1)] assms(2) by auto
qed

lemma reach_inv:
  "con_reach ops fifo c \<Longrightarrow> ring_ok (ser c) \<and> (reader c = Waiting \<longrightarrow> signalled (ser c))
     \<and> (\<not> overran c \<longrightarrow> arrived c = delivered c @ content (ser c))"
proof (induction rule: con_reach.induct)
  case (step c a c')
  from step.hyps(2) step.IH show ?case
  proof (cases rule: con_step.cases)
    case (interrupt u s')
    then show ?thesis using step.IH intr_some [of "(ser c)\<lparr> uart := u \<rparr>" s'] by auto
  next
    case (check_byte b s')
    then show ?thesis using step.IH ring.get_content [of "ser c" b s'] by auto
  qed (auto simp: signalled_def srx_get_def split: if_splits)
qed simp

lemma check_delivers:
  assumes "reader c = Check" "ring_ok (ser c)" "content (ser c) \<noteq> []"
  shows "\<exists>c'. con_step ops fifo Reader c c' \<and> delivered c' = delivered c @ [hd (content (ser c))]
    \<and> reader c' = Got (hd (content (ser c)))"
proof -
  obtain b s' where g: "srx_get (ser c) = Some (b, s')"
    using ring.get_empty [OF assms(2)] assms(3) by (cases "srx_get (ser c)") auto
  then have "hd (content (ser c)) = b" using ring.get_content [OF assms(2) g] by simp
  with check_byte [OF assms(1) g] show ?thesis by fastforce
qed

lemma reader_progress:
  assumes "con_reach ops fifo c" "content (ser c) \<noteq> []"
  shows "\<exists>n c'. n \<le> 2 \<and> (con_step ops fifo Reader ^^ n) c c' \<and> delivered c' = delivered c @ [hd (content (ser c))]
    \<and> reader c' = Got (hd (content (ser c)))"
proof -
  note inv = reach_inv [OF assms(1)]
  show ?thesis
  proof (cases "reader c = Check")
    case True
    then obtain c' where "con_step ops fifo Reader c c'" "delivered c' = delivered c @ [hd (content (ser c))]"
      "reader c' = Got (hd (content (ser c)))"
      using check_delivers [of c] inv assms(2) by blast
    then show ?thesis by (intro exI [of _ 1] exI [of _ c']) (simp add: eq_OO)
  next
    case False
    have "\<exists>c1. con_step ops fifo Reader c c1 \<and> reader c1 = Check \<and> content (ser c1) = content (ser c)
        \<and> ring_ok (ser c1) \<and> delivered c1 = delivered c"
    proof (cases "reader c")
      case Waiting
      with inv content_empty [of "ser c"] assms(2) have "serial_events (ser c) AND SERIAL_EVENT_RXRDY \<noteq> 0"
        by (auto simp: signalled_def)
      from wake [OF Waiting this] show ?thesis using inv by fastforce
    next
      case (Got b)
      from call_again [OF this] show ?thesis using inv by fastforce
    qed (use False in simp)
    then obtain c1 where c1: "con_step ops fifo Reader c c1" "reader c1 = Check" "content (ser c1) = content (ser c)"
      "ring_ok (ser c1)" "delivered c1 = delivered c" by blast
    then obtain c' where "con_step ops fifo Reader c1 c'" "delivered c' = delivered c @ [hd (content (ser c))]"
      "reader c' = Got (hd (content (ser c)))"
      using check_delivers [of c1] assms(2) by auto
    with c1(1) show ?thesis by (intro exI [of _ 2] exI [of _ c']) (auto simp: numeral_2_eq_2)
  qed
qed

end

text \<open>The transmit side: the holding register becomes empty after finitely many looks at the status.\<close>

locale uart_tx =
  fixes ops :: "'u uart_ops" and sent :: "'u \<Rightarrow> u8 list" and busy :: "'u \<Rightarrow> nat"
  assumes status: "\<And>u ls u'. rd_line_status ops u = (ls, u') \<Longrightarrow> sent u' = sent u \<and>
        (ls AND 0x20 = 0 \<longrightarrow> busy u' < busy u)"
    and send: "\<And>u b. sent (wr_send_buffer ops b u) = sent u @ [b]"
begin

lemma wait_tbmt_ends: "\<exists>u'. wait_tbmt ops u = Some u' \<and> sent u' = sent u"
proof (induction "busy u" arbitrary: u rule: less_induct)
  case less
  obtain ls u1 where "rd_line_status ops u = (ls, u1)" by fastforce
  with less.hyps [of u1] status [OF this] show ?case by (subst wait_tbmt.simps) auto
qed

lemma putc_raw_sends: "\<exists>s'. putc_raw ops b s = Some s' \<and> sent (uart s') = sent (uart s) @ [b]"
  using wait_tbmt_ends [of "uart s"] by (auto simp: putc_raw_def send [rule_format])

lemma putc_sends:
  "\<exists>s'. qca_serial_putc ops b s = Some s' \<and> sent (uart s') = sent (uart s) @ (if b = 0x0A then [0x0D, 0x0A] else [b])"
  proof -
  obtain s1 where s1: "putc_raw ops 0x0D s = Some s1" "sent (uart s1) = sent (uart s) @ [0x0D]"
    using putc_raw_sends by blast
  obtain s2 where "putc_raw ops b s1 = Some s2" "sent (uart s2) = sent (uart s1) @ [b]"
    using putc_raw_sends by blast
  with s1 putc_raw_sends [of b s] show ?thesis by (auto simp: qca_serial_putc_def)
qed

lemma write_sends:
  "\<exists>s'. qca_serial_write ops bs s = Some s'
     \<and> sent (uart s') = sent (uart s) @ concat (map (\<lambda>b. if b = 0x0A then [0x0D, 0x0A] else [b]) bs)"
proof (induction bs arbitrary: s)
  case (Cons b bs)
  obtain s1 where "qca_serial_putc ops b s = Some s1"
    "sent (uart s1) = sent (uart s) @ (if b = 0x0A then [0x0D, 0x0A] else [b])"
    using putc_sends by blast
  with Cons [of s1] show ?case by auto
qed simp

end

interpretation uart_out: uart_tx uart16550_ops u_sent "\<lambda>_. 0"
  by unfold_locales (auto simp: uart16550_ops_def split: if_splits)

section \<open>Properties\<close>

definition demo_serial :: "u8 list \<Rightarrow> uart16550 serial" where
  "demo_serial bs = \<lparr> srx_buf = replicate 256 0, srx_rd = 250, srx_wr = 250, serial_msr = 0, serial_lsr = 0,
     serial_events = 0, msec_timeout = 0, uart = \<lparr> u_fifo = bs, u_other = [], u_sent = [] \<rparr> \<rparr>"

lemma demo_serial_ok: "ring_ok (demo_serial bs)" "content (demo_serial bs) = []"
  by (simp_all add: demo_serial_def ring_ok_def content_def)

lemma demo_serial_fifo: "u_fifo (uart (demo_serial bs)) = bs"
  by (simp add: demo_serial_def)

text \<open>
  The interrupt routine returns, whatever causes are pending, and has moved every received byte to
  the end of the ring in order, as long as they fit; reading then returns them.
\<close>

theorem interrupt_queues_received_bytes:
  assumes "uart_rx ops fifo causes" "ring_ok s"
    and "length (content s) + length (fifo (uart s)) \<le> 255"
  shows "\<exists>s' s''. qca_serial_intr ops s = Some s' \<and> fifo (uart s') = []
     \<and> qca_serial_read (length (content s) + length (fifo (uart s))) s' = Some (content s @ fifo (uart s), s'')"
proof -
  obtain s' where s': "qca_serial_intr ops s = Some s'" "fifo (uart s') = []"
    "same_ring s' (fold srx_put (fifo (uart s)) s)"
    using uart_rx.intr_effect [OF assms(1,2)] by blast
  then have "content s' = content s @ fifo (uart s)" "ring_ok s'"
    using ring.fold_put_content [OF assms(2,3)] ring.fold_put_ok [OF assms(2)] same_ring_content by metis+
  with ring.gets_content [of s' "length (content s')"] s'(1,2) show ?thesis
    by (auto simp: qca_serial_read_gets)
qed

theorem interrupt_queues_received_bytes_witness:
  "\<exists>s' s''. qca_serial_intr uart16550_ops (demo_serial [1, 2, 3, 4, 5, 6, 7, 8]) = Some s' \<and> u_fifo (uart s') = []
     \<and> qca_serial_read 8 s' = Some ([1, 2, 3, 4, 5, 6, 7, 8], s'')"
  using interrupt_queues_received_bytes [OF uart.uart_rx_axioms, of "demo_serial [1, 2, 3, 4, 5, 6, 7, 8]"]
  by (simp add: demo_serial_ok demo_serial_fifo eval_nat_numeral del: qca_serial_read.simps)

text \<open>
  (C11) The console delivers what it receives: in every interleaving of interrupts with the reader, the
  bytes delivered so far, followed by those in the ring, are the bytes that arrived, in order, unless
  an interrupt found more than the ring could take.
\<close>

theorem console_is_a_fifo:
  assumes "uart_rx ops fifo causes" "con_reach ops fifo c" "\<not> overran c"
  shows "arrived c = delivered c @ content (ser c)"
  using uart_rx.reach_inv [OF assms(1,2)] assms(3) by blast

definition demo_console :: "uart16550 console" where
  "demo_console = \<lparr> reader = Check, ser = demo_serial [], arrived = [], delivered = [], overran = False \<rparr>"

lemma demo_console_reach: "con_reach ops fifo demo_console"
  unfolding demo_console_def by (rule con_reach.boot [OF demo_serial_ok])

text \<open>Two bytes arrive and the first one is read.\<close>

theorem console_is_a_fifo_witness:
  "\<exists>c. con_reach uart16550_ops u_fifo c \<and> arrived c = [65, 66] \<and> delivered c = [65]
     \<and> arrived c = delivered c @ content (ser c)"
proof -
  let ?u = "\<lparr> u_fifo = [65, 66], u_other = [], u_sent = [] \<rparr>"
  let ?s = "(ser demo_console)\<lparr> uart := ?u \<rparr>"
  have ok: "ring_ok ?s" "content ?s = []" by (simp_all add: demo_console_def demo_serial_ok)
  obtain s' where i: "qca_serial_intr uart16550_ops ?s = Some s'"
    using uart.intr_effect [OF ok(1)] by blast
  then have s': "content s' = [65, 66]" "ring_ok s'"
    using uart.intr_some [OF ok(1) i] ok(2) by simp_all
  let ?c1 = "demo_console\<lparr> ser := s', arrived := arrived demo_console @ u_fifo ?u,
      overran := overran demo_console \<or> 255 < length (content (ser demo_console)) + length (u_fifo ?u) \<rparr>"
  have c1: "con_reach uart16550_ops u_fifo ?c1"
    by (rule con_reach.step [OF demo_console_reach con_step.interrupt [OF i]])
  obtain s2 where g: "srx_get s' = Some (65, s2)"
    using ring.get_empty [OF s'(2)] s'(1) ring.get_content [OF s'(2)] by (cases "srx_get s'") fastforce+
  let ?c2 = "?c1\<lparr> reader := Got 65, ser := s2, delivered := delivered ?c1 @ [65] \<rparr>"
  have "con_step uart16550_ops u_fifo Reader ?c1 ?c2"
    by (rule con_step.check_byte) (simp_all add: demo_console_def g)
  then have c2: "con_reach uart16550_ops u_fifo ?c2" by (rule con_reach.step [OF c1])
  have h: "\<not> overran ?c2" "arrived ?c2 = [65, 66]" "delivered ?c2 = [65]"
    by (simp_all add: demo_console_def demo_serial_ok)
  from console_is_a_fifo [OF uart.uart_rx_axioms c2 h(1)] have "arrived ?c2 = delivered ?c2 @ content (ser ?c2)" .
  with c2 h(2,3) show ?thesis by blast
qed

text \<open>
  (C12) No wake-up is lost: whatever interleaving led to a state with bytes in the ring, the reader
  returns the oldest of them within two of its own steps. In particular it is not left waiting when
  the interrupt comes between its test of the ring and its wait.
\<close>

theorem reader_is_not_left_waiting:
  assumes "uart_rx ops fifo causes" "con_reach ops fifo c" "content (ser c) \<noteq> []"
  shows "\<exists>n c'. n \<le> 2 \<and> (con_step ops fifo Reader ^^ n) c c' \<and> reader c' = Got (hd (content (ser c)))
     \<and> delivered c' = delivered c @ [hd (content (ser c))]"
  using uart_rx.reader_progress [OF assms] by blast

text \<open>The interrupt comes after the test and before the wait.\<close>

theorem reader_is_not_left_waiting_witness:
  "\<exists>c. con_reach uart16550_ops u_fifo c \<and> reader c = Waiting
     \<and> (\<exists>n c'. n \<le> 2 \<and> (con_step uart16550_ops u_fifo Reader ^^ n) c c' \<and> reader c' = Got (hd (content (ser c))))"
proof -
  let ?u = "\<lparr> u_fifo = [65], u_other = [], u_sent = [] \<rparr>"
  let ?c1 = "demo_console\<lparr> reader := Waiting \<rparr>"
  let ?s = "(ser ?c1)\<lparr> uart := ?u \<rparr>"
  have "con_step uart16550_ops u_fifo Reader demo_console ?c1"
    by (rule con_step.check_empty) (simp_all add: demo_console_def srx_get_def demo_serial_def)
  then have c1: "con_reach uart16550_ops u_fifo ?c1" by (rule con_reach.step [OF demo_console_reach])
  have ok: "ring_ok ?s" "content ?s = []" by (simp_all add: demo_console_def demo_serial_ok)
  obtain s' where i: "qca_serial_intr uart16550_ops ?s = Some s'"
    using uart.intr_effect [OF ok(1)] by blast
  let ?c2 = "?c1\<lparr> ser := s', arrived := arrived ?c1 @ u_fifo ?u,
      overran := overran ?c1 \<or> 255 < length (content (ser ?c1)) + length (u_fifo ?u) \<rparr>"
  have c2: "con_reach uart16550_ops u_fifo ?c2"
    by (rule con_reach.step [OF c1 con_step.interrupt [OF i]])
  have "content (ser ?c2) \<noteq> []"
    using uart.intr_some(3) [OF ok(1) i] ok(2) by simp
  with reader_is_not_left_waiting [OF uart.uart_rx_axioms c2] c2 show ?thesis by (intro exI [of _ ?c2]) auto
qed

text \<open>
  A burst of 256 bytes that the reader does not keep up with is lost as a whole: the write index
  comes back to the read index and the ring looks empty.
\<close>

theorem burst_of_256_is_lost:
  assumes "uart_rx ops fifo causes" "ring_ok s" "content s = []" "length (fifo (uart s)) = 256"
  shows "\<exists>s'. qca_serial_intr ops s = Some s' \<and> fifo (uart s') = [] \<and> srx_get s' = None"
proof -
  obtain s' where s': "qca_serial_intr ops s = Some s'" "fifo (uart s') = []"
    "same_ring s' (fold srx_put (fifo (uart s)) s)"
    using uart_rx.intr_effect [OF assms(1,2)] by blast
  have "srx_wr s = srx_rd s" using assms(2,3) content_empty by blast
  with s'(3) assms(4) have "srx_wr s' = srx_rd s'" by (simp add: same_ring_def)
  with s' show ?thesis by (simp add: srx_get_def)
qed

theorem burst_of_256_is_lost_witness:
  "\<exists>s'. qca_serial_intr uart16550_ops (demo_serial (replicate 256 65)) = Some s' \<and> u_fifo (uart s') = [] \<and> srx_get s' = None"
  by (rule burst_of_256_is_lost [OF uart.uart_rx_axioms demo_serial_ok]) (simp add: demo_serial_def)

text \<open>
  \<^verbatim>\<open>qca_serial_puts\<close> sends the string up to its terminator, with a carriage return before every
  line feed, and returns once the transmitter has taken it all.
\<close>

theorem puts_sends_text:
  assumes "uart_tx ops sent busy" "0 \<notin> set text"
  shows "\<exists>s'. qca_serial_puts ops (text @ 0 # rest) s = Some s'
     \<and> sent (uart s') = sent (uart s) @ concat (map (\<lambda>b. if b = 0x0A then [0x0D, 0x0A] else [b]) text)"
proof -
  have "takeWhile (\<lambda>b. b \<noteq> 0) (text @ 0 # rest) = text"
    using assms(2) by (subst takeWhile_append2) auto
  then show ?thesis
    using uart_tx.write_sends [OF assms(1)] by (simp add: qca_serial_puts_def)
qed

theorem puts_sends_text_witness:
  "\<exists>s'. qca_serial_puts uart16550_ops [79, 75, 10, 0, 99] (demo_serial []) = Some s' \<and> u_sent (uart s') = [79, 75, 13, 10]"
  using puts_sends_text [OF uart_out.uart_tx_axioms, of "[79, 75, 10]" "[99]" "demo_serial []"]
  by (simp add: demo_serial_def)

end
