(* ===== verification/Shell_Line.thy ===== *)
theory Shell_Line
  imports Ap_Prelude
begin

text \<open>
  The shell's line editor \<^verbatim>\<open>ecosap/shell/shelltask.c\<close>: the ring of remembered lines, the key loop of
  \<^verbatim>\<open>shelltask\<close>, and \<^verbatim>\<open>count_argc\<close>, which finds the command and cuts the line into arguments. Echo and
  prompts are not modelled.

  The line is a buffer of 257 characters and an index of type \<^verbatim>\<open>unsigned char\<close>; \<^verbatim>\<open>argv\<close> is an array of
  ten pointers into the line, here offsets. The remembered lines are nodes with \<^verbatim>\<open>prev\<close> and \<^verbatim>\<open>next\<close>
  pointers; an address is the number of the allocation.
\<close>

definition COM_BUF_LEN :: nat where "COM_BUF_LEN = 256"
definition SHELL_HIST_SIZE :: nat where "SHELL_HIST_SIZE = 10"
definition ARGV_SIZE :: nat where "ARGV_SIZE = 10"

text \<open>The string that starts at an offset of a buffer, and \<^verbatim>\<open>strncpy\<close>, which pads with zeros.\<close>

definition str_at :: "char list \<Rightarrow> nat \<Rightarrow> string" where
  "str_at buf p = takeWhile (\<lambda>c. c \<noteq> NUL) (drop p buf)"

definition strncpy :: "char list \<Rightarrow> char list \<Rightarrow> nat \<Rightarrow> char list" where
  "strncpy dst src n =
     (let s = takeWhile (\<lambda>c. c \<noteq> NUL) (take n src) in s @ replicate (n - length s) NUL @ drop n dst)"

section \<open>Remembered lines\<close>

record hist_node =
  h_buf :: "char list"
  h_pos :: u32
  h_prev :: "nat option"
  h_next :: "nat option"

text \<open>\<open>malloc_ok n\<close> is whether the allocation number \<open>n\<close> succeeds.\<close>

definition add_shell_history_node ::
  "(nat \<Rightarrow> bool) \<Rightarrow> nat option \<Rightarrow> u32 \<Rightarrow> hist_node list \<Rightarrow> nat option \<times> hist_node list" where
  "add_shell_history_node malloc_ok history pos heap =
     (if \<not> malloc_ok (length heap) then (None, heap)
      else
        (let s = length heap;
             node = \<lparr> h_buf = replicate (COM_BUF_LEN + 1) NUL, h_pos = pos, h_prev = history, h_next = None \<rparr>;
             heap1 = (case history of None \<Rightarrow> heap | Some h \<Rightarrow> heap[h := (heap ! h)\<lparr> h_next := Some s \<rparr>])
         in (Some s, heap1 @ [node])))"

fun build_loop ::
  "(nat \<Rightarrow> bool) \<Rightarrow> nat \<Rightarrow> nat \<Rightarrow> nat option \<Rightarrow> nat option \<Rightarrow> hist_node list
     \<Rightarrow> (nat option \<times> nat option) option \<times> hist_node list" where
  "build_loop malloc_ok n 0 start sh heap = (Some (start, sh), heap)"
| "build_loop malloc_ok n (Suc i) start sh heap =
     (case add_shell_history_node malloc_ok (if Suc i = n then None else sh) (of_nat (Suc i)) heap of
        (None, heap1) \<Rightarrow> (None, heap1)
      | (Some s, heap1) \<Rightarrow> build_loop malloc_ok n i (if Suc i = n then Some s else start) (Some s) heap1)"

definition build_hist_list ::
  "(nat \<Rightarrow> bool) \<Rightarrow> nat \<Rightarrow> hist_node list \<Rightarrow> (nat option \<times> hist_node list) cres" where
  "build_hist_list malloc_ok n heap =
     (case build_loop malloc_ok n n None None heap of
        (None, heap1) \<Rightarrow> Inr (None, heap1)
      | (Some (Some start, Some sh), heap1) \<Rightarrow>
          (let heap2 = heap1[sh := (heap1 ! sh)\<lparr> h_next := Some start \<rparr>]
           in Inr (Some start, heap2[start := (heap2 ! start)\<lparr> h_prev := Some sh \<rparr>]))
      | (Some _, heap1) \<Rightarrow> Inl NullDeref)"

section \<open>Arguments\<close>

text \<open>The pointer is an \<^verbatim>\<open>unsigned char\<close>: on a line without a terminator it would run around, hence
  \<open>option\<close>. The result is the line with the arguments terminated, \<^verbatim>\<open>argv\<close> and \<^verbatim>\<open>argc\<close>.\<close>

partial_function (option) arg_loop ::
  "char list \<Rightarrow> u8 \<Rightarrow> nat list \<Rightarrow> u8 \<Rightarrow> (char list \<times> nat list \<times> u8) cres option" where
  "arg_loop buf pointer argv argc =
     (if buf ! unat pointer = NUL then Some (Inr (buf, argv, argc))
      else if buf ! unat pointer = SPACE then
        (if unat argc < ARGV_SIZE then
           arg_loop (if argc > 0 then buf[unat pointer := NUL] else buf) (pointer + 1)
             (argv[unat argc := unat (pointer + 1)]) (argc + 1)
         else Some (Inl OutOfBounds))
      else arg_loop buf (pointer + 1) argv argc)"

text \<open>\<open>tab\<close> are the names in the command table. \<open>Inr None\<close> is \<^verbatim>\<open>ERRORCOMMAND\<close>; otherwise the name of the
  command found, the line, \<^verbatim>\<open>argv\<close> and \<^verbatim>\<open>argc\<close>.\<close>

definition count_argc ::
  "string list \<Rightarrow> char list \<Rightarrow> nat list \<Rightarrow> (string \<times> char list \<times> nat list \<times> u8) option cres option" where
  "count_argc tab buf argv =
     (let name = takeWhile (\<lambda>c. c \<noteq> SPACE \<and> c \<noteq> NUL) (take 20 buf) in
      if name \<notin> set tab then Some (Inr None)
      else map_option (map_sum id (\<lambda>r. Some (name, r))) (arg_loop buf (of_nat (length name)) argv 0))"

section \<open>The key loop\<close>

record shell =
  command_buf :: "char list"
  cur :: u8
  hist :: "hist_node list"
  sh :: nat
  argv :: "nat list"
  argc :: u8
  shell_cnt :: u32

type_synonym shell_call = "string \<times> string list"

definition accepted :: "char \<Rightarrow> bool" where
  "accepted ch \<longleftrightarrow> c_isprint ch \<or> code_of ch \<in> {0x08, 0x7F, 0x0A, 0x0D, 0x01, 0x02, 0x15, 0x06, 0x10, 0x0E}"

text \<open>Ctrl-P and Ctrl-N, once \<^verbatim>\<open>sh\<close> has moved to the node \<open>k\<close>.\<close>

definition recall :: "nat option \<Rightarrow> shell \<Rightarrow> shell cres" where
  "recall p s =
     (case p of
        None \<Rightarrow> Inl NullDeref
      | Some k \<Rightarrow>
          (let buf = strncpy (command_buf s) (h_buf (hist s ! k)) COM_BUF_LEN
           in Inr (s\<lparr> sh := k, command_buf := buf, cur := of_nat (length (str_at buf 0)) \<rparr>)))"

definition put_char :: "char \<Rightarrow> shell \<Rightarrow> shell" where
  "put_char ch s = s\<lparr> command_buf := (command_buf s)[unat (cur s) := ch], cur := cur s + 1 \<rparr>"

definition clear_line :: "shell \<Rightarrow> shell" where
  "clear_line s = s\<lparr> cur := 0, command_buf := (command_buf s)[0 := NUL] \<rparr>"

definition enter :: "string list \<Rightarrow> shell \<Rightarrow> (shell \<times> shell_call option) cres option" where
  "enter tab s =
     (if cur s = 0 then Some (Inr (s, None))
      else
        (let i = (if command_buf s ! unat (cur s - 1) = SPACE then cur s - 1 else cur s);
             buf = (command_buf s)[unat i := NUL];
             node = hist s ! sh s;
             hist1 = (hist s)[sh s := node\<lparr> h_buf := strncpy (h_buf node) buf COM_BUF_LEN \<rparr>]
         in
         case h_next node of
           None \<Rightarrow> Some (Inl NullDeref)
         | Some next \<Rightarrow>
             (let s1 = s\<lparr> cur := i, command_buf := buf, hist := hist1, sh := next, argc := 0 \<rparr> in
              map_option (map_sum id (\<lambda>r. case r of
                  None \<Rightarrow> (clear_line s1, None)
                | Some (name, buf', argv', argc') \<Rightarrow>
                    (clear_line (s1\<lparr> command_buf := buf', argv := argv', argc := argc' \<rparr>),
                     Some (name, map (str_at buf') (take (unat argc') argv')))))
                (count_argc tab buf (argv s)))))"

definition shell_key :: "string list \<Rightarrow> char \<Rightarrow> shell \<Rightarrow> (shell \<times> shell_call option) cres option" where
  "shell_key tab ch s =
     (if \<not> accepted ch then Some (Inr (s, None))
      else
        (let s0 = s\<lparr> shell_cnt := shell_cnt s + 1 \<rparr>;
             done = (\<lambda>s. Some (Inr (s, None)))
         in
         if code_of ch = 0x01 then done s0
         else if code_of ch = 0x10 then Some (bind_ok (recall (h_prev (hist s0 ! sh s0)) s0) (\<lambda>s. Inr (s, None)))
         else if code_of ch = 0x0E then Some (bind_ok (recall (h_next (hist s0 ! sh s0)) s0) (\<lambda>s. Inr (s, None)))
         else if code_of ch = 0x02 then done (if cur s0 \<noteq> 0 then s0\<lparr> cur := cur s0 - 1 \<rparr> else s0)
         else if code_of ch = 0x0A \<or> code_of ch = 0x0D then enter tab s0
         else if code_of ch = 0x15 then done (s0\<lparr> cur := 0 \<rparr>)
         else if code_of ch = 0x7F \<or> code_of ch = 0x08 then
           done (if cur s0 \<noteq> 0 then s0\<lparr> cur := cur s0 - 1 \<rparr> else s0)
         else if ch = SPACE then
           done (if cur s0 = 0 \<or> unat (cur s0) > COM_BUF_LEN \<or> command_buf s0 ! unat (cur s0 - 1) = SPACE
                 then s0 else put_char ch s0)
         else done (if unat (cur s0) < COM_BUF_LEN then put_char ch s0 else s0)))"

text \<open>A run over the keys typed, with the calls it makes in order.\<close>

fun shell_run :: "string list \<Rightarrow> string \<Rightarrow> shell \<Rightarrow> (shell \<times> shell_call list) cres option" where
  "shell_run tab [] s = Some (Inr (s, []))"
| "shell_run tab (k # ks) s =
     (case shell_key tab k s of
        None \<Rightarrow> None
      | Some (Inl f) \<Rightarrow> Some (Inl f)
      | Some (Inr (s1, call)) \<Rightarrow>
          map_option (map_sum id (\<lambda>(s2, calls). (s2, (case call of None \<Rightarrow> calls | Some c \<Rightarrow> c # calls))))
            (shell_run tab ks s1))"

section \<open>Strings in buffers\<close>

lemma length_strncpy: "length dst = 257 \<Longrightarrow> length (strncpy dst src COM_BUF_LEN) = 257"
  using length_takeWhile_le [of "\<lambda>c. c \<noteq> NUL" "take 256 src"]
  by (simp add: strncpy_def COM_BUF_LEN_def Let_def)

lemma takeWhile_cstr: "NUL \<notin> set s \<Longrightarrow> takeWhile (\<lambda>c. c \<noteq> NUL) (s @ NUL # rest) = s"
  by (subst takeWhile_append2) auto

lemma str_at_prefix: "is_cstr s \<Longrightarrow> str_at (s @ NUL # rest) 0 = s"
  by (simp add: str_at_def is_cstr_def takeWhile_cstr)

lemma strncpy_prefix:
  assumes "is_cstr s" "length s \<le> 255"
  shows "strncpy dst (s @ NUL # rest) COM_BUF_LEN = s @ replicate (256 - length s) NUL @ drop 256 dst"
proof -
  have "takeWhile (\<lambda>c. c \<noteq> NUL) (take 256 (s @ NUL # rest)) = s"
    using assms by (simp add: is_cstr_def take_Cons' takeWhile_cstr)
  then show ?thesis by (simp add: strncpy_def COM_BUF_LEN_def)
qed

text \<open>A buffer that holds a string of at most 255 characters.\<close>

definition holds_line :: "char list \<Rightarrow> string \<Rightarrow> bool" where
  "holds_line buf l \<longleftrightarrow> length buf = 257 \<and> is_cstr l \<and> length l \<le> 255 \<and> take (length l) buf = l \<and> buf ! length l = NUL"

lemma holds_lineE:
  assumes "holds_line buf l"
  obtains rest where "buf = l @ NUL # rest" "length buf = 257" "is_cstr l" "length l \<le> 255"
proof -
  have "buf = take (length l) buf @ buf ! length l # drop (Suc (length l)) buf"
    using assms by (intro id_take_nth_drop) (simp add: holds_line_def)
  with assms that show thesis by (simp add: holds_line_def)
qed

lemma holds_lineI: "length (l @ NUL # rest) = 257 \<Longrightarrow> is_cstr l \<Longrightarrow> length l \<le> 255 \<Longrightarrow> holds_line (l @ NUL # rest) l"
  by (simp add: holds_line_def)

lemma holds_line_str: "holds_line buf l \<Longrightarrow> str_at buf 0 = l"
  by (erule holds_lineE) (simp add: str_at_prefix)

lemma holds_line_strncpy:
  assumes "holds_line src l" "length dst = 257"
  shows "holds_line (strncpy dst src COM_BUF_LEN) l"
proof -
  obtain rest where "src = l @ NUL # rest" "is_cstr l" "length l \<le> 255"
    using assms(1) by (rule holds_lineE)
  moreover then have "replicate (256 - length l) NUL = NUL # replicate (255 - length l) NUL"
    by (simp add: Suc_diff_le flip: replicate_Suc)
  ultimately show ?thesis
    using assms(2) by (simp add: strncpy_prefix holds_line_def)
qed

section \<open>Lines with single spaces\<close>

text \<open>\<open>spaced True l\<close>: the line does not start with a space and no space follows another.\<close>

fun spaced :: "bool \<Rightarrow> string \<Rightarrow> bool" where
  "spaced b [] = True"
| "spaced b (c # cs) = (\<not> (b \<and> c = SPACE) \<and> spaced (c = SPACE) cs)"

fun ends_space :: "bool \<Rightarrow> string \<Rightarrow> bool" where
  "ends_space b [] = b"
| "ends_space b (c # cs) = ends_space (c = SPACE) cs"

lemma spaced_append: "spaced b (xs @ ys) \<longleftrightarrow> spaced b xs \<and> spaced (ends_space b xs) ys"
  by (induction xs arbitrary: b) simp_all

lemma ends_space_last: "xs \<noteq> [] \<Longrightarrow> ends_space b xs \<longleftrightarrow> last xs = SPACE"
  by (induction xs arbitrary: b) auto

lemma spaced_take: "spaced b xs \<Longrightarrow> spaced b (take n xs)"
  by (metis append_take_drop_id spaced_append)

lemma spaced_butlast: "spaced b xs \<Longrightarrow> spaced b (butlast xs)"
  by (simp add: butlast_conv_take spaced_take)

section \<open>Cutting a line into arguments\<close>

text \<open>The specification: every space starts an argument, which ends before the next space.\<close>

fun split_args :: "string \<Rightarrow> string list" where
  "split_args [] = []"
| "split_args (c # cs) =
     (if c = SPACE then takeWhile (\<lambda>c. c \<noteq> SPACE) cs # split_args cs else split_args cs)"

text \<open>What the loop leaves in the line, and the offsets it stores.\<close>

fun blank :: "bool \<Rightarrow> string \<Rightarrow> string" where
  "blank b [] = []"
| "blank b (c # cs) = (if c = SPACE then (if b then NUL else c) # blank True cs else c # blank b cs)"

fun offsets :: "nat \<Rightarrow> string \<Rightarrow> nat list" where
  "offsets p [] = []"
| "offsets p (c # cs) = (if c = SPACE then Suc p # offsets (Suc p) cs else offsets (Suc p) cs)"

lemma length_blank [simp]: "length (blank b cs) = length cs"
  by (induction cs arbitrary: b) simp_all

lemma length_offsets: "length (offsets p cs) = length (split_args cs)"
  by (induction cs arbitrary: p) simp_all

lemma takeWhile_blank:
  "NUL \<notin> set cs \<Longrightarrow> takeWhile (\<lambda>c. c \<noteq> NUL) (blank True cs @ NUL # rest) = takeWhile (\<lambda>c. c \<noteq> SPACE) cs"
  by (induction cs) auto

lemma str_at_append: "str_at (pre @ buf) (length pre + p) = str_at buf p"
  by (simp add: str_at_def)

lemma offsets_strings:
  "NUL \<notin> set cs \<Longrightarrow> map (str_at (pre @ blank b cs @ NUL # rest)) (offsets (length pre) cs) = split_args cs"
proof (induction cs arbitrary: pre b)
  case (Cons c cs)
  have a: "str_at (pre @ x # blank True cs @ NUL # rest) (Suc (length pre)) = takeWhile (\<lambda>c. c \<noteq> SPACE) cs" for x
    using Cons.prems by (simp add: str_at_def takeWhile_blank)
  show ?case
    using Cons.prems Cons.IH [of "pre @ [c]" b] Cons.IH [of "pre @ [c]" True] Cons.IH [of "pre @ [NUL]" True] a
    by auto
qed simp

lemma unat_u8_small: "n < 256 \<Longrightarrow> unat (of_nat n :: u8) = n"
  by (simp add: unat_of_nat_small)

text \<open>The state \<^verbatim>\<open>argc\<close> is the number \<open>k\<close> of arguments found so far.\<close>

lemma arg_loop_run:
  assumes "NUL \<notin> set cs" "length pre + length cs \<le> 255" "length av = 10" "k \<le> 10"
  shows "arg_loop (pre @ cs @ NUL # rest) (of_nat (length pre)) av (of_nat k) =
    (if k + length (split_args cs) \<le> 10
     then Some (Inr (pre @ blank (k > 0) cs @ NUL # rest,
        take k av @ offsets (length pre) cs @ drop (k + length (split_args cs)) av, of_nat (k + length (split_args cs))))
     else Some (Inl OutOfBounds))"
  using assms
proof (induction cs arbitrary: pre av k)
  case Nil
  then show ?case by (subst arg_loop.simps) (simp add: unat_u8_small)
next
  case (Cons c cs)
  let ?p = "length pre"
  have p: "unat (of_nat ?p :: u8) = ?p" "unat (of_nat ?p + 1 :: u8) = Suc ?p" "(of_nat ?p + 1 :: u8) = of_nat (Suc ?p)"
    and p': "unat (of_nat (Suc ?p) :: u8) = Suc ?p"
    using Cons.prems(2) unat_u8_small [of "Suc ?p"] by (simp_all add: unat_u8_small add.commute)
  have k: "unat (of_nat k :: u8) = k" "(of_nat k + 1 :: u8) = of_nat (Suc k)" "(of_nat k :: u8) > 0 \<longleftrightarrow> k > 0"
    using Cons.prems(4) unat_u8_small [of k] by (auto simp: add.commute word_gt_0 unat_eq_0 simp flip: unat_0_iff)
  have c: "c \<noteq> NUL" using Cons.prems(1) by auto
  show ?case
  proof (cases "c = SPACE")
    case False
    with c show ?thesis
      using Cons.prems Cons.IH [of "pre @ [c]" av k] by (subst arg_loop.simps) (simp add: p k)
  next
    case True
    let ?c = "if k > 0 then NUL else c"
    have "(if (of_nat k :: u8) > 0 then (pre @ (c # cs) @ NUL # rest)[?p := NUL] else pre @ (c # cs) @ NUL # rest)
        = (pre @ [?c]) @ cs @ NUL # rest"
      by (simp add: k)
    with True Cons.prems Cons.IH [of "pre @ [?c]" "av[k := Suc ?p]" "Suc k"] show ?thesis
      by (subst arg_loop.simps)
        (auto simp: p p' k ARGV_SIZE_def take_Suc_conv_app_nth simp del: of_nat_Suc)
  qed
qed

definition command_name :: "string \<Rightarrow> string" where
  "command_name l = takeWhile (\<lambda>c. c \<noteq> SPACE) (take 20 l)"

lemma split_args_drop: "SPACE \<notin> set xs \<Longrightarrow> split_args (xs @ ys) = split_args ys"
  by (induction xs) auto

lemma split_args_name: "split_args (drop (length (command_name l)) l) = split_args l"
proof -
  have "l = command_name l @ drop (length (command_name l)) l"
    unfolding command_name_def by (metis append.assoc append_eq_conv_conj append_take_drop_id takeWhile_dropWhile_id)
  moreover have "SPACE \<notin> set (command_name l)"
    by (auto simp: command_name_def dest: set_takeWhileD)
  ultimately show ?thesis by (metis split_args_drop)
qed

lemma takeWhile_name:
  assumes "is_cstr l"
  shows "takeWhile (\<lambda>c. c \<noteq> SPACE \<and> c \<noteq> NUL) (take 20 (l @ NUL # rest)) = command_name l"
proof (cases "length l < 20")
  case True
  have "takeWhile (\<lambda>c. c \<noteq> SPACE \<and> c \<noteq> NUL) (l @ NUL # r) = takeWhile (\<lambda>c. c \<noteq> SPACE) l" for r
    using assms unfolding is_cstr_def by (induction l) auto
  with True show ?thesis by (simp add: command_name_def take_Cons')
next
  case False
  then show ?thesis
    using assms unfolding command_name_def is_cstr_def
    by (auto intro!: takeWhile_cong dest: in_set_takeD)
qed

lemma count_argc_line:
  assumes "holds_line buf l" "length av = 10"
  shows "command_name l \<notin> set tab \<Longrightarrow> count_argc tab buf av = Some (Inr None)"
    and "command_name l \<in> set tab \<Longrightarrow> length (split_args l) > 10 \<Longrightarrow> count_argc tab buf av = Some (Inl OutOfBounds)"
    and "command_name l \<in> set tab \<Longrightarrow> length (split_args l) \<le> 10 \<Longrightarrow>
      \<exists>buf' av' ac. count_argc tab buf av = Some (Inr (Some (command_name l, buf', av', ac)))
        \<and> length buf' = 257 \<and> length av' = 10 \<and> map (str_at buf') (take (unat ac) av') = split_args l"
proof -
  obtain rest where buf: "buf = l @ NUL # rest" "length buf = 257" "is_cstr l" "length l \<le> 255"
    using assms(1) by (rule holds_lineE)
  let ?n = "command_name l" and ?m = "length (split_args l)"
  let ?cs = "drop (length ?n) l"
  have l: "l = ?n @ ?cs"
    unfolding command_name_def by (metis append.assoc append_eq_conv_conj append_take_drop_id takeWhile_dropWhile_id)
  then have len: "length ?n + length ?cs \<le> 255" using buf(4) by (metis length_append)
  have nul: "NUL \<notin> set ?cs" using buf(3) by (auto simp: is_cstr_def dest: in_set_dropD)
  have b: "buf = ?n @ ?cs @ NUL # rest" using buf(1) l by (metis append.assoc)
  note run = arg_loop_run [OF nul len assms(2), of 0 rest, folded b, unfolded split_args_name, simplified]
  have name: "takeWhile (\<lambda>c. c \<noteq> SPACE \<and> c \<noteq> NUL) (take 20 buf) = ?n"
    using takeWhile_name [OF buf(3)] buf(1) by simp
  show "?n \<notin> set tab \<Longrightarrow> count_argc tab buf av = Some (Inr None)"
    and "?n \<in> set tab \<Longrightarrow> ?m > 10 \<Longrightarrow> count_argc tab buf av = Some (Inl OutOfBounds)"
    using run by (simp_all add: count_argc_def name)
  assume "?n \<in> set tab" "?m \<le> 10"
  moreover from this(2) have "unat (of_nat ?m :: u8) = ?m" by (intro unat_u8_small) simp
  moreover have "map (str_at (?n @ blank False ?cs @ NUL # rest)) (offsets (length ?n) ?cs) = split_args l"
    using offsets_strings [OF nul] by (simp add: split_args_name)
  moreover have "length (offsets (length ?n) ?cs) = ?m" by (simp add: length_offsets split_args_name)
  moreover have "length (?n @ blank False ?cs @ NUL # rest) = 257" using buf(2) b by (metis length_append length_Cons length_blank)
  ultimately show "\<exists>buf' av' ac. count_argc tab buf av = Some (Inr (Some (?n, buf', av', ac)))
      \<and> length buf' = 257 \<and> length av' = 10 \<and> map (str_at buf') (take (unat ac) av') = split_args l"
    using run assms(2) by (auto simp: count_argc_def name Let_def)
qed

section \<open>The ring of remembered lines\<close>

definition hist_ring :: "nat \<Rightarrow> hist_node list \<Rightarrow> bool" where
  "hist_ring n heap \<longleftrightarrow> length heap = n \<and>
     (\<forall>k < n. h_next (heap ! k) = Some (Suc k mod n) \<and> h_prev (heap ! k) = Some ((k + (n - 1)) mod n))"

text \<open>The nodes of a chain of \<open>j\<close> allocations out of \<open>n\<close>.\<close>

definition chain :: "nat \<Rightarrow> nat \<Rightarrow> hist_node list" where
  "chain n j = map (\<lambda>k. \<lparr> h_buf = replicate 257 NUL, h_pos = of_nat (n - k),
      h_prev = (if k = 0 then None else Some (k - 1)), h_next = (if Suc k < j then Some (Suc k) else None) \<rparr>) [0..<j]"

lemma add_node_chain:
  assumes "malloc_ok j" "j < n"
  shows "add_shell_history_node malloc_ok (if j = 0 then None else Some (j - 1)) (of_nat (n - j)) (chain n j)
    = (Some j, chain n (Suc j))"
proof -
  have "(chain n j)[j - 1 := (chain n j ! (j - 1))\<lparr> h_next := Some j \<rparr>] @
      [\<lparr> h_buf = replicate 257 NUL, h_pos = of_nat (n - j), h_prev = Some (j - 1), h_next = None \<rparr>] = chain n (Suc j)"
    if "j \<noteq> 0"
    using that by (intro nth_equalityI) (auto simp: chain_def nth_append nth_list_update less_Suc_eq simp del: upt_Suc)
  then show ?thesis
    using assms by (auto simp: add_shell_history_node_def chain_def COM_BUF_LEN_def Let_def)
qed

lemma build_loop_chain:
  assumes "\<forall>k < n. malloc_ok k" "i \<le> n" "0 < n"
  shows "build_loop malloc_ok n i (if i = n then None else Some 0) (if i = n then None else Some (n - i - 1)) (chain n (n - i))
    = (Some (Some 0, Some (n - 1)), chain n n)"
  using assms(2)
proof (induction i)
  case (Suc i)
  let ?j = "n - Suc i"
  have j: "?j < n" and first: "Suc i = n \<longleftrightarrow> ?j = 0" and n: "n - ?j = Suc i" "Suc ?j = n - i"
    using Suc.prems by auto
  have a: "add_shell_history_node malloc_ok (if Suc i = n then None else Some (n - Suc i - 1)) (of_nat (Suc i)) (chain n ?j)
      = (Some ?j, chain n (n - i))"
    using add_node_chain [of malloc_ok ?j n] assms(1) j unfolding first n by blast
  have "build_loop malloc_ok n (Suc i) (if Suc i = n then None else Some 0)
      (if Suc i = n then None else Some (n - Suc i - 1)) (chain n ?j) = build_loop malloc_ok n i (Some 0) (Some ?j) (chain n (n - i))"
    unfolding build_loop.simps if_cancel by (cases "Suc i = n") (use a in auto)
  moreover have "(if i = n then None else Some (n - i - 1)) = Some ?j" "(if i = n then None else Some 0) = Some 0"
    using Suc.prems by auto
  ultimately show ?case using Suc.IH Suc.prems by simp
qed (use assms in auto)

lemma build_hist_list_ring:
  assumes "\<forall>k < n. malloc_ok k" "0 < n"
  shows "\<exists>heap. build_hist_list malloc_ok n [] = Inr (Some 0, heap) \<and> hist_ring n heap
    \<and> (\<forall>k < n. h_buf (heap ! k) = replicate 257 NUL)"
proof -
  let ?h1 = "(chain n n)[n - 1 := (chain n n ! (n - 1))\<lparr> h_next := Some 0 \<rparr>]"
  let ?h = "?h1[0 := (?h1 ! 0)\<lparr> h_prev := Some (n - 1) \<rparr>]"
  have "build_hist_list malloc_ok n [] = Inr (Some 0, ?h)"
    using build_loop_chain [OF assms(1) _ assms(2), of n] by (simp add: build_hist_list_def chain_def Let_def)
  moreover have "h_next (?h ! k) = Some (Suc k mod n) \<and> h_prev (?h ! k) = Some ((k + (n - 1)) mod n)
      \<and> h_buf (?h ! k) = replicate 257 NUL" if "k < n" for k
  proof -
    have "Suc k mod n = (if k = n - 1 then 0 else Suc k)" "(k + (n - 1)) mod n = (if k = 0 then n - 1 else k - 1)"
      using that by (auto simp: mod_if)
    with that assms(2) show ?thesis
      by (auto simp: chain_def nth_list_update)
  qed
  ultimately show ?thesis by (auto simp: hist_ring_def chain_def)
qed

lemma build_loop_fails:
  "\<not> malloc_ok k \<Longrightarrow> length heap \<le> k \<Longrightarrow> k < length heap + i \<Longrightarrow> fst (build_loop malloc_ok n i start p heap) = None"
proof (induction i arbitrary: start p heap)
  case (Suc i)
  then show ?case
    by (cases "length heap = k")
      (auto simp: add_shell_history_node_def Let_def split: option.splits prod.splits if_splits)
qed simp

section \<open>The invariant of the editor\<close>

definition line :: "shell \<Rightarrow> string" where
  "line s = take (unat (cur s)) (command_buf s)"

definition good_line :: "string \<Rightarrow> bool" where
  "good_line l \<longleftrightarrow> is_cstr l \<and> spaced True l"

definition hist_lines_ok :: "hist_node list \<Rightarrow> bool" where
  "hist_lines_ok heap \<longleftrightarrow> (\<forall>k < 10. \<exists>l. holds_line (h_buf (heap ! k)) l \<and> good_line l)"

definition shell_inv :: "shell \<Rightarrow> bool" where
  "shell_inv s \<longleftrightarrow> length (command_buf s) = 257 \<and> length (argv s) = 10 \<and> hist_ring 10 (hist s) \<and> sh s < 10
     \<and> hist_lines_ok (hist s) \<and> good_line (line s)"

lemma unat_u8_le: "unat (w :: u8) \<le> 255"
  using unsigned_less [of w, where 'a = nat] by simp

lemma u8_pred: "w \<noteq> 0 \<Longrightarrow> unat (w - 1 :: u8) = unat w - 1"
  by (metis unat_minus_one)

lemma u8_succ: "unat (w + 1 :: u8) = (if unat w = 255 then 0 else unat w + 1)"
proof (cases "unat w = 255")
  case False
  then have "unat w + 1 < 256" using unat_u8_le [of w] by linarith
  with False show ?thesis by (simp add: unat_plus_if' [of w 1])
qed (simp add: unat_plus_if' [of w 1])

lemma length_line: "length (command_buf s) = 257 \<Longrightarrow> length (line s) = unat (cur s)"
  using unat_u8_le [of "cur s"] by (simp add: line_def)

lemma good_line_take: "good_line l \<Longrightarrow> good_line (take n l)"
  by (auto simp: good_line_def is_cstr_def spaced_take dest: in_set_takeD)

lemma line_put_char:
  assumes "length (command_buf s) = 257"
  shows "line (put_char ch s) = (if unat (cur s) = 255 then [] else line s @ [ch])"
  using assms unat_u8_le [of "cur s"]
  by (auto simp: line_def put_char_def u8_succ take_Suc_conv_app_nth)

lemma good_line_snoc:
  "good_line l \<Longrightarrow> ch \<noteq> NUL \<Longrightarrow> (ch = SPACE \<Longrightarrow> l \<noteq> [] \<and> last l \<noteq> SPACE) \<Longrightarrow> good_line (l @ [ch])"
  by (auto simp: good_line_def is_cstr_def spaced_append ends_space_last)

lemma last_line:
  assumes "length (command_buf s) = 257" "cur s \<noteq> 0"
  shows "line s \<noteq> []" "last (line s) = command_buf s ! unat (cur s - 1)"
proof -
  have "unat (cur s) \<noteq> 0" using assms(2) by (simp add: unat_eq_0)
  then show ne: "line s \<noteq> []" using length_line [OF assms(1)] by auto
  show "last (line s) = command_buf s ! unat (cur s - 1)"
    using ne assms length_line [OF assms(1)] \<open>unat (cur s) \<noteq> 0\<close> by (simp add: last_conv_nth u8_pred line_def)
qed

definition trim :: "string \<Rightarrow> string" where
  "trim l = (if l \<noteq> [] \<and> last l = SPACE then butlast l else l)"

text \<open>The line has been stored in the current node and the next node is current.\<close>

definition remembered :: "string \<Rightarrow> shell \<Rightarrow> shell \<Rightarrow> bool" where
  "remembered l s s' \<longleftrightarrow> shell_inv s' \<and> cur s' = 0 \<and> sh s' = Suc (sh s) mod 10
     \<and> holds_line (h_buf (hist s' ! sh s)) l \<and> (\<forall>k < 10. k \<noteq> sh s \<longrightarrow> hist s' ! k = hist s ! k)"

lemma good_trim: "good_line l \<Longrightarrow> good_line (trim l)"
  using good_line_take [of l "length l - 1"] by (simp add: trim_def butlast_conv_take)

lemma enter_line_buf:
  assumes "shell_inv s" "cur s \<noteq> 0"
  defines "i \<equiv> if command_buf s ! unat (cur s - 1) = SPACE then cur s - 1 else cur s"
  shows "holds_line ((command_buf s)[unat i := NUL]) (trim (line s))"
proof -
  have len: "length (command_buf s) = 257" and good: "good_line (line s)"
    using assms(1) by (simp_all add: shell_inv_def)
  note last = last_line [OF len assms(2)]
  have i: "unat i = length (trim (line s))"
    using last length_line [OF len] by (simp add: i_def trim_def u8_pred [OF assms(2)])
  have "trim (line s) = take (unat i) (command_buf s)"
    using last length_line [OF len]
    by (simp add: i_def trim_def u8_pred [OF assms(2)] butlast_conv_take) (simp add: line_def min_def)
  with i len good_trim [OF good] unat_u8_le [of i] show ?thesis
    by (simp add: holds_line_def good_line_def)
qed

lemma hist_store:
  assumes "hist_ring 10 h" "hist_lines_ok h" "k < 10" "holds_line b l" "good_line l"
  defines "h1 \<equiv> h[k := (h ! k)\<lparr> h_buf := strncpy (h_buf (h ! k)) b COM_BUF_LEN \<rparr>]"
  shows "hist_ring 10 h1" "hist_lines_ok h1" "holds_line (h_buf (h1 ! k)) l"
proof -
  have "length (h_buf (h ! k)) = 257"
    using assms(2,3) by (auto simp: hist_lines_ok_def holds_line_def)
  then show l: "holds_line (h_buf (h1 ! k)) l"
    using assms(1,3,4) holds_line_strncpy by (simp add: h1_def hist_ring_def)
  show "hist_ring 10 h1"
    using assms(1,3) by (auto simp: hist_ring_def h1_def nth_list_update)
  show "hist_lines_ok h1"
    using assms(1,2,3,5) l unfolding hist_lines_ok_def by (auto simp: h1_def nth_list_update hist_ring_def)
qed

lemma clear_line_remembered:
  assumes "shell_inv s" "holds_line b l" "good_line l"
    and "length (command_buf s1) = 257" "length (argv s1) = 10" "sh s1 = Suc (sh s) mod 10"
    and "hist s1 = (hist s)[sh s := (hist s ! sh s)\<lparr> h_buf := strncpy (h_buf (hist s ! sh s)) b COM_BUF_LEN \<rparr>]"
  shows "remembered l s (clear_line s1)"
  using assms hist_store [of "hist s" "sh s" b l]
  by (simp add: remembered_def clear_line_def shell_inv_def line_def good_line_def is_cstr_def)

lemma enter_effect:
  assumes "shell_inv s" "cur s \<noteq> 0" "l = trim (line s)"
  shows "command_name l \<notin> set tab \<Longrightarrow> \<exists>s'. enter tab s = Some (Inr (s', None)) \<and> remembered l s s'"
    and "command_name l \<in> set tab \<Longrightarrow> 10 < length (split_args l) \<Longrightarrow> enter tab s = Some (Inl OutOfBounds)"
    and "command_name l \<in> set tab \<Longrightarrow> length (split_args l) \<le> 10 \<Longrightarrow>
      \<exists>s'. enter tab s = Some (Inr (s', Some (command_name l, split_args l))) \<and> remembered l s s'"
proof -
  define i where "i = (if command_buf s ! unat (cur s - 1) = SPACE then cur s - 1 else cur s)"
  define buf where "buf = (command_buf s)[unat i := NUL]"
  have b: "holds_line buf l"
    unfolding buf_def i_def assms(3) by (rule enter_line_buf [OF assms(1,2)])
  have inv: "length (argv s) = 10" "h_next (hist s ! sh s) = Some (Suc (sh s) mod 10)" "good_line l"
    using assms(1,3) good_trim by (auto simp: shell_inv_def hist_ring_def)
  note rem = clear_line_remembered [OF assms(1) b inv(3)]
  have len: "length buf = 257" using b by (simp add: holds_line_def)
  note e = enter_def [of tab s, unfolded i_def [symmetric] Let_def, folded buf_def]
  note c = count_argc_line [OF b inv(1), of tab]
  show "command_name l \<notin> set tab \<Longrightarrow> \<exists>s'. enter tab s = Some (Inr (s', None)) \<and> remembered l s s'"
    using c(1) assms(2) inv(1,2) len by (simp add: e rem)
  show "command_name l \<in> set tab \<Longrightarrow> 10 < length (split_args l) \<Longrightarrow> enter tab s = Some (Inl OutOfBounds)"
    using c(2) assms(2) inv(2) by (simp add: e)
  assume "command_name l \<in> set tab" "length (split_args l) \<le> 10"
  then obtain buf' av' ac where "count_argc tab buf (argv s) = Some (Inr (Some (command_name l, buf', av', ac)))"
    "length buf' = 257" "length av' = 10" "map (str_at buf') (take (unat ac) av') = split_args l"
    using c(3) by blast
  then show "\<exists>s'. enter tab s = Some (Inr (s', Some (command_name l, split_args l))) \<and> remembered l s s'"
    using assms(2) inv(2) by (simp add: e rem)
qed

lemma recall_effect:
  assumes "shell_inv s" "k < 10" "holds_line (h_buf (hist s ! k)) l" "good_line l"
  shows "\<exists>s'. recall (Some k) s = Inr s' \<and> shell_inv s' \<and> line s' = l \<and> sh s' = k \<and> hist s' = hist s"
proof -
  let ?b = "strncpy (command_buf s) (h_buf (hist s ! k)) COM_BUF_LEN"
  have b: "holds_line ?b l"
    using assms(1,3) by (intro holds_line_strncpy) (simp_all add: shell_inv_def)
  then have "unat (of_nat (length l) :: u8) = length l" "take (length l) ?b = l" "length ?b = 257"
    by (simp_all add: holds_line_def unat_u8_small)
  with assms b show ?thesis
    by (simp add: recall_def holds_line_str shell_inv_def line_def)
qed

lemma shell_inv_simps [simp]:
  "shell_inv (s\<lparr> shell_cnt := n \<rparr>) = shell_inv s" "line (s\<lparr> shell_cnt := n \<rparr>) = line s"
  by (simp_all add: shell_inv_def line_def)

lemma shell_inv_cut: "shell_inv s \<Longrightarrow> unat i \<le> unat (cur s) \<Longrightarrow> shell_inv (s\<lparr> cur := i \<rparr>)"
  using good_line_take [of "line s" "unat i"] by (simp add: shell_inv_def line_def min_absorb1)

lemma shell_inv_put:
  assumes "shell_inv s" "ch \<noteq> NUL" "ch = SPACE \<Longrightarrow> cur s \<noteq> 0 \<and> command_buf s ! unat (cur s - 1) \<noteq> SPACE"
  shows "shell_inv (put_char ch s)"
proof -
  have len: "length (command_buf s) = 257" using assms(1) by (simp add: shell_inv_def)
  have "good_line (line (put_char ch s))"
    using assms last_line [OF len] good_line_snoc [of "line s" ch]
    by (auto simp: line_put_char [OF len] shell_inv_def good_line_def is_cstr_def)
  with assms(1) show ?thesis by (simp add: shell_inv_def put_char_def)
qed

lemma accepted_not_nul: "accepted ch \<Longrightarrow> ch \<noteq> NUL"
  by (auto simp: accepted_def c_isprint_def code_of_def)

definition is_enter :: "char \<Rightarrow> bool" where
  "is_enter ch \<longleftrightarrow> code_of ch = 0x0A \<or> code_of ch = 0x0D"

lemma shell_key_edit:
  assumes "shell_inv s" "\<not> is_enter ch"
  shows "\<exists>s'. shell_key tab ch s = Some (Inr (s', None)) \<and> shell_inv s'"
proof -
  have nodes: "\<exists>k l. h_prev (hist s ! sh s) = Some k \<and> k < 10 \<and> holds_line (h_buf (hist s ! k)) l \<and> good_line l"
    "\<exists>k l. h_next (hist s ! sh s) = Some k \<and> k < 10 \<and> holds_line (h_buf (hist s ! k)) l \<and> good_line l"
    using assms(1) by (auto simp: shell_inv_def hist_ring_def hist_lines_ok_def)
  let ?s = "s\<lparr> shell_cnt := shell_cnt s + 1 \<rparr>"
  have s: "shell_inv ?s" using assms(1) by simp
  have rec: "\<exists>s'. recall (h_prev (hist s ! sh s)) ?s = Inr s' \<and> shell_inv s'"
    "\<exists>s'. recall (h_next (hist s ! sh s)) ?s = Inr s' \<and> shell_inv s'"
    using nodes recall_effect [OF s] by fastforce+
  have bsp: "cur s \<noteq> 0 \<Longrightarrow> shell_inv (?s\<lparr> cur := cur s - 1 \<rparr>)" and zero: "shell_inv (?s\<lparr> cur := 0 \<rparr>)"
    using shell_inv_cut [OF s] by (simp_all add: u8_pred)
  have put: "accepted ch \<Longrightarrow> ch \<noteq> SPACE \<Longrightarrow> shell_inv (put_char ch ?s)"
    "cur s \<noteq> 0 \<Longrightarrow> command_buf s ! unat (cur s - 1) \<noteq> SPACE \<Longrightarrow> shell_inv (put_char SPACE ?s)"
    using shell_inv_put [OF s] accepted_not_nul by auto
  show ?thesis
    using assms s rec bsp zero put
    unfolding shell_key_def is_enter_def Let_def by auto
qed

lemma shell_key_enter:
  "is_enter ch \<Longrightarrow> shell_key tab ch s = enter tab (s\<lparr> shell_cnt := shell_cnt s + 1 \<rparr>)"
  by (auto simp: shell_key_def is_enter_def accepted_def)

lemma remembered_cnt [simp]: "remembered l (s\<lparr> shell_cnt := n \<rparr>) s' = remembered l s s'"
  by (simp add: remembered_def)

lemma key_enter_effect:
  assumes "shell_inv s" "is_enter ch" "line s \<noteq> []" "l = trim (line s)"
  shows "command_name l \<notin> set tab \<Longrightarrow> \<exists>s'. shell_key tab ch s = Some (Inr (s', None)) \<and> remembered l s s'"
    and "command_name l \<in> set tab \<Longrightarrow> 10 < length (split_args l) \<Longrightarrow> shell_key tab ch s = Some (Inl OutOfBounds)"
    and "command_name l \<in> set tab \<Longrightarrow> length (split_args l) \<le> 10 \<Longrightarrow>
      \<exists>s'. shell_key tab ch s = Some (Inr (s', Some (command_name l, split_args l))) \<and> remembered l s s'"
proof -
  have "cur s \<noteq> 0" using assms(3) by (auto simp: line_def)
  then show "command_name l \<notin> set tab \<Longrightarrow> \<exists>s'. shell_key tab ch s = Some (Inr (s', None)) \<and> remembered l s s'"
    and "command_name l \<in> set tab \<Longrightarrow> 10 < length (split_args l) \<Longrightarrow> shell_key tab ch s = Some (Inl OutOfBounds)"
    and "command_name l \<in> set tab \<Longrightarrow> length (split_args l) \<le> 10 \<Longrightarrow>
      \<exists>s'. shell_key tab ch s = Some (Inr (s', Some (command_name l, split_args l))) \<and> remembered l s s'"
    using enter_effect [of "s\<lparr> shell_cnt := shell_cnt s + 1 \<rparr>" l] assms by (simp_all add: shell_key_enter)
qed

lemma shell_key_total:
  assumes "shell_inv s"
  shows "(\<exists>s' call. shell_key tab ch s = Some (Inr (s', call)) \<and> shell_inv s')
    \<or> (shell_key tab ch s = Some (Inl OutOfBounds) \<and> is_enter ch \<and> 10 < length (split_args (trim (line s))))"
proof (cases "is_enter ch")
  case True
  show ?thesis
  proof (cases "line s = []")
    case empty: True
    then have "cur s = 0"
      using assms length_line [of s] by (simp add: shell_inv_def unat_eq_0)
    with True assms show ?thesis by (simp add: shell_key_enter enter_def)
  next
    case False
    with key_enter_effect [OF assms True False refl, of tab] show ?thesis
      by (cases "command_name (trim (line s)) \<in> set tab"; cases "length (split_args (trim (line s))) \<le> 10")
        (use True in \<open>auto simp: remembered_def\<close>)
  qed
qed (use shell_key_edit [OF assms] in blast)

section \<open>Typing a line\<close>

definition word_ok :: "string \<Rightarrow> bool" where
  "word_ok w \<longleftrightarrow> w \<noteq> [] \<and> (\<forall>c \<in> set w. c_isprint c \<and> c \<noteq> SPACE)"

lemma spaced_word: "SPACE \<notin> set w \<Longrightarrow> spaced b w"
  by (induction w arbitrary: b) auto

lemma isprint_facts: "c_isprint SPACE" "\<not> c_isprint NUL"
  by code_simp+

lemma unwords_print: "\<forall>w \<in> set ws. word_ok w \<Longrightarrow> \<forall>c \<in> set (unwords ws). c_isprint c"
  by (induction ws rule: unwords.induct) (auto simp: word_ok_def isprint_facts)

lemma unwords_last:
  "ws \<noteq> [] \<Longrightarrow> \<forall>w \<in> set ws. word_ok w \<Longrightarrow> unwords ws \<noteq> [] \<and> last (unwords ws) \<noteq> SPACE"
  by (induction ws rule: unwords.induct) (auto simp: word_ok_def)

lemma word_ok_facts: "word_ok w \<Longrightarrow> SPACE \<notin> set w \<and> spaced b w \<and> \<not> ends_space b w"
  using spaced_word [of w b] ends_space_last [of w b] last_in_set [of w] unfolding word_ok_def by metis

lemma unwords_spaced: "\<forall>w \<in> set ws. word_ok w \<Longrightarrow> spaced True (unwords ws)"
  by (induction ws rule: unwords.induct) (simp_all add: word_ok_facts spaced_append)

lemma unwords_good: "\<forall>w \<in> set ws. word_ok w \<Longrightarrow> good_line (unwords ws)"
  using unwords_print [of ws] unwords_spaced [of ws] isprint_facts(2) by (auto simp: good_line_def is_cstr_def)

lemma unwords_first: "ws \<noteq> [] \<Longrightarrow> \<forall>w \<in> set ws. word_ok w \<Longrightarrow> takeWhile (\<lambda>c. c \<noteq> SPACE) (unwords ws) = hd ws"
  by (cases ws rule: unwords.cases) (simp_all add: word_ok_facts takeWhile_word)

lemma unwords_split: "ws \<noteq> [] \<Longrightarrow> \<forall>w \<in> set ws. word_ok w \<Longrightarrow> split_args (unwords ws) = tl ws"
proof (induction ws rule: unwords.induct)
  case (2 w)
  then show ?case using split_args_drop [of w "[]"] by (simp add: word_ok_facts)
next
  case (3 w v vs)
  then show ?case
    using split_args_drop [of w] unwords_first [of "v # vs"] by (simp add: word_ok_facts)
qed simp

lemma unwords_name:
  assumes "ws \<noteq> []" "\<forall>w \<in> set ws. word_ok w" "length (hd ws) \<le> 20"
  shows "command_name (unwords ws) = hd ws"
proof -
  have "takeWhile P (take n xs) = take n (takeWhile P xs)" for P n and xs :: string
    by (induction xs arbitrary: n) (auto simp: take_Cons')
  with unwords_first [OF assms(1,2)] assms(3) show ?thesis by (simp add: command_name_def)
qed

lemma printable_key:
  assumes "shell_inv s" "c_isprint ch" "good_line (line s @ [ch])" "length (line s) < 255"
  shows "\<exists>s'. shell_key tab ch s = Some (Inr (s', None)) \<and> shell_inv s' \<and> line s' = line s @ [ch]
    \<and> hist s' = hist s \<and> sh s' = sh s"
proof -
  let ?s = "s\<lparr> shell_cnt := shell_cnt s + 1 \<rparr>"
  have len: "length (command_buf s) = 257" using assms(1) by (simp add: shell_inv_def)
  have cs: "unat (cur s) < 255" using length_line [OF len] assms(4) by simp
  have sp: "ch = SPACE \<Longrightarrow> cur s \<noteq> 0 \<and> command_buf s ! unat (cur s - 1) \<noteq> SPACE"
  proof -
    assume "ch = SPACE"
    then have e: "\<not> ends_space True (line s)" using assms(3) by (simp add: good_line_def spaced_append)
    then have "line s \<noteq> []" by auto
    then have "cur s \<noteq> 0" by (auto simp: line_def)
    with last_line [OF len] e ends_space_last [of "line s" True] show ?thesis by simp
  qed
  have codes: "accepted ch" "code_of ch \<notin> {1, 2, 8, 0xA, 0xD, 0xE, 0x10, 0x15, 0x7F}"
    using assms(2) by (auto simp: accepted_def c_isprint_def)
  have "shell_key tab ch s = Some (Inr (put_char ch ?s, None))"
    using codes sp cs unfolding shell_key_def by (auto simp: Let_def COM_BUF_LEN_def)
  moreover have "shell_inv (put_char ch ?s)"
    using shell_inv_put [of ?s ch] assms(1) sp codes(1) accepted_not_nul by simp
  moreover have "line (put_char ch ?s) = line s @ [ch]"
    using line_put_char [of ?s ch] len cs by simp
  ultimately show ?thesis by (simp add: put_char_def)
qed

lemma type_line:
  "shell_inv s \<Longrightarrow> \<forall>c \<in> set l. c_isprint c \<Longrightarrow> good_line (line s @ l) \<Longrightarrow> length (line s @ l) \<le> 255 \<Longrightarrow>
   \<exists>s'. shell_run tab l s = Some (Inr (s', [])) \<and> shell_inv s' \<and> line s' = line s @ l \<and> hist s' = hist s \<and> sh s' = sh s"
proof (induction l arbitrary: s)
  case (Cons c l)
  have "good_line (line s @ [c])" using Cons.prems(3) good_line_take [of _ "Suc (length (line s))"] by fastforce
  then obtain s1 where s1: "shell_key tab c s = Some (Inr (s1, None))" "shell_inv s1" "line s1 = line s @ [c]"
    "hist s1 = hist s" "sh s1 = sh s"
    using printable_key [of s c tab] Cons.prems by auto
  with Cons.IH [of s1] Cons.prems show ?case by auto
qed simp

lemma shell_run_append:
  "shell_run tab (ks @ ks') s =
    (case shell_run tab ks s of
       None \<Rightarrow> None
     | Some (Inl f) \<Rightarrow> Some (Inl f)
     | Some (Inr (s1, calls)) \<Rightarrow> map_option (map_sum id (\<lambda>(s2, calls'). (s2, calls @ calls'))) (shell_run tab ks' s1))"
proof (induction ks arbitrary: s)
  case Nil
  show ?case by (simp add: sum.map_id0 option.map_id0 del: id_apply) (simp add: id_def)
next
  case (Cons k ks)
  then show ?case
    by (auto split: option.splits sum.splits prod.splits simp: option.map_comp comp_def sum.map_comp
        case_prod_unfold sum.map_id0 id_def)
qed

lemma run_line:
  assumes "shell_inv s" "line s = []" "is_enter ch" "ws \<noteq> []" "\<forall>w \<in> set ws. word_ok w"
    and "length (unwords ws) \<le> 255" "length (hd ws) \<le> 20"
  shows "hd ws \<in> set tab \<Longrightarrow> length ws \<le> 11 \<Longrightarrow>
      \<exists>s'. shell_run tab (unwords ws @ [ch]) s = Some (Inr (s', [(hd ws, tl ws)])) \<and> remembered (unwords ws) s s'"
    and "hd ws \<notin> set tab \<Longrightarrow>
      \<exists>s'. shell_run tab (unwords ws @ [ch]) s = Some (Inr (s', [])) \<and> remembered (unwords ws) s s'"
    and "hd ws \<in> set tab \<Longrightarrow> 11 < length ws \<Longrightarrow> shell_run tab (unwords ws @ [ch]) s = Some (Inl OutOfBounds)"
proof -
  obtain s1 where s1: "shell_run tab (unwords ws) s = Some (Inr (s1, []))" "shell_inv s1" "line s1 = unwords ws"
    "hist s1 = hist s" "sh s1 = sh s"
    using type_line [OF assms(1), of "unwords ws" tab] assms(2,5,6) unwords_print [OF assms(5)] unwords_good [OF assms(5)]
    by auto
  have l: "unwords ws \<noteq> []" "trim (unwords ws) = unwords ws"
    using unwords_last [OF assms(4,5)] by (simp_all add: trim_def)
  have rem: "remembered (unwords ws) s1 s' = remembered (unwords ws) s s'" for s'
    by (simp add: remembered_def s1(4,5))
  note name = unwords_name [OF assms(4,5,7)] and args = unwords_split [OF assms(4,5)]
  note e = key_enter_effect [OF s1(2) assms(3) _ refl, of tab, unfolded l(2) s1(3) name args rem, OF l(1)]
  have run: "shell_run tab (unwords ws @ [ch]) s = shell_run tab [ch] s1"
    by (simp add: shell_run_append s1(1) sum.map_id0 option.map_id0)
  show "hd ws \<in> set tab \<Longrightarrow> length ws \<le> 11 \<Longrightarrow>
      \<exists>s'. shell_run tab (unwords ws @ [ch]) s = Some (Inr (s', [(hd ws, tl ws)])) \<and> remembered (unwords ws) s s'"
    using e(3) by (fastforce simp: run)
  show "hd ws \<notin> set tab \<Longrightarrow>
      \<exists>s'. shell_run tab (unwords ws @ [ch]) s = Some (Inr (s', [])) \<and> remembered (unwords ws) s s'"
    using e(1) by (fastforce simp: run)
  show "hd ws \<in> set tab \<Longrightarrow> 11 < length ws \<Longrightarrow> shell_run tab (unwords ws @ [ch]) s = Some (Inl OutOfBounds)"
    using e(2) by (simp add: run)
qed

section \<open>Properties\<close>

definition new_shell :: "hist_node list \<Rightarrow> char list \<Rightarrow> shell" where
  "new_shell heap junk = \<lparr> command_buf = junk[0 := NUL], cur = 0, hist = heap, sh = 0, argv = replicate 10 0, argc = 0,
     shell_cnt = 1 \<rparr>"

lemma new_shell_inv:
  assumes "hist_ring 10 heap" "\<forall>k < 10. h_buf (heap ! k) = replicate 257 NUL" "length junk = 257"
  shows "shell_inv (new_shell heap junk)" "line (new_shell heap junk) = []"
proof -
  have "holds_line (replicate 257 NUL) []" "good_line []" by (simp_all add: holds_line_def is_cstr_def good_line_def)
  with assms show "shell_inv (new_shell heap junk)" "line (new_shell heap junk) = []"
    by (auto simp: new_shell_def shell_inv_def line_def hist_lines_ok_def)
qed

definition demo_heap :: "hist_node list" where
  "demo_heap = (case build_hist_list (\<lambda>_. True) 10 [] of Inr (_, heap) \<Rightarrow> heap | Inl _ \<Rightarrow> [])"

definition demo_shell :: shell where
  "demo_shell = new_shell demo_heap (replicate 257 (CHR ''x''))"

lemma demo_shell_inv: "shell_inv demo_shell" "line demo_shell = []"
proof -
  obtain heap where "build_hist_list (\<lambda>_. True) 10 [] = Inr (Some 0, heap)" "hist_ring 10 heap"
    "\<forall>k < 10. h_buf (heap ! k) = replicate 257 NUL"
    using build_hist_list_ring [of 10 "\<lambda>_. True"] by auto
  then show "shell_inv demo_shell" "line demo_shell = []"
    using new_shell_inv [of heap] by (simp_all add: demo_shell_def demo_heap_def)
qed

text \<open>
  \<^verbatim>\<open>build_hist_list\<close> builds a ring: from node \<open>k\<close> of \<open>n\<close>, \<^verbatim>\<open>next\<close> leads to \<open>k + 1\<close> and \<^verbatim>\<open>prev\<close> back to
  \<open>k - 1\<close>, modulo \<open>n\<close>, and every node holds an empty line. A failing allocation makes it return NULL.
\<close>

theorem history_is_a_ring:
  assumes "0 < n"
  shows "((\<forall>k < n. malloc_ok k) \<longrightarrow> (\<exists>heap. build_hist_list malloc_ok n [] = Inr (Some 0, heap) \<and> hist_ring n heap
        \<and> (\<forall>k < n. h_buf (heap ! k) = replicate 257 NUL)))
     \<and> ((\<exists>k < n. \<not> malloc_ok k) \<longrightarrow> (\<exists>heap. build_hist_list malloc_ok n [] = Inr (None, heap)))"
proof -
  have "\<exists>heap. build_hist_list malloc_ok n [] = Inr (None, heap)" if "\<exists>k < n. \<not> malloc_ok k"
  proof -
    have "fst (build_loop malloc_ok n n None None []) = None"
      using that build_loop_fails [of malloc_ok _ "[]" n] by auto
    then show ?thesis by (cases "build_loop malloc_ok n n None None []") (simp add: build_hist_list_def)
  qed
  with build_hist_list_ring [of n malloc_ok] assms show ?thesis by blast
qed

theorem history_is_a_ring_witness:
  "\<exists>heap. build_hist_list (\<lambda>_. True) 10 [] = Inr (Some 0, heap) \<and> hist_ring 10 heap"
  using history_is_a_ring [of 10 "\<lambda>_. True"] by auto

text \<open>
  (C10) Whatever keys are pressed, the editor returns, stays inside its buffers and keeps its
  invariant: the line does not begin with a space or hold two in a row, and every remembered line is
  a terminated string of that form. The one exception is Enter on a line with more than ten
  arguments, which writes past \<^verbatim>\<open>argv\<close>.
\<close>

theorem editor_is_safe:
  assumes "shell_inv s"
  shows "(\<exists>s' call. shell_key tab ch s = Some (Inr (s', call)) \<and> shell_inv s')
     \<or> (shell_key tab ch s = Some (Inl OutOfBounds) \<and> is_enter ch \<and> 10 < length (split_args (trim (line s))))"
  by (rule shell_key_total [OF assms])

theorem editor_is_safe_witness:
  "\<exists>s' call. shell_key [''help''] (CHR 0x0D) demo_shell = Some (Inr (s', call)) \<and> shell_inv s'"
  using editor_is_safe [OF demo_shell_inv(1), of "[''help'']" "CHR 0x0D"] by (auto simp: demo_shell_inv(2) trim_def)

text \<open>
  (C9) A typed line reaches its command: words separated by single spaces, followed by Enter, make
  exactly one call, of the command named by the first word with the other words as its arguments,
  when there are at most ten of them; an unknown name makes no call. The line is remembered.
\<close>

theorem typed_line_is_dispatched:
  assumes "shell_inv s" "line s = []" "is_enter ch" "ws \<noteq> []" "\<forall>w \<in> set ws. word_ok w"
    and "length (unwords ws) \<le> 255" "length (hd ws) \<le> 20" "length ws \<le> 11"
  shows "\<exists>s'. shell_run tab (unwords ws @ [ch]) s
       = Some (Inr (s', if hd ws \<in> set tab then [(hd ws, tl ws)] else []))
     \<and> remembered (unwords ws) s s'"
  using run_line(1,2) [OF assms(1-7), of tab] assms(8) by auto

lemma demo_words: "\<forall>w \<in> set [''ping'', ''-c'', ''3'', ''10.0.0.1'']. word_ok w"
  by code_simp

theorem typed_line_is_dispatched_witness:
  "\<exists>s'. shell_run [''help'', ''ping''] (''ping -c 3 10.0.0.1'' @ [CHR 0x0D]) demo_shell
     = Some (Inr (s', [(''ping'', [''-c'', ''3'', ''10.0.0.1''])]))"
proof -
  have "is_enter (CHR 0x0D)" by code_simp
  from typed_line_is_dispatched [OF demo_shell_inv this _ demo_words, of "[''help'', ''ping'']"]
  show ?thesis by auto
qed

text \<open>
  A line with more than ten arguments for a known command writes past the end of \<^verbatim>\<open>argv\<close>.
\<close>

theorem eleven_arguments_overflow:
  assumes "shell_inv s" "line s = []" "is_enter ch" "ws \<noteq> []" "\<forall>w \<in> set ws. word_ok w"
    and "length (unwords ws) \<le> 255" "length (hd ws) \<le> 20" "11 < length ws" "hd ws \<in> set tab"
  shows "shell_run tab (unwords ws @ [ch]) s = Some (Inl OutOfBounds)"
  using run_line(3) [OF assms(1-7,9,8)] .

lemma setwan_words:
  "\<forall>w \<in> set [''setwanconfig'', ''2'', ''-I'', ''10.0.0.7'', ''-M'', ''255.0.0.0'', ''-G'', ''10.0.0.1'',
     ''-D1'', ''8.8.8.8'', ''-D2'', ''8.8.4.4'', ''-S'', ''10.0.0.2'']. word_ok w"
  by code_simp

text \<open>The static form of \<^verbatim>\<open>setwanconfig\<close> needs thirteen arguments.\<close>

theorem eleven_arguments_overflow_witness:
  "shell_run [''setwanconfig''] (''setwanconfig 2 -I 10.0.0.7 -M 255.0.0.0 -G 10.0.0.1 -D1 8.8.8.8 -D2 8.8.4.4 -S 10.0.0.2''
     @ [CHR 0x0D]) demo_shell = Some (Inl OutOfBounds)"
proof -
  have "is_enter (CHR 0x0D)" by code_simp
  from eleven_arguments_overflow [OF demo_shell_inv this _ setwan_words, of "[''setwanconfig'']"]
  show ?thesis by simp
qed

text \<open>Lines of words entered one after the other, and the state they leave.\<close>

definition enterable :: "string list \<Rightarrow> bool" where
  "enterable ws \<longleftrightarrow> ws \<noteq> [] \<and> (\<forall>w \<in> set ws. word_ok w) \<and> length (unwords ws) \<le> 255
     \<and> length (hd ws) \<le> 20 \<and> length ws \<le> 11"

definition keys_of :: "string list list \<Rightarrow> string" where
  "keys_of lss = concat (map (\<lambda>ws. unwords ws @ [CHR 0x0D]) lss)"

definition entered :: "nat \<Rightarrow> string list list \<Rightarrow> shell \<Rightarrow> bool" where
  "entered start lss s \<longleftrightarrow> shell_inv s \<and> line s = [] \<and> sh s = (start + length lss) mod 10
     \<and> (\<forall>i < length lss. holds_line (h_buf (hist s ! ((start + i) mod 10))) (unwords (lss ! i)))"

lemma cr_is_enter: "is_enter (CHR 0x0D)"
  by code_simp

lemma mod_offset_ne: "i < n \<Longrightarrow> n < 10 \<Longrightarrow> (start + i) mod 10 \<noteq> (start + n) mod (10 :: nat)"
  using mod_eq_dvd_iff_nat [of "start + i" "start + n" 10] dvd_imp_le [of 10 "n - i"] by auto

lemma enter_lines:
  "shell_inv s \<Longrightarrow> line s = [] \<Longrightarrow> \<forall>ws \<in> set lss. enterable ws \<Longrightarrow> length lss \<le> 10 \<Longrightarrow>
   \<exists>s'. shell_run tab (keys_of lss) s = Some (Inr (s', [(hd ws, tl ws). ws \<leftarrow> lss, hd ws \<in> set tab]))
     \<and> entered (sh s) lss s'"
proof (induction lss rule: rev_induct)
  case Nil
  then show ?case by (simp add: keys_of_def entered_def shell_inv_def)
next
  case (snoc ws lss)
  then obtain s1 where s1: "shell_run tab (keys_of lss) s = Some (Inr (s1, [(hd ws, tl ws). ws \<leftarrow> lss, hd ws \<in> set tab]))"
    "entered (sh s) lss s1" by auto
  then have inv: "shell_inv s1" "line s1 = []" "sh s1 = (sh s + length lss) mod 10" by (simp_all add: entered_def)
  have ws: "ws \<noteq> []" "\<forall>w \<in> set ws. word_ok w" "length (unwords ws) \<le> 255" "length (hd ws) \<le> 20" "length ws \<le> 11"
    using snoc.prems(3) by (simp_all add: enterable_def)
  obtain s2 where s2: "shell_run tab (unwords ws @ [CHR 0x0D]) s1 = Some (Inr (s2, if hd ws \<in> set tab then [(hd ws, tl ws)] else []))"
    "remembered (unwords ws) s1 s2"
    using run_line(1,2) [OF inv(1,2) cr_is_enter ws(1-4), of tab] ws(5) by (cases "hd ws \<in> set tab") auto
  have "holds_line (h_buf (hist s2 ! ((sh s + i) mod 10))) (unwords ((lss @ [ws]) ! i))" if "i < length (lss @ [ws])" for i
  proof (cases "i = length lss")
    case False
    then have "(sh s + i) mod 10 \<noteq> sh s1"
      using that snoc.prems(4) mod_offset_ne [of i "length lss" "sh s"] inv(3) by simp
    with s1(2) s2(2) False that show ?thesis by (simp add: entered_def remembered_def nth_append)
  qed (use s2(2) inv(3) in \<open>simp add: remembered_def\<close>)
  moreover have "sh s2 = (sh s + length (lss @ [ws])) mod 10"
    using s2(2) inv(3) by (simp add: remembered_def mod_Suc_eq)
  ultimately have "entered (sh s) (lss @ [ws]) s2"
    using s2(2) by (simp add: entered_def remembered_def line_def)
  moreover have "shell_run tab (keys_of (lss @ [ws])) s
      = Some (Inr (s2, [(hd ws, tl ws). ws \<leftarrow> lss @ [ws], hd ws \<in> set tab]))"
    using s1(1) s2(1) by (simp add: keys_of_def shell_run_append)
  ultimately show ?case by blast
qed

abbreviation CTRL_P :: char where "CTRL_P \<equiv> CHR 0x10"

lemma ctrl_p_key: "accepted CTRL_P" "code_of CTRL_P = 0x10"
  by code_simp+

lemma recall_lines:
  assumes "entered start lss s" "p \<le> length lss" "\<forall>ws \<in> set lss. enterable ws" "start < 10"
  shows "\<exists>s'. shell_run tab (replicate p CTRL_P) s = Some (Inr (s', [])) \<and> shell_inv s' \<and> hist s' = hist s
    \<and> sh s' = (start + (length lss - p)) mod 10 \<and> (0 < p \<longrightarrow> line s' = unwords (lss ! (length lss - p)))"
  using assms(2)
proof (induction p)
  case 0
  then show ?case using assms(1) by (simp add: entered_def)
next
  case (Suc p)
  define i where "i = length lss - Suc p"
  have i: "i < length lss" "length lss - p = Suc i" using Suc.prems by (simp_all add: i_def)
  obtain s1 where s1: "shell_run tab (replicate p CTRL_P) s = Some (Inr (s1, []))" "shell_inv s1" "hist s1 = hist s"
    "sh s1 = (start + (length lss - p)) mod 10"
    using Suc by auto
  let ?s = "s1\<lparr> shell_cnt := shell_cnt s1 + 1 \<rparr>" and ?k = "(start + i) mod 10"
  have "sh s1 < 10" using s1(4) by simp
  then have "h_prev (hist s1 ! sh s1) = Some ((sh s1 + 9) mod 10)"
    using s1(2) by (simp add: shell_inv_def hist_ring_def)
  moreover have "(sh s1 + 9) mod 10 = ?k"
    using mod_add_self2 [of "start + i" 10] by (simp add: s1(4) i(2) mod_simps)
  ultimately have prev: "h_prev (hist s1 ! sh s1) = Some ?k" by simp
  have "enterable (lss ! i)" using assms(3) nth_mem [OF i(1)] by blast
  then have "good_line (unwords (lss ! i))" by (simp add: enterable_def unwords_good)
  moreover have "holds_line (h_buf (hist ?s ! ?k)) (unwords (lss ! i))"
    using assms(1) i(1) s1(3) by (simp add: entered_def)
  ultimately obtain s2 where "recall (Some ?k) ?s = Inr s2" "shell_inv s2" "line s2 = unwords (lss ! i)" "sh s2 = ?k" "hist s2 = hist s"
    using recall_effect [of ?s ?k] s1(2,3) by auto
  with prev have "shell_key tab CTRL_P s1 = Some (Inr (s2, None))"
    by (simp add: shell_key_def ctrl_p_key Let_def)
  moreover have "replicate (Suc p) CTRL_P = replicate p CTRL_P @ [CTRL_P]"
    by (rule replicate_append_same [symmetric, unfolded replicate_Suc [symmetric]])
  ultimately show ?case
    using s1(1) \<open>shell_inv s2\<close> \<open>line s2 = _\<close> \<open>sh s2 = _\<close> \<open>hist s2 = _\<close>
    by (simp add: shell_run_append flip: i_def del: replicate_Suc)
qed

text \<open>
  The history gives back what was entered: after up to ten lines, pressing Ctrl-P \<open>p\<close> times shows
  the \<open>p\<close>-th last of them, and each line was passed to its command once, in order.
\<close>

theorem history_recalls_lines:
  assumes "shell_inv s" "line s = []" "\<forall>ws \<in> set lss. enterable ws" "length lss \<le> 10"
    and "0 < p" "p \<le> length lss"
  shows "\<exists>s'. shell_run tab (keys_of lss @ replicate p CTRL_P) s
       = Some (Inr (s', [(hd ws, tl ws). ws \<leftarrow> lss, hd ws \<in> set tab]))
     \<and> line s' = unwords (lss ! (length lss - p))"
proof -
  obtain s1 where s1: "shell_run tab (keys_of lss) s = Some (Inr (s1, [(hd ws, tl ws). ws \<leftarrow> lss, hd ws \<in> set tab]))"
    "entered (sh s) lss s1" using enter_lines [OF assms(1-4)] by blast
  have "sh s < 10" using assms(1) by (simp add: shell_inv_def)
  with recall_lines [OF s1(2) assms(6,3), of tab] s1(1) assms(5) show ?thesis
    by (auto simp: shell_run_append)
qed

theorem history_recalls_lines_witness:
  "\<exists>s'. shell_run [''ping''] (''ping 10.0.0.1'' @ [CHR 0x0D] @ ''help'' @ [CHR 0x0D] @ [CTRL_P, CTRL_P]) demo_shell
     = Some (Inr (s', [(''ping'', [''10.0.0.1''])])) \<and> line s' = ''ping 10.0.0.1''"
proof -
  have "\<forall>ws \<in> set [[''ping'', ''10.0.0.1''], [''help'']]. enterable ws" by code_simp
  from history_recalls_lines [OF demo_shell_inv this, of 2 "[''ping'']"] show ?thesis
    by (simp add: keys_of_def numeral_2_eq_2)
qed

text \<open>
  The 256th character of a line wraps the \<^verbatim>\<open>unsigned char\<close> index: the check against \<^verbatim>\<open>COM_BUF_LEN\<close>
  never fails, and the whole line is gone.
\<close>

theorem line_of_256_characters_is_lost:
  assumes "shell_inv s" "line s = []" "length l = 256" "word_ok l"
  shows "\<exists>s'. shell_run tab l s = Some (Inr (s', [])) \<and> line s' = []"
proof -
  have l: "l = butlast l @ [last l]" "length (butlast l) = 255" using assms(3) by (auto intro: append_butlast_last_id [symmetric])
  have ok: "\<forall>c \<in> set l. c_isprint c \<and> c \<noteq> SPACE" using assms(4) by (simp add: word_ok_def)
  then have g: "good_line (butlast l)" "\<forall>c \<in> set (butlast l). c_isprint c"
    using isprint_facts(2) by (auto simp: good_line_def is_cstr_def dest: in_set_butlastD intro!: spaced_word)
  then obtain s1 where s1: "shell_run tab (butlast l) s = Some (Inr (s1, []))" "shell_inv s1" "line s1 = butlast l"
    using type_line [OF assms(1), of "butlast l" tab] assms(2) l(2) by auto
  let ?s = "s1\<lparr> shell_cnt := shell_cnt s1 + 1 \<rparr>"
  have len: "length (command_buf s1) = 257" using s1(2) by (simp add: shell_inv_def)
  have c255: "unat (cur s1) = 255" using length_line [OF len] s1(3) l(2) by simp
  have "last l \<in> set l" using assms(4) by (simp add: word_ok_def)
  with ok have "c_isprint (last l)" "last l \<noteq> SPACE" by auto
  then have "shell_key tab (last l) s1 = Some (Inr (put_char (last l) ?s, None))"
    using c255 unfolding shell_key_def by (auto simp: accepted_def c_isprint_def Let_def COM_BUF_LEN_def)
  moreover have "line (put_char (last l) ?s) = []"
    using line_put_char [of ?s] len c255 by simp
  ultimately have "\<exists>s'. shell_run tab (butlast l @ [last l]) s = Some (Inr (s', [])) \<and> line s' = []"
    using s1(1) by (simp add: shell_run_append)
  with l(1) show ?thesis by simp
qed

theorem line_of_256_characters_is_lost_witness:
  "\<exists>s'. shell_run [''help''] (replicate 256 (CHR ''a'')) demo_shell = Some (Inr (s', [])) \<and> line s' = []"
proof -
  have "c_isprint (CHR ''a'')" by code_simp
  then show ?thesis
    by (intro line_of_256_characters_is_lost [OF demo_shell_inv]) (simp_all add: word_ok_def)
qed

end
