(* ===== verification/Dhcp_Options.thy ===== *)
theory Dhcp_Options
  imports Nw_Config
begin

text \<open>
  The option area of a BOOTP/DHCP packet: reading with \<^verbatim>\<open>get_bootp_option\<close>
  (\<^verbatim>\<open>packages/net/common/current/src/bootp_support.c\<close>), writing with \<^verbatim>\<open>set_fixed_tag\<close>,
  \<^verbatim>\<open>set_variable_tag\<close> and \<^verbatim>\<open>unset_tag\<close>, measuring with \<^verbatim>\<open>scan_dhcp_size\<close> (\<^verbatim>\<open>dhcp_prot.c\<close>) and the record
  that \<^verbatim>\<open>build_bootp_record\<close> makes for a fixed address (\<^verbatim>\<open>network_support.c\<close>).

  A packet is the list of the bytes of \<^verbatim>\<open>struct bootp\<close>, so that pointer arithmetic over its fields is
  arithmetic on positions: an option list that leaves its field goes on in the next field, as in
  memory, and an access behind the structure is a fault. The first half translates the pointer loops;
  the second gives a decoder from bytes to a list of options and shows what each loop does to that
  list.
\<close>

section \<open>Layout\<close>

type_synonym packet = "u8 list"

definition BP_VEND_LEN :: nat where "BP_VEND_LEN = 312 + 32"
definition BP_STD_TX_MINPKTSZ :: nat where "BP_STD_TX_MINPKTSZ = 300"
definition BP_MINPKTSZ :: u32 where "BP_MINPKTSZ = 576"

text \<open>Positions of the fields of \<^verbatim>\<open>struct bootp\<close>, and its size.\<close>

definition bp_op :: nat where "bp_op = 0"
definition bp_htype :: nat where "bp_htype = 1"
definition bp_hlen :: nat where "bp_hlen = 2"
definition bp_hops :: nat where "bp_hops = 3"
definition bp_xid :: nat where "bp_xid = 4"
definition bp_secs :: nat where "bp_secs = 8"
definition bp_flags :: nat where "bp_flags = 10"
definition bp_ciaddr :: nat where "bp_ciaddr = 12"
definition bp_yiaddr :: nat where "bp_yiaddr = 16"
definition bp_siaddr :: nat where "bp_siaddr = 20"
definition bp_giaddr :: nat where "bp_giaddr = 24"
definition bp_chaddr :: nat where "bp_chaddr = 28"
definition bp_sname :: nat where "bp_sname = 44"
definition bp_file :: nat where "bp_file = 108"
definition bp_vend :: nat where "bp_vend = 236"
definition bootp_size :: nat where "bootp_size = 580"

definition TAG_END :: u8 where "TAG_END = 255"
definition TAG_PAD :: u8 where "TAG_PAD = 0"
definition TAG_SUBNET_MASK :: u8 where "TAG_SUBNET_MASK = 1"
definition TAG_GATEWAY :: u8 where "TAG_GATEWAY = 3"
definition TAG_DOMAIN_SERVER :: u8 where "TAG_DOMAIN_SERVER = 6"
definition TAG_DOMAIN_NAME :: u8 where "TAG_DOMAIN_NAME = 15"
definition TAG_IP_BROADCAST :: u8 where "TAG_IP_BROADCAST = 28"
definition TAG_DHCP_REQ_IP :: u8 where "TAG_DHCP_REQ_IP = 50"
definition TAG_DHCP_LEASE_TIME :: u8 where "TAG_DHCP_LEASE_TIME = 51"
definition TAG_DHCP_OPTOVER :: u8 where "TAG_DHCP_OPTOVER = 52"
definition TAG_DHCP_MESS_TYPE :: u8 where "TAG_DHCP_MESS_TYPE = 53"
definition TAG_DHCP_SERVER_ID :: u8 where "TAG_DHCP_SERVER_ID = 54"
definition TAG_DHCP_PARM_REQ_LIST :: u8 where "TAG_DHCP_PARM_REQ_LIST = 55"
definition TAG_DHCP_MAX_MSGSZ :: u8 where "TAG_DHCP_MAX_MSGSZ = 57"
definition TAG_DHCP_RENEWAL_TIME :: u8 where "TAG_DHCP_RENEWAL_TIME = 58"
definition TAG_DHCP_REBIND_TIME :: u8 where "TAG_DHCP_REBIND_TIME = 59"
definition TAG_DHCP_MASK :: u8 where "TAG_DHCP_MASK = 1"
definition TAG_DHCP_ROUTER :: u8 where "TAG_DHCP_ROUTER = 3"
definition TAG_DHCP_DNS :: u8 where "TAG_DHCP_DNS = 6"
definition TAG_DHCP_DOMAINNAME :: u8 where "TAG_DHCP_DOMAINNAME = 15"

lemmas tag_defs = TAG_END_def TAG_PAD_def TAG_SUBNET_MASK_def TAG_GATEWAY_def TAG_DOMAIN_SERVER_def
  TAG_DOMAIN_NAME_def TAG_IP_BROADCAST_def TAG_DHCP_REQ_IP_def TAG_DHCP_LEASE_TIME_def
  TAG_DHCP_OPTOVER_def TAG_DHCP_MESS_TYPE_def TAG_DHCP_SERVER_ID_def TAG_DHCP_PARM_REQ_LIST_def
  TAG_DHCP_MAX_MSGSZ_def TAG_DHCP_RENEWAL_TIME_def TAG_DHCP_REBIND_TIME_def TAG_DHCP_MASK_def
  TAG_DHCP_ROUTER_def TAG_DHCP_DNS_def TAG_DHCP_DOMAINNAME_def

lemmas field_defs = bp_op_def bp_htype_def bp_hlen_def bp_hops_def bp_xid_def bp_secs_def bp_flags_def
  bp_ciaddr_def bp_yiaddr_def bp_siaddr_def bp_giaddr_def bp_chaddr_def bp_sname_def bp_file_def
  bp_vend_def bootp_size_def BP_VEND_LEN_def

text \<open>Reading and writing a byte, and a field inside the structure.\<close>

definition rd :: "packet \<Rightarrow> nat \<Rightarrow> u8 cres" where
  "rd p i = (if i < length p then Inr (p ! i) else Inl OutOfBounds)"

definition wr :: "packet \<Rightarrow> nat \<Rightarrow> u8 \<Rightarrow> packet cres" where
  "wr p i b = (if i < length p then Inr (p[i := b]) else Inl OutOfBounds)"

definition field :: "packet \<Rightarrow> nat \<Rightarrow> nat \<Rightarrow> u8 list" where
  "field p at n = take n (drop at p)"

definition put_field :: "packet \<Rightarrow> nat \<Rightarrow> u8 list \<Rightarrow> packet" where
  "put_field p at bs = take at p @ bs @ drop (at + length bs) p"

definition field32 :: "packet \<Rightarrow> nat \<Rightarrow> u32" where
  "field32 p at = fst (get_u32 (field p at 4))"

definition put_field32 :: "packet \<Rightarrow> nat \<Rightarrow> u32 \<Rightarrow> packet" where
  "put_field32 p at w = put_field p at (put_u32 w)"

section \<open>Reading options\<close>

text \<open>The step of every loop: behind a pad byte, or behind the option.\<close>

definition next_op :: "packet \<Rightarrow> nat \<Rightarrow> nat cres" where
  "next_op p op = bind_ok (rd p op) (\<lambda>t.
     if t = TAG_PAD then Inr (op + 1) else bind_ok (rd p (op + 1)) (\<lambda>l. Inr (op + unat l + 2)))"

lemma next_op_forward: "next_op p op = Inr op' \<Longrightarrow> op < op' \<and> op < length p"
  by (auto simp: next_op_def rd_def cres_simps split: if_splits)

fun read_bytes :: "packet \<Rightarrow> nat \<Rightarrow> nat \<Rightarrow> u8 list cres" where
  "read_bytes p op 0 = Inr []"
| "read_bytes p op (Suc n) = bind_ok (rd p op) (\<lambda>b. bind_ok (read_bytes p (op + 1) n) (\<lambda>bs. Inr (b # bs)))"

text \<open>The macro \<^verbatim>\<open>SCANTAG\<close>: the value of the first option with the tag, cut at \<^verbatim>\<open>*length\<close>.\<close>

function scantag :: "packet \<Rightarrow> u8 \<Rightarrow> nat \<Rightarrow> nat \<Rightarrow> u8 list option cres" where
  "scantag p tag len op =
     bind_ok (rd p op) (\<lambda>t.
       if t = TAG_END then Inr None
       else if t = tag then
         bind_ok (rd p (op + 1)) (\<lambda>l.
         bind_ok (read_bytes p (op + 2) (if unat l > len then len else unat l)) (\<lambda>bs. Inr (Some bs)))
       else bind_ok (next_op p op) (scantag p tag len))"
  by pat_completeness auto
termination
  by (relation "measure (\<lambda>(p, tag, len, op). length p - op)") (auto dest!: next_op_forward)

declare scantag.simps [simp del]

text \<open>
  The result is the value, when there is one, and the new \<^verbatim>\<open>*length\<close>. The search for the overload option
  uses the caller's \<^verbatim>\<open>length\<close>, but writes into the single byte \<^verbatim>\<open>optover\<close>.
\<close>

definition get_bootp_option :: "packet \<Rightarrow> u8 \<Rightarrow> nat \<Rightarrow> (u8 list option \<times> nat) cres" where
  "get_bootp_option p tag len =
     bind_ok (scantag p tag len (bp_vend + 4)) (\<lambda>r. case r of
       Some val \<Rightarrow> Inr (Some val, length val)
     | None \<Rightarrow>
         if tag = TAG_DHCP_OPTOVER then Inr (None, len)
         else bind_ok (scantag p TAG_DHCP_OPTOVER len (bp_vend + 4)) (\<lambda>r. case r of
           None \<Rightarrow> Inr (None, len)
         | Some ov \<Rightarrow>
             if 1 < length ov then Inl OutOfBounds
             else
               (let optover = (case ov of [] \<Rightarrow> 0 | b # _ \<Rightarrow> b); len1 = length ov in
                bind_ok (if 1 AND optover \<noteq> 0 then scantag p tag len1 bp_file else Inr None) (\<lambda>r. case r of
                  Some val \<Rightarrow> Inr (Some val, length val)
                | None \<Rightarrow>
                    bind_ok (if 2 AND optover \<noteq> 0 then scantag p tag len1 bp_sname else Inr None) (\<lambda>r. case r of
                      Some val \<Rightarrow> Inr (Some val, length val)
                    | None \<Rightarrow> Inr (None, len1))))))"

section \<open>Measuring the packet\<close>

function scan_end :: "packet \<Rightarrow> nat \<Rightarrow> nat option cres" where
  "scan_end p op =
     bind_ok (rd p op) (\<lambda>t.
       if t = TAG_END then Inr (Some op)
       else bind_ok (next_op p op) (\<lambda>op'.
         if bp_vend + (BP_VEND_LEN - 1) < op' then Inr None else scan_end p op'))"
  by pat_completeness auto
termination
  by (relation "measure (\<lambda>(p, op). length p - op)") (auto dest!: next_op_forward)

declare scan_end.simps [simp del]

definition cookie :: "u8 list" where
  "cookie = [99, 130, 83, 99]"

text \<open>The position behind the end tag; the checks for a pointer outside the structure are kept.\<close>

definition scan_dhcp_size :: "packet \<Rightarrow> nat option cres" where
  "scan_dhcp_size p =
     bind_ok (read_bytes p bp_vend 4) (\<lambda>c.
     if c \<noteq> cookie then Inr None
     else bind_ok (scan_end p (bp_vend + 4)) (\<lambda>r. case r of
       None \<Rightarrow> Inr None
     | Some op \<Rightarrow> if bootp_size < op then Inr None else Inr (Some (op + 1))))"

definition dhcp_size :: "packet \<Rightarrow> nat cres" where
  "dhcp_size p = bind_ok (scan_dhcp_size p) (\<lambda>r. case r of None \<Rightarrow> Inr 0 | Some op \<Rightarrow> Inr op)"

fun zero_fill :: "packet \<Rightarrow> nat \<Rightarrow> nat \<Rightarrow> packet cres" where
  "zero_fill p op 0 = Inr p"
| "zero_fill p op (Suc n) = bind_ok (wr p op 0) (\<lambda>p'. zero_fill p' (op + 1) n)"

definition dhcp_size_for_send :: "packet \<Rightarrow> (nat \<times> packet) cres" where
  "dhcp_size_for_send p = bind_ok (scan_dhcp_size p) (\<lambda>r. case r of
     None \<Rightarrow> Inr (0, p)
   | Some op \<Rightarrow> bind_ok (zero_fill p op (BP_STD_TX_MINPKTSZ - op)) (\<lambda>p'. Inr (max op BP_STD_TX_MINPKTSZ, p')))"

section \<open>Writing options\<close>

text \<open>The search loop of \<^verbatim>\<open>set_fixed_tag\<close> and \<^verbatim>\<open>set_variable_tag\<close>: the position of the first option with
  the tag or of the end, \<open>None\<close> when it leaves the packet.\<close>

function find_tag :: "packet \<Rightarrow> u8 \<Rightarrow> nat \<Rightarrow> nat option cres" where
  "find_tag p tag op =
     bind_ok (rd p op) (\<lambda>t.
       if t = TAG_END then Inr (Some op)
       else if bp_vend + (BP_VEND_LEN - 1) < op then Inr None
       else if t = tag then Inr (Some op)
       else bind_ok (next_op p op) (find_tag p tag))"
  by pat_completeness auto
termination
  by (relation "measure (\<lambda>(p, tag, op). length p - op)") (auto dest!: next_op_forward)

declare find_tag.simps [simp del]

text \<open>\<^verbatim>\<open>unset_tag\<close>: \<open>kill\<close> is the pair \<^verbatim>\<open>killp\<close>, \<^verbatim>\<open>nextp\<close>.\<close>

function unset_scan :: "packet \<Rightarrow> u8 \<Rightarrow> nat \<Rightarrow> (nat \<times> nat) option \<Rightarrow> (nat \<times> (nat \<times> nat) option) option cres" where
  "unset_scan p tag op kill =
     bind_ok (rd p op) (\<lambda>t.
       if t = TAG_END then Inr (Some (op, kill))
       else if bp_vend + (BP_VEND_LEN - 1) < op then Inr None
       else bind_ok (if t = tag then bind_ok (rd p (op + 1)) (\<lambda>l. Inr (Some (op, op + unat l + 2))) else Inr kill)
         (\<lambda>kill'. bind_ok (next_op p op) (\<lambda>op'. unset_scan p tag op' kill')))"
  by pat_completeness auto
termination
  by (relation "measure (\<lambda>(p, tag, op, kill). length p - op)") (auto dest!: next_op_forward)

declare unset_scan.simps [simp del]

text \<open>The copy down to and including \<open>n\<close> bytes.\<close>

fun copy_down :: "packet \<Rightarrow> nat \<Rightarrow> nat \<Rightarrow> nat \<Rightarrow> packet cres" where
  "copy_down p killp nextp 0 = Inr p"
| "copy_down p killp nextp (Suc n) =
     bind_ok (rd p nextp) (\<lambda>b. bind_ok (wr p killp b) (\<lambda>p'. copy_down p' (killp + 1) (nextp + 1) n))"

definition unset_tag :: "packet \<Rightarrow> u8 \<Rightarrow> (bool \<times> packet) cres" where
  "unset_tag p tag = bind_ok (unset_scan p tag (bp_vend + 4) None) (\<lambda>r. case r of
     None \<Rightarrow> Inr (False, p)
   | Some (op, None) \<Rightarrow> Inr (False, p)
   | Some (op, Some (killp, nextp)) \<Rightarrow> bind_ok (copy_down p killp nextp (op + 1 - nextp)) (\<lambda>p'. Inr (True, p')))"

text \<open>
  The part the two setters have in common: the position for the option, with its tag and length written
  and the end moved where needed; \<open>None\<close> when it does not fit.
\<close>

definition install :: "packet \<Rightarrow> nat \<Rightarrow> u8 \<Rightarrow> nat \<Rightarrow> (nat option \<times> packet) cres" where
  "install p op tag len =
     (if bp_vend + (BP_VEND_LEN - 1) < op + len + 2 then Inr (None, p)
      else bind_ok (wr p op tag) (\<lambda>p1. bind_ok (wr p1 (op + 1) (of_nat len)) (\<lambda>p2.
           bind_ok (wr p2 (op + len + 2) TAG_END) (\<lambda>p3. Inr (Some op, p3)))))"

definition place_tag :: "packet \<Rightarrow> u8 \<Rightarrow> nat \<Rightarrow> (nat option \<times> packet) cres" where
  "place_tag p tag len = bind_ok (find_tag p tag (bp_vend + 4)) (\<lambda>r. case r of
     None \<Rightarrow> Inr (None, p)
   | Some op \<Rightarrow>
       bind_ok (rd p op) (\<lambda>t.
       if t = tag then
         bind_ok (rd p (op + 1)) (\<lambda>l.
         if unat l \<noteq> len then
           bind_ok (unset_tag p tag) (\<lambda>(_, p1).
           bind_ok (scan_dhcp_size p1) (\<lambda>r. case r of
             None \<Rightarrow> Inr (None, p1)
           | Some op1 \<Rightarrow>
               bind_ok (rd p1 (op1 - 1)) (\<lambda>e.
               if e \<noteq> TAG_END then Inr (None, p1) else install p1 (op1 - 1) tag len)))
         else Inr (Some op, p))
       else install p op tag len))"

text \<open>The value, from the least significant byte at the end to the front.\<close>

fun put_value :: "packet \<Rightarrow> nat \<Rightarrow> nat \<Rightarrow> u32 \<Rightarrow> packet cres" where
  "put_value p at 0 v = Inr p"
| "put_value p at (Suc n) v = bind_ok (wr p (at + n) (ucast (v AND 255))) (\<lambda>p'. put_value p' at n (drop_bit 8 v))"

definition set_fixed_tag :: "packet \<Rightarrow> u8 \<Rightarrow> u32 \<Rightarrow> nat \<Rightarrow> (bool \<times> packet) cres" where
  "set_fixed_tag p tag value len = bind_ok (place_tag p tag len) (\<lambda>(r, p1). case r of
     None \<Rightarrow> Inr (False, p1)
   | Some op \<Rightarrow> bind_ok (put_value p1 (op + 2) len value) (\<lambda>p2. Inr (True, p2)))"

fun put_bytes :: "packet \<Rightarrow> nat \<Rightarrow> u8 list \<Rightarrow> nat \<Rightarrow> packet cres" where
  "put_bytes p op vs 0 = Inr p"
| "put_bytes p op [] (Suc n) = Inl OutOfBounds"
| "put_bytes p op (v # vs) (Suc n) = bind_ok (wr p op v) (\<lambda>p'. put_bytes p' (op + 1) vs n)"

definition set_variable_tag :: "packet \<Rightarrow> u8 \<Rightarrow> u8 list \<Rightarrow> nat \<Rightarrow> (bool \<times> packet) cres" where
  "set_variable_tag p tag pvalue len = bind_ok (place_tag p tag len) (\<lambda>(r, p1). case r of
     None \<Rightarrow> Inr (False, p1)
   | Some op \<Rightarrow> bind_ok (put_bytes p1 (op + 2) pvalue len) (\<lambda>p2. Inr (True, p2)))"

section \<open>A record for a fixed address\<close>

definition add_tag :: "packet \<Rightarrow> nat \<Rightarrow> u8 \<Rightarrow> u8 list \<Rightarrow> nat \<Rightarrow> (nat \<times> packet) cres" where
  "add_tag p vp tag val len =
     bind_ok (wr p vp tag) (\<lambda>p1. bind_ok (wr p1 (vp + 1) (of_nat len)) (\<lambda>p2.
     bind_ok (put_bytes p2 (vp + 2) val len) (\<lambda>p3. Inr (vp + 2 + len, p3))))"

text \<open>\<open>hwaddr\<close> is what the interface reports for its hardware address, \<open>None\<close> when it cannot be asked.\<close>

definition build_bootp_record ::
  "u8 list option \<Rightarrow> string \<Rightarrow> string \<Rightarrow> string \<Rightarrow> string \<Rightarrow> string \<Rightarrow> packet cres" where
  "build_bootp_record hwaddr addrs_ip addrs_netmask addrs_broadcast addrs_gateway addrs_server =
     (let p0 = replicate bootp_size 0;
          p1 = put_field p0 bp_op [2, 1, 6];
          p2 = put_field p1 bp_chaddr (case hwaddr of None \<Rightarrow> replicate 6 255 | Some a \<Rightarrow> take 6 a);
          p3 = put_field32 p2 bp_ciaddr (inet_addr addrs_ip);
          p4 = put_field32 p3 bp_yiaddr (inet_addr addrs_ip);
          p5 = put_field32 p4 bp_siaddr (inet_addr addrs_server);
          p6 = put_field32 p5 bp_giaddr (inet_addr addrs_gateway);
          p7 = put_field p6 bp_vend cookie
      in bind_ok (add_tag p7 (bp_vend + 4) TAG_SUBNET_MASK (put_u32 (inet_addr addrs_netmask)) 4) (\<lambda>(vp1, p8).
         bind_ok (add_tag p8 vp1 TAG_IP_BROADCAST (put_u32 (inet_addr addrs_broadcast)) 4) (\<lambda>(vp2, p9).
         bind_ok (add_tag p9 vp2 TAG_GATEWAY (put_u32 (inet_addr addrs_gateway)) 4) (\<lambda>(vp3, p10).
         wr p10 vp3 TAG_END))))"


section \<open>Options as a list\<close>

text \<open>The reference: a packet carries a list of pad bytes and options, closed by the end tag.\<close>

datatype item = Pad | Opt u8 "u8 list"

fun enc_item :: "item \<Rightarrow> u8 list" where
  "enc_item Pad = [TAG_PAD]"
| "enc_item (Opt t v) = t # of_nat (length v) # v"

definition enc :: "item list \<Rightarrow> u8 list" where
  "enc is = concat (map enc_item is)"

fun item_ok :: "item \<Rightarrow> bool" where
  "item_ok Pad \<longleftrightarrow> True"
| "item_ok (Opt t v) \<longleftrightarrow> t \<noteq> TAG_PAD \<and> t \<noteq> TAG_END \<and> length v < 256"

function decode :: "u8 list \<Rightarrow> item list option" where
  "decode [] = None"
| "decode (t # r) =
     (if t = TAG_END then Some []
      else if t = TAG_PAD then map_option ((#) Pad) (decode r)
      else case r of [] \<Rightarrow> None
        | l # r' \<Rightarrow>
            if length r' < unat l then None
            else map_option ((#) (Opt t (take (unat l) r'))) (decode (drop (unat l) r')))"
  by pat_completeness auto
termination by (relation "measure length") auto

definition carries :: "packet \<Rightarrow> item list \<Rightarrow> bool" where
  "carries p is \<longleftrightarrow> length p = bootp_size \<and> field p bp_vend 4 = cookie \<and> decode (drop (bp_vend + 4) p) = Some is"

text \<open>The first value with a tag; a list without the last option with a tag; a value put in.\<close>

fun lookup :: "u8 \<Rightarrow> item list \<Rightarrow> u8 list option" where
  "lookup tag [] = None"
| "lookup tag (Pad # is) = lookup tag is"
| "lookup tag (Opt t v # is) = (if t = tag then Some v else lookup tag is)"

fun split_last :: "u8 \<Rightarrow> item list \<Rightarrow> (item list \<times> u8 list \<times> item list) option" where
  "split_last tag [] = None"
| "split_last tag (i # is) =
     (case split_last tag is of
        Some (a, v, b) \<Rightarrow> Some (i # a, v, b)
      | None \<Rightarrow> (case i of Pad \<Rightarrow> None | Opt t v \<Rightarrow> if t = tag then Some ([], v, is) else None))"

definition remove_last :: "u8 \<Rightarrow> item list \<Rightarrow> item list" where
  "remove_last tag is = (case split_last tag is of None \<Rightarrow> is | Some (a, v, b) \<Rightarrow> a @ b)"

fun replace_first :: "u8 \<Rightarrow> u8 list \<Rightarrow> item list \<Rightarrow> item list" where
  "replace_first tag v [] = []"
| "replace_first tag v (Pad # is) = Pad # replace_first tag v is"
| "replace_first tag v (Opt t u # is) = (if t = tag then Opt t v # is else Opt t u # replace_first tag v is)"

definition set_item :: "u8 \<Rightarrow> u8 list \<Rightarrow> item list \<Rightarrow> item list" where
  "set_item tag v is = (case lookup tag is of
     None \<Rightarrow> is @ [Opt tag v]
   | Some u \<Rightarrow> if length u = length v then replace_first tag v is else remove_last tag is @ [Opt tag v])"

section \<open>Bytes and lists\<close>

lemma enc_simps [simp]: "enc [] = []" "enc (i # is) = enc_item i @ enc is" "enc (is @ js) = enc is @ enc js"
  by (simp_all add: enc_def)

lemma unat_of_nat_u8 [simp]: "n < 256 \<Longrightarrow> unat (of_nat n :: u8) = n"
  by (rule unat_of_nat_small) simp

lemma unat_u8_256 [simp]: "unat (b :: u8) < 256"
  using unsigned_less [of b] by simp

lemma decode_enc: "list_all item_ok is \<Longrightarrow> decode (enc is @ TAG_END # post) = Some is"
proof (induction "is")
  case Nil
  then show ?case by simp
next
  case (Cons i "is")
  then show ?case by (cases i) (simp_all add: TAG_PAD_def TAG_END_def)
qed

lemma decode_Some:
  "decode bs = Some is \<Longrightarrow> list_all item_ok is \<and> (\<exists>post. bs = enc is @ TAG_END # post)"
proof (induction bs arbitrary: "is" rule: decode.induct)
  case 1
  then show ?case by simp
next
  case (2 t r)
  show ?case
  proof (cases "t = TAG_END \<or> t = TAG_PAD")
    case True
    with 2 show ?thesis by (auto split: if_splits)
  next
    case False
    with "2.prems" obtain l r' js where r: "r = l # r'" and len: "\<not> length r' < unat l"
      and js: "decode (drop (unat l) r') = Some js" "is = Opt t (take (unat l) r') # js"
      by (auto split: list.splits if_splits)
    from "2.IH"(2) [OF _ _ r len js(1)] False
    obtain post where ok: "list_all item_ok js" and post: "drop (unat l) r' = enc js @ TAG_END # post" by auto
    have "r' = take (unat l) r' @ enc js @ TAG_END # post"
      using append_take_drop_id [of "unat l" r'] post by simp
    with False ok len js(2) r show ?thesis by (auto simp: min_absorb2)
  qed
qed

text \<open>An option list at a position of the packet.\<close>

definition opts_at :: "packet \<Rightarrow> nat \<Rightarrow> item list \<Rightarrow> bool" where
  "opts_at p op is \<longleftrightarrow> (\<exists>pre post. p = pre @ enc is @ TAG_END # post \<and> length pre = op) \<and> list_all item_ok is"

lemma opts_at_decode: "op \<le> length p \<Longrightarrow> decode (drop op p) = Some is \<longleftrightarrow> opts_at p op is"
proof
  assume "op \<le> length p" "decode (drop op p) = Some is"
  then show "opts_at p op is"
    using decode_Some [of "drop op p" "is"] append_take_drop_id [of op p] unfolding opts_at_def by (metis length_take min.absorb2)
next
  assume "opts_at p op is"
  then show "decode (drop op p) = Some is" by (auto simp: opts_at_def decode_enc)
qed

lemma rd_append: "rd (pre @ b # post) (length pre) = Inr b"
  by (simp add: rd_def)

lemma opts_at_Nil: "opts_at p op [] \<Longrightarrow> rd p op = Inr TAG_END"
  using rd_append by (auto simp: opts_at_def)

lemma opts_at_Pad:
  assumes "opts_at p op (Pad # is)"
  shows "rd p op = Inr TAG_PAD" "next_op p op = Inr (op + 1)" "opts_at p (op + 1) is"
proof -
  from assms obtain pre post where p: "p = pre @ TAG_PAD # enc is @ TAG_END # post" "length pre = op" and ok: "list_all item_ok is"
    by (auto simp: opts_at_def)
  then show "rd p op = Inr TAG_PAD" using rd_append by blast
  then show "next_op p op = Inr (op + 1)" by (simp add: next_op_def)
  have "p = (pre @ [TAG_PAD]) @ enc is @ TAG_END # post" "length (pre @ [TAG_PAD]) = op + 1" using p by simp_all
  then show "opts_at p (op + 1) is" using ok unfolding opts_at_def by blast
qed

lemma read_bytes_append: "n \<le> length v \<Longrightarrow> read_bytes (pre @ v @ post) (length pre) n = Inr (take n v)"
proof (induction n arbitrary: pre v)
  case 0
  then show ?case by simp
next
  case (Suc n)
  then obtain b w where v: "v = b # w" by (cases v) auto
  with Suc.IH [of w "pre @ [b]"] Suc.prems show ?case by (simp add: rd_def)
qed

lemma opts_at_Opt:
  assumes "opts_at p op (Opt t v # is)"
  shows "rd p op = Inr t" "t \<noteq> TAG_PAD" "t \<noteq> TAG_END" "length v < 256" "rd p (op + 1) = Inr (of_nat (length v))"
    "next_op p op = Inr (op + length v + 2)" "opts_at p (op + length v + 2) is"
    "n \<le> length v \<Longrightarrow> read_bytes p (op + 2) n = Inr (take n v)"
proof -
  from assms obtain pre post where p: "p = pre @ t # of_nat (length v) # v @ enc is @ TAG_END # post"
    and op: "length pre = op" and ok: "list_all item_ok is" and t: "t \<noteq> TAG_PAD" "t \<noteq> TAG_END" "length v < 256"
    by (auto simp: opts_at_def)
  from p op show a: "rd p op = Inr t" and b: "rd p (op + 1) = Inr (of_nat (length v))"
    by (auto simp: rd_def nth_append)
  from t show "t \<noteq> TAG_PAD" "t \<noteq> TAG_END" "length v < 256" .
  with a b show "next_op p op = Inr (op + length v + 2)" by (simp add: next_op_def)
  have "p = (pre @ t # of_nat (length v) # v) @ enc is @ TAG_END # post"
    "length (pre @ t # of_nat (length v) # v) = op + length v + 2" using p op by simp_all
  then show "opts_at p (op + length v + 2) is" using ok unfolding opts_at_def by blast
  show "n \<le> length v \<Longrightarrow> read_bytes p (op + 2) n = Inr (take n v)"
    using read_bytes_append [of n v "pre @ [t, of_nat (length v)]" "enc is @ TAG_END # post"] p op by simp
qed

lemma opts_at_bound: "opts_at p op is \<Longrightarrow> op + length (enc is) < length p"
  by (auto simp: opts_at_def)

lemma opts_at_ok: "opts_at p op is \<Longrightarrow> list_all item_ok is"
  by (simp add: opts_at_def)

section \<open>What the loops do\<close>

lemma scantag_lookup:
  assumes "opts_at p op is" "tag \<noteq> TAG_PAD" "tag \<noteq> TAG_END"
  shows "scantag p tag len op = Inr (map_option (take len) (lookup tag is))"
  using assms
proof (induction "is" arbitrary: op)
  case Nil
  then show ?case by (simp add: scantag.simps [of p tag len op] opts_at_Nil)
next
  case (Cons i "is")
  show ?case
  proof (cases i)
    case Pad
    with Cons opts_at_Pad [of p op "is"] show ?thesis
      by (simp add: scantag.simps [of p tag len op] TAG_PAD_def TAG_END_def)
  next
    case (Opt t v)
    with Cons opts_at_Opt [of p op t v "is"] show ?thesis
      by (auto simp: scantag.simps [of p tag len op] min_def)
  qed
qed

lemma scan_end_opts:
  assumes "opts_at p op is" "length p = bootp_size"
  shows "scan_end p op = Inr (Some (op + length (enc is)))"
  using assms
proof (induction "is" arbitrary: op)
  case Nil
  then show ?case by (simp add: scan_end.simps [of p op] opts_at_Nil)
next
  case (Cons i "is")
  show ?case
  proof (cases i)
    case Pad
    with Cons opts_at_Pad [of p op "is"] opts_at_bound [of p "op + 1" "is"] show ?thesis
      by (simp add: scan_end.simps [of p op] TAG_PAD_def TAG_END_def field_defs)
  next
    case (Opt t v)
    with Cons opts_at_Opt [of p op t v "is"] opts_at_bound [of p "op + length v + 2" "is"] show ?thesis
      by (simp add: scan_end.simps [of p op] field_defs)
  qed
qed

text \<open>The items in front of the first option with a tag.\<close>

fun before :: "u8 \<Rightarrow> item list \<Rightarrow> item list" where
  "before tag [] = []"
| "before tag (Pad # is) = Pad # before tag is"
| "before tag (Opt t v # is) = (if t = tag then [] else Opt t v # before tag is)"

lemma find_tag_opts:
  assumes "opts_at p op is" "length p = bootp_size" "tag \<noteq> TAG_PAD"
  shows "find_tag p tag op = Inr (Some (op + length (enc (before tag is))))"
  using assms
proof (induction "is" arbitrary: op)
  case Nil
  then show ?case by (simp add: find_tag.simps [of p tag op] opts_at_Nil)
next
  case (Cons i "is")
  have bound: "\<not> bp_vend + (BP_VEND_LEN - 1) < op"
    using opts_at_bound [OF Cons.prems(1)] Cons.prems(2) by (simp add: field_defs)
  show ?case
  proof (cases i)
    case Pad
    with Cons bound opts_at_Pad [of p op "is"] show ?thesis
      by (simp add: find_tag.simps [of p tag op] TAG_PAD_def TAG_END_def)
  next
    case (Opt t v)
    with Cons bound opts_at_Opt [of p op t v "is"] show ?thesis
      by (auto simp: find_tag.simps [of p tag op])
  qed
qed

lemma unset_scan_opts:
  assumes "opts_at p op is" "length p = bootp_size" "tag \<noteq> TAG_PAD"
  shows "unset_scan p tag op kill = Inr (Some (op + length (enc is), case split_last tag is of
     None \<Rightarrow> kill | Some (a, v, b) \<Rightarrow> Some (op + length (enc a), op + length (enc a) + length v + 2)))"
  using assms
proof (induction "is" arbitrary: op kill)
  case Nil
  then show ?case by (simp add: unset_scan.simps [of p tag op] opts_at_Nil)
next
  case (Cons i "is")
  have bound: "\<not> bp_vend + (BP_VEND_LEN - 1) < op"
    using opts_at_bound [OF Cons.prems(1)] Cons.prems(2) by (simp add: field_defs)
  show ?case
  proof (cases i)
    case Pad
    with Cons bound opts_at_Pad [of p op "is"] show ?thesis
      by (simp add: unset_scan.simps [of p tag op] TAG_PAD_def TAG_END_def split: option.splits prod.splits)
  next
    case (Opt t v)
    with Cons bound opts_at_Opt [of p op t v "is"] show ?thesis
      by (auto simp: unset_scan.simps [of p tag op] split: option.splits prod.splits)
  qed
qed


lemma split_last_Some:
  "split_last tag is = Some (a, v, b) \<Longrightarrow> is = a @ Opt tag v # b"
proof (induction "is" arbitrary: a)
  case Nil
  then show ?case by simp
next
  case (Cons i "is")
  then show ?case by (auto split: option.splits item.splits if_splits)
qed

lemma split_last_None: "split_last tag is = None \<longleftrightarrow> lookup tag is = None"
proof (induction "is")
  case Nil
  then show ?case by simp
next
  case (Cons i "is")
  then show ?case by (cases i) (auto split: option.splits)
qed

lemma lookup_None_before: "lookup tag is = None \<Longrightarrow> before tag is = is"
  by (induction tag "is" rule: lookup.induct) (auto split: if_splits)

lemma lookup_Some_before: "lookup tag is = Some v \<Longrightarrow> \<exists>b. is = before tag is @ Opt tag v # b"
  by (induction tag "is" rule: lookup.induct) (auto split: if_splits)

lemma replace_first_before:
  "is = before tag is @ Opt tag u # b \<Longrightarrow> replace_first tag v is = before tag is @ Opt tag v # b"
  by (induction tag "is" rule: before.induct) (auto split: if_splits)

subsection \<open>Overwriting a part of a packet\<close>

lemma length_put_field [simp]: "at + length bs \<le> length p \<Longrightarrow> length (put_field p at bs) = length p"
  by (simp add: put_field_def)

lemma put_field_Nil [simp]: "put_field p at [] = p"
  by (simp add: put_field_def)

lemma wr_put_field: "i < length p \<Longrightarrow> wr p i b = Inr (put_field p i [b])"
  by (simp add: wr_def put_field_def upd_conv_take_nth_drop)

lemma put_field_append:
  "i + length a \<le> length p \<Longrightarrow> put_field (put_field p i a) (i + length a) b = put_field p i (a @ b)"
  by (simp add: put_field_def ac_simps)

lemma put_field_prepend:
  "i + length a + length b \<le> length p \<Longrightarrow> put_field (put_field p (i + length a) b) i a = put_field p i (a @ b)"
  by (simp add: put_field_def add.assoc min_def take_drop)

lemma put_field_at: "length pre = i \<Longrightarrow> put_field (pre @ rest) i bs = pre @ bs @ drop (length bs) rest"
  by (auto simp: put_field_def)

lemma put_bytes_field:
  "op + length v \<le> length p \<Longrightarrow> put_bytes p op v (length v) = Inr (put_field p op v)"
proof (induction v arbitrary: p op)
  case Nil
  then show ?case by simp
next
  case (Cons b v)
  then show ?case using put_field_append [of op "[b]" p v] by (simp add: wr_put_field)
qed

text \<open>The bytes that \<open>put_value\<close> writes.\<close>

fun be_bytes :: "nat \<Rightarrow> u32 \<Rightarrow> u8 list" where
  "be_bytes 0 v = []"
| "be_bytes (Suc n) v = be_bytes n (drop_bit 8 v) @ [ucast (v AND 255)]"

lemma length_be_bytes [simp]: "length (be_bytes n v) = n"
  by (induction n arbitrary: v) simp_all

lemma put_value_field: "at + n \<le> length p \<Longrightarrow> put_value p at n v = Inr (put_field p at (be_bytes n v))"
proof (induction n arbitrary: p v)
  case 0
  then show ?case by simp
next
  case (Suc n)
  then show ?case
    using put_field_prepend [of at "be_bytes n (drop_bit 8 v)" "[ucast (v AND 255)]" p] by (simp add: wr_put_field)
qed

lemma u8_ucast_and: "(ucast (v AND 255) :: u8) = ucast (v :: u32)"
proof -
  have "v AND 255 = take_bit 8 v" by (simp add: take_bit_eq_mask mask_eq_exp_minus_1)
  then show ?thesis by (auto intro!: bit_word_eqI simp: bit_take_bit_iff bit_ucast_iff)
qed

lemma be_bytes_values:
  "be_bytes 1 v = [ucast v]" "be_bytes 2 v = [ucast (drop_bit 8 v), ucast v]" "be_bytes 4 v = put_u32 v"
  by (simp_all add: numeral_eq_Suc put_u32_def u8_ucast_and)

lemma copy_down_field:
  "killp < nextp \<Longrightarrow> nextp + n \<le> length p \<Longrightarrow>
   copy_down p killp nextp n = Inr (put_field p killp (take n (drop nextp p)))"
proof (induction n arbitrary: p killp nextp)
  case 0
  then show ?case by simp
next
  case (Suc n)
  let ?p = "put_field p killp [p ! nextp]"
  have "take (Suc n) (drop nextp p) = p ! nextp # take n (drop (Suc nextp) p)"
    using Suc.prems by (simp add: Cons_nth_drop_Suc [symmetric])
  moreover have "drop (Suc nextp) ?p = drop (Suc nextp) p"
    using Suc.prems by (simp add: put_field_def Suc_diff_le)
  moreover have "copy_down ?p (killp + 1) (nextp + 1) n = Inr (put_field ?p (killp + 1) (take n (drop (nextp + 1) ?p)))"
    using Suc.prems by (intro Suc.IH) simp_all
  ultimately show ?case
    using Suc.prems put_field_append [of killp "[p ! nextp]" p "take n (drop (Suc nextp) p)"]
    by (simp add: rd_def wr_put_field)
qed

subsection \<open>Packets and option lists\<close>

lemma carries_iff:
  "carries p is \<longleftrightarrow> length p = bootp_size \<and> field p bp_vend 4 = cookie \<and> opts_at p (bp_vend + 4) is"
  using opts_at_decode [of "bp_vend + 4" p "is"] by (auto simp: carries_def field_defs)

lemma carries_unique: "carries p is \<Longrightarrow> carries p js \<Longrightarrow> is = js"
  by (simp add: carries_def)

lemma length_cookie [simp]: "length cookie = 4"
  by (simp add: cookie_def)

lemma read_cookie: "length p = bootp_size \<Longrightarrow> read_bytes p bp_vend 4 = Inr (field p bp_vend 4)"
  using read_bytes_append [of 4 "field p bp_vend 4" "take bp_vend p" "drop (bp_vend + 4) p"] append_take_drop_id [of bp_vend p]
    append_take_drop_id [of 4 "drop bp_vend p"] by (simp add: field_def field_defs)

lemma scan_dhcp_size_carries:
  assumes "carries p is"
  shows "scan_dhcp_size p = Inr (Some (bp_vend + 4 + length (enc is) + 1))"
  using assms scan_end_opts [of p "bp_vend + 4" "is"] opts_at_bound [of p "bp_vend + 4" "is"] read_cookie [of p]
  by (auto simp: carries_iff scan_dhcp_size_def)

lemma carriesE:
  assumes "carries p is"
  obtains pre post where "p = pre @ enc is @ TAG_END # post" "length pre = bp_vend + 4"
    "length p = bootp_size" "field pre bp_vend 4 = cookie" "list_all item_ok is"
proof -
  from assms obtain pre post where p: "p = pre @ enc is @ TAG_END # post" "length pre = bp_vend + 4" "list_all item_ok is"
    by (auto simp: carries_iff opts_at_def)
  moreover from p assms have "length p = bootp_size" "field pre bp_vend 4 = cookie"
    by (auto simp: carries_iff field_def cookie_def)
  ultimately show thesis using that by blast
qed

lemma carriesI:
  assumes "p = pre @ enc is @ TAG_END # post" "length pre = bp_vend + 4" "length p = bootp_size"
    "field pre bp_vend 4 = cookie" "list_all item_ok is"
  shows "carries p is"
  using assms by (auto simp: carries_iff opts_at_def field_def cookie_def)

text \<open>What an operation on the options keeps: everything in front of them.\<close>

definition same_header :: "packet \<Rightarrow> packet \<Rightarrow> bool" where
  "same_header p q \<longleftrightarrow> take (bp_vend + 4) p = take (bp_vend + 4) q"

lemma unset_tag_carries:
  assumes "carries p is" "tag \<noteq> TAG_PAD"
  shows "\<exists>p'. unset_tag p tag = Inr (lookup tag is \<noteq> None, p') \<and> carries p' (remove_last tag is) \<and> same_header p p'"
proof -
  from assms(1) obtain pre post where p: "p = pre @ enc is @ TAG_END # post" "length pre = bp_vend + 4"
    "length p = bootp_size" "field pre bp_vend 4 = cookie" "list_all item_ok is" by (rule carriesE)
  have scan: "unset_scan p tag (bp_vend + 4) None = Inr (Some (bp_vend + 4 + length (enc is), case split_last tag is of
     None \<Rightarrow> None | Some (a, v, b) \<Rightarrow> Some (bp_vend + 4 + length (enc a), bp_vend + 4 + length (enc a) + length v + 2)))"
    using assms unset_scan_opts [of p "bp_vend + 4" "is" tag None] by (simp add: carries_iff)
  show ?thesis
  proof (cases "split_last tag is")
    case None
    then have "lookup tag is = None" by (simp add: split_last_None)
    with None scan assms(1) show ?thesis by (auto simp: unset_tag_def remove_last_def same_header_def)
  next
    case (Some s)
    then obtain a v b where s: "split_last tag is = Some (a, v, b)" by (cases s) auto
    have is_eq: "is = a @ Opt tag v # b" using split_last_Some [OF s] .
    let ?k = "bp_vend + 4 + length (enc a)" and ?rest = "tag # of_nat (length v) # v @ enc b @ TAG_END # post"
    have p_eq: "p = (pre @ enc a) @ ?rest" using p(1) is_eq by simp
    have len: "length (pre @ enc a) = ?k" using p(2) by simp
    have tail: "take (length (enc b) + 1) (drop (?k + length v + 2) p) = enc b @ [TAG_END]"
      using p_eq len by simp
    have "copy_down p ?k (?k + length v + 2) (length (enc b) + 1)
        = Inr (put_field p ?k (take (length (enc b) + 1) (drop (?k + length v + 2) p)))"
      using p(3) p_eq len by (intro copy_down_field) simp_all
    also have "\<dots> = Inr (pre @ enc (a @ b) @ TAG_END # drop (length (enc b) + 1) ?rest)"
      unfolding tail using put_field_at [OF len, of ?rest "enc b @ [TAG_END]"] p_eq by simp
    finally have copy: "copy_down p ?k (?k + length v + 2) (length (enc b) + 1)
        = Inr (pre @ enc (a @ b) @ TAG_END # drop (length (enc b) + 1) ?rest)" (is "_ = Inr ?p'") .
    have "length ?p' = length p" using p_eq by simp
    then have "carries ?p' (a @ b)" using p(2-5) is_eq by (intro carriesI [OF refl]) simp_all
    moreover have "same_header p ?p'" using p by (simp add: same_header_def)
    moreover have "lookup tag is \<noteq> None" using s split_last_None [of tag "is"] by simp
    moreover have "unset_tag p tag = Inr (True, ?p')"
      using scan s copy is_eq by (simp add: unset_tag_def algebra_simps)
    ultimately show ?thesis using s by (simp add: remove_last_def)
  qed
qed


subsection \<open>Setting an option\<close>

definition tag_ok :: "u8 \<Rightarrow> bool" where
  "tag_ok tag \<longleftrightarrow> tag \<noteq> TAG_PAD \<and> tag \<noteq> TAG_END"

text \<open>Room for options in front of the end tag.\<close>

definition room :: nat where "room = BP_VEND_LEN - 5"

lemma carries_end: "carries p is \<Longrightarrow> rd p (bp_vend + 4 + length (enc is)) = Inr TAG_END"
proof (erule carriesE)
  fix pre post
  assume "p = pre @ enc is @ TAG_END # post" "length pre = bp_vend + 4"
  then show ?thesis using rd_append [of "pre @ enc is" TAG_END post] by simp
qed

lemma install_put:
  assumes "op + length v + 2 \<le> bp_vend + (BP_VEND_LEN - 1)" "length p = bootp_size"
  shows "\<exists>p1. install p op tag (length v) = Inr (Some op, p1) \<and> length p1 = bootp_size
     \<and> put_field p1 (op + 2) v = put_field p op (tag # of_nat (length v) # v @ [TAG_END])"
proof -
  let ?p2 = "put_field p op [tag, of_nat (length v)]" and ?p3 = "\<lambda>q. put_field q (op + length v + 2) [TAG_END]"
  have small: "op + length v + 2 < length p" using assms by (simp add: field_defs)
  have two: "put_field (put_field p op [tag]) (op + 1) [of_nat (length v)] = ?p2"
    using put_field_append [of op "[tag]" p "[of_nat (length v)]"] small by simp
  have "install p op tag (length v) = Inr (Some op, ?p3 ?p2)"
    using assms small two by (simp add: install_def wr_put_field)
  moreover have "put_field (?p3 ?p2) (op + 2) v = put_field ?p2 (op + 2) (v @ [TAG_END])"
    using put_field_prepend [of "op + 2" v "[TAG_END]" ?p2] small by (simp add: add.commute add.left_commute)
  moreover have "\<dots> = put_field p op (tag # of_nat (length v) # v @ [TAG_END])"
    using put_field_append [of op "[tag, of_nat (length v)]" p "v @ [TAG_END]"] small by simp
  moreover have "length (?p3 ?p2) = bootp_size" using small assms(2) by simp
  ultimately show ?thesis by metis
qed

lemma install_carries:
  assumes "carries p is" "tag_ok tag" "length v < 256" "length (enc is) + length v + 2 \<le> room"
  shows "\<exists>p1. install p (bp_vend + 4 + length (enc is)) tag (length v) = Inr (Some (bp_vend + 4 + length (enc is)), p1)
     \<and> length p1 = bootp_size \<and> carries (put_field p1 (bp_vend + 4 + length (enc is) + 2) v) (is @ [Opt tag v])
     \<and> same_header p (put_field p1 (bp_vend + 4 + length (enc is) + 2) v)"
proof -
  let ?op = "bp_vend + 4 + length (enc is)" and ?new = "tag # of_nat (length v) # v @ [TAG_END]"
  from assms(1) obtain pre post where p: "p = pre @ enc is @ TAG_END # post" "length pre = bp_vend + 4"
    "length p = bootp_size" "field pre bp_vend 4 = cookie" "list_all item_ok is" by (rule carriesE)
  have fit: "?op + length v + 2 \<le> bp_vend + (BP_VEND_LEN - 1)" using assms(4) by (simp add: room_def field_defs)
  obtain p1 where p1: "install p ?op tag (length v) = Inr (Some ?op, p1)" "length p1 = bootp_size"
    "put_field p1 (?op + 2) v = put_field p ?op ?new" using install_put [OF fit p(3)] by blast
  have new: "put_field p ?op ?new = pre @ enc (is @ [Opt tag v]) @ TAG_END # drop (length v + 2) post"
    using put_field_at [of "pre @ enc is" ?op "TAG_END # post" ?new] p(1,2) by simp
  have "length (put_field p ?op ?new) = bootp_size" using fit p(3) by (simp add: field_defs)
  then have "carries (put_field p ?op ?new) (is @ [Opt tag v])"
    unfolding new using p assms(2,3) by (intro carriesI [OF refl]) (simp_all add: tag_ok_def)
  moreover have "same_header p (put_field p ?op ?new)" unfolding new using p by (simp add: same_header_def)
  ultimately show ?thesis using p1 by metis
qed

lemma enc_item_length: "length (enc_item (Opt t v)) = length v + 2"
  by simp

lemma remove_last_absent: "lookup tag is = None \<Longrightarrow> remove_last tag is = is"
  by (simp add: remove_last_def split_last_None [symmetric])

lemma same_header_trans: "same_header p q \<Longrightarrow> same_header q r \<Longrightarrow> same_header p r"
  by (simp add: same_header_def)

lemma install_full:
  "room < length (enc is) + length v + 2 \<Longrightarrow>
   install p (bp_vend + 4 + length (enc is)) tag (length v) = Inr (None, p)"
  by (simp add: install_def room_def field_defs)

text \<open>The option is overwritten in place when the length is the same.\<close>

lemma overwrite_carries:
  assumes "carries p is" "tag_ok tag" "lookup tag is = Some u" "length u = length v"
  shows "carries (put_field p (bp_vend + 4 + length (enc (before tag is)) + 2) v) (set_item tag v is)
     \<and> same_header p (put_field p (bp_vend + 4 + length (enc (before tag is)) + 2) v)"
proof -
  let ?op = "bp_vend + 4 + length (enc (before tag is))"
  from assms(1) obtain pre post where p: "p = pre @ enc is @ TAG_END # post" "length pre = bp_vend + 4"
    "length p = bootp_size" "field pre bp_vend 4 = cookie" "list_all item_ok is" by (rule carriesE)
  obtain b where b: "is = before tag is @ Opt tag u # b" using lookup_Some_before [OF assms(3)] by blast
  define a where "a = before tag is"
  have p_eq: "p = (pre @ enc a @ [tag, of_nat (length u)]) @ u @ enc b @ TAG_END # post"
    using p(1) b by (metis a_def append.assoc append_Cons append_Nil enc_item.simps(2) enc_simps(2,3))
  have set: "set_item tag v is = a @ Opt tag v # b"
    using assms(3,4) replace_first_before [OF b, of v] by (simp add: set_item_def a_def)
  have new: "put_field p (?op + 2) v = pre @ enc (a @ Opt tag v # b) @ TAG_END # post"
    unfolding p_eq using put_field_at [of "pre @ enc a @ [tag, of_nat (length u)]" "?op + 2" "u @ enc b @ TAG_END # post" v]
      p(2) assms(4) by (simp add: a_def)
  have "list_all item_ok (a @ Opt tag v # b)" using p(5) b assms(4) by (metis a_def item_ok.simps(2) list_all_append list.pred_inject(2))
  moreover have "length (put_field p (?op + 2) v) = bootp_size" unfolding new using p_eq p(3) assms(4) by simp
  ultimately have "carries (put_field p (?op + 2) v) (a @ Opt tag v # b)"
    unfolding new using p by (intro carriesI [OF refl]) simp_all
  moreover have "same_header p (put_field p (?op + 2) v)" unfolding new using p by (simp add: same_header_def)
  ultimately show ?thesis by (simp add: set)
qed

lemma found_tag:
  assumes "carries p is" "lookup tag is = Some u"
  shows "rd p (bp_vend + 4 + length (enc (before tag is))) = Inr tag"
    "rd p (bp_vend + 4 + length (enc (before tag is)) + 1) = Inr (of_nat (length u))" "length u < 256"
    "bp_vend + 4 + length (enc (before tag is)) + 2 + length u \<le> length p"
proof -
  from assms(1) obtain pre post where p: "p = pre @ enc is @ TAG_END # post" "length pre = bp_vend + 4"
    "list_all item_ok is" by (rule carriesE)
  obtain b where b: "is = before tag is @ Opt tag u # b" using lookup_Some_before [OF assms(2)] by blast
  define a where "a = before tag is"
  have p_eq: "p = (pre @ enc a) @ tag # of_nat (length u) # u @ enc b @ TAG_END # post"
    using p(1) b by (metis a_def append.assoc append_Cons enc_item.simps(2) enc_simps(2,3))
  then show "rd p (bp_vend + 4 + length (enc (before tag is))) = Inr tag"
    "rd p (bp_vend + 4 + length (enc (before tag is)) + 1) = Inr (of_nat (length u))"
    "bp_vend + 4 + length (enc (before tag is)) + 2 + length u \<le> length p"
    using p(2) by (simp_all add: rd_def nth_append a_def)
  show "length u < 256" using p(3) b by (metis item_ok.simps(2) list_all_append list.pred_inject(2))
qed

lemma place_tag_carries:
  assumes "carries p is" "tag_ok tag" "length v < 256"
  shows "length (enc (set_item tag v is)) \<le> room \<Longrightarrow>
      \<exists>op p1. place_tag p tag (length v) = Inr (Some op, p1) \<and> op + 2 + length v \<le> length p1
        \<and> carries (put_field p1 (op + 2) v) (set_item tag v is) \<and> same_header p (put_field p1 (op + 2) v)"
    and "room < length (enc (set_item tag v is)) \<Longrightarrow>
      \<exists>p1. place_tag p tag (length v) = Inr (None, p1) \<and> carries p1 (remove_last tag is) \<and> same_header p p1"
proof -
  let ?stop = "\<lambda>is. bp_vend + 4 + length (enc is)"
  have find: "find_tag p tag (bp_vend + 4) = Inr (Some (?stop (before tag is)))"
    using assms find_tag_opts [of p "bp_vend + 4" "is" tag] by (simp add: carries_iff tag_ok_def)
  have place: "(length (enc (set_item tag v is)) \<le> room \<longrightarrow>
      (\<exists>op p1. place_tag p tag (length v) = Inr (Some op, p1) \<and> op + 2 + length v \<le> length p1
        \<and> carries (put_field p1 (op + 2) v) (set_item tag v is) \<and> same_header p (put_field p1 (op + 2) v)))
    \<and> (room < length (enc (set_item tag v is)) \<longrightarrow>
      (\<exists>p1. place_tag p tag (length v) = Inr (None, p1) \<and> carries p1 (remove_last tag is) \<and> same_header p p1))"
    (is "?ok \<and> ?full")
  proof (cases "lookup tag is")
    case None
    have enc: "length (enc (set_item tag v is)) = length (enc is) + length v + 2" by (simp add: set_item_def None)
    have place: "place_tag p tag (length v) = install p (?stop is) tag (length v)"
      using find carries_end [OF assms(1)] lookup_None_before [OF None] assms(2)
      by (auto simp: place_tag_def tag_ok_def)
    show ?thesis
      using install_carries [OF assms] install_full [of "is" v p tag] assms(1) None
      by (auto simp: place enc set_item_def remove_last_absent same_header_def room_def field_defs)
  next
    case (Some u)
    note found = found_tag [OF assms(1) Some]
    show ?thesis
    proof (cases "length u = length v")
      case True
      have "place_tag p tag (length v) = Inr (Some (?stop (before tag is)), p)"
        using find found True by (simp add: place_tag_def)
      moreover have "length (enc (set_item tag v is)) \<le> room"
        using overwrite_carries [OF assms(1,2) Some True] opts_at_bound [of _ "bp_vend + 4"]
        by (force simp: carries_iff room_def field_defs)
      ultimately show ?thesis using overwrite_carries [OF assms(1,2) Some True] found(4) True by auto
    next
      case False
      obtain p1 where p1: "unset_tag p tag = Inr (True, p1)" "carries p1 (remove_last tag is)" "same_header p p1"
        using unset_tag_carries [OF assms(1), of tag] assms(2) Some by (auto simp: tag_ok_def)
      have enc: "set_item tag v is = remove_last tag is @ [Opt tag v]" by (simp add: set_item_def Some False)
      define e where "e = ?stop (remove_last tag is)"
      have "scan_dhcp_size p1 = Inr (Some (Suc e))" "rd p1 e = Inr TAG_END"
        using scan_dhcp_size_carries [OF p1(2)] carries_end [OF p1(2)] by (simp_all add: e_def)
      then have place: "place_tag p tag (length v) = install p1 (?stop (remove_last tag is)) tag (length v)"
        unfolding e_def [symmetric] using find found False p1 by (simp add: place_tag_def)
      have size: "length (enc (set_item tag v is)) = length (enc (remove_last tag is)) + length v + 2" by (simp add: enc)
      show ?thesis
      proof (cases "length (enc (remove_last tag is)) + length v + 2 \<le> room")
        case True
        obtain p2 where p2: "place_tag p tag (length v) = Inr (Some e, p2)" "length p2 = bootp_size"
          "carries (put_field p2 (e + 2) v) (set_item tag v is)" "same_header p1 (put_field p2 (e + 2) v)"
          using install_carries [OF p1(2) assms(2,3) True] unfolding place enc e_def by blast
        have "e + 2 + length v \<le> length p2" using True p2(2) by (simp add: e_def room_def field_defs)
        with p2 same_header_trans [OF p1(3) p2(4)] True size show ?thesis by auto
      next
        case False
        with install_full [of "remove_last tag is" v p1 tag] p1 size place show ?thesis by simp
      qed
    qed
  qed
  then show "length (enc (set_item tag v is)) \<le> room \<Longrightarrow>
      \<exists>op p1. place_tag p tag (length v) = Inr (Some op, p1) \<and> op + 2 + length v \<le> length p1
        \<and> carries (put_field p1 (op + 2) v) (set_item tag v is) \<and> same_header p (put_field p1 (op + 2) v)"
    and "room < length (enc (set_item tag v is)) \<Longrightarrow>
      \<exists>p1. place_tag p tag (length v) = Inr (None, p1) \<and> carries p1 (remove_last tag is) \<and> same_header p p1"
    by blast+
qed


subsection \<open>The setters\<close>

lemma set_variable_carries:
  assumes "carries p is" "tag_ok tag" "length v < 256"
  shows "\<exists>p'. set_variable_tag p tag v (length v) = Inr (length (enc (set_item tag v is)) \<le> room, p')
     \<and> carries p' (if length (enc (set_item tag v is)) \<le> room then set_item tag v is else remove_last tag is)
     \<and> same_header p p'"
proof (cases "length (enc (set_item tag v is)) \<le> room")
  case True
  from place_tag_carries(1) [OF assms True] obtain op p1 where "place_tag p tag (length v) = Inr (Some op, p1)"
    "op + 2 + length v \<le> length p1" "carries (put_field p1 (op + 2) v) (set_item tag v is)"
    "same_header p (put_field p1 (op + 2) v)" by blast
  with True show ?thesis by (simp add: set_variable_tag_def put_bytes_field)
next
  case False
  with place_tag_carries(2) [OF assms] obtain p1 where "place_tag p tag (length v) = Inr (None, p1)"
    "carries p1 (remove_last tag is)" "same_header p p1" by auto
  with False show ?thesis by (simp add: set_variable_tag_def)
qed

lemma set_fixed_variable:
  assumes "carries p is" "tag_ok tag" "n < 256"
  shows "set_fixed_tag p tag value n = set_variable_tag p tag (be_bytes n value) n"
proof -
  let ?v = "be_bytes n value"
  show ?thesis
  proof (cases "length (enc (set_item tag ?v is)) \<le> room")
    case True
    with place_tag_carries(1) [of p "is" tag ?v] assms obtain op p1 where "place_tag p tag n = Inr (Some op, p1)"
      "op + 2 + n \<le> length p1" by auto
    then show ?thesis
      using put_bytes_field [of "op + 2" ?v p1] by (simp add: set_fixed_tag_def set_variable_tag_def put_value_field)
  next
    case False
    with place_tag_carries(2) [of p "is" tag ?v] assms obtain p1 where "place_tag p tag n = Inr (None, p1)" by auto
    then show ?thesis by (simp add: set_fixed_tag_def set_variable_tag_def)
  qed
qed

subsection \<open>Lookups after a change\<close>

lemma lookup_append: "lookup tag (a @ b) = (case lookup tag a of None \<Rightarrow> lookup tag b | Some v \<Rightarrow> Some v)"
proof (induction a)
  case Nil
  then show ?case by simp
next
  case (Cons i a)
  then show ?case by (cases i) simp_all
qed

lemma lookup_remove_other: "t \<noteq> tag \<Longrightarrow> lookup t (remove_last tag is) = lookup t is"
  by (auto simp: remove_last_def lookup_append split: option.splits dest!: split_last_Some)

lemma lookup_replace: "lookup t (replace_first tag v is) =
   (if t = tag then (if lookup tag is = None then None else Some v) else lookup t is)"
proof (induction "is")
  case Nil
  then show ?case by simp
next
  case (Cons i "is")
  then show ?case by (cases i) auto
qed

lemma lookup_set_other: "t \<noteq> tag \<Longrightarrow> lookup t (set_item tag v is) = lookup t is"
  by (auto simp: set_item_def lookup_append lookup_remove_other lookup_replace split: option.splits)

text \<open>A tag that occurs at most once.\<close>

definition single :: "u8 \<Rightarrow> item list \<Rightarrow> bool" where
  "single tag is \<longleftrightarrow> lookup tag (remove_last tag is) = None"

lemma lookup_set_same: "single tag is \<Longrightarrow> lookup tag (set_item tag v is) = Some v"
  by (auto simp: set_item_def lookup_append lookup_replace single_def remove_last_absent split: option.splits)

lemma single_absent: "lookup tag is = None \<Longrightarrow> single tag is"
  by (simp add: single_def remove_last_absent)

subsection \<open>Reading\<close>

lemma get_option_found:
  assumes "carries p is" "tag_ok tag" "lookup tag is = Some v"
  shows "get_bootp_option p tag len = Inr (Some (take len v), min (length v) len)"
  using assms scantag_lookup [of p "bp_vend + 4" "is" tag len]
  by (simp add: get_bootp_option_def carries_iff tag_ok_def)

lemma get_option_absent:
  assumes "carries p is" "tag_ok tag" "lookup tag is = None" "lookup TAG_DHCP_OPTOVER is = None"
  shows "get_bootp_option p tag len = Inr (None, len)"
proof -
  have "scantag p tag len (bp_vend + 4) = Inr None" "scantag p TAG_DHCP_OPTOVER len (bp_vend + 4) = Inr None"
    using assms scantag_lookup [of p "bp_vend + 4" "is" _ len] by (simp_all add: carries_iff tag_ok_def tag_defs)
  then show ?thesis by (simp add: get_bootp_option_def)
qed

lemma get_option_overload:
  assumes "carries p is" "tag_ok tag" "lookup tag is = None" "lookup TAG_DHCP_OPTOVER is = Some (b # bs)"
    and "1 AND b \<noteq> 0" "opts_at p bp_file fs" "lookup tag fs = Some v" "0 < len"
  shows "tag \<noteq> TAG_DHCP_OPTOVER \<and> get_bootp_option p tag len =
     (if bs = [] \<or> len = 1 then Inr (Some (take 1 v), min (length v) 1) else Inl OutOfBounds)"
proof -
  have tag: "tag \<noteq> TAG_DHCP_OPTOVER" using assms(3,4) by auto
  have "scantag p tag len (bp_vend + 4) = Inr None"
    "scantag p TAG_DHCP_OPTOVER len (bp_vend + 4) = Inr (Some (take len (b # bs)))"
    using assms(1-4) scantag_lookup [of p "bp_vend + 4" "is" _ len] by (simp_all add: carries_iff tag_ok_def tag_defs)
  moreover have "scantag p tag 1 bp_file = Inr (Some (take 1 v))"
    using assms(2,6,7) scantag_lookup [of p bp_file fs tag 1] by (simp add: tag_ok_def)
  moreover obtain n where "len = Suc n" using assms(8) by (cases len) auto
  ultimately show ?thesis using tag assms(5) by (cases n; cases bs) (simp_all add: get_bootp_option_def Let_def)
qed

subsection \<open>Measuring\<close>

lemma drop_rd: "rd p op = Inr t \<longleftrightarrow> op < length p \<and> drop op p = t # drop (op + 1) p"
  using Cons_nth_drop_Suc [of op p] by (auto simp: rd_def)

lemma decode_pad: "rd p op = Inr TAG_PAD \<Longrightarrow> decode (drop op p) = map_option ((#) Pad) (decode (drop (op + 1) p))"
  by (simp add: drop_rd TAG_PAD_def TAG_END_def)

lemma decode_opt:
  assumes "rd p op = Inr t" "t \<noteq> TAG_PAD" "t \<noteq> TAG_END" "rd p (op + 1) = Inr l" "op + unat l + 2 \<le> length p"
  shows "decode (drop op p) = map_option ((#) (Opt t (take (unat l) (drop (op + 2) p)))) (decode (drop (op + unat l + 2) p))"
proof -
  have "drop op p = t # l # drop (op + 2) p" using assms(1,4) by (simp add: drop_rd)
  moreover have "drop (unat l) (drop (op + 2) p) = drop (op + unat l + 2) p" by (simp add: ac_simps)
  ultimately show ?thesis using assms(2,3,5) by simp
qed

lemma scan_end_result:
  assumes "length p = bootp_size"
  shows "scan_end p op = Inr (Some e) \<Longrightarrow> \<exists>is. decode (drop op p) = Some is"
    and "scan_end p op = Inl f \<Longrightarrow> op < bootp_size \<Longrightarrow> f = OutOfBounds \<and> last p \<noteq> TAG_END \<and> last p \<noteq> TAG_PAD"
  using assms
proof (induction p op rule: scan_end.induct)
  case (1 p op)
  {
    case 1
    then obtain t where t: "rd p op = Inr t" by (auto simp: scan_end.simps [of p op] cres_simps)
    show ?case
    proof (cases "t = TAG_END")
      case True
      with t show ?thesis by (simp add: drop_rd)
    next
      case False
      with 1(1) t obtain op' where op': "next_op p op = Inr op'" "\<not> bp_vend + (BP_VEND_LEN - 1) < op'"
        "scan_end p op' = Inr (Some e)" by (auto simp: scan_end.simps [of p op] cres_simps split: if_splits)
      then obtain js where js: "decode (drop op' p) = Some js"
        using "1.IH"(1) [OF t False op'(1,2)] 1(2) by blast
      show ?thesis
      proof (cases "t = TAG_PAD")
        case True
        with t op'(1) js decode_pad [of p op] show ?thesis by (auto simp: next_op_def)
      next
        case pad: False
        with t op'(1) obtain l where "rd p (op + 1) = Inr l" "op' = op + unat l + 2"
          by (auto simp: next_op_def cres_simps)
        with decode_opt [OF t pad False] js op'(2) 1(2) show ?thesis by (auto simp: field_defs)
      qed
    qed
  next
    case 2
    then have t: "rd p op = Inr (p ! op)" by (simp add: rd_def)
    with 2 have "p ! op \<noteq> TAG_END" by (auto simp: scan_end.simps [of p op])
    note t' = t this
    show ?case
    proof (cases "next_op p op")
      case (Inl g)
      with t' 2 have "f = g" by (simp add: scan_end.simps [of p op])
      from Inl t have pad: "p ! op \<noteq> TAG_PAD" and "rd p (op + 1) = Inl g"
        by (auto simp: next_op_def cres_simps split: if_splits)
      then have "op + 1 = length p" "g = OutOfBounds" using 2 by (auto simp: rd_def split: if_splits)
      then have "last p = p ! op" by (metis add_diff_cancel_right' last_conv_nth length_0_conv add_is_0 one_neq_zero)
      with t' pad \<open>f = g\<close> \<open>g = OutOfBounds\<close> show ?thesis by simp
    next
      case (Inr op')
      with t' 2 have op': "\<not> bp_vend + (BP_VEND_LEN - 1) < op'" "scan_end p op' = Inl f"
        by (auto simp: scan_end.simps [of p op] split: if_splits)
      then have "op' < bootp_size" by (simp add: field_defs)
      then show ?thesis using "1.IH"(2) [OF t t'(2) Inr op'(1)] op'(2) 2(3) by blast
    qed
  }
qed

lemma dhcp_size_exact:
  assumes "length p = bootp_size"
  shows "dhcp_size p = Inr n \<and> n \<noteq> 0 \<longleftrightarrow> (\<exists>is. carries p is \<and> n = bp_vend + 5 + length (enc is))"
proof
  assume n: "dhcp_size p = Inr n \<and> n \<noteq> 0"
  then obtain op where c: "field p bp_vend 4 = cookie" and e: "scan_end p (bp_vend + 4) = Inr (Some op)"
    using read_cookie [OF assms]
    by (auto simp: dhcp_size_def scan_dhcp_size_def cres_simps split: if_splits option.splits)
  from scan_end_result(1) [OF assms e] obtain "is" where "carries p is" using c assms by (auto simp: carries_def)
  with n scan_dhcp_size_carries [of p "is"] show "\<exists>is. carries p is \<and> n = bp_vend + 5 + length (enc is)"
    by (auto simp: dhcp_size_def)
next
  assume "\<exists>is. carries p is \<and> n = bp_vend + 5 + length (enc is)"
  with scan_dhcp_size_carries show "dhcp_size p = Inr n \<and> n \<noteq> 0" by (auto simp: dhcp_size_def)
qed

lemma dhcp_size_fault:
  assumes "length p = bootp_size" "dhcp_size p = Inl f"
  shows "f = OutOfBounds \<and> last p \<noteq> TAG_END \<and> last p \<noteq> TAG_PAD"
proof -
  have "scan_end p (bp_vend + 4) = Inl f"
    using assms read_cookie [OF assms(1)]
    by (auto simp: dhcp_size_def scan_dhcp_size_def cres_simps split: if_splits option.splits)
  with scan_end_result(2) [OF assms(1) this] show ?thesis by (simp add: field_defs)
qed


lemma zero_fill_field: "op + n \<le> length p \<Longrightarrow> zero_fill p op n = Inr (put_field p op (replicate n 0))"
proof (induction n arbitrary: p op)
  case 0
  then show ?case by simp
next
  case (Suc n)
  then show ?case using put_field_append [of op "[0]" p "replicate n 0"] by (simp add: wr_put_field)
qed

lemma put_field_behind:
  assumes "carries p is" "bp_vend + 5 + length (enc is) \<le> at" "at + length bs \<le> bootp_size"
  shows "carries (put_field p at bs) is \<and> same_header p (put_field p at bs)"
proof -
  from assms(1) obtain pre post where p: "p = pre @ enc is @ TAG_END # post" "length pre = bp_vend + 4"
    "length p = bootp_size" "field pre bp_vend 4 = cookie" "list_all item_ok is" by (rule carriesE)
  obtain k where k: "at = bp_vend + 5 + length (enc is) + k" using assms(2) by (auto simp: le_iff_add)
  have new: "put_field p at bs = pre @ enc is @ TAG_END # put_field post k bs"
    unfolding p(1) k using p(2) by (simp add: put_field_def ac_simps)
  have "length (put_field p at bs) = bootp_size" using assms(3) p(3) by simp
  then have "carries (put_field p at bs) is" unfolding new using p by (intro carriesI [OF refl]) simp_all
  moreover have "same_header p (put_field p at bs)" unfolding new using p by (simp add: same_header_def)
  ultimately show ?thesis ..
qed

lemma size_for_send_carries:
  assumes "carries p is"
  shows "\<exists>p'. dhcp_size_for_send p = Inr (max (bp_vend + 5 + length (enc is)) BP_STD_TX_MINPKTSZ, p')
     \<and> carries p' is \<and> same_header p p'"
proof -
  define n where "n = bp_vend + 5 + length (enc is)"
  have len: "length p = bootp_size" using assms by (simp add: carries_def)
  have n: "n \<le> bootp_size" using assms opts_at_bound [of p "bp_vend + 4" "is"] by (simp add: carries_iff n_def)
  have fill: "zero_fill p n (BP_STD_TX_MINPKTSZ - n) = Inr (put_field p n (replicate (BP_STD_TX_MINPKTSZ - n) 0))"
    using n len by (intro zero_fill_field) (simp add: BP_STD_TX_MINPKTSZ_def field_defs)
  have "carries (put_field p n (replicate (BP_STD_TX_MINPKTSZ - n) 0)) is
      \<and> same_header p (put_field p n (replicate (BP_STD_TX_MINPKTSZ - n) 0))"
    using n by (intro put_field_behind [OF assms]) (simp_all add: n_def BP_STD_TX_MINPKTSZ_def field_defs)
  moreover have "scan_dhcp_size p = Inr (Some n)" using scan_dhcp_size_carries [OF assms] by (simp add: n_def)
  ultimately show ?thesis unfolding n_def [symmetric] using fill by (simp add: dhcp_size_for_send_def)
qed

subsection \<open>Fields\<close>

lemma field_put_other:
  "at + n \<le> pos \<or> pos + length bs \<le> at \<Longrightarrow> pos + length bs \<le> length p \<Longrightarrow> field (put_field p pos bs) at n = field p at n"
  by (auto simp: field_def put_field_def min_def take_drop add.commute)

lemma field_put_same: "pos + length bs \<le> length p \<Longrightarrow> field (put_field p pos bs) pos (length bs) = bs"
  by (simp add: field_def put_field_def)

lemma get_put_u32 [simp]: "fst (get_u32 (put_u32 w)) = w"
  using lay_u32.get_put [of w "[]"] by simp

lemma field32_put_same [simp]: "pos + 4 \<le> length p \<Longrightarrow> field32 (put_field32 p pos w) pos = w"
  using field_put_same [of pos "put_u32 w" p] by (simp add: field32_def put_field32_def)

lemma field32_put_other:
  "at + 4 \<le> pos \<or> pos + length bs \<le> at \<Longrightarrow> pos + length bs \<le> length p \<Longrightarrow> field32 (put_field p pos bs) at = field32 p at"
  by (simp add: field32_def field_put_other)

lemma same_header_field: "same_header p q \<Longrightarrow> at + n \<le> bp_vend + 4 \<Longrightarrow> field p at n = field q at n"
proof -
  assume a: "same_header p q" "at + n \<le> bp_vend + 4"
  have "field r at n = take n (drop at (take (bp_vend + 4) r))" for r
    using a(2) by (simp add: field_def drop_take min_absorb1)
  with a(1) show "field p at n = field q at n" by (simp add: same_header_def)
qed

lemma same_header_field32: "same_header p q \<Longrightarrow> at + 4 \<le> bp_vend + 4 \<Longrightarrow> field32 p at = field32 q at"
  using same_header_field [of p q at 4] by (simp add: field32_def)

text \<open>A field in front of the options can be changed without touching them.\<close>

lemma put_header_carries:
  assumes "carries p is" "pos + length bs \<le> bp_vend"
  shows "carries (put_field p pos bs) is"
proof -
  have len: "length p = bootp_size" using assms(1) by (simp add: carries_def)
  have "drop (bp_vend + 4) (put_field p pos bs) = drop (bp_vend + 4) p"
    using assms(2) len by (simp add: put_field_def field_defs)
  moreover have "field (put_field p pos bs) bp_vend 4 = field p bp_vend 4"
    using assms(2) len by (intro field_put_other) (simp_all add: field_defs)
  ultimately show ?thesis using assms len by (simp add: carries_def field_defs)
qed

section \<open>The record for a fixed address\<close>

lemma add_tag_field:
  assumes "vp + 2 + length v \<le> length p"
  shows "add_tag p vp tag v (length v) = Inr (vp + 2 + length v, put_field p vp (tag # of_nat (length v) # v))"
proof -
  have "put_field (put_field p vp [tag]) (Suc vp) [of_nat (length v)] = put_field p vp [tag, of_nat (length v)]"
    using put_field_append [of vp "[tag]" p "[of_nat (length v)]"] assms by simp
  moreover have "put_field (put_field p vp [tag, of_nat (length v)]) (vp + 2) v = put_field p vp (tag # of_nat (length v) # v)"
    using put_field_append [of vp "[tag, of_nat (length v)]" p v] assms by simp
  ultimately show ?thesis
    using assms put_bytes_field [of "vp + 2" v "put_field p vp [tag, of_nat (length v)]"] by (simp add: add_tag_def wr_put_field)
qed

definition record_items :: "string \<Rightarrow> string \<Rightarrow> string \<Rightarrow> item list" where
  "record_items netmask broadcast gateway =
     [Opt TAG_SUBNET_MASK (put_u32 (inet_addr netmask)), Opt TAG_IP_BROADCAST (put_u32 (inet_addr broadcast)),
      Opt TAG_GATEWAY (put_u32 (inet_addr gateway))]"

lemma length_put_u32 [simp]: "length (put_u32 w) = 4"
  by (simp add: put_u32_def)

lemma put_field_start:
  assumes "length p = bootp_size" "field p bp_vend 4 = cookie" "list_all item_ok is" "length (enc is) \<le> room"
  shows "carries (put_field p (bp_vend + 4) (enc is @ [TAG_END])) is"
proof -
  have new: "put_field p (bp_vend + 4) (enc is @ [TAG_END])
      = take (bp_vend + 4) p @ enc is @ TAG_END # drop (bp_vend + 4 + length (enc is) + 1) p"
    by (simp add: put_field_def)
  have "field (take (bp_vend + 4) p) bp_vend 4 = cookie" using assms(2) by (simp add: field_def drop_take)
  moreover have "length (put_field p (bp_vend + 4) (enc is @ [TAG_END])) = bootp_size"
    using assms(1,4) by (simp add: room_def field_defs)
  ultimately show ?thesis unfolding new using assms(1,3) by (intro carriesI [OF refl]) (simp_all add: field_defs)
qed

lemma build_record:
  assumes "\<forall>a. hwaddr = Some a \<longrightarrow> 6 \<le> length a"
  shows "\<exists>p. build_bootp_record hwaddr ip netmask broadcast gateway server = Inr p
     \<and> carries p (record_items netmask broadcast gateway) \<and> field32 p bp_yiaddr = inet_addr ip
     \<and> field32 p bp_siaddr = inet_addr server \<and> field32 p bp_giaddr = inet_addr gateway"
proof -
  define hw where "hw = (case hwaddr of None \<Rightarrow> replicate 6 255 | Some a \<Rightarrow> take 6 a)"
  define q where "q = put_field32 (put_field32 (put_field32 (put_field32 (put_field (put_field (replicate bootp_size 0) bp_op [2, 1, 6])
     bp_chaddr hw) bp_ciaddr (inet_addr ip)) bp_yiaddr (inet_addr ip)) bp_siaddr (inet_addr server)) bp_giaddr (inet_addr gateway)"
  define p where "p = put_field q bp_vend cookie"
  let ?m = "put_u32 (inet_addr netmask)" and ?b = "put_u32 (inet_addr broadcast)" and ?g = "put_u32 (inet_addr gateway)"
  have hw: "length hw = 6" using assms by (auto simp: hw_def split: option.splits)
  have len: "length q = bootp_size" "length p = bootp_size"
    using hw by (simp_all add: q_def p_def put_field32_def cookie_def field_defs)
  have q32: "field32 q bp_yiaddr = inet_addr ip" "field32 q bp_siaddr = inet_addr server" "field32 q bp_giaddr = inet_addr gateway"
    using hw len(1) by (simp_all add: q_def put_field32_def field32_put_other field_defs)
      (simp_all add: field32_put_same [unfolded put_field32_def])
  have p32: "field32 p at = field32 q at" if "at + 4 \<le> bp_vend" for at
    using that len(1) unfolding p_def by (intro field32_put_other) (simp_all add: cookie_def field_defs)
  have pc: "field p bp_vend 4 = cookie"
    using field_put_same [of bp_vend cookie q] len(1) by (simp add: p_def field_defs)
  define p' where "p' = put_field p (bp_vend + 4) (enc (record_items netmask broadcast gateway) @ [TAG_END])"
  have "carries p' (record_items netmask broadcast gateway)"
    unfolding p'_def using len(2) pc
    by (intro put_field_start) (simp_all add: record_items_def tag_defs room_def field_defs)
  moreover have "field32 p' at = field32 q at" if "at + 4 \<le> bp_vend" for at
    using that len(2) p32 [OF that] field32_put_other [of at "bp_vend + 4" _ p]
    by (simp add: p'_def record_items_def field_defs)
  moreover have "build_bootp_record hwaddr ip netmask broadcast gateway server = Inr p'"
  proof -
    have step: "put_field (put_field p (bp_vend + 4) a) (bp_vend + 4 + length a) b = put_field p (bp_vend + 4) (a @ b)"
      if "length a \<le> 100" for a b
      using that len(2) by (intro put_field_append) (simp add: field_defs)
    let ?e1 = "TAG_SUBNET_MASK # 4 # ?m" and ?e2 = "TAG_IP_BROADCAST # 4 # ?b" and ?e3 = "TAG_GATEWAY # 4 # ?g"
    have "add_tag p (bp_vend + 4) TAG_SUBNET_MASK ?m 4 = Inr (bp_vend + 10, put_field p (bp_vend + 4) ?e1)"
      using add_tag_field [of "bp_vend + 4" ?m p TAG_SUBNET_MASK] len(2) by (simp add: field_defs)
    moreover have "add_tag (put_field p (bp_vend + 4) ?e1) (bp_vend + 10) TAG_IP_BROADCAST ?b 4
        = Inr (bp_vend + 16, put_field p (bp_vend + 4) (?e1 @ ?e2))"
      using add_tag_field [of "bp_vend + 10" ?b "put_field p (bp_vend + 4) ?e1" TAG_IP_BROADCAST] step [of ?e1 ?e2] len(2)
      by (simp add: field_defs)
    moreover have "add_tag (put_field p (bp_vend + 4) (?e1 @ ?e2)) (bp_vend + 16) TAG_GATEWAY ?g 4
        = Inr (bp_vend + 22, put_field p (bp_vend + 4) (?e1 @ ?e2 @ ?e3))"
      using add_tag_field [of "bp_vend + 16" ?g "put_field p (bp_vend + 4) (?e1 @ ?e2)" TAG_GATEWAY] step [of "?e1 @ ?e2" ?e3] len(2)
      by (simp add: field_defs)
    moreover have "wr (put_field p (bp_vend + 4) (?e1 @ ?e2 @ ?e3)) (bp_vend + 22) TAG_END = Inr p'"
      using step [of "?e1 @ ?e2 @ ?e3" "[TAG_END]"] len(2)
      by (simp add: wr_put_field p'_def record_items_def field_defs)
    ultimately show ?thesis
      by (simp add: build_bootp_record_def Let_def hw_def [symmetric] q_def [symmetric] p_def [symmetric])
  qed
  ultimately show ?thesis using q32 by (auto simp: field_defs)
qed


section \<open>Properties\<close>

text \<open>A packet that carries given options and nothing else.\<close>

definition packet_of :: "item list \<Rightarrow> packet" where
  "packet_of is = put_field (put_field (replicate bootp_size 0) bp_vend cookie) (bp_vend + 4) (enc is @ [TAG_END])"

lemma carries_packet_of: "list_all item_ok is \<Longrightarrow> length (enc is) \<le> room \<Longrightarrow> carries (packet_of is) is"
  unfolding packet_of_def using field_put_same [of bp_vend cookie "replicate bootp_size 0"]
  by (intro put_field_start) (simp_all add: field_defs)

definition demo_items :: "item list" where
  "demo_items = [Opt TAG_DHCP_MESS_TYPE [2], Pad, Opt TAG_SUBNET_MASK [255, 255, 255, 0], Opt TAG_DHCP_LEASE_TIME [0, 0, 14, 16]]"

lemma demo_items_carried: "carries (packet_of demo_items) demo_items"
  by (rule carries_packet_of) (simp_all add: demo_items_def tag_defs room_def BP_VEND_LEN_def)

text \<open>
  (C27) The three functions that write options work on the list of options: setting one replaces its value in
  place when the length is the same, otherwise takes out the last option with that tag and adds the new one
  at the end; it returns false exactly when the options would not fit, and \<^verbatim>\<open>unset_tag\<close> takes out the last
  one. The header of the packet is not touched, and no byte outside the packet.
\<close>

theorem option_updates_refine_list:
  assumes "carries p is" "tag_ok tag" "length v < 256" "n < 256"
  shows "(\<exists>p'. set_variable_tag p tag v (length v) = Inr (length (enc (set_item tag v is)) \<le> room, p')
       \<and> carries p' (if length (enc (set_item tag v is)) \<le> room then set_item tag v is else remove_last tag is)
       \<and> same_header p p')
     \<and> set_fixed_tag p tag w n = set_variable_tag p tag (be_bytes n w) n
     \<and> (\<exists>p'. unset_tag p tag = Inr (lookup tag is \<noteq> None, p') \<and> carries p' (remove_last tag is) \<and> same_header p p')"
  using set_variable_carries [OF assms(1-3)] set_fixed_variable [OF assms(1,2,4)] unset_tag_carries [OF assms(1)] assms(2)
  by (simp add: tag_ok_def)

theorem option_updates_refine_list_witness:
  "\<exists>p'. set_variable_tag (packet_of demo_items) TAG_DHCP_MESS_TYPE [3] 1 = Inr (True, p')
     \<and> carries p' [Opt TAG_DHCP_MESS_TYPE [3], Pad, Opt TAG_SUBNET_MASK [255, 255, 255, 0], Opt TAG_DHCP_LEASE_TIME [0, 0, 14, 16]]"
proof -
  have "set_item TAG_DHCP_MESS_TYPE [3] demo_items
      = [Opt TAG_DHCP_MESS_TYPE [3], Pad, Opt TAG_SUBNET_MASK [255, 255, 255, 0], Opt TAG_DHCP_LEASE_TIME [0, 0, 14, 16]]" (is "_ = ?is")
    by (simp add: demo_items_def set_item_def)
  moreover have "length (enc ?is) \<le> room" by (simp add: room_def BP_VEND_LEN_def)
  ultimately show ?thesis
    using option_updates_refine_list [OF demo_items_carried, of TAG_DHCP_MESS_TYPE "[3]" 1 0] by (auto simp: tag_ok_def tag_defs)
qed

text \<open>
  (C29) An option that was set is read back, whatever the packet held before, when its tag occurs at most once;
  every other option that was there is still read as before.
\<close>

theorem option_set_then_get:
  assumes "carries p is" "tag_ok tag" "single tag is" "length v < 256" "set_variable_tag p tag v (length v) = Inr (True, p')"
  shows "get_bootp_option p' tag len = Inr (Some (take len v), min (length v) len)
     \<and> (\<forall>t. tag_ok t \<and> t \<noteq> tag \<and> lookup t is \<noteq> None \<longrightarrow> get_bootp_option p' t len = get_bootp_option p t len)"
proof -
  have p': "carries p' (set_item tag v is)"
    using set_variable_carries [OF assms(1,2,4)] assms(5) by (auto split: if_splits)
  have "get_bootp_option p' t len = get_bootp_option p t len" if t: "tag_ok t" "t \<noteq> tag" "lookup t is \<noteq> None" for t
  proof -
    obtain u where "lookup t is = Some u" using t(3) by auto
    with get_option_found [OF assms(1) t(1)] get_option_found [OF p' t(1)] lookup_set_other [OF t(2)] show ?thesis by simp
  qed
  with get_option_found [OF p' assms(2) lookup_set_same [OF assms(3)]] show ?thesis by blast
qed

theorem option_set_then_get_witness:
  "\<exists>p'. get_bootp_option p' TAG_DHCP_REQ_IP 4 = Inr (Some [10, 0, 0, 7], 4)"
proof -
  have "length (enc (set_item TAG_DHCP_REQ_IP [10, 0, 0, 7] demo_items)) \<le> room"
    by (simp add: demo_items_def set_item_def tag_defs room_def BP_VEND_LEN_def)
  moreover have "tag_ok TAG_DHCP_REQ_IP" by (simp add: tag_ok_def tag_defs)
  moreover have "single TAG_DHCP_REQ_IP demo_items" by (rule single_absent) (simp add: demo_items_def tag_defs)
  ultimately show ?thesis
    using set_variable_carries [OF demo_items_carried, of TAG_DHCP_REQ_IP "[10, 0, 0, 7]"]
      option_set_then_get [OF demo_items_carried, of TAG_DHCP_REQ_IP "[10, 0, 0, 7]" _ 4] by (auto simp: numeral_eq_Suc)
qed

text \<open>
  (C28) \<^verbatim>\<open>dhcp_size\<close> accepts a received packet exactly when it has the cookie and a well-formed list of options
  with its end tag inside the packet, and then returns the size up to the end tag. It never reads outside a packet whose
  last byte is an end tag or a pad byte.
\<close>

theorem dhcp_size_accepts_well_formed:
  assumes "length p = bootp_size"
  shows "(\<forall>n. dhcp_size p = Inr n \<and> n \<noteq> 0 \<longleftrightarrow> (\<exists>is. carries p is \<and> n = bp_vend + 5 + length (enc is)))
     \<and> (last p = TAG_END \<or> last p = TAG_PAD \<longrightarrow> \<not> faulty (dhcp_size p))"
  using dhcp_size_exact [OF assms] dhcp_size_fault [OF assms] by (cases "dhcp_size p") auto

theorem dhcp_size_accepts_well_formed_witness:
  "dhcp_size (packet_of demo_items) = Inr 257 \<and> dhcp_size (replicate bootp_size 0) = Inr 0"
proof
  show "dhcp_size (packet_of demo_items) = Inr 257"
    using dhcp_size_accepts_well_formed [of "packet_of demo_items"] demo_items_carried
    by (auto simp: carries_def demo_items_def field_defs)
  have "field (replicate bootp_size 0) bp_vend 4 \<noteq> cookie"
    by (rule notI, drule arg_cong [where f = hd]) (simp add: field_def cookie_def field_defs)
  then have "\<not> carries (replicate bootp_size 0) is" for "is" by (simp add: carries_def)
  moreover have "\<not> faulty (dhcp_size (replicate bootp_size 0))"
    using dhcp_size_accepts_well_formed [of "replicate bootp_size 0"] by (simp add: TAG_PAD_def bootp_size_def)
  ultimately show "dhcp_size (replicate bootp_size 0) = Inr 0"
    using dhcp_size_accepts_well_formed [of "replicate bootp_size 0"] by (auto simp: not_faulty_iff)
qed

text \<open>
  An option that a server moves into the file field is cut to its first byte: the lookup of the overload
  option stores its own length, one, into the caller's length. An overload option of two bytes or more is
  written behind the variable it is read into.
\<close>

theorem overloaded_option_is_cut:
  assumes "carries p is" "tag_ok tag" "lookup tag is = None" "lookup TAG_DHCP_OPTOVER is = Some (b # bs)"
    and "1 AND b \<noteq> 0" "opts_at p bp_file fs" "lookup tag fs = Some v" "1 < len"
  shows "get_bootp_option p tag len = (if bs = [] then Inr (Some (take 1 v), min (length v) 1) else Inl OutOfBounds)"
  using get_option_overload [OF assms(1-7), of len] assms(8) by auto

definition demo_overload :: packet where
  "demo_overload = put_field (packet_of [Opt TAG_DHCP_OPTOVER [1]]) bp_file (enc [Opt TAG_DHCP_LEASE_TIME [0, 0, 14, 16]] @ [TAG_END])"

lemma demo_overload_ok:
  "carries demo_overload [Opt TAG_DHCP_OPTOVER [1]]" "opts_at demo_overload bp_file [Opt TAG_DHCP_LEASE_TIME [0, 0, 14, 16]]"
proof -
  have p: "carries (packet_of [Opt TAG_DHCP_OPTOVER [1]]) [Opt TAG_DHCP_OPTOVER [1]]"
    by (rule carries_packet_of) (simp_all add: tag_defs room_def BP_VEND_LEN_def)
  then show "carries demo_overload [Opt TAG_DHCP_OPTOVER [1]]"
    unfolding demo_overload_def by (rule put_header_carries) (simp add: field_defs)
  have len: "length (packet_of [Opt TAG_DHCP_OPTOVER [1]]) = bootp_size" using p by (simp add: carries_def)
  have "demo_overload = take bp_file (packet_of [Opt TAG_DHCP_OPTOVER [1]]) @ enc [Opt TAG_DHCP_LEASE_TIME [0, 0, 14, 16]]
      @ TAG_END # drop (bp_file + 7) (packet_of [Opt TAG_DHCP_OPTOVER [1]])"
    by (simp add: demo_overload_def put_field_def numeral_eq_Suc)
  moreover have "length (take bp_file (packet_of [Opt TAG_DHCP_OPTOVER [1]])) = bp_file" using len by (simp add: field_defs)
  ultimately show "opts_at demo_overload bp_file [Opt TAG_DHCP_LEASE_TIME [0, 0, 14, 16]]"
    unfolding opts_at_def by (force simp: tag_defs)
qed

theorem overloaded_option_is_cut_witness:
  "get_bootp_option demo_overload TAG_DHCP_LEASE_TIME 4 = Inr (Some [0], 1)"
  using overloaded_option_is_cut [OF demo_overload_ok(1) _ _ _ _ demo_overload_ok(2), of TAG_DHCP_LEASE_TIME 1 "[]" "[0, 0, 14, 16]" 4]
  by (simp add: tag_ok_def tag_defs)

text \<open>
  When a tag occurs twice and the new value has another length, setting it takes out the second option
  and leaves the first: the setter reports success, and the old value is read back.
\<close>

theorem duplicate_option_is_not_replaced:
  assumes "carries p is" "tag_ok tag" "length v < 256" "lookup tag is = Some u" "lookup tag (remove_last tag is) = Some u"
    and "length u \<noteq> length v" "length (enc (remove_last tag is)) + length v + 2 \<le> room"
  shows "\<exists>p'. set_variable_tag p tag v (length v) = Inr (True, p') \<and> get_bootp_option p' tag 255 = Inr (Some (take 255 u), min (length u) 255)"
proof -
  have set: "set_item tag v is = remove_last tag is @ [Opt tag v]" using assms(4,6) by (simp add: set_item_def)
  with set_variable_carries [OF assms(1-3)] assms(7) obtain p' where
    p': "set_variable_tag p tag v (length v) = Inr (True, p')" "carries p' (remove_last tag is @ [Opt tag v])" by auto
  have "lookup tag (remove_last tag is @ [Opt tag v]) = Some u" using assms(5) by (simp add: lookup_append)
  with p' get_option_found [OF p'(2) assms(2)] show ?thesis by blast
qed

text \<open>
  The record for a fixed address holds what it was built from: the addresses are in their fields, and
  mask, broadcast address and gateway are read back by \<^verbatim>\<open>get_bootp_option\<close>.
\<close>

theorem static_record_is_readable:
  assumes "\<forall>a. hwaddr = Some a \<longrightarrow> 6 \<le> length a"
  shows "\<exists>p. build_bootp_record hwaddr ip netmask broadcast gateway server = Inr p
     \<and> field32 p bp_yiaddr = inet_addr ip \<and> field32 p bp_siaddr = inet_addr server
     \<and> get_bootp_option p TAG_SUBNET_MASK 4 = Inr (Some (put_u32 (inet_addr netmask)), 4)
     \<and> get_bootp_option p TAG_IP_BROADCAST 4 = Inr (Some (put_u32 (inet_addr broadcast)), 4)
     \<and> get_bootp_option p TAG_GATEWAY 4 = Inr (Some (put_u32 (inet_addr gateway)), 4)"
proof -
  obtain p where p: "build_bootp_record hwaddr ip netmask broadcast gateway server = Inr p"
    "carries p (record_items netmask broadcast gateway)" "field32 p bp_yiaddr = inet_addr ip"
    "field32 p bp_siaddr = inet_addr server" using build_record [OF assms] by blast
  have "get_bootp_option p TAG_SUBNET_MASK 4 = Inr (Some (put_u32 (inet_addr netmask)), 4)"
    "get_bootp_option p TAG_IP_BROADCAST 4 = Inr (Some (put_u32 (inet_addr broadcast)), 4)"
    "get_bootp_option p TAG_GATEWAY 4 = Inr (Some (put_u32 (inet_addr gateway)), 4)"
    using get_option_found [OF p(2), of _ _ 4] by (simp_all add: record_items_def tag_ok_def tag_defs)
  with p show ?thesis by blast
qed

theorem static_record_is_readable_witness:
  "\<exists>p. build_bootp_record None ''10.0.0.2'' ''255.0.0.0'' ''10.255.255.255'' ''10.0.0.1'' ''10.0.0.1'' = Inr p
     \<and> get_bootp_option p TAG_GATEWAY 4 = Inr (Some (put_u32 (inet_addr ''10.0.0.1'')), 4)"
  using static_record_is_readable [of None "''10.0.0.2''" "''255.0.0.0''" "''10.255.255.255''" "''10.0.0.1''" "''10.0.0.1''"] by blast

end
