(* ===== verification/Net_Setup.thy ===== *)
theory Net_Setup
  imports Dhcp_Options
begin

text \<open>
  Setting up an interface: \<^verbatim>\<open>init_net\<close>, \<^verbatim>\<open>check_default_route\<close> and \<^verbatim>\<open>set_config_value\<close> of
  \<^verbatim>\<open>packages/net/common/current/src/bootp_support.c\<close>, \<^verbatim>\<open>init_loopback_interface\<close> of \<^verbatim>\<open>network_support.c\<close> and
  \<^verbatim>\<open>ADD_ROUTE\<close> of \<^verbatim>\<open>ecosap_nw.c\<close>.

  These functions talk to the network stack through sockets. The stack is a parameter: a function that
  takes a request and the state of the outside world, \<open>'k\<close>, and returns a result and the next state. The
  firewall tools that are not part of the repository are requests too. A procedure runs with such a
  kernel and returns whether it succeeded, or a fault.
\<close>

section \<open>The network stack as a parameter\<close>

datatype sockopt = SO_BROADCAST | SO_REUSEADDR | SO_REUSEPORT | SO_RCVTIMEO u32

record rtentry =
  rt_dst :: u32
  rt_gateway :: u32
  rt_genmask :: u32
  rt_dev :: string
  rt_flags :: u16

datatype if_req = SIOCSIFADDR string u32 | SIOCSIFNETMASK string u32 | SIOCSIFBRDADDR string u32
  | SIOCSIFFLAGS string u16 | SIOCGIFHWADDR string | SIOCGIFADDR string | SIOCDIFADDR string u32
  | SIOCADDRT rtentry | SIOCDELRT rtentry

text \<open>\<open>Alarms\<close> asks how many times the lease alarm has gone off since it was last asked, \<open>Now\<close> for the
  clock, and \<open>Random\<close> for a number. The requests that begin with \<open>Ppp\<close> are the calls into the PPP package,
  \<open>PppStatus\<close> reads the variable \<^verbatim>\<open>is_ppp_up\<close> that its callback writes, and \<open>Comp\<close> is a call of another
  package that is not part of the repository, by name and with its text arguments.\<close>

datatype kreq = Socket | Close int | Setsockopt int sockopt | Bind int u16 | Ioctl int if_req
  | SendTo int u32 "u8 list" | RecvFrom int | RouteReinit | SkipRouteAdd bool
  | FlushNat | NatConfigTool "string list" | IpfwMain "string list" | NatReconfigure string | DeleteDynRules
  | Alarms | Now | Random | Malloc nat | Free
  | PppIfname string | PppSifup | PppInit | PppSetAuth string string | PppOpenEthernet | PppStatus
  | Comp string "string list"

text \<open>The result of a request: its value and the data it delivers, or a failure, where \<open>Fail True\<close> is the
  error \<^verbatim>\<open>EEXIST\<close>.\<close>

datatype kres = Ok int "u8 list" | Fail bool

type_synonym 'k kernel = "kreq \<Rightarrow> 'k \<Rightarrow> kres \<times> 'k"
type_synonym 'k proc = "'k \<Rightarrow> (bool \<times> 'k) cres"

definition req :: "'k kernel \<Rightarrow> kreq \<Rightarrow> 'k proc" where
  "req kern r k = (case kern r k of (Ok _ _, k') \<Rightarrow> Inr (True, k') | (Fail _, k') \<Rightarrow> Inr (False, k'))"

text \<open>A request whose failure with \<^verbatim>\<open>EEXIST\<close> counts as success, and one whose result is not looked at.\<close>

definition req_exist :: "'k kernel \<Rightarrow> kreq \<Rightarrow> 'k proc" where
  "req_exist kern r k = (case kern r k of (Ok _ _, k') \<Rightarrow> Inr (True, k') | (Fail e, k') \<Rightarrow> Inr (e, k'))"

definition ask :: "'k kernel \<Rightarrow> kreq \<Rightarrow> 'k proc" where
  "ask kern r k = (case kern r k of (_, k') \<Rightarrow> Inr (True, k'))"

text \<open>One after the other while they succeed.\<close>

fun seqs :: "'k proc list \<Rightarrow> 'k proc" where
  "seqs [] k = Inr (True, k)"
| "seqs (a # as) k = bind_ok (a k) (\<lambda>(ok, k'). if ok then seqs as k' else Inr (False, k'))"

text \<open>The frame of most functions: a socket, the work, and the label \<^verbatim>\<open>out\<close> that closes the socket.\<close>

definition with_socket :: "'k kernel \<Rightarrow> (int \<Rightarrow> 'k proc) \<Rightarrow> 'k proc" where
  "with_socket kern body k = (case kern Socket k of
     (Fail _, k1) \<Rightarrow> Inr (False, k1)
   | (Ok s _, k1) \<Rightarrow>
       if s < 0 then Inr (False, k1)
       else bind_ok (body s k1) (\<lambda>(r, k2). Inr (r, snd (kern (Close s) k2))))"

section \<open>Routes and interfaces\<close>

definition IFF_UP :: u16 where "IFF_UP = 1"
definition IFF_BROADCAST :: u16 where "IFF_BROADCAST = 2"
definition IFF_RUNNING :: u16 where "IFF_RUNNING = 0x40"
definition RTF_UP :: u16 where "RTF_UP = 1"
definition RTF_GATEWAY :: u16 where "RTF_GATEWAY = 2"
definition IFNAMSIZ :: nat where "IFNAMSIZ = 16"
definition WAN :: string where "WAN = ''eth0''"

definition if_up :: u16 where
  "if_up = IFF_UP OR IFF_BROADCAST OR IFF_RUNNING"

definition default_route :: "string \<Rightarrow> u32 \<Rightarrow> rtentry" where
  "default_route intf gw = \<lparr> rt_dst = 0, rt_gateway = gw, rt_genmask = 0, rt_dev = intf, rt_flags = RTF_UP OR RTF_GATEWAY \<rparr>"

definition ADD_ROUTE :: "'k kernel \<Rightarrow> u32 \<Rightarrow> u32 \<Rightarrow> u32 \<Rightarrow> string \<Rightarrow> 'k proc" where
  "ADD_ROUTE kern ip gw nm intf = with_socket kern (\<lambda>s.
     req kern (Ioctl s (SIOCADDRT \<lparr> rt_dst = ip AND nm, rt_gateway = gw AND nm, rt_genmask = nm, rt_dev = intf, rt_flags = RTF_UP \<rparr>)))"

definition INADDR_LOOPBACK :: u32 where "INADDR_LOOPBACK = 0x7f000001"
definition IN_CLASSA_NET :: u32 where "IN_CLASSA_NET = 0xff000000"

definition init_loopback_interface :: "'k kernel \<Rightarrow> u32 \<Rightarrow> 'k proc" where
  "init_loopback_interface kern lo = with_socket kern (\<lambda>s. seqs
     [req kern (Setsockopt s SO_BROADCAST),
      req kern (Ioctl s (SIOCSIFADDR ''lo0'' (0x100 * lo + INADDR_LOOPBACK))),
      req kern (Ioctl s (SIOCSIFNETMASK ''lo0'' IN_CLASSA_NET)),
      req kern (Ioctl s (SIOCSIFFLAGS ''lo0'' if_up)),
      req_exist kern (Ioctl s (SIOCADDRT \<lparr> rt_dst = (0x100 * lo + INADDR_LOOPBACK) AND IN_CLASSA_NET, rt_gateway = INADDR_LOOPBACK,
        rt_genmask = IN_CLASSA_NET, rt_dev = ''lo0'', rt_flags = RTF_UP OR RTF_GATEWAY \<rparr>))])"

text \<open>An option read into an address: a shorter option leaves the rest of the bytes as they were.\<close>

definition overlay :: "u32 \<Rightarrow> u8 list \<Rightarrow> u32" where
  "overlay old bs = fst (get_u32 (bs @ drop (length bs) (put_u32 old)))"

definition with_option :: "packet \<Rightarrow> u8 \<Rightarrow> u32 \<Rightarrow> (u32 \<Rightarrow> 'k proc) \<Rightarrow> 'k proc" where
  "with_option bp tag old body k = bind_ok (get_bootp_option bp tag 4) (\<lambda>(r, _). case r of
     None \<Rightarrow> Inr (True, k) | Some bs \<Rightarrow> body (overlay old bs) k)"

text \<open>The gateway is read into a variable without a value.\<close>

definition with_gateway :: "packet \<Rightarrow> (u32 \<Rightarrow> 'k proc) \<Rightarrow> 'k proc \<Rightarrow> 'k proc" where
  "with_gateway bp body none k = bind_ok (get_bootp_option bp TAG_GATEWAY 4) (\<lambda>(r, _). case r of
     None \<Rightarrow> none k | Some bs \<Rightarrow> if length bs < 4 then Inl UninitRead else body (fst (get_u32 bs)) k)"

definition nat_cfg :: "string \<Rightarrow> string \<Rightarrow> string list" where
  "nat_cfg nat_id intf = [''ipfw'', ''nat'', nat_id, ''config'', ''if'', intf]"

definition nat_rule :: "string \<Rightarrow> string \<Rightarrow> string list" where
  "nat_rule rule nat_id = [''ipfw'', ''add'', rule, ''nat'', nat_id, ''ip'', ''from'', ''any'', ''to'', ''any'']"

text \<open>The name of the first VLAN interface; the array is empty until a configuration with VLANs is read.\<close>

definition VLAN1 :: "'f nw_state \<Rightarrow> string" where
  "VLAN1 st = (case vlan_names st of [] \<Rightarrow> [] | v # _ \<Rightarrow> v)"

definition vlan_on :: "'f nw_state \<Rightarrow> bool" where
  "vlan_on st \<longleftrightarrow> vlan_flag (vlan_config (config st)) \<noteq> 0"

text \<open>The blocks for DNS and SNTP are configured out.\<close>

definition init_net :: "'k kernel \<Rightarrow> 'f nw_state \<Rightarrow> string \<Rightarrow> packet \<Rightarrow> 'k proc" where
  "init_net kern st intf bp =
     (let yi = field32 bp bp_yiaddr;
          nat_if = (if vlan_on st then VLAN1 st @ drop (length (VLAN1 st)) WAN else WAN)
      in with_socket kern (\<lambda>s. seqs
        [req kern (Setsockopt s SO_BROADCAST),
         ask kern (SkipRouteAdd True),
         (\<lambda>k. guard_c (length intf < IFNAMSIZ) OutOfBounds (req kern (Ioctl s (SIOCSIFADDR intf yi)) k)),
         ask kern (SkipRouteAdd False),
         with_option bp TAG_SUBNET_MASK yi (\<lambda>m. seqs
           [req kern (Ioctl s (SIOCSIFNETMASK intf m)), req kern (Ioctl s (SIOCSIFADDR intf yi))]),
         with_option bp TAG_IP_BROADCAST yi (\<lambda>b. req kern (Ioctl s (SIOCSIFBRDADDR intf b))),
         req kern (Ioctl s (SIOCSIFFLAGS intf if_up)),
         with_gateway bp (\<lambda>gw. if gw \<noteq> 0 then req_exist kern (Ioctl s (SIOCADDRT (default_route intf gw))) else (\<lambda>k. Inr (True, k)))
           (\<lambda>k. Inr (True, k)),
         req kern FlushNat,
         ask kern (NatConfigTool (nat_cfg ''123'' nat_if)),
         ask kern (NatConfigTool (nat_cfg ''122'' WAN)),
         req kern (IpfwMain (nat_rule ''17001'' ''123'')),
         req kern (IpfwMain (nat_rule ''18001'' ''122'')),
         ask kern (NatReconfigure (if vlan_on st then VLAN1 st else WAN))]))"

text \<open>Without a previous gateway the structure \<^verbatim>\<open>route\<close> is used without a value.\<close>

definition check_default_route :: "'k kernel \<Rightarrow> 'f nw_state \<Rightarrow> string \<Rightarrow> packet \<Rightarrow> 'k proc" where
  "check_default_route kern st intf bp = with_socket kern (\<lambda>s. with_gateway bp (\<lambda>gw.
     let prev = inet_addr (wan_Gateway (WAN_config_addrs (config st))); dev = strlcpy intf IFNAMSIZ in
     if prev = gw then (\<lambda>k. Inr (True, k))
     else seqs
       [if prev \<noteq> 0 then req kern (Ioctl s (SIOCDELRT (default_route dev prev))) else (\<lambda>k. Inr (True, k)),
        if gw \<noteq> 0 then (if prev = 0 then (\<lambda>k. Inl UninitRead) else req kern (Ioctl s (SIOCADDRT (default_route dev gw))))
        else (\<lambda>k. Inr (True, k))])
     (\<lambda>k. Inr (False, k)))"

section \<open>The lease in the configuration\<close>

text \<open>The local array of 32 addresses; \<open>None\<close> is a byte without a value.\<close>

type_synonym addrs = "u8 option list"

definition copy_addrs :: "u8 list \<Rightarrow> addrs \<Rightarrow> addrs cres" where
  "copy_addrs bs addr = (if length addr < length bs then Inl OutOfBounds else Inr (map Some bs @ drop (length bs) addr))"

fun addr_at :: "addrs \<Rightarrow> u32 cres" where
  "addr_at (Some a # Some b # Some c # Some d # _) = Inr (fst (get_u32 [a, b, c, d]))"
| "addr_at _ = Inl UninitRead"

record wan_lease =
  w_config :: WAN_config_struct
  received_adns :: bool
  addr :: addrs

text \<open>An address of an option stored under its field.\<close>

definition put_addr :: "u8 \<Rightarrow> u32 \<Rightarrow> wan_lease \<Rightarrow> wan_lease" where
  "put_addr tag a w =
     (let t = inet_ntoa a; c = w_config w in
      if tag = TAG_SUBNET_MASK then w\<lparr> w_config := c\<lparr> wan_Mask := t \<rparr> \<rparr>
      else if tag = TAG_GATEWAY then w\<lparr> w_config := c\<lparr> wan_Gateway := t \<rparr> \<rparr>
      else if tag = TAG_IP_BROADCAST then w\<lparr> w_config := c\<lparr> wan_Broadcast := t \<rparr> \<rparr>
      else if \<not> received_adns w then w\<lparr> w_config := c\<lparr> wan_DNS := t \<rparr>, received_adns := True \<rparr>
      else w\<lparr> w_config := c\<lparr> wan_ADNS := t \<rparr> \<rparr>)"

text \<open>The inner loop over the addresses of an option: \<open>rest\<close> is what \<^verbatim>\<open>ap\<close> points to, \<open>n\<close> is \<^verbatim>\<open>len\<close>.\<close>

function store_addrs :: "u8 \<Rightarrow> addrs \<Rightarrow> int \<Rightarrow> wan_lease \<Rightarrow> wan_lease cres" where
  "store_addrs tag rest n w =
     (if n \<le> 0 then Inr w
      else bind_ok (addr_at rest) (\<lambda>a. store_addrs tag (drop 4 rest) (n - 4) (put_addr tag a w)))"
  by pat_completeness auto
termination by (relation "measure (\<lambda>(tag, rest, n, w). nat n)") auto

declare store_addrs.simps [simp del]

definition addr_tags :: "u8 set" where
  "addr_tags = {TAG_SUBNET_MASK, TAG_GATEWAY, TAG_IP_BROADCAST, TAG_DOMAIN_SERVER}"

function scan_addrs :: "packet \<Rightarrow> nat \<Rightarrow> wan_lease \<Rightarrow> wan_lease cres" where
  "scan_addrs bp op w =
     bind_ok (rd bp op) (\<lambda>t.
       if t = TAG_END then Inr w
       else bind_ok
         (if t \<in> addr_tags then
            bind_ok (rd bp (op + 1)) (\<lambda>l.
            bind_ok (read_bytes bp (op + 2) (unat l)) (\<lambda>bs.
            bind_ok (copy_addrs bs (addr w)) (\<lambda>a. store_addrs t a (int (length bs)) (w\<lparr> addr := a \<rparr>))))
          else Inr w)
         (\<lambda>w'. bind_ok (next_op bp op) (\<lambda>op'. scan_addrs bp op' w')))"
  by pat_completeness auto
termination
  by (relation "measure (\<lambda>(bp, op, w). length bp - op)") (auto dest!: next_op_forward)

declare scan_addrs.simps [simp del]

definition no_addr :: string where "no_addr = ''0.0.0.0''"

definition set_config_value :: "'f conf_ops \<Rightarrow> packet \<Rightarrow> 'f nw_state \<Rightarrow> 'f nw_state cres" where
  "set_config_value cops bp st =
     (let lan_ip = inaddr_ip (bridge_conf (config st));
          w0 = \<lparr> wan_IPAddr = inet_ntoa (field32 bp bp_yiaddr), wan_Mask = no_addr, wan_Gateway = no_addr,
                 wan_DNS = no_addr, wan_ADNS = no_addr, wan_Broadcast = no_addr,
                 wan_Server = inet_ntoa (field32 bp bp_siaddr) \<rparr>
      in bind_ok (get_bootp_option bp TAG_DHCP_OPTOVER 1) (\<lambda>_.
         bind_ok (if hd (field bp bp_vend 1) \<noteq> 0
                  then scan_addrs bp (bp_vend + 4) \<lparr> w_config = w0, received_adns = False, addr = replicate 128 None \<rparr>
                  else Inr \<lparr> w_config = w0, received_adns = False, addr = replicate 128 None \<rparr>) (\<lambda>w.
         let st1 = st\<lparr> config := (config st)\<lparr> WAN_config_addrs := w_config w \<rparr> \<rparr> in
         bind_ok (issamesubnet (wan_IPAddr (w_config w)) (inet_ntoa lan_ip)) (\<lambda>same.
         bind_ok (if same then change_lan_subnet cops st1 else Inr st1) (\<lambda>st2.
         let own = (\<lambda>t. inet_addr t = inaddr_ip (bridge_conf (config st2)));
             c = WAN_config_addrs (config st2);
             c1 = (if own (wan_DNS c) then c\<lparr> wan_DNS := no_addr \<rparr> else c);
             c2 = (if own (wan_ADNS c1) then c1\<lparr> wan_ADNS := no_addr \<rparr> else c1)
         in Inr (st2\<lparr> config := (config st2)\<lparr> WAN_config_addrs := c2 \<rparr> \<rparr>))))))"


section \<open>Sockets\<close>

text \<open>A kernel that keeps a record of the requests and their results.\<close>

type_synonym log = "(kreq \<times> kres) list"

definition logged :: "'k kernel \<Rightarrow> ('k \<times> log) kernel" where
  "logged kern r = (\<lambda>(k, tr). case kern r k of (x, k') \<Rightarrow> (x, k', tr @ [(r, x)]))"

text \<open>The sockets that are open after some requests.\<close>

definition opened1 :: "int list \<Rightarrow> kreq \<times> kres \<Rightarrow> int list" where
  "opened1 ss = (\<lambda>(r, x). case r of
     Socket \<Rightarrow> (case x of Ok s _ \<Rightarrow> if s < 0 then ss else s # ss | Fail _ \<Rightarrow> ss)
   | Close s \<Rightarrow> remove1 s ss
   | _ \<Rightarrow> ss)"

definition opened :: "int list \<Rightarrow> log \<Rightarrow> int list" where
  "opened = foldl opened1"

definition tidy :: "log \<Rightarrow> bool" where
  "tidy xs \<longleftrightarrow> (\<forall>ss. opened ss xs = ss)"

fun sock_req :: "kreq \<Rightarrow> bool" where
  "sock_req Socket = True"
| "sock_req (Close s) = True"
| "sock_req _ = False"

definition quiet :: "log \<Rightarrow> bool" where
  "quiet xs \<longleftrightarrow> (\<forall>x \<in> set xs. \<not> sock_req (fst x))"

text \<open>Whatever a procedure does when it returns, its requests are as \<open>Q\<close> says.\<close>

definition logs :: "('k \<times> log) proc \<Rightarrow> (log \<Rightarrow> bool) \<Rightarrow> bool" where
  "logs p Q \<longleftrightarrow> (\<forall>k tr r k' tr'. p (k, tr) = Inr (r, k', tr') \<longrightarrow> (\<exists>xs. tr' = tr @ xs \<and> Q xs))"

named_theorems logs_intros
  \<open>what a procedure requests\<close>

lemma opened_append [simp]: "opened ss (xs @ ys) = opened (opened ss xs) ys"
  by (simp add: opened_def)

lemma opened_quiet: "quiet xs \<Longrightarrow> opened ss xs = ss"
proof (induction xs arbitrary: ss)
  case Nil
  then show ?case by (simp add: opened_def)
next
  case (Cons x xs)
  then have "opened1 ss x = ss" by (cases x) (auto simp: opened1_def quiet_def split: kreq.splits)
  with Cons show ?case by (simp add: opened_def quiet_def)
qed

lemma quiet_tidy: "quiet xs \<Longrightarrow> tidy xs"
  by (simp add: tidy_def opened_quiet)

lemma tidy_append: "tidy xs \<Longrightarrow> tidy ys \<Longrightarrow> tidy (xs @ ys)"
  by (simp add: tidy_def)

lemma quiet_append: "quiet xs \<Longrightarrow> quiet ys \<Longrightarrow> quiet (xs @ ys)"
  by (auto simp: quiet_def)

lemma quiet_Nil: "quiet []"
  by (simp add: quiet_def)

lemma logsI:
  assumes "\<And>k tr r k' tr'. p (k, tr) = Inr (r, k', tr') \<Longrightarrow> \<exists>xs. tr' = tr @ xs \<and> Q xs"
  shows "logs p Q"
  using assms by (auto simp: logs_def)

lemma logsD: "logs p Q \<Longrightarrow> p (k, tr) = Inr (r, k', tr') \<Longrightarrow> \<exists>xs. tr' = tr @ xs \<and> Q xs"
  unfolding logs_def by blast

lemma logs_weaken: "logs p quiet \<Longrightarrow> logs p tidy"
  by (rule logsI) (meson logsD quiet_tidy)

lemma logs_req [logs_intros]: "\<not> sock_req r \<Longrightarrow> logs (req (logged kern) r) quiet"
  by (rule logsI) (auto simp: req_def logged_def quiet_def split: prod.splits kres.splits)

lemma logs_req_exist [logs_intros]: "\<not> sock_req r \<Longrightarrow> logs (req_exist (logged kern) r) quiet"
  by (rule logsI) (auto simp: req_exist_def logged_def quiet_def split: prod.splits kres.splits)

lemma logs_ask [logs_intros]: "\<not> sock_req r \<Longrightarrow> logs (ask (logged kern) r) quiet"
  by (rule logsI) (auto simp: ask_def logged_def quiet_def split: prod.splits kres.splits)

lemma logs_return [logs_intros]: "logs (\<lambda>k. Inr (b, k)) quiet"
  by (rule logsI) (simp add: quiet_Nil)

lemma logs_fault [logs_intros]: "logs (\<lambda>k. Inl f) Q"
  by (rule logsI) simp

lemma logs_guard [logs_intros]: "logs p Q \<Longrightarrow> logs (\<lambda>k. guard_c b f (p k)) Q"
  by (auto simp: logs_def guard_c_def)

lemma logs_if [logs_intros]: "logs p Q \<Longrightarrow> logs q Q \<Longrightarrow> logs (if b then p else q) Q"
  by simp

lemma logs_seqs [logs_intros]: "(\<forall>p \<in> set ps. logs p quiet) \<Longrightarrow> logs (seqs ps) quiet"
proof (induction ps)
  case Nil
  show ?case by (rule logsI) (simp add: quiet_Nil)
next
  case (Cons p ps)
  show ?case
  proof (rule logsI)
    fix k tr r k' tr'
    assume "seqs (p # ps) (k, tr) = Inr (r, k', tr')"
    then obtain ok k1 tr1 where p: "p (k, tr) = Inr (ok, k1, tr1)"
      and rest: "(if ok then seqs ps (k1, tr1) else Inr (False, k1, tr1)) = Inr (r, k', tr')"
      by (auto simp: cres_simps)
    obtain xs where xs: "tr1 = tr @ xs" "quiet xs" using logsD [of p quiet, OF _ p] Cons.prems by auto
    show "\<exists>xs. tr' = tr @ xs \<and> quiet xs"
    proof (cases ok)
      case True
      then obtain ys where "tr' = tr1 @ ys" "quiet ys" using logsD [OF Cons.IH] rest Cons.prems by fastforce
      with xs show ?thesis using quiet_append by auto
    next
      case False
      with rest xs show ?thesis by auto
    qed
  qed
qed

lemma logs_with_option [logs_intros]:
  assumes "\<And>a. logs (body a) quiet"
  shows "logs (with_option bp tag old body) quiet"
proof (rule logsI)
  fix k tr r k' tr'
  assume "with_option bp tag old body (k, tr) = Inr (r, k', tr')"
  then show "\<exists>xs. tr' = tr @ xs \<and> quiet xs"
    using logsD [OF assms] quiet_Nil by (auto simp: with_option_def cres_simps split: option.splits)
qed

lemma logs_with_gateway [logs_intros]:
  assumes "\<And>a. logs (body a) quiet" "logs none quiet"
  shows "logs (with_gateway bp body none) quiet"
proof (rule logsI)
  fix k tr r k' tr'
  assume "with_gateway bp body none (k, tr) = Inr (r, k', tr')"
  then show "\<exists>xs. tr' = tr @ xs \<and> quiet xs"
    using logsD [OF assms(1)] logsD [OF assms(2)]
    by (auto simp: with_gateway_def cres_simps split: option.splits if_splits)
qed

text \<open>The frame closes what it opened.\<close>

lemma logs_with_socket:
  assumes "\<And>s. logs (body s) quiet"
  shows "logs (with_socket (logged kern) body) tidy"
proof (rule logsI)
  fix k tr r k' tr'
  assume run: "with_socket (logged kern) body (k, tr) = Inr (r, k', tr')"
  obtain x k1 where sock: "kern Socket k = (x, k1)" by fastforce
  show "\<exists>xs. tr' = tr @ xs \<and> tidy xs"
  proof (cases "\<exists>s d. x = Ok s d \<and> 0 \<le> s")
    case False
    with run sock have "tr' = tr @ [(Socket, x)]"
      by (auto simp: with_socket_def logged_def split: kres.splits if_splits)
    moreover from False have "tidy [(Socket, x)]" by (auto simp: tidy_def opened_def opened1_def split: kres.splits)
    ultimately show ?thesis by blast
  next
    case True
    then obtain s d where x: "x = Ok s d" "0 \<le> s" by blast
    with run sock obtain k2 tr2 where body: "body s (k1, tr @ [(Socket, x)]) = Inr (r, k2, tr2)"
      and close: "(k', tr') = snd (logged kern (Close s) (k2, tr2))"
      by (auto simp: with_socket_def logged_def cres_simps)
    obtain xs where xs: "tr2 = tr @ [(Socket, x)] @ xs" "quiet xs" using logsD [OF assms [of s] body] by auto
    from close obtain y where "tr' = tr2 @ [(Close s, y)]" by (auto simp: logged_def split: prod.splits)
    with xs have "tr' = tr @ [(Socket, x)] @ xs @ [(Close s, y)]" by simp
    moreover have "tidy ([(Socket, x)] @ xs @ [(Close s, y)])"
    proof -
      have "opened ss [(Socket, x)] = s # ss" "opened ss [(Close s, y)] = remove1 s ss" for ss
        using x by (simp_all add: opened_def opened1_def)
      with xs(2) show ?thesis unfolding tidy_def opened_append by (simp add: opened_quiet)
    qed
    ultimately show ?thesis by blast
  qed
qed

lemma logs_net_functions:
  "logs (init_net (logged kern) st intf bp) tidy"
  "logs (check_default_route (logged kern) st intf bp) tidy"
  "logs (ADD_ROUTE (logged kern) ip gw nm intf) tidy"
  "logs (init_loopback_interface (logged kern) lo) tidy"
proof -
  show "logs (init_net (logged kern) st intf bp) tidy"
    unfolding init_net_def Let_def by (rule logs_with_socket) (auto intro!: logs_intros)
  show "logs (check_default_route (logged kern) st intf bp) tidy"
    unfolding check_default_route_def Let_def by (rule logs_with_socket) (auto intro!: logs_intros)
  show "logs (ADD_ROUTE (logged kern) ip gw nm intf) tidy"
    unfolding ADD_ROUTE_def by (rule logs_with_socket) (auto intro!: logs_intros)
  show "logs (init_loopback_interface (logged kern) lo) tidy"
    unfolding init_loopback_interface_def by (rule logs_with_socket) (auto intro!: logs_intros)
qed


section \<open>A kernel that accepts everything\<close>

definition accepting :: "'k kernel \<Rightarrow> int \<Rightarrow> bool" where
  "accepting kern s \<longleftrightarrow> 0 \<le> s \<and> (\<forall>r k. \<exists>n d k'. kern r k = (Ok n d, k') \<and> (r = Socket \<longrightarrow> n = s))"

text \<open>With such a kernel a procedure succeeds and makes these requests.\<close>

definition does :: "('k \<times> log) proc \<Rightarrow> kreq list \<Rightarrow> bool" where
  "does p rs \<longleftrightarrow> (\<forall>k tr. \<exists>k' xs. p (k, tr) = Inr (True, k', tr @ xs) \<and> map fst xs = rs)"

lemma doesI:
  assumes "\<And>k tr. \<exists>k' xs. p (k, tr) = Inr (True, k', tr @ xs) \<and> map fst xs = rs"
  shows "does p rs"
  using assms by (simp add: does_def)

lemma doesE:
  assumes "does p rs"
  obtains k' xs where "p (k, tr) = Inr (True, k', tr @ xs)" "map fst xs = rs"
  using assms unfolding does_def by metis

lemma accepted:
  assumes "accepting kern s"
  obtains n d k' where "logged kern r (k, tr) = (Ok n d, k', tr @ [(r, Ok n d)])" "r = Socket \<Longrightarrow> n = s"
proof -
  from assms obtain n d k' where "kern r k = (Ok n d, k')" "r = Socket \<longrightarrow> n = s" unfolding accepting_def by blast
  then show thesis using that [of n d k'] by (simp add: logged_def)
qed

lemma does_req:
  assumes "accepting kern s"
  shows "does (req (logged kern) r) [r]" "does (req_exist (logged kern) r) [r]" "does (ask (logged kern) r) [r]"
proof -
  have "\<exists>k' xs. req (logged kern) r (k, tr) = Inr (True, k', tr @ xs) \<and> map fst xs = [r]
      \<and> req_exist (logged kern) r (k, tr) = Inr (True, k', tr @ xs) \<and> ask (logged kern) r (k, tr) = Inr (True, k', tr @ xs)" for k tr
    by (rule accepted [OF assms, of r k tr]) (simp add: req_def req_exist_def ask_def)
  then show "does (req (logged kern) r) [r]" "does (req_exist (logged kern) r) [r]" "does (ask (logged kern) r) [r]"
    unfolding does_def by meson+
qed

lemma does_return: "does (\<lambda>k. Inr (True, k)) []"
  by (simp add: does_def)

lemma does_seqs_Nil: "does (seqs []) []"
  by (simp add: does_def)

lemma does_seqs_Cons:
  assumes "does p rs" "does (seqs ps) rss"
  shows "does (seqs (p # ps)) (rs @ rss)"
proof (rule doesI)
  fix k tr
  obtain k1 xs where 1: "p (k, tr) = Inr (True, k1, tr @ xs)" "map fst xs = rs" using doesE [OF assms(1)] .
  obtain k2 ys where "seqs ps (k1, tr @ xs) = Inr (True, k2, (tr @ xs) @ ys)" "map fst ys = rss" using doesE [OF assms(2)] .
  with 1 show "\<exists>k' xs. seqs (p # ps) (k, tr) = Inr (True, k', tr @ xs) \<and> map fst xs = rs @ rss" by auto
qed

lemma does_with_socket:
  assumes "accepting kern s" "does (body s) rs"
  shows "does (with_socket (logged kern) body) (Socket # rs @ [Close s])"
proof (rule doesI)
  fix k tr
  obtain d k1 where 1: "logged kern Socket (k, tr) = (Ok s d, k1, tr @ [(Socket, Ok s d)])"
    using accepted [OF assms(1), of Socket k tr] by metis
  obtain k2 xs where 2: "body s (k1, tr @ [(Socket, Ok s d)]) = Inr (True, k2, (tr @ [(Socket, Ok s d)]) @ xs)" "map fst xs = rs"
    using doesE [OF assms(2)] .
  obtain n e k3 where "logged kern (Close s) (k2, (tr @ [(Socket, Ok s d)]) @ xs)
      = (Ok n e, k3, ((tr @ [(Socket, Ok s d)]) @ xs) @ [(Close s, Ok n e)])" using accepted [OF assms(1)] by blast
  with 1 2 assms(1) show "\<exists>k' xs. with_socket (logged kern) body (k, tr) = Inr (True, k', tr @ xs) \<and> map fst xs = Socket # rs @ [Close s]"
    by (auto simp: with_socket_def accepting_def)
qed

lemma does_with_socketI:
  assumes "accepting kern s" "does (body s) rs" "rs' = Socket # rs @ [Close s]"
  shows "does (with_socket (logged kern) body) rs'"
  using does_with_socket [of kern s body rs] assms by simp

lemma does_with_option:
  assumes "get_bootp_option bp tag 4 = Inr (Some (put_u32 a), 4)" "does (body a) rs"
  shows "does (with_option bp tag old body) rs"
  using assms by (simp add: does_def with_option_def overlay_def)

lemma does_with_gateway:
  assumes "get_bootp_option bp TAG_GATEWAY 4 = Inr (Some (put_u32 a), 4)" "does (body a) rs"
  shows "does (with_gateway bp body none) rs"
  using assms by (simp add: does_def with_gateway_def)

lemma does_guard: "b \<Longrightarrow> does p rs \<Longrightarrow> does (\<lambda>k. guard_c b f (p k)) rs"
  by (simp add: does_def)

text \<open>The requests that set up an interface.\<close>

definition setup_requests :: "int \<Rightarrow> string \<Rightarrow> string \<Rightarrow> u32 \<Rightarrow> u32 \<Rightarrow> u32 \<Rightarrow> u32 \<Rightarrow> kreq list" where
  "setup_requests s nat_if intf ip netmask broadcast gw =
     [Socket, Setsockopt s SO_BROADCAST, SkipRouteAdd True, Ioctl s (SIOCSIFADDR intf ip), SkipRouteAdd False,
      Ioctl s (SIOCSIFNETMASK intf netmask), Ioctl s (SIOCSIFADDR intf ip), Ioctl s (SIOCSIFBRDADDR intf broadcast),
      Ioctl s (SIOCSIFFLAGS intf if_up)]
     @ (if gw = 0 then [] else [Ioctl s (SIOCADDRT (default_route intf gw))])
     @ [FlushNat, NatConfigTool (nat_cfg ''123'' nat_if), NatConfigTool (nat_cfg ''122'' WAN),
        IpfwMain (nat_rule ''17001'' ''123''), IpfwMain (nat_rule ''18001'' ''122''), NatReconfigure nat_if, Close s]"

lemma init_net_requests:
  assumes "accepting kern s" "length intf < IFNAMSIZ" "\<not> vlan_on st"
    and "get_bootp_option bp TAG_SUBNET_MASK 4 = Inr (Some (put_u32 netmask), 4)"
    and "get_bootp_option bp TAG_IP_BROADCAST 4 = Inr (Some (put_u32 broadcast), 4)"
    and "get_bootp_option bp TAG_GATEWAY 4 = Inr (Some (put_u32 gw), 4)"
  shows "does (init_net (logged kern) st intf bp) (setup_requests s WAN intf (field32 bp bp_yiaddr) netmask broadcast gw)"
proof -
  let ?k = "logged kern" and ?yi = "field32 bp bp_yiaddr"
  note one = does_req [OF assms(1)]
  have addr: "does (\<lambda>k. guard_c (length intf < IFNAMSIZ) OutOfBounds (req ?k (Ioctl s (SIOCSIFADDR intf ?yi)) k)) [Ioctl s (SIOCSIFADDR intf ?yi)]"
    by (rule does_guard [OF assms(2) one(1)])
  have two: "does (seqs [req ?k a, req ?k b]) [a, b]" for a b
    using does_seqs_Cons [OF one(1) [of a] does_seqs_Cons [OF one(1) [of b] does_seqs_Nil]] by simp
  have nm: "does (with_option bp TAG_SUBNET_MASK ?yi (\<lambda>m. seqs [req ?k (Ioctl s (SIOCSIFNETMASK intf m)), req ?k (Ioctl s (SIOCSIFADDR intf ?yi))]))
      [Ioctl s (SIOCSIFNETMASK intf netmask), Ioctl s (SIOCSIFADDR intf ?yi)]"
    by (rule does_with_option [OF assms(4) two])
  have bc: "does (with_option bp TAG_IP_BROADCAST ?yi (\<lambda>b. req ?k (Ioctl s (SIOCSIFBRDADDR intf b)))) [Ioctl s (SIOCSIFBRDADDR intf broadcast)]"
    by (rule does_with_option [OF assms(5) one(1)])
  have gw: "does (with_gateway bp (\<lambda>gw. if gw \<noteq> 0 then req_exist ?k (Ioctl s (SIOCADDRT (default_route intf gw))) else (\<lambda>k. Inr (True, k)))
      (\<lambda>k. Inr (True, k))) (if gw = 0 then [] else [Ioctl s (SIOCADDRT (default_route intf gw))])"
    by (rule does_with_gateway [OF assms(6)]) (simp add: one(2) does_return)
  note steps = does_seqs_Cons [OF one(1) does_seqs_Cons [OF one(3) does_seqs_Cons [OF addr does_seqs_Cons [OF one(3)
      does_seqs_Cons [OF nm does_seqs_Cons [OF bc does_seqs_Cons [OF one(1) does_seqs_Cons [OF gw
      does_seqs_Cons [OF one(1) does_seqs_Cons [OF one(3) does_seqs_Cons [OF one(3) does_seqs_Cons [OF one(1)
      does_seqs_Cons [OF one(1) does_seqs_Cons [OF one(3) does_seqs_Nil]]]]]]]]]]]]]]
  show ?thesis
    unfolding init_net_def Let_def
    by (rule does_with_socketI [OF assms(1)], rule steps) (simp add: setup_requests_def assms(3))
qed


section \<open>The addresses of a lease\<close>

text \<open>The addresses in the value of an option, and those of a list of options with their tags.\<close>

fun words :: "u8 list \<Rightarrow> u32 list" where
  "words (a # b # c # d # r) = fst (get_u32 [a, b, c, d]) # words r"
| "words _ = []"

definition item_addrs :: "item \<Rightarrow> (u8 \<times> u32) list" where
  "item_addrs i = (case i of Pad \<Rightarrow> [] | Opt t v \<Rightarrow> if t \<in> addr_tags then map (Pair t) (words v) else [])"

definition lease_addrs :: "item list \<Rightarrow> (u8 \<times> u32) list" where
  "lease_addrs is = concat (map item_addrs is)"

definition addrs_of :: "u8 \<Rightarrow> item list \<Rightarrow> u32 list" where
  "addrs_of tag is = map snd (filter (\<lambda>p. fst p = tag) (lease_addrs is))"

text \<open>Options whose values are whole addresses and fit the local array.\<close>

definition item_sane :: "item \<Rightarrow> bool" where
  "item_sane i = (case i of Pad \<Rightarrow> True | Opt t v \<Rightarrow> t \<in> addr_tags \<longrightarrow> 4 dvd length v \<and> length v \<le> 128)"

lemma lease_addrs_simps [simp]:
  "lease_addrs [] = []" "lease_addrs (i # is) = item_addrs i @ lease_addrs is"
  by (simp_all add: lease_addrs_def)

lemma tags_distinct [simp]:
  "TAG_PAD \<notin> addr_tags" "TAG_GATEWAY \<noteq> TAG_SUBNET_MASK" "TAG_IP_BROADCAST \<noteq> TAG_SUBNET_MASK" "TAG_IP_BROADCAST \<noteq> TAG_GATEWAY"
  "TAG_DOMAIN_SERVER \<noteq> TAG_SUBNET_MASK" "TAG_DOMAIN_SERVER \<noteq> TAG_GATEWAY" "TAG_DOMAIN_SERVER \<noteq> TAG_IP_BROADCAST"
  by (simp_all add: addr_tags_def tag_defs)

lemmas tags_distinct_sym [simp] = tags_distinct(2-7) [symmetric]

definition put_all :: "(u8 \<times> u32) list \<Rightarrow> wan_lease \<Rightarrow> wan_lease" where
  "put_all ps w = foldl (\<lambda>w (t, a). put_addr t a w) w ps"

lemma put_all_simps [simp]:
  "put_all [] w = w" "put_all ((t, a) # ps) w = put_all ps (put_addr t a w)" "put_all (ps @ qs) w = put_all qs (put_all ps w)"
  by (simp_all add: put_all_def)

lemma put_addr_addr: "put_addr t a (w\<lparr> addr := x \<rparr>) = (put_addr t a w)\<lparr> addr := x \<rparr>" "addr (put_addr t a w) = addr w"
  by (simp_all add: put_addr_def Let_def)

lemma put_all_addr: "put_all ps (w\<lparr> addr := x \<rparr>) = (put_all ps w)\<lparr> addr := x \<rparr>" "addr (put_all ps w) = addr w"
  by (induction ps arbitrary: w) (auto simp: put_addr_addr)

lemma store_addrs_words:
  "length v = 4 * n \<Longrightarrow> store_addrs t (map Some v @ r) (int (length v)) w = Inr (put_all (map (Pair t) (words v)) w)"
proof (induction n arbitrary: v w)
  case 0
  then show ?case by (simp add: store_addrs.simps [of t])
next
  case (Suc n)
  then have "length v = Suc (Suc (Suc (Suc (4 * n))))" by simp
  then obtain a b c d u where v: "v = a # b # c # d # u" "length u = 4 * n"
    by (auto simp: length_Suc_conv)
  with Suc.IH [OF v(2), of "put_addr t (fst (get_u32 [a, b, c, d])) w"] show ?case
    by (subst store_addrs.simps) simp
qed

text \<open>The scan of the packet is a scan of its options.\<close>

fun scan_items :: "item list \<Rightarrow> wan_lease \<Rightarrow> wan_lease cres" where
  "scan_items [] w = Inr w"
| "scan_items (Pad # is) w = scan_items is w"
| "scan_items (Opt t v # is) w =
     (if t \<in> addr_tags
      then bind_ok (copy_addrs v (addr w)) (\<lambda>a. bind_ok (store_addrs t a (int (length v)) (w\<lparr> addr := a \<rparr>)) (scan_items is))
      else scan_items is w)"

lemma scan_addrs_items: "opts_at p op is \<Longrightarrow> scan_addrs p op w = scan_items is w"
proof (induction "is" arbitrary: op w)
  case Nil
  then show ?case by (simp add: scan_addrs.simps [of p op] opts_at_Nil)
next
  case (Cons i "is")
  show ?case
  proof (cases i)
    case Pad
    with Cons opts_at_Pad [of p op "is"] show ?thesis
      by (simp add: scan_addrs.simps [of p op]) (simp add: TAG_PAD_def TAG_END_def)
  next
    case (Opt t v)
    note o = opts_at_Opt [OF Cons.prems [unfolded Opt]]
    have rest: "scan_addrs p (op + length v + 2) w' = scan_items is w'" for w' using Cons.IH [OF o(7)] .
    show ?thesis
      using o(1-6) o(8) [of "length v"] rest Opt
      by (cases "copy_addrs v (addr w)") (simp_all add: scan_addrs.simps [of p op] cong: bind_ok_cong)
  qed
qed

lemma scan_items_sane:
  "\<forall>i \<in> set is. item_sane i \<Longrightarrow> length (addr w) = 128 \<Longrightarrow>
   \<exists>a. length a = 128 \<and> scan_items is w = Inr ((put_all (lease_addrs is) w)\<lparr> addr := a \<rparr>)"
proof (induction "is" w rule: scan_items.induct)
  case (1 w)
  then show ?case by (intro exI [of _ "addr w"]) simp
next
  case (2 "is" w)
  then show ?case by (simp add: item_addrs_def)
next
  case (3 t v "is" w)
  show ?case
  proof (cases "t \<in> addr_tags")
    case False
    with 3 show ?thesis by (simp add: item_addrs_def)
  next
    case True
    with 3(3) have v: "4 dvd length v" "length v \<le> 128" by (simp_all add: item_sane_def)
    then obtain n where n: "length v = 4 * n" by (auto elim: dvdE)
    define a where "a = map Some v @ drop (length v) (addr w)"
    define w1 where "w1 = put_all (map (Pair t) (words v)) (w\<lparr> addr := a \<rparr>)"
    have a: "copy_addrs v (addr w) = Inr a" "length a = 128" using 3(4) v(2) by (simp_all add: copy_addrs_def a_def)
    have store: "store_addrs t a (int (length v)) (w\<lparr> addr := a \<rparr>) = Inr w1"
      unfolding a_def w1_def by (rule store_addrs_words [OF n])
    have "length (addr w1) = 128" using a(2) by (simp add: w1_def put_all_addr)
    from "3.IH"(1) [OF True a(1) store] 3(3) this obtain b where
      b: "length b = 128" "scan_items is w1 = Inr ((put_all (lease_addrs is) w1)\<lparr> addr := b \<rparr>)" by auto
    have "put_all (lease_addrs (Opt t v # is)) w\<lparr> addr := b \<rparr> = (put_all (lease_addrs is) w1)\<lparr> addr := b \<rparr>"
      using True by (simp add: item_addrs_def w1_def put_all_addr)
    with True a store b show ?thesis by auto
  qed
qed

lemma scan_items_overflow:
  assumes "\<forall>i \<in> set a. item_sane i" "t \<in> addr_tags" "128 < length v" "length (addr w) = 128"
  shows "scan_items (a @ Opt t v # b) w = Inl OutOfBounds"
  using assms
proof (induction a arbitrary: w)
  case Nil
  then show ?case by (simp add: copy_addrs_def)
next
  case (Cons i a)
  from scan_items_sane [of "[i]" w] Cons.prems obtain x where x: "length x = 128"
    "scan_items [i] w = Inr ((put_all (item_addrs i) w)\<lparr> addr := x \<rparr>)" by auto
  have app: "scan_items (i # c) w = bind_ok (scan_items [i] w) (scan_items c)" for c
    by (cases i) (auto simp: bind_ok_eq_Inr intro!: bind_ok_cong split: bind_ok_split)
  show ?case using Cons.IH [of "(put_all (item_addrs i) w)\<lparr> addr := x \<rparr>"] Cons.prems x app [of "a @ Opt t v # b"] by simp
qed


text \<open>The text of the addresses with a tag.\<close>

definition texts :: "u8 \<Rightarrow> (u8 \<times> u32) list \<Rightarrow> string list" where
  "texts tag ps = map (\<lambda>p. inet_ntoa (snd p)) (filter (\<lambda>p. fst p = tag) ps)"

lemma texts_simps [simp]:
  "texts tag [] = []" "texts tag ((t, a) # ps) = (if t = tag then inet_ntoa a # texts tag ps else texts tag ps)"
  by (simp_all add: texts_def)

lemma put_all_fields:
  assumes "fst ` set ps \<subseteq> addr_tags"
  shows "wan_Mask (w_config (put_all ps w)) = last (wan_Mask (w_config w) # texts TAG_SUBNET_MASK ps)"
    and "wan_Gateway (w_config (put_all ps w)) = last (wan_Gateway (w_config w) # texts TAG_GATEWAY ps)"
    and "wan_Broadcast (w_config (put_all ps w)) = last (wan_Broadcast (w_config w) # texts TAG_IP_BROADCAST ps)"
    and "wan_IPAddr (w_config (put_all ps w)) = wan_IPAddr (w_config w)"
    and "wan_Server (w_config (put_all ps w)) = wan_Server (w_config w)"
  using assms
proof (induction ps arbitrary: w)
  case Nil
  { case 1 show ?case by simp next case 2 show ?case by simp next case 3 show ?case by simp
    next case 4 show ?case by simp next case 5 show ?case by simp }
next
  case (Cons p ps)
  { case 1 then show ?case using Cons(1) [of "put_addr (fst p) (snd p) w"] by (cases p) (auto simp: put_addr_def Let_def)
    next case 2 then show ?case using Cons(2) [of "put_addr (fst p) (snd p) w"] by (cases p) (auto simp: put_addr_def Let_def)
    next case 3 then show ?case using Cons(3) [of "put_addr (fst p) (snd p) w"] by (cases p) (auto simp: put_addr_def Let_def)
    next case 4 then show ?case using Cons(4) [of "put_addr (fst p) (snd p) w"] by (cases p) (auto simp: put_addr_def Let_def)
    next case 5 then show ?case using Cons(5) [of "put_addr (fst p) (snd p) w"] by (cases p) (auto simp: put_addr_def Let_def) }
qed

lemma put_all_dns:
  assumes "fst ` set ps \<subseteq> addr_tags"
  shows "wan_DNS (w_config (put_all ps w)) =
       (if received_adns w then wan_DNS (w_config w) else hd (texts TAG_DOMAIN_SERVER ps @ [wan_DNS (w_config w)]))"
    and "wan_ADNS (w_config (put_all ps w)) =
       last (wan_ADNS (w_config w) # (if received_adns w then texts TAG_DOMAIN_SERVER ps else tl (texts TAG_DOMAIN_SERVER ps)))"
  using assms
proof (induction ps arbitrary: w)
  case Nil
  { case 1 show ?case by simp next case 2 show ?case by simp }
next
  case (Cons p ps)
  { case 1 then show ?case using Cons(1) [of "put_addr (fst p) (snd p) w"]
      by (cases p) (auto simp: put_addr_def Let_def addr_tags_def)
    next case 2 then show ?case using Cons(2) [of "put_addr (fst p) (snd p) w"]
      by (cases p) (auto simp: put_addr_def Let_def addr_tags_def) }
qed

lemma lease_addrs_tags: "fst ` set (lease_addrs is) \<subseteq> addr_tags"
  by (auto simp: lease_addrs_def item_addrs_def split: item.splits if_splits)

text \<open>What a lease with these options should look like in the configuration.\<close>

definition lease_config :: "packet \<Rightarrow> item list \<Rightarrow> WAN_config_struct" where
  "lease_config bp is =
     (let ps = lease_addrs is; dns = texts TAG_DOMAIN_SERVER ps in
      \<lparr> wan_IPAddr = inet_ntoa (field32 bp bp_yiaddr),
        wan_Mask = last (no_addr # texts TAG_SUBNET_MASK ps),
        wan_Gateway = last (no_addr # texts TAG_GATEWAY ps),
        wan_DNS = hd (dns @ [no_addr]),
        wan_ADNS = last (no_addr # tl dns),
        wan_Broadcast = last (no_addr # texts TAG_IP_BROADCAST ps),
        wan_Server = inet_ntoa (field32 bp bp_siaddr) \<rparr>)"

definition without_own :: "u32 \<Rightarrow> WAN_config_struct \<Rightarrow> WAN_config_struct" where
  "without_own ip c =
     (let c1 = (if inet_addr (wan_DNS c) = ip then c\<lparr> wan_DNS := no_addr \<rparr> else c)
      in if inet_addr (wan_ADNS c1) = ip then c1\<lparr> wan_ADNS := no_addr \<rparr> else c1)"

definition lease_start :: "packet \<Rightarrow> wan_lease" where
  "lease_start bp = \<lparr> w_config = \<lparr> wan_IPAddr = inet_ntoa (field32 bp bp_yiaddr), wan_Mask = no_addr, wan_Gateway = no_addr,
      wan_DNS = no_addr, wan_ADNS = no_addr, wan_Broadcast = no_addr, wan_Server = inet_ntoa (field32 bp bp_siaddr) \<rparr>,
     received_adns = False, addr = replicate 128 None \<rparr>"

lemma inet_addr_ntoa: "inet_addr (inet_ntoa w) = w"
  by (simp add: inet_addr_def inet_aton_inet_ntoa)

lemma no_addr_0: "inet_addr no_addr = 0"
proof -
  have "inet_ntoa 0 = no_addr" by code_simp
  then show ?thesis using inet_addr_ntoa [of 0] by simp
qed

lemma put_all_lease: "w_config (put_all (lease_addrs is) (lease_start bp)) = lease_config bp is"
  using put_all_fields [OF lease_addrs_tags, of "is" "lease_start bp"] put_all_dns [OF lease_addrs_tags, of "is" "lease_start bp"]
  by (intro WAN_config_struct.equality) (simp_all add: lease_config_def lease_start_def Let_def)

lemma optover_total: "carries bp is \<Longrightarrow> \<exists>r. get_bootp_option bp TAG_DHCP_OPTOVER 1 = Inr r"
  using scantag_lookup [of bp "bp_vend + 4" "is" TAG_DHCP_OPTOVER 1]
  by (cases "lookup TAG_DHCP_OPTOVER is") (auto simp: get_bootp_option_def carries_iff tag_defs)

lemma vend_nonzero: "carries bp is \<Longrightarrow> hd (field bp bp_vend 1) \<noteq> 0"
proof -
  assume "carries bp is"
  then have "field bp bp_vend 4 = cookie" by (simp add: carries_def)
  then have "drop bp_vend bp = 99 # drop (bp_vend + 1) bp"
    by (cases "drop bp_vend bp") (auto simp: field_def cookie_def drop_Suc drop_tl)
  then show ?thesis by (simp add: field_def)
qed

lemma scan_lease:
  assumes "carries bp is" "\<forall>i \<in> set is. item_sane i"
  shows "\<exists>w. scan_addrs bp (bp_vend + 4) (lease_start bp) = Inr w \<and> w_config w = lease_config bp is"
proof -
  obtain a where "scan_items is (lease_start bp) = Inr ((put_all (lease_addrs is) (lease_start bp))\<lparr> addr := a \<rparr>)"
    using scan_items_sane [OF assms(2), of "lease_start bp"] by (auto simp: lease_start_def)
  moreover have "scan_addrs bp (bp_vend + 4) (lease_start bp) = scan_items is (lease_start bp)"
    using assms(1) by (intro scan_addrs_items) (simp add: carries_iff)
  ultimately show ?thesis using put_all_lease [of "is" bp] by simp
qed

lemma set_config_lease:
  assumes "carries bp is" "\<forall>i \<in> set is. item_sane i"
  shows "set_config_value cops bp st =
     bind_ok (issamesubnet (inet_ntoa (field32 bp bp_yiaddr)) (inet_ntoa (inaddr_ip (bridge_conf (config st))))) (\<lambda>same.
     let st1 = st\<lparr> config := (config st)\<lparr> WAN_config_addrs := lease_config bp is \<rparr> \<rparr> in
     bind_ok (if same then change_lan_subnet cops st1 else Inr st1) (\<lambda>st2.
     Inr (st2\<lparr> config := (config st2)\<lparr> WAN_config_addrs :=
       without_own (inaddr_ip (bridge_conf (config st2))) (WAN_config_addrs (config st2)) \<rparr> \<rparr>)))"
proof -
  obtain w where w: "scan_addrs bp (bp_vend + 4) (lease_start bp) = Inr w" "w_config w = lease_config bp is"
    using scan_lease [OF assms] by blast
  obtain r where "get_bootp_option bp TAG_DHCP_OPTOVER 1 = Inr r" using optover_total [OF assms(1)] by blast
  moreover have "wan_IPAddr (lease_config bp is) = inet_ntoa (field32 bp bp_yiaddr)" by (simp add: lease_config_def Let_def)
  ultimately show ?thesis
    using w vend_nonzero [OF assms(1)]
    unfolding set_config_value_def without_own_def Let_def lease_start_def [symmetric] by (simp cong: if_cong)
qed


section \<open>Properties\<close>

text \<open>
  (C30) A fixed address reaches the interface: the record that \<^verbatim>\<open>build_bootp_record\<close> makes of the configured
  texts leads \<^verbatim>\<open>init_net\<close> to set exactly these addresses, bring the interface up, add the default route
  (when there is a gateway) and configure the translation rules, in this order.
\<close>

theorem static_address_reaches_interface:
  assumes "accepting kern s" "length intf < IFNAMSIZ" "\<not> vlan_on st" "\<forall>a. hwaddr = Some a \<longrightarrow> 6 \<le> length a"
  shows "\<exists>p k' xs. build_bootp_record hwaddr ip netmask broadcast gateway server = Inr p
     \<and> init_net (logged kern) st intf p (k, []) = Inr (True, k', xs)
     \<and> map fst xs = setup_requests s WAN intf (inet_addr ip) (inet_addr netmask) (inet_addr broadcast) (inet_addr gateway)"
proof -
  obtain p where p: "build_bootp_record hwaddr ip netmask broadcast gateway server = Inr p"
    "carries p (record_items netmask broadcast gateway)" "field32 p bp_yiaddr = inet_addr ip"
    using build_record [OF assms(4)] by blast
  have "get_bootp_option p TAG_SUBNET_MASK 4 = Inr (Some (put_u32 (inet_addr netmask)), 4)"
    "get_bootp_option p TAG_IP_BROADCAST 4 = Inr (Some (put_u32 (inet_addr broadcast)), 4)"
    "get_bootp_option p TAG_GATEWAY 4 = Inr (Some (put_u32 (inet_addr gateway)), 4)"
    using get_option_found [OF p(2), of _ _ 4] by (simp_all add: record_items_def tag_ok_def tag_defs)
  from init_net_requests [OF assms(1-3) this] have
    "does (init_net (logged kern) st intf p) (setup_requests s WAN intf (inet_addr ip) (inet_addr netmask) (inet_addr broadcast) (inet_addr gateway))"
    by (simp add: p(3))
  then show ?thesis using p(1) doesE [of "init_net (logged kern) st intf p" _ k "[]"] by (metis append_Nil)
qed

definition yes_kernel :: "unit kernel" where
  "yes_kernel r k = (Ok 3 [], k)"

lemma yes_accepting: "accepting yes_kernel 3"
  by (simp add: accepting_def yes_kernel_def)

theorem static_address_reaches_interface_witness:
  "\<exists>p k' xs. build_bootp_record None ''10.0.0.2'' ''255.0.0.0'' ''10.255.255.255'' ''10.0.0.1'' ''10.0.0.1'' = Inr p
     \<and> init_net (logged yes_kernel) \<lparr> config = default_config default_rules, new_config = default_config default_rules,
         LAN_config_addrs = \<lparr> lan_IPAddr = [], lan_Mask = [], lan_Broadcast = [] \<rparr>, is_flash_rule = 0, ipfw_args = [],
         vlan_names = [], store = (), trace = [] \<rparr> ''eth0'' p ((), []) = Inr (True, k', xs)
     \<and> map fst xs = setup_requests 3 WAN ''eth0'' (inet_addr ''10.0.0.2'') (inet_addr ''255.0.0.0'')
         (inet_addr ''10.255.255.255'') (inet_addr ''10.0.0.1'')"
  by (rule static_address_reaches_interface [OF yes_accepting]) (simp_all add: IFNAMSIZ_def vlan_on_def default_config_def)

text \<open>
  A lease is stored as the server gave it: after \<^verbatim>\<open>set_config_value\<close> the configuration has the leased
  address, the last mask, gateway and broadcast address of the packet, the first name server and the last of the others,
  with \<^verbatim>\<open>0.0.0.0\<close> for what is missing and for a name server that is the device itself; nothing else has
  changed. This holds for options made of whole addresses, at most 32 each, when the lease is not in the LAN.
\<close>

theorem lease_is_stored:
  assumes "carries bp is" "\<forall>i \<in> set is. item_sane i"
    and "issamesubnet (inet_ntoa (field32 bp bp_yiaddr)) (inet_ntoa (inaddr_ip (bridge_conf (config st)))) = Inr False"
  shows "set_config_value cops bp st = Inr (st\<lparr> config := (config st)\<lparr> WAN_config_addrs :=
     without_own (inaddr_ip (bridge_conf (config st))) (lease_config bp is) \<rparr> \<rparr>)"
  by (simp add: set_config_lease [OF assms(1,2)] assms(3) Let_def)

definition demo_lease :: "item list" where
  "demo_lease = [Opt TAG_DHCP_MESS_TYPE [5], Opt TAG_SUBNET_MASK [255, 255, 255, 0], Opt TAG_GATEWAY [10, 0, 0, 1],
     Opt TAG_DOMAIN_SERVER [10, 0, 0, 3, 10, 0, 0, 4]]"

definition demo_reply :: packet where
  "demo_reply = put_field32 (packet_of demo_lease) bp_yiaddr 0x0a000007"

lemma demo_reply_ok: "carries demo_reply demo_lease" "\<forall>i \<in> set demo_lease. item_sane i" "field32 demo_reply bp_yiaddr = 0x0a000007"
proof -
  have p: "carries (packet_of demo_lease) demo_lease"
    by (rule carries_packet_of) (simp_all add: demo_lease_def tag_defs room_def BP_VEND_LEN_def)
  then show "carries demo_reply demo_lease"
    unfolding demo_reply_def put_field32_def by (rule put_header_carries) (simp add: field_defs)
  show "\<forall>i \<in> set demo_lease. item_sane i" by (simp add: demo_lease_def item_sane_def addr_tags_def tag_defs dvd_eq_mod_eq_0)
  have "length (packet_of demo_lease) = bootp_size" using p by (simp add: carries_def)
  then show "field32 demo_reply bp_yiaddr = 0x0a000007" unfolding demo_reply_def by (simp add: field_defs)
qed

definition demo_net :: "'f \<Rightarrow> 'f nw_state" where
  "demo_net f = \<lparr> config = default_config default_rules, new_config = default_config default_rules,
     LAN_config_addrs = \<lparr> lan_IPAddr = [], lan_Mask = [], lan_Broadcast = [] \<rparr>, is_flash_rule = 0, ipfw_args = [],
     vlan_names = [], store = f, trace = [] \<rparr>"

definition demo_ops :: "unit conf_ops" where
  "demo_ops = \<lparr> setconf = (\<lambda>buf off s. Inr (0, s)), getconf = (\<lambda>len off s. Inr (0, [], s)) \<rparr>"

theorem lease_is_stored_witness:
  "\<exists>st'. set_config_value demo_ops demo_reply (demo_net ()) = Inr st' \<and> wan_IPAddr (WAN_config_addrs (config st')) = ''10.0.0.7''
     \<and> wan_ADNS (WAN_config_addrs (config st')) = inet_ntoa 0x0a000004"
proof -
  have "''192.168.0.1'' = inet_ntoa (quad 192 168 0 1)" by code_simp
  then have lan: "inaddr_ip (bridge_conf (config (demo_net ()))) = quad 192 168 0 1"
    by (simp add: demo_net_def default_config_def default_bridge_def inet_addr_ntoa)
  have "issamesubnet (inet_ntoa 0x0a000007) (inet_ntoa (quad 192 168 0 1)) = Inr False" by code_simp
  then have step: "set_config_value demo_ops demo_reply (demo_net ()) = Inr ((demo_net ())\<lparr> config := (config (demo_net ()))\<lparr>
      WAN_config_addrs := without_own (quad 192 168 0 1) (lease_config demo_reply demo_lease) \<rparr> \<rparr>)"
    using lease_is_stored [OF demo_reply_ok(1,2), of "demo_net ()" demo_ops] by (simp add: demo_reply_ok(3) lan)
  have ip: "wan_IPAddr (without_own i c) = wan_IPAddr c" for i c by (simp add: without_own_def Let_def)
  have u: "fst (get_u32 [10, 0, 0, 4]) = 0x0a000004" by code_simp
  have dns: "texts TAG_DOMAIN_SERVER (lease_addrs demo_lease) = [inet_ntoa (fst (get_u32 [10, 0, 0, 3])), inet_ntoa 0x0a000004]"
    by (simp add: demo_lease_def item_addrs_def addr_tags_def tag_defs u)
  have "wan_ADNS (lease_config demo_reply demo_lease) = inet_ntoa 0x0a000004" by (simp add: lease_config_def Let_def dns)
  moreover have "(0x0a000004 :: u32) \<noteq> quad 192 168 0 1" by code_simp
  ultimately have "wan_ADNS (without_own (quad 192 168 0 1) (lease_config demo_reply demo_lease)) = inet_ntoa 0x0a000004"
    by (simp add: without_own_def Let_def inet_addr_ntoa)
  moreover have "inet_ntoa 0x0a000007 = ''10.0.0.7''" by code_simp
  then have "wan_IPAddr (lease_config demo_reply demo_lease) = ''10.0.0.7''"
    by (simp add: lease_config_def Let_def demo_reply_ok(3))
  ultimately show ?thesis by (simp add: step ip)
qed

text \<open>
  A server can overrun the stack: an address option longer than 128 bytes is copied into an array of 32
  addresses.
\<close>

theorem long_address_option_overflows:
  assumes "carries bp (a @ Opt t v # b)" "\<forall>i \<in> set a. item_sane i" "t \<in> addr_tags" "128 < length v"
  shows "set_config_value cops bp st = Inl OutOfBounds"
proof -
  obtain r where r: "get_bootp_option bp TAG_DHCP_OPTOVER 1 = Inr r" using optover_total [OF assms(1)] by blast
  have "scan_addrs bp (bp_vend + 4) (lease_start bp) = scan_items (a @ Opt t v # b) (lease_start bp)"
    using assms(1) by (intro scan_addrs_items) (simp add: carries_iff)
  also have "\<dots> = Inl OutOfBounds" by (rule scan_items_overflow [OF assms(2-4)]) (simp add: lease_start_def)
  finally show ?thesis
    using r vend_nonzero [OF assms(1)] by (simp add: set_config_value_def Let_def lease_start_def [symmetric])
qed

theorem long_address_option_overflows_witness:
  "set_config_value demo_ops (packet_of [Opt TAG_DOMAIN_SERVER (replicate 255 8)]) (demo_net ()) = Inl OutOfBounds"
proof (rule long_address_option_overflows [of _ "[]" _ _ "[]"])
  show "carries (packet_of [Opt TAG_DOMAIN_SERVER (replicate 255 8)]) ([] @ Opt TAG_DOMAIN_SERVER (replicate 255 8) # [])"
    using carries_packet_of [of "[Opt TAG_DOMAIN_SERVER (replicate 255 8)]"] by (simp add: tag_defs room_def BP_VEND_LEN_def)
qed (simp_all add: addr_tags_def)

text \<open>
  A first gateway cannot be added: when the configuration has none and a renewal brings one,
  \<^verbatim>\<open>check_default_route\<close> passes a structure to the kernel that was never filled in.
\<close>

theorem first_gateway_uses_unset_route:
  assumes "accepting kern s" "get_bootp_option bp TAG_GATEWAY 4 = Inr (Some (put_u32 gw), 4)" "gw \<noteq> 0"
    and "wan_Gateway (WAN_config_addrs (config st)) = no_addr"
  shows "check_default_route kern st intf bp k = Inl UninitRead"
proof -
  obtain d k1 where "kern Socket k = (Ok s d, k1)" using assms(1) unfolding accepting_def by metis
  moreover note no_addr_0
  ultimately show ?thesis
    using assms by (auto simp: check_default_route_def with_socket_def with_gateway_def accepting_def Let_def)
qed

end
