(* ===== verification/Dhcp_Client.thy ===== *)
theory Dhcp_Client
  imports Net_Setup
begin

text \<open>
  The DHCP client, \<^verbatim>\<open>packages/net/common/current/src/dhcp_prot.c\<close>: the retransmission timer, the lease and its
  alarm, and the state machine \<^verbatim>\<open>do_dhcp\<close> with \<^verbatim>\<open>do_dhcp_release\<close> and \<^verbatim>\<open>do_dhcp_down_net\<close>.

  The network stack, the clock and the moments at which the alarm goes off are the kernel parameter of
  \<^verbatim>\<open>Net_Setup\<close>: \<open>Alarms\<close> is asked wherever the alarm may have interrupted the client since the last time.
  The loop of the state machine may run as long as the server keeps it busy, so \<open>do_dhcp\<close> takes a number of iterations and
  returns \<open>None\<close> when they are used up. The buffers \<open>received\<close> and \<open>xmit2\<close> start with whatever the stack holds.

  \<^verbatim>\<open>CYGNUM_NET_DHCP_MIN_RETRY_TIME\<close> is a configuration option of the package (0 to 3600, default 50) and a
  parameter, as is the resolution of the clock. The options for host name and client identifier are configured out.
\<close>

section \<open>Retransmission timer\<close>

record timer =
  timeout_random :: u8
  t_secs :: u32
  countdown :: int
  tv_sec :: u32
  tv_usec :: u32

definition reset_timeout :: "timer \<Rightarrow> timer" where
  "reset_timeout t =
     (let r = (1 :: u8); secs = 3 + ucast (r AND 3) in
      \<lparr> timeout_random = r, t_secs = secs, countdown = 0, tv_sec = secs, tv_usec = 65536 * (2 + ucast (r AND 3)) \<rparr>)"

definition next_timeout :: "u32 \<Rightarrow> timer \<Rightarrow> bool \<times> timer" where
  "next_timeout retry t =
     (let r = timeout_random t + 1; secs = tv_sec t * 2 - 2 + ucast (r AND 3) in
      (secs < retry, t\<lparr> timeout_random := r, t_secs := secs, countdown := 0, tv_sec := secs \<rparr>))"

section \<open>Lease\<close>

type_synonym u64 = "64 word"

definition DHCP_LEASE_T1 :: u8 where "DHCP_LEASE_T1 = 1"
definition DHCP_LEASE_T2 :: u8 where "DHCP_LEASE_T2 = 2"
definition DHCP_LEASE_EX :: u8 where "DHCP_LEASE_EX = 4"

lemmas lease_bits = DHCP_LEASE_T1_def DHCP_LEASE_T2_def DHCP_LEASE_EX_def

text \<open>The alarm of a lease: created, set for a time and enabled, or disabled. \<open>attention\<close> counts the posts of
  the semaphore.\<close>

datatype alarm = Created | Armed u64 | Disabled

record dhcp_lease =
  l_t1 :: u64
  l_t2 :: u64
  l_expiry :: u64
  l_next :: u8
  l_which :: u8
  l_alarm :: "alarm option"
  attention :: nat

definition alarm_function :: "dhcp_lease \<Rightarrow> dhcp_lease" where
  "alarm_function l =
     (let l1 = l\<lparr> l_which := l_which l OR l_next l, attention := attention l + 1 \<rparr> in
      if l_next l AND DHCP_LEASE_EX \<noteq> 0 then l1\<lparr> l_alarm := Some Disabled \<rparr>
      else if l_next l AND DHCP_LEASE_T2 \<noteq> 0 then l1\<lparr> l_next := DHCP_LEASE_EX, l_alarm := Some (Armed (l_expiry l)) \<rparr>
      else if l_next l AND DHCP_LEASE_T1 \<noteq> 0 then l1\<lparr> l_next := DHCP_LEASE_T2, l_alarm := Some (Armed (l_t2 l)) \<rparr>
      else l1)"

definition no_lease :: "dhcp_lease \<Rightarrow> dhcp_lease" where
  "no_lease l = l\<lparr> l_alarm := None \<rparr>"

text \<open>The kernel's resolution of the clock, and seconds in its ticks.\<close>

record resolution =
  dividend :: u32
  divisor :: u32

definition ticks :: "resolution \<Rightarrow> u64 \<Rightarrow> u64" where
  "ticks rs s = (s * 1000000000 div ucast (dividend rs)) * ucast (divisor rs)"

definition new_lease :: "resolution \<Rightarrow> u64 \<Rightarrow> packet \<Rightarrow> dhcp_lease \<Rightarrow> dhcp_lease cres" where
  "new_lease rs now bp l =
     (let l1 = (no_lease l)\<lparr> l_which := 0, l_next := 0, l_alarm := Some Created \<rparr> in
      bind_ok (get_bootp_option bp TAG_DHCP_LEASE_TIME 4) (\<lambda>(r1, _).
      let tag = (case r1 of None \<Rightarrow> 0xffffffff | Some bs \<Rightarrow> overlay 0 bs) in
      if tag = 0xffffffff then Inr (l1\<lparr> l_expiry := 0xffffffff, l_t2 := 0xffffffff, l_t1 := 0xffffffff \<rparr>)
      else guard_c (dividend rs \<noteq> 0) DivideByZero (
        let expiry_then = tag; l2 = l1\<lparr> l_expiry := now + ticks rs (ucast tag) \<rparr> in
        bind_ok (get_bootp_option bp TAG_DHCP_REBIND_TIME 4) (\<lambda>(r2, _).
        let tag2 = (case r2 of None \<Rightarrow> tag | Some bs \<Rightarrow> overlay tag bs);
            then2 = (if r2 = None then expiry_then - expiry_then div 8 else tag2);
            l3 = l2\<lparr> l_t2 := now + ticks rs (ucast then2) \<rparr>
        in bind_ok (get_bootp_option bp TAG_DHCP_RENEWAL_TIME 4) (\<lambda>(r3, _).
        let then3 = (case r3 of None \<Rightarrow> expiry_then div 2 | Some bs \<Rightarrow> overlay tag2 bs);
            l4 = l3\<lparr> l_t1 := now + ticks rs (ucast then3) \<rparr>
        in Inr (l4\<lparr> l_next := DHCP_LEASE_T1, l_alarm := Some (Armed (l_t1 l4)) \<rparr>))))))"

section \<open>Interfaces\<close>

definition DHCPSTATE_INIT :: u8 where "DHCPSTATE_INIT = 1"
definition DHCPSTATE_SELECTING :: u8 where "DHCPSTATE_SELECTING = 2"
definition DHCPSTATE_REQUESTING :: u8 where "DHCPSTATE_REQUESTING = 3"
definition DHCPSTATE_REQUEST_RECV :: u8 where "DHCPSTATE_REQUEST_RECV = 4"
definition DHCPSTATE_BOUND :: u8 where "DHCPSTATE_BOUND = 5"
definition DHCPSTATE_RENEWING :: u8 where "DHCPSTATE_RENEWING = 6"
definition DHCPSTATE_RENEW_RECV :: u8 where "DHCPSTATE_RENEW_RECV = 7"
definition DHCPSTATE_REBINDING :: u8 where "DHCPSTATE_REBINDING = 8"
definition DHCPSTATE_REBIND_RECV :: u8 where "DHCPSTATE_REBIND_RECV = 9"
definition DHCPSTATE_BOOTP_FALLBACK :: u8 where "DHCPSTATE_BOOTP_FALLBACK = 10"
definition DHCPSTATE_NOTBOUND :: u8 where "DHCPSTATE_NOTBOUND = 11"
definition DHCPSTATE_FAILED :: u8 where "DHCPSTATE_FAILED = 12"
definition DHCPSTATE_DO_RELEASE :: u8 where "DHCPSTATE_DO_RELEASE = 13"

lemmas state_defs = DHCPSTATE_INIT_def DHCPSTATE_SELECTING_def DHCPSTATE_REQUESTING_def DHCPSTATE_REQUEST_RECV_def
  DHCPSTATE_BOUND_def DHCPSTATE_RENEWING_def DHCPSTATE_RENEW_RECV_def DHCPSTATE_REBINDING_def
  DHCPSTATE_REBIND_RECV_def DHCPSTATE_BOOTP_FALLBACK_def DHCPSTATE_NOTBOUND_def DHCPSTATE_FAILED_def
  DHCPSTATE_DO_RELEASE_def

definition DHCPDISCOVER :: u8 where "DHCPDISCOVER = 1"
definition DHCPOFFER :: u8 where "DHCPOFFER = 2"
definition DHCPREQUEST :: u8 where "DHCPREQUEST = 3"
definition DHCPACK :: u8 where "DHCPACK = 5"
definition DHCPNAK :: u8 where "DHCPNAK = 6"
definition DHCPRELEASE :: u8 where "DHCPRELEASE = 7"

lemmas message_defs = DHCPDISCOVER_def DHCPOFFER_def DHCPREQUEST_def DHCPACK_def DHCPNAK_def DHCPRELEASE_def

definition bring_half_up :: "'k kernel \<Rightarrow> string \<Rightarrow> 'k proc" where
  "bring_half_up kern intf =
     (let dev = strlcpy intf IFNAMSIZ in
      with_socket kern (\<lambda>s. seqs
        [req kern (Setsockopt s SO_BROADCAST),
         req kern (Ioctl s (SIOCSIFADDR dev 0)),
         req kern (Ioctl s (SIOCSIFNETMASK dev 0)),
         req kern (Ioctl s (SIOCSIFBRDADDR dev 0xffffffff)),
         req kern (Ioctl s (SIOCSIFFLAGS dev if_up)),
         req kern (Ioctl s (SIOCGIFHWADDR dev)),
         req_exist kern (Ioctl s (SIOCADDRT (default_route dev 0xffffffff)))]))"

text \<open>The flags share their bytes with the length and the family of the address in the same request.\<close>

definition down_flags :: u16 where
  "down_flags = 0x1002 AND NOT (IFF_UP OR IFF_RUNNING)"

definition down_body :: "'k kernel \<Rightarrow> string \<Rightarrow> u8 \<Rightarrow> int \<Rightarrow> 'k proc" where
  "down_body kern dev st s =
     (let del = (\<lambda>a. seqs [req kern (Ioctl s (SIOCDIFADDR dev a)), req kern (Ioctl s (SIOCSIFFLAGS dev down_flags))]) in
      if st = DHCPSTATE_FAILED \<or> st = DHCPSTATE_INIT \<or> st = 0 then del 0
      else (\<lambda>k. case kern (Ioctl s (SIOCGIFADDR dev)) k of
        (Ok _ d, k') \<Rightarrow> del (overlay 0 (take 4 d)) k' | (Fail _, k') \<Rightarrow> Inr (False, k')))"

definition do_dhcp_down_net :: "'k kernel \<Rightarrow> string \<Rightarrow> u8 \<Rightarrow> 'k \<Rightarrow> (bool \<times> u8 \<times> 'k) cres" where
  "do_dhcp_down_net kern intf st k =
     bind_ok (with_socket kern (down_body kern (strlcpy intf IFNAMSIZ) st) (snd (kern RouteReinit k))) (\<lambda>(r, k').
     Inr (r, if r \<and> st \<noteq> 0 then DHCPSTATE_INIT else st, k'))"

section \<open>Packets\<close>

definition put_tag :: "packet \<Rightarrow> u8 \<Rightarrow> u32 \<Rightarrow> nat \<Rightarrow> packet cres" where
  "put_tag p tag v n = bind_ok (set_fixed_tag p tag v n) (\<lambda>(_, p'). Inr p')"

definition drop_tag :: "packet \<Rightarrow> u8 \<Rightarrow> packet cres" where
  "drop_tag p tag = bind_ok (unset_tag p tag) (\<lambda>(_, p'). Inr p')"

definition req_list :: "u8 list" where
  "req_list = [TAG_DHCP_SERVER_ID, TAG_DHCP_LEASE_TIME, TAG_DHCP_RENEWAL_TIME, TAG_DHCP_REBIND_TIME,
     TAG_SUBNET_MASK, TAG_GATEWAY, TAG_DOMAIN_SERVER, TAG_DOMAIN_NAME, TAG_IP_BROADCAST]"

definition set_default_dhcp_tags :: "packet \<Rightarrow> packet cres" where
  "set_default_dhcp_tags p =
     bind_ok (if hd req_list \<noteq> 0 then bind_ok (set_variable_tag p TAG_DHCP_PARM_REQ_LIST req_list (length req_list)) (\<lambda>(_, p'). Inr p')
              else Inr p) (\<lambda>p1.
     put_tag p1 TAG_DHCP_MAX_MSGSZ BP_MINPKTSZ 2)"

definition bcopy :: "nat \<Rightarrow> packet \<Rightarrow> packet \<Rightarrow> packet" where
  "bcopy n src dst = take n src @ drop n dst"

definition INADDR_BROADCAST :: u32 where "INADDR_BROADCAST = 0xffffffff"

definition discover_packet :: "u32 \<Rightarrow> u16 \<Rightarrow> u8 list \<Rightarrow> packet" where
  "discover_packet xid secs hw =
     (let p0 = replicate bootp_size 0;
          p1 = put_field p0 bp_op [1, 1, 6];
          p2 = put_field32 p1 bp_xid xid;
          p3 = put_field p2 bp_secs (put_u16 secs);
          p4 = put_field p3 bp_flags (put_u16 0x8000);
          p5 = put_field p4 bp_chaddr (take 6 hw)
      in put_field p5 bp_vend (cookie @ [TAG_END]))"

text \<open>The header of a request made from the packet in hand.\<close>

definition request_header :: "u32 \<Rightarrow> u16 \<Rightarrow> packet \<Rightarrow> packet" where
  "request_header xid flags p = put_field (put_field (put_field32 p bp_xid xid) bp_op [1]) bp_flags (put_u16 flags)"

text \<open>The copy that is sent has some fields cleared.\<close>

definition clear_sent :: "packet \<Rightarrow> packet" where
  "clear_sent p = put_field (put_field32 (put_field32 (put_field32 p bp_giaddr 0) bp_siaddr 0) bp_yiaddr 0) bp_hops [0]"

section \<open>The state machine\<close>

record ('k, 'f) client =
  pstate :: u8
  res :: packet
  lease :: dhcp_lease
  received :: packet
  xmit2 :: packet
  xid :: u32
  tmr :: timer
  seen_bootp_reply :: bool
  msgtype :: u8
  net :: "'f nw_state"
  world :: 'k

datatype ('k, 'f) outcome = Again "('k, 'f) client" | Done bool "('k, 'f) client"

record ('k, 'f) dhcp_env =
  kern :: "'k kernel"
  cops :: "'f conf_ops"
  retry :: u32
  rsl :: resolution
  intf :: string

definition set_world :: "'k \<Rightarrow> ('k, 'f) client \<Rightarrow> ('k, 'f) client" where
  "set_world k c = c\<lparr> world := k \<rparr>"

definition set_wan :: "u32 \<Rightarrow> ('k, 'f) client \<Rightarrow> ('k, 'f) client" where
  "set_wan b c = c\<lparr> net := (net c)\<lparr> config := (config (net c))\<lparr> wan_status := b \<rparr> \<rparr> \<rparr>"

definition reset_tmr :: "('k, 'f) client \<Rightarrow> ('k, 'f) client" where
  "reset_tmr c = c\<lparr> tmr := reset_timeout (tmr c) \<rparr>"

definition new_xid :: "('k, 'f) client \<Rightarrow> ('k, 'f) client" where
  "new_xid c = c\<lparr> xid := xid c + 0x10000 \<rparr>"

text \<open>The alarm, as often as the kernel says; it goes off only while it is set.\<close>

definition fire :: "dhcp_lease \<Rightarrow> dhcp_lease" where
  "fire l = (case l_alarm l of Some (Armed _) \<Rightarrow> alarm_function l | _ \<Rightarrow> l)"

definition take_alarms :: "('k, 'f) dhcp_env \<Rightarrow> ('k, 'f) client \<Rightarrow> ('k, 'f) client" where
  "take_alarms e c = (case kern e Alarms (world c) of
     (Ok n _, k) \<Rightarrow> c\<lparr> lease := (fire ^^ nat n) (lease c), world := k \<rparr> | (Fail _, k) \<Rightarrow> c\<lparr> world := k \<rparr>)"

definition check_lease :: "('k, 'f) client \<Rightarrow> ('k, 'f) client" where
  "check_lease c =
     (if pstate c = DHCPSTATE_DO_RELEASE \<or> pstate c = DHCPSTATE_NOTBOUND \<or> pstate c = DHCPSTATE_FAILED then c
      else
        (let lease_state = l_which (lease c); c1 = c\<lparr> lease := (lease c)\<lparr> l_which := 0 \<rparr> \<rparr> in
         if lease_state AND DHCP_LEASE_EX \<noteq> 0 then c1\<lparr> pstate := DHCPSTATE_NOTBOUND \<rparr>
         else if lease_state AND DHCP_LEASE_T2 \<noteq> 0 then reset_tmr c1\<lparr> pstate := DHCPSTATE_REBINDING \<rparr>
         else if lease_state AND DHCP_LEASE_T1 \<noteq> 0 then reset_tmr c1\<lparr> pstate := DHCPSTATE_RENEWING \<rparr>
         else c1))"

text \<open>The receive buffer after a packet, with an end tag behind it when there is room.\<close>

definition deliver :: "u8 list \<Rightarrow> packet \<Rightarrow> packet" where
  "deliver data buf =
     (let d = take bootp_size data; rx = bcopy (length d) d buf
      in if length d < bootp_size then rx[length d := TAG_END] else rx)"

text \<open>\<^verbatim>\<open>get_response\<close>: \<open>False\<close> for a timeout.\<close>

definition get_response :: "('k, 'f) dhcp_env \<Rightarrow> int \<Rightarrow> ('k, 'f) client \<Rightarrow> bool \<times> ('k, 'f) client" where
  "get_response e s c =
     (let k1 = snd (kern e (Setsockopt s (SO_RCVTIMEO (tv_sec (tmr c)))) (world c)) in
      case kern e (RecvFrom s) k1 of
        (Fail _, k2) \<Rightarrow> (False, take_alarms e (c\<lparr> world := k2 \<rparr>))
      | (Ok _ data, k2) \<Rightarrow> (True, take_alarms e (c\<lparr> received := deliver data (received c), world := k2 \<rparr>)))"

text \<open>\<^verbatim>\<open>CHECK_XID\<close>: true for a packet of another transaction.\<close>

definition CHECK_XID :: "('k, 'f) client \<Rightarrow> bool" where
  "CHECK_XID c \<longleftrightarrow>
     (let r = received c; x = res c; hlen = unat (hd (field x bp_hlen 1)) in
      field32 r bp_xid \<noteq> xid c \<or> field r bp_htype 1 \<noteq> field x bp_htype 1 \<or> field r bp_hlen 1 \<noteq> field x bp_hlen 1
      \<or> field r bp_chaddr hlen \<noteq> field x bp_chaddr hlen)"

text \<open>
  What the four receiving states do with a packet first: \<open>None\<close> when it is discarded, otherwise whether it
  has a message type, which is left in \<open>msgtype\<close>.
\<close>

definition examine :: "('k, 'f) client \<Rightarrow> (bool option \<times> ('k, 'f) client) cres" where
  "examine c =
     bind_ok (dhcp_size (received c)) (\<lambda>n.
     if n = 0 then Inr (None, c)
     else if CHECK_XID c then Inr (None, c)
     else
       bind_ok (if field32 (received c) bp_siaddr = 0 then
                  bind_ok (get_bootp_option (received c) TAG_DHCP_SERVER_ID 4) (\<lambda>(r, _). case r of
                    None \<Rightarrow> Inr c
                  | Some bs \<Rightarrow> Inr (c\<lparr> received := put_field (received c) bp_siaddr bs \<rparr>))
                else Inr c) (\<lambda>c1.
       bind_ok (get_bootp_option (received c1) TAG_DHCP_MESS_TYPE 1) (\<lambda>(r, _). case r of
         None \<Rightarrow> Inr (Some False, c1)
       | Some bs \<Rightarrow> Inr (Some True, c1\<lparr> msgtype := (case bs of [] \<Rightarrow> msgtype c1 | b # _ \<Rightarrow> b) \<rparr>))))"

text \<open>The received packet becomes the packet in hand.\<close>

definition keep_received :: "('k, 'f) client \<Rightarrow> ('k, 'f) client cres" where
  "keep_received c = bind_ok (dhcp_size (received c)) (\<lambda>n. Inr (c\<lparr> res := bcopy n (received c) (res c) \<rparr>))"

definition record_lease :: "('k, 'f) dhcp_env \<Rightarrow> ('k, 'f) client \<Rightarrow> ('k, 'f) client cres" where
  "record_lease e c =
     (let (x, k) = kern e Now (world c); now = (case x of Ok n _ \<Rightarrow> word_of_int n | Fail _ \<Rightarrow> 0) in
      bind_ok (new_lease (rsl e) now (received c) (lease c)) (\<lambda>l. Inr (c\<lparr> lease := l, world := k \<rparr>)))"

text \<open>Sending: whether \<^verbatim>\<open>sendto\<close> accepted the packet.\<close>

definition send :: "('k, 'f) dhcp_env \<Rightarrow> int \<Rightarrow> u32 \<Rightarrow> u8 list \<Rightarrow> ('k, 'f) client \<Rightarrow> bool \<times> ('k, 'f) client" where
  "send e s dest bs c = (case kern e (SendTo s dest bs) (world c) of
     (Ok _ _, k) \<Rightarrow> (True, c\<lparr> world := k \<rparr>) | (Fail _, k) \<Rightarrow> (False, c\<lparr> world := k \<rparr>))"

definition st_init :: "('k, 'f) dhcp_env \<Rightarrow> int \<Rightarrow> u8 list \<Rightarrow> ('k, 'f) client \<Rightarrow> ('k, 'f) outcome cres" where
  "st_init e s hw c =
     (let (x, k) = kern e Now (world c); now = (case x of Ok n _ \<Rightarrow> word_of_int n :: u64 | Fail _ \<Rightarrow> 0);
          p0 = discover_packet (xid c) (ucast (now div 100)) hw; c0 = c\<lparr> world := k \<rparr>
      in bind_ok (put_tag p0 TAG_DHCP_MESS_TYPE (ucast DHCPDISCOVER) 1) (\<lambda>p1.
         bind_ok (set_default_dhcp_tags p1) (\<lambda>p2.
         bind_ok (dhcp_size_for_send p2) (\<lambda>(n, p3).
         let (ok, c1) = send e s INADDR_BROADCAST (take n p3) (c0\<lparr> res := p3 \<rparr>) in
         Inr (Again (if ok then c1\<lparr> seen_bootp_reply := False, pstate := DHCPSTATE_SELECTING \<rparr>
                     else c1\<lparr> pstate := DHCPSTATE_FAILED \<rparr>))))))"

definition st_selecting :: "('k, 'f) dhcp_env \<Rightarrow> int \<Rightarrow> ('k, 'f) client \<Rightarrow> ('k, 'f) outcome cres" where
  "st_selecting e s c =
     (let (got, c1) = get_response e s c in
      if \<not> got then
        (if seen_bootp_reply c1 then
           bind_ok (keep_received c1) (\<lambda>c2. Inr (Again (reset_tmr (new_xid (c2\<lparr> pstate := DHCPSTATE_BOOTP_FALLBACK \<rparr>)))))
         else
           (let (more, t) = next_timeout (retry e) (tmr c1) in
            Inr (Again (c1\<lparr> tmr := t, pstate := (if more then DHCPSTATE_INIT else DHCPSTATE_FAILED) \<rparr>))))
      else
        bind_ok (examine c1) (\<lambda>(r, c2). case r of
          None \<Rightarrow> Inr (Again c2)
        | Some False \<Rightarrow> Inr (Again (c2\<lparr> seen_bootp_reply := True \<rparr>))
        | Some True \<Rightarrow>
            if msgtype c2 = DHCPOFFER then
              bind_ok (keep_received c2) (\<lambda>c3. Inr (Again (new_xid ((reset_tmr c3)\<lparr> pstate := DHCPSTATE_REQUESTING \<rparr>))))
            else Inr (Again c2)))"

definition st_requesting :: "('k, 'f) dhcp_env \<Rightarrow> int \<Rightarrow> ('k, 'f) client \<Rightarrow> ('k, 'f) outcome cres" where
  "st_requesting e s c =
     bind_ok (put_tag (request_header (xid c) 0x8000 (res c)) TAG_DHCP_MESS_TYPE (ucast DHCPREQUEST) 1) (\<lambda>p1.
     bind_ok (put_tag p1 TAG_DHCP_REQ_IP (field32 p1 bp_yiaddr) 4) (\<lambda>p2.
     bind_ok (set_default_dhcp_tags p2) (\<lambda>p3.
     bind_ok (dhcp_size_for_send p3) (\<lambda>(xlen, p4).
     let x0 = bcopy xlen p4 (xmit2 c) in
     bind_ok (drop_tag x0 TAG_DHCP_MASK) (\<lambda>x1.
     bind_ok (drop_tag x1 TAG_DHCP_ROUTER) (\<lambda>x2.
     bind_ok (drop_tag x2 TAG_DHCP_DNS) (\<lambda>x3.
     bind_ok (drop_tag x3 TAG_DHCP_DOMAINNAME) (\<lambda>x4.
     let x5 = clear_sent x4;
         (ok, c1) = send e s INADDR_BROADCAST (take xlen x5) (c\<lparr> res := p4, xmit2 := x5 \<rparr>)
     in Inr (Again (c1\<lparr> pstate := (if ok then DHCPSTATE_REQUEST_RECV else DHCPSTATE_FAILED) \<rparr>))))))))))"

definition st_request_recv :: "('k, 'f) dhcp_env \<Rightarrow> int \<Rightarrow> ('k, 'f) client \<Rightarrow> ('k, 'f) outcome cres" where
  "st_request_recv e s c =
     (let (got, c1) = get_response e s c in
      if \<not> got then
        (let (more, t) = next_timeout (retry e) (tmr c1) in
         Inr (Again (c1\<lparr> tmr := t, pstate := (if more then DHCPSTATE_REQUESTING else DHCPSTATE_FAILED) \<rparr>)))
      else
        bind_ok (examine c1) (\<lambda>(r, c2).
          if r \<noteq> Some True then Inr (Again c2)
          else if msgtype c2 = DHCPACK \<and> field32 (received c2) bp_yiaddr = field32 (res c2) bp_yiaddr
                  \<and> field32 (received c2) bp_siaddr = field32 (res c2) bp_siaddr then
            bind_ok (record_lease e (reset_tmr c2)) (\<lambda>c3. Inr (Again (c3\<lparr> pstate := DHCPSTATE_BOUND \<rparr>)))
          else if msgtype c2 = DHCPNAK \<and> field32 (received c2) bp_siaddr = field32 (res c2) bp_siaddr then
            Inr (Again (reset_tmr (new_xid (c2\<lparr> pstate := DHCPSTATE_INIT \<rparr>))))
          else Inr (Again c2)))"

text \<open>Renewing and rebinding differ in the destination only.\<close>

definition send_renewal :: "('k, 'f) dhcp_env \<Rightarrow> int \<Rightarrow> bool \<Rightarrow> ('k, 'f) client \<Rightarrow> ('k, 'f) client cres" where
  "send_renewal e s unicast c =
     (let p0 = request_header (xid c) 0 (res c); p0' = put_field32 p0 bp_ciaddr (field32 p0 bp_yiaddr) in
      bind_ok (put_tag p0' TAG_DHCP_MESS_TYPE (ucast DHCPREQUEST) 1) (\<lambda>p1.
      bind_ok (drop_tag p1 TAG_DHCP_REQ_IP) (\<lambda>p2.
      bind_ok (drop_tag p2 TAG_DHCP_SERVER_ID) (\<lambda>p3.
      bind_ok (set_default_dhcp_tags p3) (\<lambda>p4.
      bind_ok (dhcp_size_for_send p4) (\<lambda>(xlen, p5).
      let x = clear_sent (bcopy xlen p5 (xmit2 c));
          dest = (if unicast then field32 p5 bp_siaddr else INADDR_BROADCAST)
      in Inr (snd (send e s dest (take xlen x) (c\<lparr> res := p5, xmit2 := x \<rparr>)))))))))"

definition recv_renewal :: "('k, 'f) dhcp_env \<Rightarrow> int \<Rightarrow> u8 \<Rightarrow> ('k, 'f) client \<Rightarrow> ('k, 'f) outcome cres" where
  "recv_renewal e s resend c =
     (let (got, c1) = get_response e s c in
      if \<not> got then
        (let (more, t) = next_timeout (retry e) (tmr c1); c2 = c1\<lparr> tmr := t \<rparr> in
         Inr (Again ((if more then c2 else reset_tmr c2)\<lparr> pstate := resend \<rparr>)))
      else
        bind_ok (examine c1) (\<lambda>(r, c2).
          if r \<noteq> Some True then Inr (Again c2)
          else if msgtype c2 = DHCPACK \<and> field32 (received c2) bp_yiaddr = field32 (res c2) bp_yiaddr then
            bind_ok (record_lease e (reset_tmr c2)) (\<lambda>c3.
            bind_ok (keep_received c3) (\<lambda>c4. Inr (Again (c4\<lparr> pstate := DHCPSTATE_BOUND \<rparr>))))
          else if msgtype c2 = DHCPNAK then Inr (Again (c2\<lparr> pstate := DHCPSTATE_NOTBOUND \<rparr>))
          else Inr (Again c2)))"

definition st_renewing :: "('k, 'f) dhcp_env \<Rightarrow> int \<Rightarrow> ('k, 'f) client \<Rightarrow> ('k, 'f) outcome cres" where
  "st_renewing e s c = bind_ok (send_renewal e s True c) (\<lambda>c1. Inr (Again (c1\<lparr> pstate := DHCPSTATE_RENEW_RECV \<rparr>)))"

definition st_renew_recv :: "('k, 'f) dhcp_env \<Rightarrow> int \<Rightarrow> ('k, 'f) client \<Rightarrow> ('k, 'f) outcome cres" where
  "st_renew_recv e s c = recv_renewal e s DHCPSTATE_RENEWING c"

definition st_rebinding :: "('k, 'f) dhcp_env \<Rightarrow> int \<Rightarrow> ('k, 'f) client \<Rightarrow> ('k, 'f) outcome cres" where
  "st_rebinding e s c = bind_ok (send_renewal e s False c) (\<lambda>c1. Inr (Again (c1\<lparr> pstate := DHCPSTATE_REBIND_RECV \<rparr>)))"

definition st_rebind_recv :: "('k, 'f) dhcp_env \<Rightarrow> int \<Rightarrow> ('k, 'f) client \<Rightarrow> ('k, 'f) outcome cres" where
  "st_rebind_recv e s c = recv_renewal e s DHCPSTATE_REBINDING c"

text \<open>
  The end of a conversation: the interface goes down and, when the client is not called from the start-up
  code, up again with the new data. The result is the changed \<^verbatim>\<open>oldstate\<close>, or \<open>None\<close> when that failed.
\<close>

definition reinit :: "('k, 'f) dhcp_env \<Rightarrow> u8 \<Rightarrow> u8 \<Rightarrow> ('k, 'f) client \<Rightarrow> (u8 option \<times> ('k, 'f) client) cres" where
  "reinit e this old c =
     (if old = this then Inr (Some old, c)
      else
        bind_ok (do_dhcp_down_net (kern e) (intf e) old (world c)) (\<lambda>(_, old', k1).
        if old' = 0 then Inr (Some old', c\<lparr> world := k1 \<rparr>)
        else
          bind_ok (init_net (kern e) (net c) (intf e) (res c) k1) (\<lambda>(ok, k2).
          if ok then Inr (Some old', c\<lparr> world := k2 \<rparr>)
          else
            bind_ok (do_dhcp_down_net (kern e) (intf e) (pstate c) k2) (\<lambda>(_, _, k3).
            Inr (None, c\<lparr> world := k3, pstate := DHCPSTATE_FAILED \<rparr>)))))"

definition close_socket :: "('k, 'f) dhcp_env \<Rightarrow> int \<Rightarrow> ('k, 'f) client \<Rightarrow> ('k, 'f) client" where
  "close_socket e s c = c\<lparr> world := snd (kern e (Close s) (world c)) \<rparr>"

definition BRIDGE :: string where "BRIDGE = ''br0''"

definition st_bound :: "('k, 'f) dhcp_env \<Rightarrow> int \<Rightarrow> u8 \<Rightarrow> ('k, 'f) client \<Rightarrow> ('k, 'f) outcome cres" where
  "st_bound e s old c =
     bind_ok (reinit e DHCPSTATE_BOUND old (close_socket e s c)) (\<lambda>(r, c1). case r of
       None \<Rightarrow> Inr (Done False c1)
     | Some old' \<Rightarrow>
         bind_ok (if old' = DHCPSTATE_BOUND then
                    bind_ok (check_default_route (kern e) (net c1) (intf e) (res c1) (world c1)) (\<lambda>(_, k). Inr (c1\<lparr> world := k \<rparr>))
                  else Inr c1) (\<lambda>c2.
         let b = bridge_conf (config (net c2)) in
         bind_ok (ADD_ROUTE (kern e) (inaddr_ip b) (inaddr_ip b) (inaddr_mas b) BRIDGE (world c2)) (\<lambda>(_, k).
         bind_ok (set_config_value (cops e) (res c2) (net c2)) (\<lambda>n.
         Inr (Done True (set_wan 1 (c2\<lparr> world := k, net := n \<rparr>)))))))"

definition st_fallback :: "('k, 'f) dhcp_env \<Rightarrow> int \<Rightarrow> u8 \<Rightarrow> ('k, 'f) client \<Rightarrow> ('k, 'f) outcome cres" where
  "st_fallback e s old c =
     (let c0 = close_socket e s c in
      bind_ok (reinit e DHCPSTATE_BOOTP_FALLBACK old (c0\<lparr> lease := no_lease (lease c0) \<rparr>)) (\<lambda>(r, c1).
      Inr (Done (r \<noteq> None) c1)))"

definition st_release :: "('k, 'f) dhcp_env \<Rightarrow> int \<Rightarrow> ('k, 'f) client \<Rightarrow> ('k, 'f) outcome cres" where
  "st_release e s c0 =
     (let c = new_xid c0; p0 = request_header (xid c) 0 (res c); p0' = put_field32 p0 bp_ciaddr (field32 p0 bp_yiaddr) in
      bind_ok (put_tag p0' TAG_DHCP_MESS_TYPE (ucast DHCPRELEASE) 1) (\<lambda>p1.
      bind_ok (dhcp_size_for_send p1) (\<lambda>(xlen, p2).
      let x = clear_sent (bcopy xlen p2 (xmit2 c));
          (ok, c1) = send e s (field32 p2 bp_siaddr) (take xlen x) (c\<lparr> res := p2, xmit2 := x \<rparr>)
      in Inr (Again (c1\<lparr> pstate := (if ok then DHCPSTATE_NOTBOUND else DHCPSTATE_FAILED) \<rparr>)))))"

text \<open>The states that end without a lease.\<close>

definition st_end :: "('k, 'f) dhcp_env \<Rightarrow> int \<Rightarrow> bool \<Rightarrow> ('k, 'f) client \<Rightarrow> ('k, 'f) outcome" where
  "st_end e s r c = (let c1 = close_socket e s c in Done r (set_wan 0 (c1\<lparr> lease := no_lease (lease c1) \<rparr>)))"

text \<open>One round of the loop.\<close>

definition dhcp_iter :: "('k, 'f) dhcp_env \<Rightarrow> int \<Rightarrow> u8 list \<Rightarrow> u8 \<Rightarrow> ('k, 'f) client \<Rightarrow> ('k, 'f) outcome cres" where
  "dhcp_iter e s hw old c0 =
     (let c = check_lease (take_alarms e c0); st = pstate c in
      if st = DHCPSTATE_INIT then st_init e s hw c
      else if st = DHCPSTATE_SELECTING then st_selecting e s c
      else if st = DHCPSTATE_REQUESTING then st_requesting e s c
      else if st = DHCPSTATE_REQUEST_RECV then st_request_recv e s c
      else if st = DHCPSTATE_BOUND then st_bound e s old c
      else if st = DHCPSTATE_RENEWING then st_renewing e s c
      else if st = DHCPSTATE_RENEW_RECV then st_renew_recv e s c
      else if st = DHCPSTATE_REBINDING then st_rebinding e s c
      else if st = DHCPSTATE_REBIND_RECV then st_rebind_recv e s c
      else if st = DHCPSTATE_BOOTP_FALLBACK then st_fallback e s old c
      else if st = DHCPSTATE_NOTBOUND then Inr (st_end e s True c)
      else if st = DHCPSTATE_FAILED then Inr (st_end e s False c)
      else if st = DHCPSTATE_DO_RELEASE then st_release e s c
      else Inr (st_end e s False c))"

lemmas dhcp_iter_cases = dhcp_iter_def [unfolded st_renewing_def st_renew_recv_def st_rebinding_def st_rebind_recv_def]

fun dhcp_loop :: "nat \<Rightarrow> ('k, 'f) dhcp_env \<Rightarrow> int \<Rightarrow> u8 list \<Rightarrow> u8 \<Rightarrow> ('k, 'f) client \<Rightarrow> (bool \<times> ('k, 'f) client) option cres" where
  "dhcp_loop 0 e s hw old c = Inr None"
| "dhcp_loop (Suc n) e s hw old c =
     bind_ok (dhcp_iter e s hw old c) (\<lambda>out. case out of Again c' \<Rightarrow> dhcp_loop n e s hw old c' | Done r c' \<Rightarrow> Inr (Some (r, c')))"

text \<open>The transaction number from the hardware address, whose bytes are of type \<^verbatim>\<open>char\<close>, which is signed.\<close>

definition first_xid :: "u8 list \<Rightarrow> u32 \<Rightarrow> u32" where
  "first_xid hw rnd = (scast (hw ! 5) OR push_bit 8 (scast (hw ! 4)) OR push_bit 16 (scast (hw ! 3)) OR push_bit 24 (scast (hw ! 2)))
     XOR (rnd AND 0xffff0000)"

definition sock_setup :: "('k, 'f) dhcp_env \<Rightarrow> int \<Rightarrow> 'k proc" where
  "sock_setup e s = seqs [req (kern e) (Setsockopt s SO_BROADCAST), req (kern e) (Bind s 68),
     req (kern e) (Setsockopt s SO_REUSEADDR), req (kern e) (Setsockopt s SO_REUSEPORT)]"

definition do_dhcp :: "nat \<Rightarrow> ('k, 'f) dhcp_env \<Rightarrow> ('k, 'f) client \<Rightarrow> (bool \<times> ('k, 'f) client) option cres" where
  "do_dhcp n e c =
     (let oldstate = pstate c in
      bind_ok (if oldstate = DHCPSTATE_INIT \<or> oldstate = DHCPSTATE_FAILED \<or> oldstate = 0 then
                 bind_ok (bring_half_up (kern e) (intf e) (world c)) (\<lambda>(ok, k).
                 Inr (ok, if ok then c\<lparr> world := k, pstate := DHCPSTATE_INIT, lease := (lease c)\<lparr> l_which := 0, l_next := 0 \<rparr> \<rparr>
                          else c\<lparr> world := k \<rparr>))
               else Inr (True, c)) (\<lambda>(ok, c1).
      if \<not> ok then Inr (Some (False, c1))
      else case kern e Socket (world c1) of
        (Fail _, k) \<Rightarrow> Inr (Some (False, c1\<lparr> world := k \<rparr>))
      | (Ok s _, k) \<Rightarrow>
          if s < 0 then Inr (Some (False, c1\<lparr> world := k \<rparr>))
          else
            bind_ok (sock_setup e s k) (\<lambda>(ok, k1).
            let c2 = c1\<lparr> world := k1, seen_bootp_reply := False, msgtype := 0 \<rparr> in
            if \<not> ok then Inr (Some (False, close_socket e s c2))
            else case kern e (Ioctl s (SIOCGIFHWADDR (strlcpy (intf e) IFNAMSIZ))) k1 of
              (Fail _, k2) \<Rightarrow> Inr (Some (False, close_socket e s ((reset_tmr c2)\<lparr> world := k2 \<rparr>)))
            | (Ok _ hw, k2) \<Rightarrow>
                (let (x, k3) = kern e Random k2; rnd = (case x of Ok v _ \<Rightarrow> word_of_int v | Fail _ \<Rightarrow> 0) in
                 dhcp_loop n e s hw oldstate ((reset_tmr c2)\<lparr> world := k3, xid := first_xid hw rnd \<rparr>)))))"

definition do_dhcp_release :: "nat \<Rightarrow> ('k, 'f) dhcp_env \<Rightarrow> ('k, 'f) client \<Rightarrow> ('k, 'f) client option cres" where
  "do_dhcp_release n e c =
     (if pstate c \<noteq> 0 \<and> pstate c \<noteq> DHCPSTATE_INIT \<and> pstate c \<noteq> DHCPSTATE_NOTBOUND \<and> pstate c \<noteq> DHCPSTATE_FAILED
         \<and> pstate c \<noteq> DHCPSTATE_BOOTP_FALLBACK
      then bind_ok (do_dhcp n e (c\<lparr> pstate := DHCPSTATE_DO_RELEASE \<rparr>)) (\<lambda>r. Inr (map_option snd r))
      else Inr (Some c))"

end
