(* ===== verification/Dhcp_Graph.thy ===== *)
theory Dhcp_Graph
  imports Dhcp_Client
begin

text \<open>
  The rounds of the DHCP client: what a round can change, and that its moves are those of the state graph of RFC
  2131, with an acknowledgement on every way into the state \<^verbatim>\<open>BOUND\<close>. This holds for every network stack and
  every server.
\<close>

section \<open>The state graph\<close>

lemma read_bytes_length: "read_bytes p op n = Inr bs \<Longrightarrow> length bs = n"
  by (induction n arbitrary: op bs) (auto simp: cres_simps)

lemma scantag_length: "scantag p tag len op = Inr (Some bs) \<Longrightarrow> length bs \<le> len"
proof (induction p tag len op rule: scantag.induct)
  case (1 p tag len op)
  from "1.prems" show ?case
    by (subst (asm) scantag.simps) (auto simp: cres_simps split: if_splits dest!: read_bytes_length "1.IH")
qed

lemma get_option_length:
  assumes "get_bootp_option p tag len = Inr (Some bs, n)" "0 < len"
  shows "length bs \<le> len"
proof (cases "scantag p tag len (bp_vend + 4) = Inr None")
  case False
  with assms(1) show ?thesis
    by (cases "scantag p tag len (bp_vend + 4)") (auto simp: get_bootp_option_def dest!: scantag_length split: option.splits)
next
  case True
  with assms(1) have tag: "tag \<noteq> TAG_DHCP_OPTOVER" by (auto simp: get_bootp_option_def)
  with True assms(1) obtain ov where ov: "scantag p TAG_DHCP_OPTOVER len (bp_vend + 4) = Inr (Some ov)" "length ov \<le> 1"
    by (cases "scantag p TAG_DHCP_OPTOVER len (bp_vend + 4)") (auto simp: get_bootp_option_def split: option.splits if_splits)
  have "scantag p tag (length ov) bp_file = Inr (Some bs) \<or> scantag p tag (length ov) bp_sname = Inr (Some bs)"
    using assms(1) unfolding get_bootp_option_def True ov(1) using tag ov(2)
    by (simp add: Let_def) (auto simp: cres_simps split: if_splits option.splits)
  then show ?thesis using scantag_length [of p tag "length ov"] ov(2) assms(2) by fastforce
qed

text \<open>What a round leaves alone while it receives.\<close>

lemma deliver_length: "length buf = bootp_size \<Longrightarrow> length (deliver data buf) = bootp_size"
  by (simp add: deliver_def bcopy_def Let_def)

lemma take_alarms_keeps: "\<exists>l k. take_alarms e c = c\<lparr> lease := l, world := k \<rparr>"
proof (cases "kern e Alarms (world c)")
  case (Pair x k)
  have "take_alarms e c = c\<lparr> lease := (case x of Ok n _ \<Rightarrow> (fire ^^ nat n) (lease c) | Fail _ \<Rightarrow> lease c), world := k \<rparr>"
    using Pair by (cases x) (simp_all add: take_alarms_def)
  then show ?thesis by blast
qed

lemma get_response_keeps:
  assumes "get_response e s c = (got, c1)"
  shows "\<exists>rx l k. c1 = c\<lparr> received := rx, lease := l, world := k \<rparr> \<and> (length (received c) = bootp_size \<longrightarrow> length rx = bootp_size)"
proof -
  define k1 where "k1 = snd (kern e (Setsockopt s (SO_RCVTIMEO (tv_sec (tmr c)))) (world c))"
  obtain x k2 where recv: "kern e (RecvFrom s) k1 = (x, k2)" by fastforce
  show ?thesis
  proof (cases x)
    case (Fail f)
    with assms recv have "c1 = take_alarms e (c\<lparr> world := k2 \<rparr>)" by (simp add: get_response_def k1_def [symmetric] Let_def)
    then obtain l k where "c1 = c\<lparr> received := received c, lease := l, world := k \<rparr>" using take_alarms_keeps [of e "c\<lparr> world := k2 \<rparr>"] by auto
    then show ?thesis by blast
  next
    case (Ok v data)
    with assms recv have "c1 = take_alarms e (c\<lparr> received := deliver data (received c), world := k2 \<rparr>)"
      by (simp add: get_response_def k1_def [symmetric] Let_def)
    then show ?thesis
      using take_alarms_keeps [of e "c\<lparr> received := deliver data (received c), world := k2 \<rparr>"] deliver_length by auto
  qed
qed

text \<open>A packet that is looked at.\<close>

lemma examine_result:
  assumes "examine c = Inr (r, c1)" "length (received c) = bootp_size"
  shows "\<exists>rx m. c1 = c\<lparr> received := rx, msgtype := m \<rparr> \<and> length rx = bootp_size
     \<and> (r \<noteq> None \<longrightarrow> \<not> CHECK_XID c \<and> (\<exists>is. carries (received c) is)
         \<and> (\<forall>at k. at + k \<le> bp_siaddr \<or> bp_siaddr + 4 \<le> at \<longrightarrow> field rx at k = field (received c) at k))
     \<and> (r = Some True \<longrightarrow> (\<exists>bs n. get_bootp_option rx TAG_DHCP_MESS_TYPE 1 = Inr (Some bs, n) \<and> (bs = [m] \<or> bs = [] \<and> m = msgtype c)))"
proof -
  from assms(1) obtain n where n: "dhcp_size (received c) = Inr n" by (cases "dhcp_size (received c)") (auto simp: examine_def)
  have same: "c = c\<lparr> received := received c, msgtype := msgtype c \<rparr>" by simp
  show ?thesis
  proof (cases "n = 0 \<or> CHECK_XID c")
    case True
    with n have "examine c = Inr (None, c)" by (auto simp: examine_def cong: if_cong)
    with assms have "r = None" "c1 = c" by simp_all
    then show ?thesis using same assms(2) by (metis option.distinct(1))
  next
    case False
    then obtain "is" where "is": "carries (received c) is" using dhcp_size_exact [OF assms(2), of n] n by auto
    define fill where "fill = (if field32 (received c) bp_siaddr = 0 then
        bind_ok (get_bootp_option (received c) TAG_DHCP_SERVER_ID 4) (\<lambda>(r, _). case r of
          None \<Rightarrow> Inr c | Some bs \<Rightarrow> Inr (c\<lparr> received := put_field (received c) bp_siaddr bs \<rparr>)) else Inr c)"
    have ex: "examine c = bind_ok fill (\<lambda>c1. bind_ok (get_bootp_option (received c1) TAG_DHCP_MESS_TYPE 1) (\<lambda>(r, _). case r of
         None \<Rightarrow> Inr (Some False, c1)
       | Some bs \<Rightarrow> Inr (Some True, c1\<lparr> msgtype := (case bs of [] \<Rightarrow> msgtype c1 | b # _ \<Rightarrow> b) \<rparr>)))"
      using n False by (simp add: examine_def fill_def)
    with assms(1) obtain c2 where c2: "fill = Inr c2" by (cases fill) auto
    obtain rx where rx: "c2 = c\<lparr> received := rx \<rparr>" "length rx = bootp_size"
      "\<forall>at k. at + k \<le> bp_siaddr \<or> bp_siaddr + 4 \<le> at \<longrightarrow> field rx at k = field (received c) at k"
    proof (cases "c2 = c")
      case True
      then show thesis using that [of "received c"] assms(2) by simp
    next
      case False
      with c2 obtain bs m where bs: "get_bootp_option (received c) TAG_DHCP_SERVER_ID 4 = Inr (Some bs, m)"
        and c2: "c2 = c\<lparr> received := put_field (received c) bp_siaddr bs \<rparr>"
        by (auto simp: fill_def cres_simps split: if_splits option.splits)
      have "length bs \<le> 4" using get_option_length [OF bs] by simp
      then show thesis using that [OF c2] assms(2) by (auto simp: field_put_other field_defs)
    qed
    with ex c2 assms(1) obtain t m where t: "get_bootp_option rx TAG_DHCP_MESS_TYPE 1 = Inr (t, m)"
      by (cases "get_bootp_option rx TAG_DHCP_MESS_TYPE 1") auto
    show ?thesis
    proof (cases t)
      case None
      with ex c2 assms(1) t rx have "r = Some False" "c1 = c\<lparr> received := rx, msgtype := msgtype c \<rparr>" by simp_all
      then show ?thesis using rx False "is" by blast
    next
      case (Some bs)
      with ex c2 assms(1) t rx have r: "r = Some True" "c1 = c\<lparr> received := rx, msgtype := (case bs of [] \<Rightarrow> msgtype c | b # _ \<Rightarrow> b) \<rparr>"
        by (simp_all cong: list.case_cong)
      have "length bs \<le> 1" using get_option_length [of rx _ 1] t Some by simp
      then have "bs = [case bs of [] \<Rightarrow> msgtype c | b # _ \<Rightarrow> b] \<or> bs = [] \<and> (case bs of [] \<Rightarrow> msgtype c | b # _ \<Rightarrow> b) = msgtype c"
        by (cases bs) auto
      then show ?thesis using r rx False "is" t Some by blast
    qed
  qed
qed

text \<open>The states that follow a state, as in figure 5 of RFC 2131, with the receiving states apart.\<close>

definition successors :: "u8 \<Rightarrow> u8 set" where
  "successors st =
     (if st = DHCPSTATE_INIT then {DHCPSTATE_SELECTING, DHCPSTATE_FAILED}
      else if st = DHCPSTATE_SELECTING then
        {DHCPSTATE_SELECTING, DHCPSTATE_INIT, DHCPSTATE_REQUESTING, DHCPSTATE_BOOTP_FALLBACK, DHCPSTATE_FAILED}
      else if st = DHCPSTATE_REQUESTING then {DHCPSTATE_REQUEST_RECV, DHCPSTATE_FAILED}
      else if st = DHCPSTATE_REQUEST_RECV then
        {DHCPSTATE_REQUEST_RECV, DHCPSTATE_REQUESTING, DHCPSTATE_BOUND, DHCPSTATE_INIT, DHCPSTATE_FAILED}
      else if st = DHCPSTATE_RENEWING then {DHCPSTATE_RENEW_RECV}
      else if st = DHCPSTATE_RENEW_RECV then {DHCPSTATE_RENEW_RECV, DHCPSTATE_RENEWING, DHCPSTATE_BOUND, DHCPSTATE_NOTBOUND}
      else if st = DHCPSTATE_REBINDING then {DHCPSTATE_REBIND_RECV}
      else if st = DHCPSTATE_REBIND_RECV then {DHCPSTATE_REBIND_RECV, DHCPSTATE_REBINDING, DHCPSTATE_BOUND, DHCPSTATE_NOTBOUND}
      else if st = DHCPSTATE_DO_RELEASE then {DHCPSTATE_NOTBOUND, DHCPSTATE_FAILED}
      else {})"

text \<open>
  The packet that a round has accepted as an acknowledgement: of this transaction, for this hardware
  address and the address that was asked for, with the type \<^verbatim>\<open>DHCPACK\<close>, or with an empty type option
  after an earlier \<^verbatim>\<open>DHCPACK\<close>, whose value is still in the variable.
\<close>

definition acked :: "('k, 'f) client \<Rightarrow> ('k, 'f) client \<Rightarrow> bool" where
  "acked c c' \<longleftrightarrow>
     field32 (received c') bp_xid = xid c
     \<and> field (received c') bp_chaddr (unat (hd (field (res c) bp_hlen 1))) = field (res c) bp_chaddr (unat (hd (field (res c) bp_hlen 1)))
     \<and> field32 (received c') bp_yiaddr = field32 (res c) bp_yiaddr
     \<and> (\<exists>t n. get_bootp_option (received c') TAG_DHCP_MESS_TYPE 1 = Inr (Some t, n) \<and> (t = [DHCPACK] \<or> t = [] \<and> msgtype c = DHCPACK))"

definition round_ok :: "('k, 'f) client \<Rightarrow> ('k, 'f) outcome \<Rightarrow> bool" where
  "round_ok c out \<longleftrightarrow> (case out of
     Again c' \<Rightarrow> length (received c') = bootp_size \<and> pstate c' \<in> successors (pstate c) \<and> (pstate c' = DHCPSTATE_BOUND \<longrightarrow> acked c c')
   | Done r c' \<Rightarrow> successors (pstate c) = {} \<and> (pstate c' = DHCPSTATE_BOUND \<longrightarrow> pstate c = DHCPSTATE_BOUND)
       \<and> (r \<longrightarrow> pstate c' = pstate c \<and> pstate c \<in> {DHCPSTATE_BOUND, DHCPSTATE_BOOTP_FALLBACK, DHCPSTATE_NOTBOUND}))"

lemma send_keeps: "\<exists>ok k. send e s dest bs c = (ok, c\<lparr> world := k \<rparr>)"
  by (auto simp: send_def split: prod.splits kres.splits)

text \<open>What the rounds come to: a packet sent, or a packet looked at.\<close>

lemma st_init_out:
  assumes "st_init e s hw c = Inr out"
  obtains p dest bs where "out = (case send e s dest bs (c\<lparr> world := snd (kern e Now (world c)), res := p \<rparr>) of (ok, c1) \<Rightarrow>
     Again (if ok then c1\<lparr> seen_bootp_reply := False, pstate := DHCPSTATE_SELECTING \<rparr> else c1\<lparr> pstate := DHCPSTATE_FAILED \<rparr>))"
  using assms by (auto simp: st_init_def Let_def cres_simps case_prod_beta cong: if_cong)

lemma st_requesting_out:
  assumes "st_requesting e s c = Inr out"
  obtains p x dest bs where "out = (case send e s dest bs (c\<lparr> res := p, xmit2 := x \<rparr>) of (ok, c1) \<Rightarrow>
     Again (c1\<lparr> pstate := (if ok then DHCPSTATE_REQUEST_RECV else DHCPSTATE_FAILED) \<rparr>))"
  using assms by (auto simp: st_requesting_def Let_def cres_simps case_prod_beta)

lemma st_release_out:
  assumes "st_release e s c = Inr out"
  obtains p x dest bs where "out = (case send e s dest bs ((new_xid c)\<lparr> res := p, xmit2 := x \<rparr>) of (ok, c1) \<Rightarrow>
     Again (c1\<lparr> pstate := (if ok then DHCPSTATE_NOTBOUND else DHCPSTATE_FAILED) \<rparr>))"
  using assms by (auto simp: st_release_def Let_def cres_simps case_prod_beta)

lemma send_renewal_out:
  assumes "send_renewal e s u c = Inr c1"
  obtains p x dest bs where "c1 = snd (send e s dest bs (c\<lparr> res := p, xmit2 := x \<rparr>))"
  using assms by (auto simp: send_renewal_def Let_def cres_simps case_prod_beta)

lemma st_selecting_out:
  assumes "st_selecting e s c = Inr out" "get_response e s c = (got, c1)"
  shows "\<not> got \<Longrightarrow> (\<exists>c2. keep_received c1 = Inr c2 \<and> out = Again (reset_tmr (new_xid (c2\<lparr> pstate := DHCPSTATE_BOOTP_FALLBACK \<rparr>))))
      \<or> (\<exists>t more. out = Again (c1\<lparr> tmr := t, pstate := (if more then DHCPSTATE_INIT else DHCPSTATE_FAILED) \<rparr>))"
    and "got \<Longrightarrow> \<exists>r c2. examine c1 = Inr (r, c2) \<and> (out = Again c2 \<or> out = Again (c2\<lparr> seen_bootp_reply := True \<rparr>)
      \<or> (\<exists>c3. keep_received c2 = Inr c3 \<and> out = Again (new_xid ((reset_tmr c3)\<lparr> pstate := DHCPSTATE_REQUESTING \<rparr>))))"
proof -
  assume "\<not> got"
  with assms show "(\<exists>c2. keep_received c1 = Inr c2 \<and> out = Again (reset_tmr (new_xid (c2\<lparr> pstate := DHCPSTATE_BOOTP_FALLBACK \<rparr>))))
      \<or> (\<exists>t more. out = Again (c1\<lparr> tmr := t, pstate := (if more then DHCPSTATE_INIT else DHCPSTATE_FAILED) \<rparr>))"
    by (auto simp: st_selecting_def Let_def cres_simps case_prod_beta split: if_splits)
next
  assume got
  with assms show "\<exists>r c2. examine c1 = Inr (r, c2) \<and> (out = Again c2 \<or> out = Again (c2\<lparr> seen_bootp_reply := True \<rparr>)
      \<or> (\<exists>c3. keep_received c2 = Inr c3 \<and> out = Again (new_xid ((reset_tmr c3)\<lparr> pstate := DHCPSTATE_REQUESTING \<rparr>))))"
    by (auto simp: st_selecting_def cres_simps split: option.splits if_splits bool.splits)
qed

lemma st_request_recv_out:
  assumes "st_request_recv e s c = Inr out" "get_response e s c = (got, c1)"
  shows "\<not> got \<Longrightarrow> \<exists>t more. out = Again (c1\<lparr> tmr := t, pstate := (if more then DHCPSTATE_REQUESTING else DHCPSTATE_FAILED) \<rparr>)"
    and "got \<Longrightarrow> \<exists>r c2. examine c1 = Inr (r, c2) \<and> (out = Again c2 \<or> out = Again (reset_tmr (new_xid (c2\<lparr> pstate := DHCPSTATE_INIT \<rparr>)))
      \<or> r = Some True \<and> msgtype c2 = DHCPACK \<and> field32 (received c2) bp_yiaddr = field32 (res c2) bp_yiaddr
        \<and> (\<exists>c3. record_lease e (reset_tmr c2) = Inr c3 \<and> out = Again (c3\<lparr> pstate := DHCPSTATE_BOUND \<rparr>)))"
proof -
  assume "\<not> got"
  moreover obtain more t where "next_timeout (retry e) (tmr c1) = (more, t)" by fastforce
  ultimately have "out = Again (c1\<lparr> tmr := t, pstate := (if more then DHCPSTATE_REQUESTING else DHCPSTATE_FAILED) \<rparr>)"
    using assms by (simp add: st_request_recv_def)
  then show "\<exists>t more. out = Again (c1\<lparr> tmr := t, pstate := (if more then DHCPSTATE_REQUESTING else DHCPSTATE_FAILED) \<rparr>)" by blast
next
  assume got
  with assms show "\<exists>r c2. examine c1 = Inr (r, c2) \<and> (out = Again c2 \<or> out = Again (reset_tmr (new_xid (c2\<lparr> pstate := DHCPSTATE_INIT \<rparr>)))
      \<or> r = Some True \<and> msgtype c2 = DHCPACK \<and> field32 (received c2) bp_yiaddr = field32 (res c2) bp_yiaddr
        \<and> (\<exists>c3. record_lease e (reset_tmr c2) = Inr c3 \<and> out = Again (c3\<lparr> pstate := DHCPSTATE_BOUND \<rparr>)))"
    by (auto simp: st_request_recv_def cres_simps split: if_splits)
qed

lemma recv_renewal_out:
  assumes "recv_renewal e s resend c = Inr out" "get_response e s c = (got, c1)"
  shows "\<not> got \<Longrightarrow> \<exists>t. out = Again (c1\<lparr> tmr := t, pstate := resend \<rparr>)"
    and "got \<Longrightarrow> \<exists>r c2. examine c1 = Inr (r, c2) \<and> (out = Again c2 \<or> out = Again (c2\<lparr> pstate := DHCPSTATE_NOTBOUND \<rparr>)
      \<or> r = Some True \<and> msgtype c2 = DHCPACK \<and> field32 (received c2) bp_yiaddr = field32 (res c2) bp_yiaddr
        \<and> (\<exists>c3 c4. record_lease e (reset_tmr c2) = Inr c3 \<and> keep_received c3 = Inr c4 \<and> out = Again (c4\<lparr> pstate := DHCPSTATE_BOUND \<rparr>)))"
proof -
  assume "\<not> got"
  with assms show "\<exists>t. out = Again (c1\<lparr> tmr := t, pstate := resend \<rparr>)"
    by (auto simp: recv_renewal_def case_prod_beta reset_tmr_def Let_def)
next
  assume got
  with assms show "\<exists>r c2. examine c1 = Inr (r, c2) \<and> (out = Again c2 \<or> out = Again (c2\<lparr> pstate := DHCPSTATE_NOTBOUND \<rparr>)
      \<or> r = Some True \<and> msgtype c2 = DHCPACK \<and> field32 (received c2) bp_yiaddr = field32 (res c2) bp_yiaddr
        \<and> (\<exists>c3 c4. record_lease e (reset_tmr c2) = Inr c3 \<and> keep_received c3 = Inr c4 \<and> out = Again (c4\<lparr> pstate := DHCPSTATE_BOUND \<rparr>)))"
    by (auto simp: recv_renewal_def cres_simps split: if_splits)
qed

lemma round_init:
  assumes "st_init e s hw c = Inr out" "pstate c = DHCPSTATE_INIT" "length (received c) = bootp_size"
  shows "round_ok c out"
proof -
  obtain p dest bs where out: "out = (case send e s dest bs (c\<lparr> world := snd (kern e Now (world c)), res := p \<rparr>) of (ok, c1) \<Rightarrow> Again (if ok then c1\<lparr> seen_bootp_reply := False, pstate := DHCPSTATE_SELECTING \<rparr> else c1\<lparr> pstate := DHCPSTATE_FAILED \<rparr>))"
    using st_init_out [OF assms(1)] .
  obtain ok k' where "send e s dest bs (c\<lparr> world := snd (kern e Now (world c)), res := p \<rparr>) = (ok, c\<lparr> res := p, world := k' \<rparr>)" using send_keeps [of e s dest bs "c\<lparr> world := snd (kern e Now (world c)), res := p \<rparr>"] by auto
  with out assms(2,3) show ?thesis by (cases ok) (simp_all add: round_ok_def successors_def state_defs)
qed

lemma round_requesting:
  assumes "st_requesting e s c = Inr out" "pstate c = DHCPSTATE_REQUESTING" "length (received c) = bootp_size"
  shows "round_ok c out"
proof -
  obtain p x dest bs where out: "out = (case send e s dest bs (c\<lparr> res := p, xmit2 := x \<rparr>) of (ok, c1) \<Rightarrow> Again (c1\<lparr> pstate := (if ok then DHCPSTATE_REQUEST_RECV else DHCPSTATE_FAILED) \<rparr>))"
    using st_requesting_out [OF assms(1)] .
  obtain ok k' where "send e s dest bs (c\<lparr> res := p, xmit2 := x \<rparr>) = (ok, c\<lparr> res := p, xmit2 := x, world := k' \<rparr>)" using send_keeps [of e s dest bs "c\<lparr> res := p, xmit2 := x \<rparr>"] by auto
  with out assms(2,3) show ?thesis by (cases ok) (simp_all add: round_ok_def successors_def state_defs)
qed

lemma round_release:
  assumes "st_release e s c = Inr out" "pstate c = DHCPSTATE_DO_RELEASE" "length (received c) = bootp_size"
  shows "round_ok c out"
proof -
  obtain p x dest bs where out: "out = (case send e s dest bs ((new_xid c)\<lparr> res := p, xmit2 := x \<rparr>) of (ok, c1) \<Rightarrow> Again (c1\<lparr> pstate := (if ok then DHCPSTATE_NOTBOUND else DHCPSTATE_FAILED) \<rparr>))"
    using st_release_out [OF assms(1)] .
  obtain ok k' where "send e s dest bs ((new_xid c)\<lparr> res := p, xmit2 := x \<rparr>) = (ok, (new_xid c)\<lparr> res := p, xmit2 := x, world := k' \<rparr>)" using send_keeps [of e s dest bs "(new_xid c)\<lparr> res := p, xmit2 := x \<rparr>"] by auto
  with out assms(2,3) show ?thesis by (cases ok) (simp_all add: round_ok_def successors_def state_defs new_xid_def)
qed

lemma round_renew_send:
  assumes "send_renewal e s u c = Inr c1" "length (received c) = bootp_size"
    and "(pstate c, st) \<in> {(DHCPSTATE_RENEWING, DHCPSTATE_RENEW_RECV), (DHCPSTATE_REBINDING, DHCPSTATE_REBIND_RECV)}"
  shows "round_ok c (Again (c1\<lparr> pstate := st \<rparr>))"
proof -
  obtain p x dest bs where "c1 = snd (send e s dest bs (c\<lparr> res := p, xmit2 := x \<rparr>))" using send_renewal_out [OF assms(1)] .
  then obtain k' where "c1 = c\<lparr> res := p, xmit2 := x, world := k' \<rparr>" using send_keeps [of e s dest bs "c\<lparr> res := p, xmit2 := x \<rparr>"] by auto
  with assms(2,3) show ?thesis by (auto simp: round_ok_def successors_def state_defs)
qed

text \<open>The receiving rounds: no packet, a packet that is ignored, or one that is accepted.\<close>

lemma keep_receivedD: "keep_received c = Inr c' \<Longrightarrow> \<exists>p. c' = c\<lparr> res := p \<rparr>"
  by (auto simp: keep_received_def cres_simps)

lemma record_leaseD: "record_lease e c = Inr c' \<Longrightarrow> \<exists>l k. c' = c\<lparr> lease := l, world := k \<rparr>"
  by (auto simp: record_lease_def cres_simps case_prod_beta)

lemma ack_examined:
  assumes "get_response e s c = (True, c1)" "examine c1 = Inr (Some True, c2)" "length (received c) = bootp_size"
    and "msgtype c2 = DHCPACK" "field32 (received c2) bp_yiaddr = field32 (res c2) bp_yiaddr" "received c' = received c2"
  shows "acked c c'"
proof -
  obtain rx l k where c1: "c1 = c\<lparr> received := rx, lease := l, world := k \<rparr>" "length rx = bootp_size"
    using get_response_keeps [OF assms(1)] assms(3) by blast
  obtain rx2 m bs n where c2: "c2 = c1\<lparr> received := rx2, msgtype := m \<rparr>" "\<not> CHECK_XID c1"
    and f: "\<forall>at k. at + k \<le> bp_siaddr \<or> bp_siaddr + 4 \<le> at \<longrightarrow> field rx2 at k = field (received c1) at k"
    and t: "get_bootp_option rx2 TAG_DHCP_MESS_TYPE 1 = Inr (Some bs, n)" "bs = [m] \<or> bs = [] \<and> m = msgtype c1"
    using examine_result [OF assms(2)] c1 by auto
  have "field32 rx2 bp_xid = xid c"
    using c2(2) f [rule_format, of bp_xid 4] c1(1) by (simp add: CHECK_XID_def Let_def field32_def field_defs)
  moreover have "field rx2 bp_chaddr h = field (res c) bp_chaddr h" if "h = unat (hd (field (res c) bp_hlen 1))" for h
    using c2(2) f [rule_format, of bp_chaddr h] c1(1) that by (simp add: CHECK_XID_def Let_def field_defs)
  ultimately show ?thesis
    using assms(4-6) c1 c2(1) t unfolding acked_def by auto
qed

lemma round_selecting:
  assumes "st_selecting e s c = Inr out" "pstate c = DHCPSTATE_SELECTING" "length (received c) = bootp_size"
  shows "round_ok c out"
proof -
  obtain got c1 where g: "get_response e s c = (got, c1)" by fastforce
  then obtain rx l k where c1: "c1 = c\<lparr> received := rx, lease := l, world := k \<rparr>" "length rx = bootp_size"
    using get_response_keeps [OF g] assms(3) by blast
  show ?thesis
  proof (cases got)
    case False
    from st_selecting_out(1) [OF assms(1) g False]
    show ?thesis
      using c1 assms(2) by (auto simp: round_ok_def successors_def state_defs reset_tmr_def new_xid_def dest!: keep_receivedD)
  next
    case True
    obtain r c2 where x: "examine c1 = Inr (r, c2)"
      and out: "out = Again c2 \<or> out = Again (c2\<lparr> seen_bootp_reply := True \<rparr>)
        \<or> (\<exists>c3. keep_received c2 = Inr c3 \<and> out = Again (new_xid ((reset_tmr c3)\<lparr> pstate := DHCPSTATE_REQUESTING \<rparr>)))"
      using st_selecting_out(2) [OF assms(1) g True] by blast
    obtain rx2 m where c2: "c2 = c1\<lparr> received := rx2, msgtype := m \<rparr>" "length rx2 = bootp_size"
      using examine_result [OF x] c1 by auto
    from out show ?thesis
      using c1 c2 assms(2) by (auto simp: round_ok_def successors_def state_defs reset_tmr_def new_xid_def dest!: keep_receivedD)
  qed
qed

lemma round_request_recv:
  assumes "st_request_recv e s c = Inr out" "pstate c = DHCPSTATE_REQUEST_RECV" "length (received c) = bootp_size"
  shows "round_ok c out"
proof -
  obtain got c1 where g: "get_response e s c = (got, c1)" by fastforce
  then obtain rx l k where c1: "c1 = c\<lparr> received := rx, lease := l, world := k \<rparr>" "length rx = bootp_size"
    using get_response_keeps [OF g] assms(3) by blast
  show ?thesis
  proof (cases got)
    case False
    then obtain t more where "out = Again (c1\<lparr> tmr := t, pstate := (if more then DHCPSTATE_REQUESTING else DHCPSTATE_FAILED) \<rparr>)"
      using st_request_recv_out(1) [OF assms(1) g] by blast
    then show ?thesis using c1 assms(2) by (cases more) (simp_all add: round_ok_def successors_def state_defs)
  next
    case True
    obtain r c2 where x: "examine c1 = Inr (r, c2)"
      and out: "out = Again c2 \<or> out = Again (reset_tmr (new_xid (c2\<lparr> pstate := DHCPSTATE_INIT \<rparr>)))
        \<or> r = Some True \<and> msgtype c2 = DHCPACK \<and> field32 (received c2) bp_yiaddr = field32 (res c2) bp_yiaddr
          \<and> (\<exists>c3. record_lease e (reset_tmr c2) = Inr c3 \<and> out = Again (c3\<lparr> pstate := DHCPSTATE_BOUND \<rparr>))"
      using st_request_recv_out(2) [OF assms(1) g True] by blast
    obtain rx2 m where c2: "c2 = c1\<lparr> received := rx2, msgtype := m \<rparr>" "length rx2 = bootp_size"
      using examine_result [OF x] c1 by auto
    from out show ?thesis
    proof (elim disjE conjE exE)
      fix c3
      assume a: "r = Some True" "msgtype c2 = DHCPACK" "field32 (received c2) bp_yiaddr = field32 (res c2) bp_yiaddr"
        "record_lease e (reset_tmr c2) = Inr c3" and o: "out = Again (c3\<lparr> pstate := DHCPSTATE_BOUND \<rparr>)"
      obtain l k where c3: "c3 = (reset_tmr c2)\<lparr> lease := l, world := k \<rparr>" using record_leaseD [OF a(4)] by blast
      have "acked c (c3\<lparr> pstate := DHCPSTATE_BOUND \<rparr>)"
        using ack_examined [of e s c c1 c2] g True x a(1-3) assms(3) c3 by (simp add: reset_tmr_def)
      then show ?thesis using o c3 c2 assms(2) by (simp add: round_ok_def successors_def state_defs reset_tmr_def)
    qed (use c1 c2 assms(2) in \<open>simp_all add: round_ok_def successors_def state_defs reset_tmr_def new_xid_def\<close>)
  qed
qed

lemma round_renew_recv:
  assumes "recv_renewal e s resend c = Inr out" "length (received c) = bootp_size"
    and "(pstate c, resend) \<in> {(DHCPSTATE_RENEW_RECV, DHCPSTATE_RENEWING), (DHCPSTATE_REBIND_RECV, DHCPSTATE_REBINDING)}"
  shows "round_ok c out"
proof -
  obtain got c1 where g: "get_response e s c = (got, c1)" by fastforce
  then obtain rx l k where c1: "c1 = c\<lparr> received := rx, lease := l, world := k \<rparr>" "length rx = bootp_size"
    using get_response_keeps [OF g] assms(2) by blast
  have succ: "successors (pstate c) = {pstate c, resend, DHCPSTATE_BOUND, DHCPSTATE_NOTBOUND}" "resend \<noteq> DHCPSTATE_BOUND" "pstate c \<noteq> DHCPSTATE_BOUND"
    using assms(3) by (auto simp: successors_def state_defs)
  show ?thesis
  proof (cases got)
    case False
    from recv_renewal_out(1) [OF assms(1) g False]
    show ?thesis using c1 succ by (auto simp: round_ok_def)
  next
    case True
    obtain r c2 where x: "examine c1 = Inr (r, c2)"
      and out: "out = Again c2 \<or> out = Again (c2\<lparr> pstate := DHCPSTATE_NOTBOUND \<rparr>)
        \<or> r = Some True \<and> msgtype c2 = DHCPACK \<and> field32 (received c2) bp_yiaddr = field32 (res c2) bp_yiaddr
          \<and> (\<exists>c3 c4. record_lease e (reset_tmr c2) = Inr c3 \<and> keep_received c3 = Inr c4 \<and> out = Again (c4\<lparr> pstate := DHCPSTATE_BOUND \<rparr>))"
      using recv_renewal_out(2) [OF assms(1) g True] by blast
    obtain rx2 m where c2: "c2 = c1\<lparr> received := rx2, msgtype := m \<rparr>" "length rx2 = bootp_size"
      using examine_result [OF x] c1 by auto
    from out show ?thesis
    proof (elim disjE conjE exE)
      fix c3 c4
      assume a: "r = Some True" "msgtype c2 = DHCPACK" "field32 (received c2) bp_yiaddr = field32 (res c2) bp_yiaddr"
        "record_lease e (reset_tmr c2) = Inr c3" "keep_received c3 = Inr c4" and o: "out = Again (c4\<lparr> pstate := DHCPSTATE_BOUND \<rparr>)"
      obtain l k p where c4: "c4 = (reset_tmr c2)\<lparr> lease := l, world := k, res := p \<rparr>"
        using record_leaseD [OF a(4)] keep_receivedD [OF a(5)] by blast
      have "acked c (c4\<lparr> pstate := DHCPSTATE_BOUND \<rparr>)"
        using ack_examined [of e s c c1 c2] g True x a(1-3) assms(2) c4 by (simp add: reset_tmr_def)
      then show ?thesis using o c4 c2 succ by (simp add: round_ok_def reset_tmr_def)
    qed (use c1 c2 succ in \<open>simp_all add: round_ok_def state_defs\<close>)
  qed
qed

text \<open>The rounds that end the loop.\<close>

lemma reinitD:
  assumes "reinit e this old c = Inr (r, c1)"
  shows "\<exists>k. c1 = (if r = None then c\<lparr> world := k, pstate := DHCPSTATE_FAILED \<rparr> else c\<lparr> world := k \<rparr>)"
proof (cases "old = this")
  case True
  with assms have "c1 = c\<lparr> world := world c \<rparr>" "r \<noteq> None" by (auto simp: reinit_def)
  then show ?thesis by (intro exI [of _ "world c"]) auto
next
  case False
  with assms obtain b old' k1 where d: "do_dhcp_down_net (kern e) (intf e) old (world c) = Inr (b, old', k1)"
    by (auto simp: reinit_def cres_simps)
  show ?thesis
  proof (cases "old' = 0")
    case True
    with assms False d show ?thesis by (auto simp: reinit_def)
  next
    case old: False
    with assms False d obtain ok k2 where i: "init_net (kern e) (net c) (intf e) (res c) k1 = Inr (ok, k2)"
      by (auto simp: reinit_def cres_simps)
    with assms False d old show ?thesis by (cases ok) (auto simp: reinit_def cres_simps)
  qed
qed

lemma round_bound:
  assumes "st_bound e s old c = Inr out" "pstate c = DHCPSTATE_BOUND"
  shows "round_ok c out"
proof -
  obtain r c1 where r: "reinit e DHCPSTATE_BOUND old (close_socket e s c) = Inr (r, c1)"
    using assms(1) by (cases "reinit e DHCPSTATE_BOUND old (close_socket e s c)") (auto simp: st_bound_def)
  show ?thesis
  proof (cases r)
    case None
    with assms(1) r have "out = Done False c1" by (simp add: st_bound_def)
    with reinitD [OF r] None assms(2) show ?thesis by (auto simp: round_ok_def successors_def state_defs)
  next
    case (Some old')
    with assms(1) r obtain k n where "out = Done True (set_wan 1 (c1\<lparr> world := k, net := n \<rparr>))"
      by (auto simp: st_bound_def cres_simps Let_def split: if_splits)
    with reinitD [OF r] Some assms(2) show ?thesis
      by (auto simp: round_ok_def successors_def state_defs set_wan_def close_socket_def)
  qed
qed

lemma round_fallback:
  assumes "st_fallback e s old c = Inr out" "pstate c = DHCPSTATE_BOOTP_FALLBACK"
  shows "round_ok c out"
proof -
  let ?c = "close_socket e s c\<lparr> lease := no_lease (lease (close_socket e s c)) \<rparr>"
  from assms(1) obtain r c1 where r: "reinit e DHCPSTATE_BOOTP_FALLBACK old ?c = Inr (r, c1)" and out: "out = Done (r \<noteq> None) c1"
    by (auto simp: st_fallback_def Let_def cres_simps)
  with reinitD [OF r] assms(2) show ?thesis
    by (auto simp: round_ok_def successors_def state_defs close_socket_def split: if_splits)
qed

lemma round_end:
  assumes "pstate c \<notin> {DHCPSTATE_INIT, DHCPSTATE_SELECTING, DHCPSTATE_REQUESTING, DHCPSTATE_REQUEST_RECV, DHCPSTATE_BOUND,
     DHCPSTATE_RENEWING, DHCPSTATE_RENEW_RECV, DHCPSTATE_REBINDING, DHCPSTATE_REBIND_RECV, DHCPSTATE_BOOTP_FALLBACK, DHCPSTATE_DO_RELEASE}"
    and "r \<longrightarrow> pstate c = DHCPSTATE_NOTBOUND"
  shows "round_ok c (st_end e s r c)"
  using assms by (simp add: round_ok_def st_end_def Let_def set_wan_def close_socket_def successors_def)

text \<open>Every round of the loop, after the alarm has been looked at.\<close>

lemma check_lease_received: "received (check_lease c) = received c" "res (check_lease c) = res c" "xid (check_lease c) = xid c"
  "msgtype (check_lease c) = msgtype c"
  by (simp_all add: check_lease_def Let_def reset_tmr_def)

lemma take_alarms_fields: "received (take_alarms e c) = received c" "res (take_alarms e c) = res c" "xid (take_alarms e c) = xid c"
  "msgtype (take_alarms e c) = msgtype c" "pstate (take_alarms e c) = pstate c"
  using take_alarms_keeps [of e c] by auto

lemma dhcp_round:
  assumes "dhcp_iter e s hw old c = Inr out" "length (received c) = bootp_size"
  shows "round_ok (check_lease (take_alarms e c)) out"
proof -
  define d where "d = check_lease (take_alarms e c)"
  have len: "length (received d) = bootp_size" using assms(2) by (simp add: d_def check_lease_received take_alarms_fields)
  note iter = assms(1) [unfolded dhcp_iter_cases Let_def d_def [symmetric]]
  consider "pstate d = DHCPSTATE_INIT" | "pstate d = DHCPSTATE_SELECTING" | "pstate d = DHCPSTATE_REQUESTING"
    | "pstate d = DHCPSTATE_REQUEST_RECV" | "pstate d = DHCPSTATE_BOUND" | "pstate d = DHCPSTATE_RENEWING"
    | "pstate d = DHCPSTATE_RENEW_RECV" | "pstate d = DHCPSTATE_REBINDING" | "pstate d = DHCPSTATE_REBIND_RECV"
    | "pstate d = DHCPSTATE_BOOTP_FALLBACK" | "pstate d = DHCPSTATE_DO_RELEASE"
    | "pstate d \<notin> {DHCPSTATE_INIT, DHCPSTATE_SELECTING, DHCPSTATE_REQUESTING, DHCPSTATE_REQUEST_RECV, DHCPSTATE_BOUND,
     DHCPSTATE_RENEWING, DHCPSTATE_RENEW_RECV, DHCPSTATE_REBINDING, DHCPSTATE_REBIND_RECV, DHCPSTATE_BOOTP_FALLBACK, DHCPSTATE_DO_RELEASE}"
    by blast
  then have "round_ok d out"
  proof cases
    case 6
    with iter obtain c1 where "send_renewal e s True d = Inr c1" "out = Again (c1\<lparr> pstate := DHCPSTATE_RENEW_RECV \<rparr>)"
      by (auto simp: state_defs cres_simps)
    with 6 len show ?thesis by (auto intro!: round_renew_send)
  next
    case 8
    with iter obtain c1 where "send_renewal e s False d = Inr c1" "out = Again (c1\<lparr> pstate := DHCPSTATE_REBIND_RECV \<rparr>)"
      by (auto simp: state_defs cres_simps)
    with 8 len show ?thesis by (auto intro!: round_renew_send)
  next
    case 12
    with iter have "out = st_end e s (pstate d = DHCPSTATE_NOTBOUND) d" by (auto split: if_splits)
    with 12 show ?thesis by (simp add: round_end)
  qed (use iter len in \<open>auto simp: state_defs intro: round_init round_selecting round_requesting round_request_recv round_bound
      round_renew_recv round_fallback round_release\<close>)
  then show ?thesis by (simp add: d_def)
qed

text \<open>The states a conversation passes through.\<close>

inductive dhcp_run :: "('k, 'f) dhcp_env \<Rightarrow> int \<Rightarrow> u8 list \<Rightarrow> u8 \<Rightarrow> ('k, 'f) client \<Rightarrow> ('k, 'f) client \<Rightarrow> bool"
  for e s hw old where
  start: "dhcp_run e s hw old c c"
| more: "dhcp_run e s hw old c c1 \<Longrightarrow> dhcp_iter e s hw old c1 = Inr (Again c2) \<Longrightarrow> dhcp_run e s hw old c c2"

lemma run_front: "dhcp_iter e s hw old c = Inr (Again c1) \<Longrightarrow> dhcp_run e s hw old c1 c2 \<Longrightarrow> dhcp_run e s hw old c c2"
  by (rotate_tac, induction rule: dhcp_run.induct) (auto intro: dhcp_run.intros)

lemma check_lease_bound: "pstate (check_lease (take_alarms e c)) = DHCPSTATE_BOUND \<Longrightarrow> pstate c = DHCPSTATE_BOUND"
  by (auto simp: check_lease_def Let_def reset_tmr_def take_alarms_fields state_defs split: if_splits)

lemma loop_bound_acked:
  assumes "dhcp_loop n e s hw old c = Inr (Some (r, c'))" "pstate c' = DHCPSTATE_BOUND" "pstate c \<noteq> DHCPSTATE_BOUND"
    and "length (received c) = bootp_size"
  shows "\<exists>c1 c2. dhcp_run e s hw old c c1 \<and> dhcp_iter e s hw old c1 = Inr (Again c2) \<and> acked (check_lease (take_alarms e c1)) c2"
  using assms
proof (induction n arbitrary: c)
  case 0
  then show ?case by simp
next
  case (Suc n)
  from Suc.prems(1) obtain out where out: "dhcp_iter e s hw old c = Inr out" by (cases "dhcp_iter e s hw old c") simp_all
  note ok = dhcp_round [OF out Suc.prems(4)]
  show ?case
  proof (cases out)
    case (Done b d)
    with Suc.prems(1) out have "c' = d" by simp
    then have "pstate c = DHCPSTATE_BOUND" using ok Done Suc.prems(2) check_lease_bound by (auto simp: round_ok_def)
    with Suc.prems(3) show ?thesis by simp
  next
    case (Again d)
    show ?thesis
    proof (cases "pstate d = DHCPSTATE_BOUND")
      case True
      then have "acked (check_lease (take_alarms e c)) d" using ok Again by (simp add: round_ok_def)
      then show ?thesis using out Again dhcp_run.start by blast
    next
      case False
      moreover have "length (received d) = bootp_size" using ok Again by (simp add: round_ok_def)
      moreover have "dhcp_loop n e s hw old d = Inr (Some (r, c'))" using Suc.prems(1) out Again by simp
      ultimately show ?thesis using Suc.IH [of d] Suc.prems(2) run_front [of e s hw old c d] out Again by blast
    qed
  qed
qed

text \<open>The loop starts in the state that \<^verbatim>\<open>do_dhcp\<close> was given, or in \<^verbatim>\<open>INIT\<close>.\<close>

lemma do_dhcp_loop:
  assumes "do_dhcp n e c = Inr (Some (r, c'))"
  shows "(pstate c' = DHCPSTATE_BOUND \<longrightarrow> pstate c = DHCPSTATE_BOUND) \<or> (\<exists>s hw c0. dhcp_loop n e s hw (pstate c) c0 = Inr (Some (r, c'))
     \<and> pstate c0 \<in> {pstate c, DHCPSTATE_INIT} \<and> received c0 = received c \<and> res c0 = res c)"
proof -
  obtain ok c1 where half: "(if pstate c = DHCPSTATE_INIT \<or> pstate c = DHCPSTATE_FAILED \<or> pstate c = 0 then
                 bind_ok (bring_half_up (kern e) (intf e) (world c)) (\<lambda>(ok, k).
                 Inr (ok, if ok then c\<lparr> world := k, pstate := DHCPSTATE_INIT, lease := (lease c)\<lparr> l_which := 0, l_next := 0 \<rparr> \<rparr>
                          else c\<lparr> world := k \<rparr>))
               else Inr (True, c)) = Inr (ok, c1)" (is "?half = _")
    using assms by (cases ?half) (auto simp: do_dhcp_def)
  then have c1: "pstate c1 \<in> {pstate c, DHCPSTATE_INIT}" "received c1 = received c" "res c1 = res c"
    by (auto simp: cres_simps split: if_splits)
  then have nb: "pstate c1 = DHCPSTATE_BOUND \<Longrightarrow> pstate c = DHCPSTATE_BOUND" by (auto simp: state_defs)
  obtain x k where sock: "kern e Socket (world c1) = (x, k)" by fastforce
  show ?thesis
  proof (cases "ok \<and> (\<exists>s d. x = Ok s d \<and> 0 \<le> s)")
    case False
    with assms half sock have "pstate c' = pstate c1" by (auto simp: do_dhcp_def split: kres.splits if_splits)
    with nb show ?thesis by simp
  next
    case True
    then obtain s d where s: ok "x = Ok s d" "0 \<le> s" by blast
    obtain ok2 k1 where prep: "sock_setup e s k = Inr (ok2, k1)"
      using assms half sock s by (cases "sock_setup e s k") (auto simp: do_dhcp_def)
    obtain hx k2 where hx: "kern e (Ioctl s (SIOCGIFHWADDR (strlcpy (intf e) IFNAMSIZ))) k1 = (hx, k2)" by fastforce
    show ?thesis
    proof (cases "ok2 \<and> (\<exists>v hw. hx = Ok v hw)")
      case False
      with assms half sock s prep hx have "pstate c' = pstate c1"
        by (auto simp: do_dhcp_def Let_def close_socket_def reset_tmr_def split: kres.splits if_splits)
      with nb show ?thesis by simp
    next
      case True
      then obtain v hw where h: ok2 "hx = Ok v hw" by blast
      obtain rx k3 where rnd: "kern e Random k2 = (rx, k3)" by fastforce
      define c0 where "c0 = (reset_tmr (c1\<lparr> world := k1, seen_bootp_reply := False, msgtype := 0 \<rparr>))
          \<lparr> world := k3, xid := first_xid hw (case rx of Ok v _ \<Rightarrow> word_of_int v | Fail _ \<Rightarrow> 0) \<rparr>"
      have "dhcp_loop n e s hw (pstate c) c0 = Inr (Some (r, c'))"
        using assms half sock s prep hx h rnd by (simp add: do_dhcp_def Let_def c0_def)
      moreover have "pstate c0 \<in> {pstate c, DHCPSTATE_INIT}" "received c0 = received c" "res c0 = res c"
        using c1 by (simp_all add: c0_def reset_tmr_def)
      ultimately show ?thesis by blast
    qed
  qed
qed

section \<open>Properties of the rounds\<close>

text \<open>
  (C22) The client follows the state graph of RFC 2131: every round of \<^verbatim>\<open>do_dhcp\<close> that continues makes a move of
  the graph from the state it found, or from the one the lease alarm has put it into, whatever the server
  and the network stack do; the loop ends only in a state without successors, and with success only when
  bound, after a BOOTP reply, or when the lease is over.
\<close>

theorem rounds_follow_state_graph:
  assumes "dhcp_iter e s hw old c = Inr out" "length (received c) = bootp_size"
  shows "\<exists>st. (st = pstate c \<or> l_which (lease (take_alarms e c)) \<noteq> 0 \<and> st \<in> {DHCPSTATE_RENEWING, DHCPSTATE_REBINDING, DHCPSTATE_NOTBOUND})
     \<and> (case out of
          Again c' \<Rightarrow> pstate c' \<in> successors st
        | Done r c' \<Rightarrow> successors st = {} \<and> (r = True \<longrightarrow> st \<in> {DHCPSTATE_BOUND, DHCPSTATE_BOOTP_FALLBACK, DHCPSTATE_NOTBOUND}))"
proof -
  let ?st = "pstate (check_lease (take_alarms e c))"
  have "?st = pstate c \<or> l_which (lease (take_alarms e c)) \<noteq> 0 \<and> ?st \<in> {DHCPSTATE_RENEWING, DHCPSTATE_REBINDING, DHCPSTATE_NOTBOUND}"
    by (auto simp: check_lease_def Let_def reset_tmr_def take_alarms_fields lease_bits)
  moreover have "case out of Again c' \<Rightarrow> pstate c' \<in> successors ?st
      | Done r c' \<Rightarrow> successors ?st = {} \<and> (r = True \<longrightarrow> ?st \<in> {DHCPSTATE_BOUND, DHCPSTATE_BOOTP_FALLBACK, DHCPSTATE_NOTBOUND})"
    using dhcp_round [OF assms] by (auto simp: round_ok_def split: outcome.splits)
  ultimately show ?thesis by blast
qed

definition demo_client :: "u8 \<Rightarrow> 'k \<Rightarrow> ('k, unit) client" where
  "demo_client st k = \<lparr> pstate = st, res = replicate bootp_size 0,
     lease = \<lparr> l_t1 = 0, l_t2 = 0, l_expiry = 0, l_next = 0, l_which = 0, l_alarm = None, attention = 0 \<rparr>,
     received = replicate bootp_size 0, xmit2 = replicate bootp_size 0, xid = 0,
     tmr = \<lparr> timeout_random = 0, t_secs = 0, countdown = 0, tv_sec = 0, tv_usec = 0 \<rparr>,
     seen_bootp_reply = False, msgtype = 0, net = demo_net (), world = k \<rparr>"

definition demo_env :: "'k kernel \<Rightarrow> ('k, unit) dhcp_env" where
  "demo_env ke = \<lparr> kern = ke, cops = demo_ops, retry = 50, rsl = \<lparr> dividend = 1000000000, divisor = 100 \<rparr>, intf = WAN \<rparr>"

theorem rounds_follow_state_graph_witness:
  "\<exists>out st. dhcp_iter (demo_env yes_kernel) 3 [] 0 (demo_client DHCPSTATE_FAILED ()) = Inr out \<and> st = DHCPSTATE_FAILED
     \<and> (case out of Again c' \<Rightarrow> False | Done r c' \<Rightarrow> successors st = {} \<and> \<not> r)"
proof -
  let ?e = "demo_env yes_kernel" and ?c = "demo_client DHCPSTATE_FAILED ()"
  have a: "take_alarms ?e ?c = ?c"
    by (simp add: take_alarms_def demo_env_def demo_client_def yes_kernel_def fire_def eval_nat_numeral)
  moreover have "check_lease ?c = ?c" by (simp add: check_lease_def demo_client_def state_defs)
  ultimately have it: "dhcp_iter ?e 3 [] 0 ?c = Inr (st_end ?e 3 False ?c)"
    by (simp add: dhcp_iter_cases) (simp add: demo_client_def state_defs)
  have "\<exists>st. (st = pstate ?c \<or> l_which (lease (take_alarms ?e ?c)) \<noteq> 0 \<and> st \<in> {DHCPSTATE_RENEWING, DHCPSTATE_REBINDING, DHCPSTATE_NOTBOUND})
     \<and> (case st_end ?e 3 False ?c of Again c' \<Rightarrow> pstate c' \<in> successors st
        | Done r c' \<Rightarrow> successors st = {} \<and> (r = True \<longrightarrow> st \<in> {DHCPSTATE_BOUND, DHCPSTATE_BOOTP_FALLBACK, DHCPSTATE_NOTBOUND}))"
    by (rule rounds_follow_state_graph [OF it]) (simp add: demo_client_def)
  then have "successors DHCPSTATE_FAILED = {}" unfolding a by (auto simp: demo_client_def st_end_def Let_def)
  then show ?thesis using it by (auto simp: st_end_def Let_def)
qed

end
