(* ===== verification/Dhcp_Protocol.thy ===== *)
theory Dhcp_Protocol
  imports Dhcp_Graph
begin

text \<open>
  What the DHCP client does: the packets it builds, the rounds of its state machine, and the properties of
  whole conversations with a server, of the lease and of the sockets.
\<close>

section \<open>Packets\<close>

text \<open>The options after an attempt to set one: without room the old value is lost.\<close>

definition put_item :: "u8 \<Rightarrow> u8 list \<Rightarrow> item list \<Rightarrow> item list" where
  "put_item tag v is = (if length (enc (set_item tag v is)) \<le> room then set_item tag v is else remove_last tag is)"

lemma sent_tags_ok [simp]:
  "tag_ok TAG_DHCP_MESS_TYPE" "tag_ok TAG_DHCP_REQ_IP" "tag_ok TAG_DHCP_PARM_REQ_LIST" "tag_ok TAG_DHCP_MAX_MSGSZ"
  "tag_ok TAG_DHCP_SERVER_ID" "tag_ok TAG_DHCP_LEASE_TIME" "tag_ok TAG_DHCP_RENEWAL_TIME" "tag_ok TAG_DHCP_REBIND_TIME"
  by (simp_all add: tag_ok_def tag_defs)

lemma put_tag_carries:
  assumes "carries p is" "tag_ok tag" "n < 256"
  shows "\<exists>p'. put_tag p tag v n = Inr p' \<and> carries p' (put_item tag (be_bytes n v) is) \<and> same_header p p'"
  using set_variable_carries [OF assms(1,2), of "be_bytes n v"] set_fixed_variable [OF assms, of v] assms(3)
  by (auto simp: put_tag_def put_item_def)

lemma put_type_carries:
  assumes "carries p is"
  shows "\<exists>p'. put_tag p TAG_DHCP_MESS_TYPE (ucast t) 1 = Inr p' \<and> carries p' (put_item TAG_DHCP_MESS_TYPE [t] is) \<and> same_header p p'"
proof -
  have "ucast (ucast t :: u32) = t" by (rule bit_word_eqI) (simp add: bit_simps)
  then have "be_bytes 1 (ucast t) = [t]" by (simp only: be_bytes_values)
  then show ?thesis using put_tag_carries [OF assms, of TAG_DHCP_MESS_TYPE 1 "ucast t"] by simp
qed

lemma drop_tag_carries:
  assumes "carries p is" "tag \<noteq> TAG_PAD"
  shows "\<exists>p'. drop_tag p tag = Inr p' \<and> carries p' (remove_last tag is) \<and> same_header p p'"
  using unset_tag_carries [OF assms] by (auto simp: drop_tag_def)

lemma req_list_set: "hd req_list \<noteq> 0" "length req_list = 9"
  by (simp_all add: req_list_def tag_defs)

definition default_items :: "item list \<Rightarrow> item list" where
  "default_items is = put_item TAG_DHCP_MAX_MSGSZ (be_bytes 2 BP_MINPKTSZ) (put_item TAG_DHCP_PARM_REQ_LIST req_list is)"

lemma default_tags_carries:
  assumes "carries p is"
  shows "\<exists>p'. set_default_dhcp_tags p = Inr p' \<and> carries p' (default_items is) \<and> same_header p p'"
proof -
  obtain p1 where p1: "set_variable_tag p TAG_DHCP_PARM_REQ_LIST req_list (length req_list)
      = Inr (length (enc (set_item TAG_DHCP_PARM_REQ_LIST req_list is)) \<le> room, p1)"
    "carries p1 (put_item TAG_DHCP_PARM_REQ_LIST req_list is)" "same_header p p1"
    using set_variable_carries [OF assms, of TAG_DHCP_PARM_REQ_LIST req_list]
    by (auto simp: req_list_set put_item_def)
  obtain p2 where "put_tag p1 TAG_DHCP_MAX_MSGSZ BP_MINPKTSZ 2 = Inr p2" "carries p2 (default_items is)" "same_header p1 p2"
    using put_tag_carries [OF p1(2), of TAG_DHCP_MAX_MSGSZ 2 BP_MINPKTSZ] by (auto simp: default_items_def)
  with p1 show ?thesis using same_header_trans by (auto simp: set_default_dhcp_tags_def req_list_set(1))
qed

lemma carries_room: "carries p is \<Longrightarrow> bp_vend + 5 + length (enc is) \<le> bootp_size"
  by (erule carriesE) (simp add: field_defs)

lemma carries_length: "carries p is \<Longrightarrow> length p = bootp_size"
  by (simp add: carries_def)

text \<open>What a packet says about the transaction: number and hardware address.\<close>

definition ident :: "packet \<Rightarrow> u32 \<times> u8 list \<times> u8 list" where
  "ident p = (field32 p bp_xid, field p bp_htype 2, field p bp_chaddr 16)"

lemma same_header_ident: "same_header p q \<Longrightarrow> ident p = ident q"
  by (simp add: ident_def same_header_field same_header_field32 field_defs)

lemma discover_carries:
  assumes "6 \<le> length hw"
  shows "carries (discover_packet x secs hw) []" "field32 (discover_packet x secs hw) bp_xid = x"
    "field (discover_packet x secs hw) bp_htype 2 = [1, 6]" "field (discover_packet x secs hw) bp_chaddr 6 = take 6 hw"
proof -
  define p5 where "p5 = put_field (put_field (put_field (put_field32 (put_field (replicate bootp_size 0) bp_op [1, 1, 6]) bp_xid x)
     bp_secs (put_u16 secs)) bp_flags (put_u16 0x8000)) bp_chaddr (take 6 hw)"
  have d: "discover_packet x secs hw = put_field (put_field p5 bp_vend cookie) (bp_vend + 4) (enc [] @ [TAG_END])"
    using put_field_append [of bp_vend cookie p5 "[TAG_END]"] assms
    by (simp add: discover_packet_def p5_def Let_def put_field32_def put_u16_def cookie_def field_defs)
  have len: "length p5 = bootp_size" using assms by (simp add: p5_def put_field32_def put_u16_def field_defs)
  then show "carries (discover_packet x secs hw) []"
    unfolding d using field_put_same [of bp_vend cookie p5] length_cookie by (intro put_field_start) (simp_all add: field_defs)
  have other: "field (discover_packet x secs hw) at n = field p5 at n" if "at + n \<le> bp_vend" for at n
    unfolding d using that len by (subst field_put_other | simp add: cookie_def field_defs)+
  show "field32 (discover_packet x secs hw) bp_xid = x"
    using other [of bp_xid 4] assms by (simp add: field32_def p5_def put_field32_def field_put_other put_u16_def field_defs)
      (simp add: field_def put_field_def)
  show "field (discover_packet x secs hw) bp_chaddr 6 = take 6 hw"
    using other [of bp_chaddr 6] assms by (simp add: p5_def field_def put_field_def put_field32_def put_u16_def field_defs)
  show "field (discover_packet x secs hw) bp_htype 2 = [1, 6]"
    using other [of bp_htype 2] assms by (simp add: p5_def put_field32_def field_put_other put_u16_def field_defs)
      (simp add: field_def put_field_def)
qed

section \<open>Rounds\<close>

definition discover_items :: "item list" where
  "discover_items = default_items (put_item TAG_DHCP_MESS_TYPE [DHCPDISCOVER] [])"

text \<open>The first round broadcasts a DISCOVER.\<close>

lemma st_init_sends:
  assumes "6 \<le> length hw"
  shows "\<exists>p n. carries p discover_items \<and> n \<le> bootp_size \<and> bp_vend + 5 + length (enc discover_items) \<le> n
     \<and> field32 p bp_xid = xid c \<and> field p bp_htype 2 = [1, 6] \<and> field p bp_chaddr 6 = take 6 hw
     \<and> st_init e s hw c = (case send e s INADDR_BROADCAST (take n p) (c\<lparr> world := snd (kern e Now (world c)), res := p \<rparr>) of
         (ok, c1) \<Rightarrow> Inr (Again (if ok then c1\<lparr> seen_bootp_reply := False, pstate := DHCPSTATE_SELECTING \<rparr>
                     else c1\<lparr> pstate := DHCPSTATE_FAILED \<rparr>)))"
proof -
  obtain x k where now: "kern e Now (world c) = (x, k)" by fastforce
  define secs :: u16 where "secs = ucast ((case x of Ok n _ \<Rightarrow> word_of_int n :: u64 | Fail _ \<Rightarrow> 0) div 100)"
  define p0 where "p0 = discover_packet (xid c) secs hw"
  note d = discover_carries [OF assms, of "xid c" secs, folded p0_def]
  obtain p1 where p1: "put_tag p0 TAG_DHCP_MESS_TYPE (ucast DHCPDISCOVER) 1 = Inr p1"
    "carries p1 (put_item TAG_DHCP_MESS_TYPE [DHCPDISCOVER] [])" "same_header p0 p1"
    using put_type_carries [OF d(1)] by blast
  obtain p2 where p2: "set_default_dhcp_tags p1 = Inr p2" "carries p2 discover_items" "same_header p1 p2"
    using default_tags_carries [OF p1(2)] by (auto simp: discover_items_def)
  obtain p3 where p3: "dhcp_size_for_send p2 = Inr (max (bp_vend + 5 + length (enc discover_items)) BP_STD_TX_MINPKTSZ, p3)"
    "carries p3 discover_items" "same_header p2 p3"
    using size_for_send_carries [OF p2(2)] by blast
  have hdr: "same_header p0 p3" using p1(3) p2(3) p3(3) same_header_trans by blast
  have "field32 p3 bp_xid = xid c" "field p3 bp_htype 2 = [1, 6]" "field p3 bp_chaddr 6 = take 6 hw"
    using d(2-4) same_header_field [OF hdr, of bp_htype 2] same_header_field [OF hdr, of bp_chaddr 6]
      same_header_field32 [OF hdr, of bp_xid] by (simp_all add: field_defs)
  moreover have "bp_vend + 5 + length (enc discover_items) \<le> bootp_size"
    using carries_room [OF p3(2)] .
  moreover have "BP_STD_TX_MINPKTSZ \<le> bootp_size" by (simp add: BP_STD_TX_MINPKTSZ_def bootp_size_def)
  moreover have "st_init e s hw c = (case send e s INADDR_BROADCAST (take (max (bp_vend + 5 + length (enc discover_items)) BP_STD_TX_MINPKTSZ) p3)
      (c\<lparr> world := snd (kern e Now (world c)), res := p3 \<rparr>) of
         (ok, c1) \<Rightarrow> Inr (Again (if ok then c1\<lparr> seen_bootp_reply := False, pstate := DHCPSTATE_SELECTING \<rparr>
                     else c1\<lparr> pstate := DHCPSTATE_FAILED \<rparr>)))"
    unfolding st_init_def now Let_def prod.case secs_def [symmetric] p0_def [symmetric] p1(1) p2(1) p3(1) bind_ok_Inr by simp
  ultimately show ?thesis
    using p3(2) by (intro exI [of _ p3] exI [of _ "max (bp_vend + 5 + length (enc discover_items)) BP_STD_TX_MINPKTSZ"]) simp
qed


text \<open>Without an alarm that is set, the lease does not interrupt.\<close>

definition calm :: "dhcp_lease \<Rightarrow> bool" where
  "calm l \<longleftrightarrow> (\<forall>t. l_alarm l \<noteq> Some (Armed t)) \<and> l_which l = 0"

lemma fire_calm: "calm l \<Longrightarrow> (fire ^^ n) l = l"
proof (induction n)
  case 0
  then show ?case by simp
next
  case (Suc n)
  then show ?case by (auto simp: fire_def calm_def split: option.splits alarm.splits)
qed

lemma take_alarms_calm: "calm (lease c) \<Longrightarrow> \<exists>k. take_alarms e c = c\<lparr> world := k \<rparr>"
  by (auto simp: take_alarms_def fire_calm split: prod.splits kres.splits)

lemma check_lease_calm: "l_which (lease c) = 0 \<Longrightarrow> check_lease c = c"
  by (simp add: check_lease_def lease_bits Let_def)

text \<open>The round of each state.\<close>

lemma dispatch:
  assumes "c' = check_lease (take_alarms e c)"
  shows "pstate c' = DHCPSTATE_INIT \<Longrightarrow> dhcp_iter e s hw old c = st_init e s hw c'"
    "pstate c' = DHCPSTATE_SELECTING \<Longrightarrow> dhcp_iter e s hw old c = st_selecting e s c'"
    "pstate c' = DHCPSTATE_REQUESTING \<Longrightarrow> dhcp_iter e s hw old c = st_requesting e s c'"
    "pstate c' = DHCPSTATE_REQUEST_RECV \<Longrightarrow> dhcp_iter e s hw old c = st_request_recv e s c'"
    "pstate c' = DHCPSTATE_BOUND \<Longrightarrow> dhcp_iter e s hw old c = st_bound e s old c'"
    "pstate c' = DHCPSTATE_FAILED \<Longrightarrow> dhcp_iter e s hw old c = Inr (st_end e s False c')"
  unfolding dhcp_iter_cases Let_def assms [symmetric] by (simp_all add: state_defs)

section \<open>A server that does not answer\<close>

lemma next_timeout_split: "next_timeout r t = (tv_sec (snd (next_timeout 0 t)) < r, snd (next_timeout 0 t))"
  by (simp add: next_timeout_def Let_def)

definition nth_timer :: "nat \<Rightarrow> timer \<Rightarrow> timer" where
  "nth_timer i t = ((\<lambda>t. snd (next_timeout 0 t)) ^^ i) (reset_timeout t)"

lemma nth_timer_Suc: "snd (next_timeout 0 (nth_timer i t)) = nth_timer (Suc i) t"
  by (simp add: nth_timer_def)

lemma nth_timer_pred: "0 < i \<Longrightarrow> nth_timer i t = snd (next_timeout 0 (nth_timer (i - 1) t))"
  by (simp add: nth_timer_Suc)

definition timer_at :: "u8 \<Rightarrow> u32 \<Rightarrow> timer \<Rightarrow> bool" where
  "timer_at r x t \<longleftrightarrow> timeout_random t = r \<and> tv_sec t = x"

lemma timer_step:
  assumes "timer_at r x t" "r' = r + 1" "b = ucast (r' AND 3)" "x' = 2 * x - 2 + b"
  shows "timer_at r' x' (snd (next_timeout 0 t))"
  using assms by (simp add: timer_at_def next_timeout_def Let_def mult.commute)

text \<open>The waiting times in seconds are 4, 8, 17, 32, 63, 126, 253, 504, 1007, 2014 and 4029.\<close>

lemma tenth_timeout: "tv_sec (nth_timer 10 t) = 4029"
proof -
  have "timer_at 1 4 (nth_timer 0 t)" by (simp add: timer_at_def nth_timer_def reset_timeout_def Let_def)
  then have "timer_at 2 8 (nth_timer 1 t)" using timer_step [of 1 4 "nth_timer 0 t" 2 2 8] nth_timer_pred [of 1 t] by simp
  then have "timer_at 3 17 (nth_timer 2 t)" using timer_step [of 2 8 "nth_timer 1 t" 3 3 17] nth_timer_pred [of 2 t] by simp
  then have "timer_at 4 32 (nth_timer 3 t)" using timer_step [of 3 17 "nth_timer 2 t" 4 0 32] nth_timer_pred [of 3 t] by simp
  then have "timer_at 5 63 (nth_timer 4 t)" using timer_step [of 4 32 "nth_timer 3 t" 5 1 63] nth_timer_pred [of 4 t] by simp
  then have "timer_at 6 126 (nth_timer 5 t)" using timer_step [of 5 63 "nth_timer 4 t" 6 2 126] nth_timer_pred [of 5 t] by simp
  then have "timer_at 7 253 (nth_timer 6 t)" using timer_step [of 6 126 "nth_timer 5 t" 7 3 253] nth_timer_pred [of 6 t] by simp
  then have "timer_at 8 504 (nth_timer 7 t)" using timer_step [of 7 253 "nth_timer 6 t" 8 0 504] nth_timer_pred [of 7 t] by simp
  then have "timer_at 9 1007 (nth_timer 8 t)" using timer_step [of 8 504 "nth_timer 7 t" 9 1 1007] nth_timer_pred [of 8 t] by simp
  then have "timer_at 10 2014 (nth_timer 9 t)" using timer_step [of 9 1007 "nth_timer 8 t" 10 2 2014] nth_timer_pred [of 9 t] by simp
  then have "timer_at 11 4029 (nth_timer 10 t)" using timer_step [of 10 2014 "nth_timer 9 t" 11 3 4029] nth_timer_pred [of 10 t] by simp
  then show ?thesis by (simp add: timer_at_def)
qed

lemma dhcp_loop_more: "dhcp_loop n e s hw old c = Inr (Some r) \<Longrightarrow> n \<le> m \<Longrightarrow> dhcp_loop m e s hw old c = Inr (Some r)"
proof (induction n arbitrary: m c)
  case 0
  then show ?case by simp
next
  case (Suc n)
  from Suc.prems(2) obtain m' where m: "m = Suc m'" "n \<le> m'" by (cases m) auto
  from Suc.prems(1) obtain out where out: "dhcp_iter e s hw old c = Inr out"
    by (cases "dhcp_iter e s hw old c") simp_all
  show ?case
  proof (cases out)
    case (Again c')
    with Suc.prems(1) out m Suc.IH [of c' m'] show ?thesis by simp
  next
    case (Done b c')
    with Suc.prems(1) out m show ?thesis by simp
  qed
qed

definition silent :: "'k kernel \<Rightarrow> bool" where
  "silent ke \<longleftrightarrow> (\<forall>s k. \<exists>f k'. ke (RecvFrom s) k = (Fail f, k'))"

lemma silent_response:
  assumes "silent (kern e)" "calm (lease c)"
  shows "\<exists>k. get_response e s c = (False, c\<lparr> world := k \<rparr>)"
proof -
  define k1 where "k1 = snd (kern e (Setsockopt s (SO_RCVTIMEO (tv_sec (tmr c)))) (world c))"
  obtain f k2 where "kern e (RecvFrom s) k1 = (Fail f, k2)" using assms(1) unfolding silent_def by blast
  moreover obtain k where "take_alarms e (c\<lparr> world := k2 \<rparr>) = c\<lparr> world := k \<rparr>"
    using take_alarms_calm [of "c\<lparr> world := k2 \<rparr>" e] assms(2) by auto
  ultimately show ?thesis by (auto simp: get_response_def k1_def [symmetric] Let_def)
qed

definition gave_up :: "('k, 'f) client \<Rightarrow> ('k, 'f) client \<Rightarrow> bool" where
  "gave_up c c' \<longleftrightarrow> pstate c' = DHCPSTATE_FAILED \<and> lease c' = no_lease (lease c) \<and> net c' = net (set_wan 0 c)"

lemma failed_ends:
  assumes "pstate c = DHCPSTATE_FAILED" "calm (lease c)"
  shows "\<exists>c'. dhcp_loop (Suc n) e s hw old c = Inr (Some (False, c')) \<and> gave_up c c'"
proof -
  obtain k where k: "take_alarms e c = c\<lparr> world := k \<rparr>" using take_alarms_calm [OF assms(2)] by blast
  have "check_lease (c\<lparr> world := k \<rparr>) = c\<lparr> world := k \<rparr>" using assms(2) by (intro check_lease_calm) (simp add: calm_def)
  then have "dhcp_iter e s hw old c = Inr (st_end e s False (c\<lparr> world := k \<rparr>))"
    using dispatch(6) [of "c\<lparr> world := k \<rparr>" e c] assms(1) k by simp
  then show ?thesis using assms(1) by (simp add: st_end_def close_socket_def set_wan_def gave_up_def Let_def)
qed

lemma silent_rounds:
  assumes "silent (kern e)" "6 \<le> length hw" "retry e \<le> 3600"
  shows "pstate c = DHCPSTATE_INIT \<Longrightarrow> calm (lease c) \<Longrightarrow> tmr c = nth_timer i t \<Longrightarrow> i + j = 10 \<Longrightarrow> 0 < j \<Longrightarrow>
     \<exists>c'. dhcp_loop (2 * j + 1) e s hw old c = Inr (Some (False, c')) \<and> gave_up c c'"
proof (induction j arbitrary: c i)
  case 0
  then show ?case by simp
next
  case (Suc j)
  obtain k1 where "take_alarms e c = c\<lparr> world := k1 \<rparr>" using take_alarms_calm [OF Suc.prems(2)] by blast
  then have 1: "c\<lparr> world := k1 \<rparr> = check_lease (take_alarms e c)" using Suc.prems(2) by (simp add: check_lease_calm calm_def)
  obtain p n where "st_init e s hw (c\<lparr> world := k1 \<rparr>) = (case send e s INADDR_BROADCAST (take n p)
      (c\<lparr> world := snd (kern e Now k1), res := p \<rparr>) of
         (ok, c1) \<Rightarrow> Inr (Again (if ok then c1\<lparr> seen_bootp_reply := False, pstate := DHCPSTATE_SELECTING \<rparr>
                     else c1\<lparr> pstate := DHCPSTATE_FAILED \<rparr>)))"
    using st_init_sends [OF assms(2), of "c\<lparr> world := k1 \<rparr>" e s] by auto
  moreover obtain ok k2 where "send e s INADDR_BROADCAST (take n p) (c\<lparr> world := snd (kern e Now k1), res := p \<rparr>) = (ok, c\<lparr> res := p, world := k2 \<rparr>)"
    using send_keeps [of e s INADDR_BROADCAST "take n p" "c\<lparr> world := snd (kern e Now k1), res := p \<rparr>"] by auto
  ultimately have init: "dhcp_iter e s hw old c = Inr (Again (if ok then c\<lparr> res := p, world := k2, seen_bootp_reply := False, pstate := DHCPSTATE_SELECTING \<rparr>
      else c\<lparr> res := p, world := k2, pstate := DHCPSTATE_FAILED \<rparr>))"
    using dispatch(1) [OF 1, of s hw old] Suc.prems(1) by simp
  show ?case
  proof (cases ok)
    case False
    with init show ?thesis
      using failed_ends [of "c\<lparr> res := p, world := k2, pstate := DHCPSTATE_FAILED \<rparr>" "2 * j + 1" e s hw old] Suc.prems(2)
      by (simp add: gave_up_def set_wan_def)
  next
    case True
    define c1 where "c1 = c\<lparr> res := p, world := k2, seen_bootp_reply := False, pstate := DHCPSTATE_SELECTING \<rparr>"
    have calm: "calm (lease c1)" using Suc.prems(2) by (simp add: c1_def)
    obtain k3 where "take_alarms e c1 = c1\<lparr> world := k3 \<rparr>" using take_alarms_calm [OF calm] by blast
    then have 2: "c1\<lparr> world := k3 \<rparr> = check_lease (take_alarms e c1)" using calm by (simp add: check_lease_calm calm_def)
    obtain k4 where "get_response e s (c1\<lparr> world := k3 \<rparr>) = (False, c1\<lparr> world := k4 \<rparr>)"
      using silent_response [OF assms(1), of "c1\<lparr> world := k3 \<rparr>" s] calm by auto
    then have "st_selecting e s (c1\<lparr> world := k3 \<rparr>) = Inr (Again (c1\<lparr> world := k4, tmr := nth_timer (Suc i) t,
        pstate := (if tv_sec (nth_timer (Suc i) t) < retry e then DHCPSTATE_INIT else DHCPSTATE_FAILED) \<rparr>))"
      using Suc.prems(3) next_timeout_split [of "retry e" "nth_timer i t"]
      by (simp add: st_selecting_def c1_def nth_timer_Suc)
    then have sel: "dhcp_iter e s hw old c1 = Inr (Again (c1\<lparr> world := k4, tmr := nth_timer (Suc i) t,
        pstate := (if tv_sec (nth_timer (Suc i) t) < retry e then DHCPSTATE_INIT else DHCPSTATE_FAILED) \<rparr>))"
      using dispatch(2) [OF 2, of s hw old] by (simp add: c1_def)
    have two: "dhcp_loop (2 * Suc j + 1) e s hw old c = dhcp_loop (2 * j + 1) e s hw old (c1\<lparr> world := k4, tmr := nth_timer (Suc i) t,
        pstate := (if tv_sec (nth_timer (Suc i) t) < retry e then DHCPSTATE_INIT else DHCPSTATE_FAILED) \<rparr>)"
      using init sel True by (simp add: c1_def)
    show ?thesis
    proof (cases "tv_sec (nth_timer (Suc i) t) < retry e")
      case True
      then have "Suc i \<noteq> 10" using tenth_timeout [of t] assms(3) by (auto simp: word_less_nat_alt word_le_nat_alt)
      then have "0 < j" using Suc.prems(4) by auto
      then show ?thesis unfolding two using Suc.IH [of "c1\<lparr> world := k4, tmr := nth_timer (Suc i) t, pstate := DHCPSTATE_INIT \<rparr>" "Suc i"] calm Suc.prems(4) True
        by (simp add: gave_up_def set_wan_def c1_def)
    next
      case False
      then show ?thesis unfolding two
        using calm failed_ends [of "c1\<lparr> world := k4, tmr := nth_timer (Suc i) t, pstate := DHCPSTATE_FAILED \<rparr>" "2 * j" e s hw old]
        by (simp add: gave_up_def set_wan_def c1_def)
    qed
  qed
qed


text \<open>Procedures that do not fault.\<close>

definition faultless :: "'k proc \<Rightarrow> bool" where
  "faultless p \<longleftrightarrow> (\<forall>k. \<exists>r k'. p k = Inr (r, k'))"

named_theorems faultless_intros
  \<open>procedures that do not fault\<close>

lemma faultless_req [faultless_intros]: "faultless (req ke r)" "faultless (req_exist ke r)" "faultless (ask ke r)"
  by (auto simp: faultless_def req_def req_exist_def ask_def split: prod.splits kres.splits)

lemma faultless_seqs [faultless_intros]: "\<forall>p \<in> set ps. faultless p \<Longrightarrow> faultless (seqs ps)"
proof (induction ps)
  case Nil
  have "seqs [] k = Inr (True, k)" for k by simp
  then show ?case unfolding faultless_def by metis
next
  case (Cons p ps)
  show ?case unfolding faultless_def
  proof
    fix k
    obtain r k1 where "p k = Inr (r, k1)" using Cons.prems unfolding faultless_def by fastforce
    moreover obtain r2 k2 where "seqs ps k1 = Inr (r2, k2)" using Cons unfolding faultless_def by fastforce
    ultimately show "\<exists>r k'. seqs (p # ps) k = Inr (r, k')" by (cases r) auto
  qed
qed

lemma faultless_with_socket [faultless_intros]:
  assumes "\<And>s. faultless (body s)"
  shows "faultless (with_socket ke body)"
  unfolding faultless_def
proof
  fix k
  obtain x k1 where sock: "ke Socket k = (x, k1)" by fastforce
  show "\<exists>r k'. with_socket ke body k = Inr (r, k')"
  proof (cases "\<exists>s d. x = Ok s d \<and> 0 \<le> s")
    case False
    with sock have "with_socket ke body k = Inr (False, k1)" by (auto simp: with_socket_def split: kres.splits)
    then show ?thesis by blast
  next
    case True
    then obtain s d where x: "x = Ok s d" "0 \<le> s" by blast
    obtain r k2 where "body s k1 = Inr (r, k2)" using assms unfolding faultless_def by blast
    with x sock have "with_socket ke body k = Inr (r, snd (ke (Close s) k2))" by (simp add: with_socket_def)
    then show ?thesis by blast
  qed
qed

lemma faultless_half_up: "faultless (bring_half_up ke i)" "faultless (sock_setup e s)"
  unfolding bring_half_up_def sock_setup_def Let_def by (auto intro!: faultless_intros)

lemma faultlessE: "faultless p \<Longrightarrow> (\<And>r k'. p k = Inr (r, k') \<Longrightarrow> thesis) \<Longrightarrow> thesis"
  unfolding faultless_def by blast

text \<open>The hardware address of an interface has six bytes.\<close>

definition ethernet :: "'k kernel \<Rightarrow> bool" where
  "ethernet ke \<longleftrightarrow> (\<forall>s n k v d k'. ke (Ioctl s (SIOCGIFHWADDR n)) k = (Ok v d, k') \<longrightarrow> 6 \<le> length d)"

text \<open>The part of \<^verbatim>\<open>do_dhcp\<close> in front of the loop, when everything succeeds.\<close>

lemma do_dhcp_cases:
  assumes "pstate c \<in> {0, DHCPSTATE_INIT, DHCPSTATE_FAILED}" "ethernet (kern e)"
  obtains (refused) c' where "\<And>n. do_dhcp n e c = Inr (Some (False, c'))" "net c' = net c" "l_alarm (lease c') = l_alarm (lease c)"
  | (running) s hw k x where "6 \<le> length hw" "\<And>n. do_dhcp n e c = dhcp_loop n e s hw (pstate c)
      (c\<lparr> pstate := DHCPSTATE_INIT, lease := (lease c)\<lparr> l_which := 0, l_next := 0 \<rparr>, seen_bootp_reply := False, msgtype := 0,
          tmr := reset_timeout (tmr c), world := k, xid := x \<rparr>)"
proof -
  obtain ok k1 where half: "bring_half_up (kern e) (intf e) (world c) = Inr (ok, k1)" using faultless_half_up(1) by (rule faultlessE)
  have start: "pstate c = DHCPSTATE_INIT \<or> pstate c = DHCPSTATE_FAILED \<or> pstate c = 0" using assms(1) by auto
  obtain sx k2 where sock: "kern e Socket k1 = (sx, k2)" by fastforce
  show thesis
  proof (cases "ok \<and> (\<exists>s d. sx = Ok s d \<and> 0 \<le> s)")
    case False
    with half start sock show thesis
      by (intro refused [of "if ok then c\<lparr> pstate := DHCPSTATE_INIT, lease := (lease c)\<lparr> l_which := 0, l_next := 0 \<rparr>, world := k2 \<rparr>
        else c\<lparr> world := k1 \<rparr>"]) (auto simp: do_dhcp_def split: kres.splits)
  next
    case True
    then obtain s d where ok: ok and s: "sx = Ok s d" "0 \<le> s" by blast
    obtain ok2 k3 where prep: "sock_setup e s k2 = Inr (ok2, k3)" using faultless_half_up(2) by (rule faultlessE)
    obtain hx k4 where hwr: "kern e (Ioctl s (SIOCGIFHWADDR (strlcpy (intf e) IFNAMSIZ))) k3 = (hx, k4)" by fastforce
    obtain rx k5 where rnd: "kern e Random k4 = (rx, k5)" by fastforce
    show thesis
    proof (cases "ok2 \<and> (\<exists>v hw. hx = Ok v hw)")
      case False
      let ?c2 = "c\<lparr> pstate := DHCPSTATE_INIT, lease := (lease c)\<lparr> l_which := 0, l_next := 0 \<rparr>, world := k3, seen_bootp_reply := False, msgtype := 0 \<rparr>"
      from False half start sock ok s prep hwr show thesis
        by (intro refused [of "close_socket e s (if ok2 then (reset_tmr ?c2)\<lparr> world := k4 \<rparr> else ?c2)"])
          (auto simp: do_dhcp_def Let_def reset_tmr_def close_socket_def split: kres.splits)
    next
      case True
      then obtain v hw where hx: ok2 "hx = Ok v hw" by blast
      then have "6 \<le> length hw" using assms(2) hwr unfolding ethernet_def by blast
      with half start sock ok s prep hwr hx rnd show thesis
        by (intro running [where hw = hw and s = s and k = k5 and x = "first_xid hw (case rx of Ok v _ \<Rightarrow> word_of_int v | Fail _ \<Rightarrow> 0)"])
          (auto simp: do_dhcp_def Let_def reset_tmr_def)
    qed
  qed
qed

lemma silent_gives_up:
  assumes "pstate c \<in> {0, DHCPSTATE_INIT, DHCPSTATE_FAILED}" "\<forall>t. l_alarm (lease c) \<noteq> Some (Armed t)"
    and "silent (kern e)" "ethernet (kern e)" "retry e \<le> 3600"
  obtains c' where "do_dhcp 21 e c = Inr (Some (False, c'))" "\<forall>t. l_alarm (lease c') \<noteq> Some (Armed t)"
    "net c' = net c \<or> net c' = net (set_wan 0 c)"
proof (cases rule: do_dhcp_cases [OF assms(1,4)])
  case (1 c')
  then show thesis using that [of c'] assms(2) by simp
next
  case (2 s hw k x)
  let ?c = "c\<lparr> pstate := DHCPSTATE_INIT, lease := (lease c)\<lparr> l_which := 0, l_next := 0 \<rparr>, seen_bootp_reply := False, msgtype := 0,
          tmr := reset_timeout (tmr c), world := k, xid := x \<rparr>"
  obtain c' where "dhcp_loop (2 * 10 + 1) e s hw (pstate c) ?c = Inr (Some (False, c'))" "gave_up ?c c'"
    using silent_rounds [OF assms(3) 2(1) assms(5), where i = 0 and j = 10 and t = "tmr c" and c = ?c and s = s and old = "pstate c"] assms(2)
    by (auto simp: calm_def nth_timer_def)
  then show thesis using that [of c'] 2(2) [of 21] by (auto simp: gave_up_def no_lease_def set_wan_def)
qed

section \<open>A server that answers\<close>

text \<open>A datagram with these options: everything up to the end tag is there.\<close>

definition says :: "u8 list \<Rightarrow> item list \<Rightarrow> bool" where
  "says d is \<longleftrightarrow> (\<exists>pre post. d = pre @ enc is @ TAG_END # post \<and> length pre = bp_vend + 4 \<and> length d \<le> bootp_size
     \<and> field pre bp_vend 4 = cookie \<and> list_all item_ok is)"

lemma field_take: "at + k \<le> n \<Longrightarrow> field (take n p) at k = field p at k"
  by (simp add: field_def drop_take min_absorb1)

lemma says_take:
  assumes "carries p is" "bp_vend + 5 + length (enc is) \<le> n"
  shows "says (take n p) is"
proof -
  obtain pre post where p: "p = pre @ enc is @ TAG_END # post" "length pre = bp_vend + 4" "length p = bootp_size"
    "field pre bp_vend 4 = cookie" "list_all item_ok is" using carriesE [OF assms(1)] .
  have "take n p = pre @ enc is @ TAG_END # take (n - (bp_vend + 5 + length (enc is))) post"
    using p(2) assms(2) by (simp add: p(1) take_Cons' ac_simps)
  then show ?thesis using p unfolding says_def by (metis length_take min.cobounded1)
qed

lemma deliver_says:
  assumes "says d is" "length buf = bootp_size"
  shows "carries (deliver d buf) is" "at + k \<le> bp_vend \<Longrightarrow> field (deliver d buf) at k = field d at k"
proof -
  obtain pre post where d: "d = pre @ enc is @ TAG_END # post" "length pre = bp_vend + 4" "length d \<le> bootp_size"
    "field pre bp_vend 4 = cookie" "list_all item_ok is" using assms(1) unfolding says_def by blast
  have del: "deliver d buf = d @ (if length d < bootp_size then TAG_END # drop (length d + 1) buf else drop (length d) buf)"
    using assms(2) d(3) by (simp add: deliver_def bcopy_def Let_def list_update_append upd_conv_take_nth_drop)
  show "carries (deliver d buf) is"
    using d deliver_length [OF assms(2), of d] unfolding del
    by (intro carriesI [where pre = pre]) (simp_all add: d(1))
  show "field (deliver d buf) at k = field d at k" if "at + k \<le> bp_vend"
    using that d(1,2) unfolding del by (simp add: field_def)
qed

lemma bcopy_carries:
  assumes "carries r is" "length q = bootp_size" "bp_vend + 5 + length (enc is) \<le> n"
  shows "carries (bcopy n r q) is" "at + k \<le> bp_vend \<Longrightarrow> field (bcopy n r q) at k = field r at k"
proof -
  obtain pre post where p: "r = pre @ enc is @ TAG_END # post" "length pre = bp_vend + 4" "length r = bootp_size"
    "field pre bp_vend 4 = cookie" "list_all item_ok is" using carriesE [OF assms(1)] .
  have cp: "bcopy n r q = pre @ enc is @ TAG_END # take (n - (bp_vend + 5 + length (enc is))) post @ drop n q"
    using p(2) assms(3) by (simp add: bcopy_def p(1) take_Cons' ac_simps)
  have "length (bcopy n r q) = bootp_size" using assms(2) p(3) by (simp add: bcopy_def)
  then show "carries (bcopy n r q) is" using p cp by (intro carriesI)
  show "field (bcopy n r q) at k = field r at k" if "at + k \<le> bp_vend"
  proof -
    have "field (bcopy n r q) at k = field pre at k" using that p(2) unfolding cp by (simp add: field_def)
    moreover have "field r at k = field pre at k" using that p(2) by (simp add: p(1) field_def)
    ultimately show ?thesis by simp
  qed
qed

text \<open>The REQUEST: what is put into the packet in hand, and what is taken out of the copy that is sent.\<close>

definition request_items :: "u32 \<Rightarrow> item list \<Rightarrow> item list" where
  "request_items yi is = default_items (put_item TAG_DHCP_REQ_IP (put_u32 yi) (put_item TAG_DHCP_MESS_TYPE [DHCPREQUEST] is))"

definition sent_items :: "item list \<Rightarrow> item list" where
  "sent_items is = remove_last TAG_DHCP_DOMAINNAME (remove_last TAG_DHCP_DNS (remove_last TAG_DHCP_ROUTER (remove_last TAG_DHCP_MASK is)))"

lemma remove_last_length: "length (enc (remove_last tag is)) \<le> length (enc is)"
  by (auto simp: remove_last_def split: option.splits dest!: split_last_Some)

lemma sent_items_length: "length (enc (sent_items is)) \<le> length (enc is)"
  unfolding sent_items_def by (meson le_trans remove_last_length)

lemma dropped_tags_ok: "TAG_DHCP_MASK \<noteq> TAG_PAD" "TAG_DHCP_ROUTER \<noteq> TAG_PAD" "TAG_DHCP_DNS \<noteq> TAG_PAD" "TAG_DHCP_DOMAINNAME \<noteq> TAG_PAD"
  by (simp_all add: tag_defs)

text \<open>Changes of the header.\<close>

lemma request_header_carries:
  assumes "carries p is"
  shows "carries (request_header x fl p) is" "field32 (request_header x fl p) bp_xid = x"
    "field (request_header x fl p) bp_htype 2 = field p bp_htype 2"
    "12 \<le> at \<Longrightarrow> field (request_header x fl p) at k = field p at k"
proof -
  let ?p1 = "put_field32 p bp_xid x"
  have len: "length p = bootp_size" by (rule carries_length [OF assms])
  have l2: "length (put_u16 fl) = 2" by (simp add: put_u16_def)
  show "carries (request_header x fl p) is" unfolding request_header_def put_field32_def
    using assms l2 by (intro put_header_carries) (simp_all add: field_defs)
  show "field32 (request_header x fl p) bp_xid = x"
    using len l2 by (simp add: request_header_def field32_put_other put_field32_def field_defs)
      (simp add: field32_put_same [unfolded put_field32_def])
  show "field (request_header x fl p) bp_htype 2 = field p bp_htype 2"
    using len l2 by (simp add: request_header_def put_field32_def field_put_other field_defs)
  show "field (request_header x fl p) at k = field p at k" if "12 \<le> at"
    using len l2 that by (simp add: request_header_def put_field32_def field_put_other field_defs)
qed

lemma clear_sent_carries:
  assumes "carries p is"
  shows "carries (clear_sent p) is" "field32 (clear_sent p) bp_xid = field32 p bp_xid"
    "field (clear_sent p) bp_htype 2 = field p bp_htype 2" "field (clear_sent p) bp_chaddr 6 = field p bp_chaddr 6"
proof -
  have len: "length p = bootp_size" by (rule carries_length [OF assms])
  show "carries (clear_sent p) is" unfolding clear_sent_def put_field32_def
    using assms by (intro put_header_carries) (simp_all add: field_defs)
  show "field32 (clear_sent p) bp_xid = field32 p bp_xid" "field (clear_sent p) bp_htype 2 = field p bp_htype 2"
    "field (clear_sent p) bp_chaddr 6 = field p bp_chaddr 6"
    using len by (simp_all add: clear_sent_def put_field32_def field_put_other field32_put_other field_defs)
qed

lemma st_requesting_sends:
  assumes "carries (res c) is" "length (xmit2 c) = bootp_size"
  defines "yi \<equiv> field32 (res c) bp_yiaddr"
  shows "\<exists>p x n. carries p (request_items yi is) \<and> carries x (sent_items (request_items yi is))
     \<and> bp_vend + 5 + length (enc (sent_items (request_items yi is))) \<le> n
     \<and> field32 p bp_xid = xid c \<and> field p bp_htype 2 = field (res c) bp_htype 2
     \<and> (\<forall>at k. 12 \<le> at \<longrightarrow> at + k \<le> bp_vend \<longrightarrow> field p at k = field (res c) at k)
     \<and> field32 x bp_xid = xid c \<and> field x bp_htype 2 = field (res c) bp_htype 2 \<and> field x bp_chaddr 6 = field (res c) bp_chaddr 6
     \<and> st_requesting e s c = (case send e s INADDR_BROADCAST (take n x) (c\<lparr> res := p, xmit2 := x \<rparr>) of
         (ok, c1) \<Rightarrow> Inr (Again (c1\<lparr> pstate := (if ok then DHCPSTATE_REQUEST_RECV else DHCPSTATE_FAILED) \<rparr>)))"
proof -
  define p0 where "p0 = request_header (xid c) 0x8000 (res c)"
  note h = request_header_carries [OF assms(1), where x = "xid c" and fl = "0x8000", folded p0_def]
  obtain p1 where p1: "put_tag p0 TAG_DHCP_MESS_TYPE (ucast DHCPREQUEST) 1 = Inr p1"
    "carries p1 (put_item TAG_DHCP_MESS_TYPE [DHCPREQUEST] is)" "same_header p0 p1"
    using put_type_carries [OF h(1)] by blast
  have y1: "field32 p1 bp_yiaddr = yi"
    using same_header_field32 [OF p1(3), of bp_yiaddr] h(4) [of bp_yiaddr 4] by (simp add: yi_def field32_def field_defs)
  obtain p2 where p2: "put_tag p1 TAG_DHCP_REQ_IP (field32 p1 bp_yiaddr) 4 = Inr p2"
    "carries p2 (put_item TAG_DHCP_REQ_IP (put_u32 yi) (put_item TAG_DHCP_MESS_TYPE [DHCPREQUEST] is))" "same_header p1 p2"
    using put_tag_carries [OF p1(2), of TAG_DHCP_REQ_IP 4 yi] by (auto simp: y1 be_bytes_values)
  obtain p3 where p3: "set_default_dhcp_tags p2 = Inr p3" "carries p3 (request_items yi is)" "same_header p2 p3"
    using default_tags_carries [OF p2(2)] by (auto simp: request_items_def)
  define n where "n = max (bp_vend + 5 + length (enc (request_items yi is))) BP_STD_TX_MINPKTSZ"
  obtain p4 where p4: "dhcp_size_for_send p3 = Inr (n, p4)" "carries p4 (request_items yi is)" "same_header p3 p4"
    using size_for_send_carries [OF p3(2)] by (auto simp: n_def)
  have hdr: "same_header p0 p4" using p1(3) p2(3) p3(3) p4(3) same_header_trans by blast
  define x0 where "x0 = bcopy n p4 (xmit2 c)"
  have n: "bp_vend + 5 + length (enc (request_items yi is)) \<le> n" by (simp add: n_def)
  note x0 = bcopy_carries [OF p4(2) assms(2) n, folded x0_def]
  obtain x1 where x1: "drop_tag x0 TAG_DHCP_MASK = Inr x1" "carries x1 (remove_last TAG_DHCP_MASK (request_items yi is))" "same_header x0 x1"
    using drop_tag_carries [OF x0(1) dropped_tags_ok(1)] by blast
  obtain x2 where x2: "drop_tag x1 TAG_DHCP_ROUTER = Inr x2" "carries x2 (remove_last TAG_DHCP_ROUTER (remove_last TAG_DHCP_MASK (request_items yi is)))"
    "same_header x1 x2" using drop_tag_carries [OF x1(2) dropped_tags_ok(2)] by blast
  obtain x3 where x3: "drop_tag x2 TAG_DHCP_DNS = Inr x3"
    "carries x3 (remove_last TAG_DHCP_DNS (remove_last TAG_DHCP_ROUTER (remove_last TAG_DHCP_MASK (request_items yi is))))" "same_header x2 x3"
    using drop_tag_carries [OF x2(2) dropped_tags_ok(3)] by blast
  obtain x4 where x4: "drop_tag x3 TAG_DHCP_DOMAINNAME = Inr x4" "carries x4 (sent_items (request_items yi is))" "same_header x3 x4"
    using drop_tag_carries [OF x3(2) dropped_tags_ok(4)] by (auto simp: sent_items_def)
  have xh: "same_header x0 x4" using x1(3) x2(3) x3(3) x4(3) same_header_trans by blast
  note x5 = clear_sent_carries [OF x4(2)]
  have f4: "field p4 at k = field p0 at k" if "at + k \<le> bp_vend" for at k using same_header_field [OF hdr, of at k] that by simp
  have fx: "field x4 at k = field p0 at k" if "at + k \<le> bp_vend" for at k
    using same_header_field [OF xh, of at k] x0(2) [OF that] f4 [OF that] that by simp
  have "st_requesting e s c = (case send e s INADDR_BROADCAST (take n (clear_sent x4)) (c\<lparr> res := p4, xmit2 := clear_sent x4 \<rparr>) of
         (ok, c1) \<Rightarrow> Inr (Again (c1\<lparr> pstate := (if ok then DHCPSTATE_REQUEST_RECV else DHCPSTATE_FAILED) \<rparr>)))"
    unfolding st_requesting_def p0_def [symmetric] p1(1) p2(1) p3(1) p4(1) bind_ok_Inr prod.case Let_def x0_def [symmetric] x1(1) x2(1) x3(1) x4(1) ..
  moreover have "field32 p4 bp_xid = xid c" "field p4 bp_htype 2 = field (res c) bp_htype 2"
    "\<forall>at k. 12 \<le> at \<longrightarrow> at + k \<le> bp_vend \<longrightarrow> field p4 at k = field (res c) at k"
    using f4 [of bp_xid 4] f4 [of bp_htype 2] f4 h by (auto simp: field32_def field_defs)
  moreover have "field32 (clear_sent x4) bp_xid = xid c" "field (clear_sent x4) bp_htype 2 = field (res c) bp_htype 2"
    "field (clear_sent x4) bp_chaddr 6 = field (res c) bp_chaddr 6"
    using fx [of bp_xid 4] fx [of bp_htype 2] fx [of bp_chaddr 6] h x5(2-4) by (auto simp: field32_def field_defs)
  moreover have "bp_vend + 5 + length (enc (sent_items (request_items yi is))) \<le> n"
    using n sent_items_length [of "request_items yi is"] by simp
  ultimately show ?thesis using p4(2) x5(1) by blast
qed

lemma set_item_length: "length (enc (set_item tag v is)) \<le> length (enc is) + length v + 2"
proof -
  have "length (enc (replace_first tag v is)) = length (enc is)" if "lookup tag is = Some u" "length u = length v" for u
    using that by (induction tag v "is" rule: replace_first.induct) (auto split: if_splits)
  then show ?thesis using remove_last_length [of tag "is"] by (auto simp: set_item_def split: option.splits)
qed

lemma put_item_room: "length (enc is) + length v + 2 \<le> room \<Longrightarrow> put_item tag v is = set_item tag v is"
  using set_item_length [of tag v "is"] by (simp add: put_item_def)

text \<open>An offer that leaves room for what the client adds.\<close>

definition roomy :: "item list \<Rightarrow> bool" where
  "roomy is \<longleftrightarrow> length (enc is) + 24 \<le> room \<and> lookup TAG_DHCP_REQ_IP is = None"

lemma request_items_set:
  assumes "roomy is"
  shows "request_items yi is = set_item TAG_DHCP_MAX_MSGSZ (be_bytes 2 BP_MINPKTSZ) (set_item TAG_DHCP_PARM_REQ_LIST req_list
     (set_item TAG_DHCP_REQ_IP (put_u32 yi) (set_item TAG_DHCP_MESS_TYPE [DHCPREQUEST] is)))"
proof -
  define i1 where "i1 = set_item TAG_DHCP_MESS_TYPE [DHCPREQUEST] is"
  define i2 where "i2 = set_item TAG_DHCP_REQ_IP (put_u32 yi) i1"
  define i3 where "i3 = set_item TAG_DHCP_PARM_REQ_LIST req_list i2"
  have l: "length (enc is) + 24 \<le> room" using assms by (simp add: roomy_def)
  have l1: "length (enc i1) + 21 \<le> room" using l set_item_length [of TAG_DHCP_MESS_TYPE "[DHCPREQUEST]" "is"] by (simp add: i1_def)
  have l2: "length (enc i2) + 15 \<le> room" using l1 set_item_length [of TAG_DHCP_REQ_IP "put_u32 yi" i1] by (simp add: i2_def)
  have l3: "length (enc i3) + 4 \<le> room" using l2 set_item_length [of TAG_DHCP_PARM_REQ_LIST req_list i2] by (simp add: i3_def req_list_set)
  have "put_item TAG_DHCP_MESS_TYPE [DHCPREQUEST] is = i1" using l put_item_room [of "is" "[DHCPREQUEST]" TAG_DHCP_MESS_TYPE] by (simp add: i1_def)
  moreover have "put_item TAG_DHCP_REQ_IP (put_u32 yi) i1 = i2" using l1 put_item_room [of i1 "put_u32 yi" TAG_DHCP_REQ_IP] by (simp add: i2_def)
  moreover have "put_item TAG_DHCP_PARM_REQ_LIST req_list i2 = i3" using l2 put_item_room [of i2 req_list TAG_DHCP_PARM_REQ_LIST] by (simp add: i3_def req_list_set)
  moreover have "put_item TAG_DHCP_MAX_MSGSZ (be_bytes 2 BP_MINPKTSZ) i3 = set_item TAG_DHCP_MAX_MSGSZ (be_bytes 2 BP_MINPKTSZ) i3"
    using l3 by (intro put_item_room) simp
  ultimately show ?thesis by (simp only: request_items_def default_items_def i1_def i2_def i3_def)
qed

lemma tags_differ [simp]:
  "TAG_DHCP_MESS_TYPE \<noteq> TAG_DHCP_REQ_IP" "TAG_DHCP_MESS_TYPE \<noteq> TAG_DHCP_PARM_REQ_LIST" "TAG_DHCP_MESS_TYPE \<noteq> TAG_DHCP_MAX_MSGSZ"
  "TAG_DHCP_REQ_IP \<noteq> TAG_DHCP_MESS_TYPE" "TAG_DHCP_REQ_IP \<noteq> TAG_DHCP_PARM_REQ_LIST" "TAG_DHCP_REQ_IP \<noteq> TAG_DHCP_MAX_MSGSZ"
  "TAG_DHCP_SERVER_ID \<noteq> TAG_DHCP_MESS_TYPE" "TAG_DHCP_SERVER_ID \<noteq> TAG_DHCP_REQ_IP" "TAG_DHCP_SERVER_ID \<noteq> TAG_DHCP_PARM_REQ_LIST"
  "TAG_DHCP_SERVER_ID \<noteq> TAG_DHCP_MAX_MSGSZ"
  by (simp_all add: tag_defs)

lemma sent_items_lookup:
  "t \<notin> {TAG_DHCP_MASK, TAG_DHCP_ROUTER, TAG_DHCP_DNS, TAG_DHCP_DOMAINNAME} \<Longrightarrow> lookup t (sent_items is) = lookup t is"
  by (simp add: sent_items_def lookup_remove_other)

lemma request_lookups:
  assumes "roomy is" "lookup TAG_DHCP_MESS_TYPE is = Some [t]"
  shows "lookup TAG_DHCP_MESS_TYPE (sent_items (request_items yi is)) = Some [DHCPREQUEST]"
    "lookup TAG_DHCP_REQ_IP (sent_items (request_items yi is)) = Some (put_u32 yi)"
    "lookup TAG_DHCP_SERVER_ID (sent_items (request_items yi is)) = lookup TAG_DHCP_SERVER_ID is"
proof -
  have kept: "lookup x (sent_items js) = lookup x js" if "x \<in> {TAG_DHCP_MESS_TYPE, TAG_DHCP_REQ_IP, TAG_DHCP_SERVER_ID}" for x js
    using that by (intro sent_items_lookup) (auto simp: tag_defs)
  have "lookup TAG_DHCP_MESS_TYPE (set_item TAG_DHCP_MESS_TYPE [DHCPREQUEST] is) = Some [DHCPREQUEST]"
    using assms(2) by (simp add: set_item_def lookup_replace)
  then show "lookup TAG_DHCP_MESS_TYPE (sent_items (request_items yi is)) = Some [DHCPREQUEST]"
    by (simp add: kept request_items_set [OF assms(1)] lookup_set_other)
  have "lookup TAG_DHCP_REQ_IP (set_item TAG_DHCP_MESS_TYPE [DHCPREQUEST] is) = None"
    using assms(1) by (simp add: lookup_set_other roomy_def)
  then show "lookup TAG_DHCP_REQ_IP (sent_items (request_items yi is)) = Some (put_u32 yi)"
    by (simp add: kept request_items_set [OF assms(1)] lookup_set_other lookup_set_same single_absent)
  show "lookup TAG_DHCP_SERVER_ID (sent_items (request_items yi is)) = lookup TAG_DHCP_SERVER_ID is"
    by (simp add: kept request_items_set [OF assms(1)] lookup_set_other)
qed

text \<open>The network stack delivers to the client what the server replies to the last packet sent; everything
  else succeeds and no alarm goes off.\<close>

definition peer :: "'k kernel \<Rightarrow> int \<Rightarrow> u8 list \<Rightarrow> ('k \<Rightarrow> u8 list) \<Rightarrow> (u8 list \<Rightarrow> u8 list) \<Rightarrow> bool" where
  "peer ke s hw sent reply \<longleftrightarrow> 0 \<le> s \<and> (\<forall>r k. \<exists>n d k'. ke r k = (Ok n d, k')
     \<and> sent k' = (case r of SendTo _ _ bs \<Rightarrow> bs | _ \<Rightarrow> sent k)
     \<and> (r = Socket \<longrightarrow> n = s) \<and> (r = Alarms \<longrightarrow> n = 0) \<and> (\<forall>s'. r = RecvFrom s' \<longrightarrow> d = reply (sent k))
     \<and> (\<forall>s' i. r = Ioctl s' (SIOCGIFHWADDR i) \<longrightarrow> d = hw))"

text \<open>The server, as RFC 2131 has it: it offers an address to every DISCOVER and confirms the address it has
  offered to a REQUEST for it.\<close>

definition answer :: "u32 \<Rightarrow> u32 \<Rightarrow> item list \<Rightarrow> u8 list \<Rightarrow> u8 list \<Rightarrow> bool" where
  "answer yi srv is d r \<longleftrightarrow> says r is \<and> field32 r bp_xid = field32 d bp_xid \<and> field r bp_htype 2 = field d bp_htype 2
     \<and> field r bp_chaddr 6 = field d bp_chaddr 6 \<and> field32 r bp_yiaddr = yi \<and> field32 r bp_siaddr = srv"

definition serves :: "(u8 list \<Rightarrow> u8 list) \<Rightarrow> u32 \<Rightarrow> u32 \<Rightarrow> item list \<Rightarrow> item list \<Rightarrow> bool" where
  "serves reply yi srv off ack \<longleftrightarrow>
     lookup TAG_DHCP_MESS_TYPE off = Some [DHCPOFFER] \<and> lookup TAG_DHCP_MESS_TYPE ack = Some [DHCPACK]
     \<and> (\<forall>d is. says d is \<longrightarrow> lookup TAG_DHCP_MESS_TYPE is = Some [DHCPDISCOVER] \<longrightarrow> answer yi srv off d (reply d))
     \<and> (\<forall>d is. says d is \<longrightarrow> lookup TAG_DHCP_MESS_TYPE is = Some [DHCPREQUEST] \<longrightarrow> lookup TAG_DHCP_REQ_IP is = Some (put_u32 yi)
          \<longrightarrow> lookup TAG_DHCP_SERVER_ID is = lookup TAG_DHCP_SERVER_ID off \<longrightarrow> answer yi srv ack d (reply d))"

lemma peer_requests:
  assumes "peer ke s hw sent reply"
  shows "\<exists>n d k'. ke (SendTo i dest bs) k = (Ok n d, k') \<and> sent k' = bs"
    "\<exists>n k'. ke (RecvFrom i) k = (Ok n (reply (sent k)), k') \<and> sent k' = sent k"
    "\<exists>n d k'. ke (Setsockopt i opt) k = (Ok n d, k') \<and> sent k' = sent k"
    "\<exists>d k'. ke Alarms k = (Ok 0 d, k') \<and> sent k' = sent k"
    "\<exists>n d k'. ke Now k = (Ok n d, k') \<and> sent k' = sent k"
    "\<exists>n d k'. ke (Close i) k = (Ok n d, k') \<and> sent k' = sent k"
    "\<exists>d k'. ke Socket k = (Ok s d, k')"
    "\<exists>n k'. ke (Ioctl i (SIOCGIFHWADDR nm)) k = (Ok n hw, k')"
  using assms [unfolded peer_def, THEN conjunct2, rule_format, of "SendTo i dest bs" k]
    assms [unfolded peer_def, THEN conjunct2, rule_format, of "RecvFrom i" k]
    assms [unfolded peer_def, THEN conjunct2, rule_format, of "Setsockopt i opt" k]
    assms [unfolded peer_def, THEN conjunct2, rule_format, of Alarms k]
    assms [unfolded peer_def, THEN conjunct2, rule_format, of Now k]
    assms [unfolded peer_def, THEN conjunct2, rule_format, of "Close i" k]
    assms [unfolded peer_def, THEN conjunct2, rule_format, of Socket k]
    assms [unfolded peer_def, THEN conjunct2, rule_format, of "Ioctl i (SIOCGIFHWADDR nm)" k]
  by auto

lemma peer_accepting:
  assumes "peer ke s hw sent reply"
  shows "accepting ke s"
proof -
  have "\<exists>n d k'. ke r k = (Ok n d, k') \<and> (r = Socket \<longrightarrow> n = s)" for r k
    using assms [unfolded peer_def, THEN conjunct2, rule_format, of r k] by (elim exE conjE) auto
  then show ?thesis using assms unfolding accepting_def peer_def by simp
qed

lemma peer_alarms:
  assumes "peer (kern e) s hw sent reply"
  shows "\<exists>k. take_alarms e c = c\<lparr> world := k \<rparr> \<and> sent k = sent (world c)"
proof -
  obtain d k' where "kern e Alarms (world c) = (Ok 0 d, k')" "sent k' = sent (world c)" using peer_requests(4) [OF assms] by blast
  then have "take_alarms e c = c\<lparr> world := k' \<rparr>" by (simp add: take_alarms_def)
  with \<open>sent k' = _\<close> show ?thesis by blast
qed

lemma peer_round:
  assumes "peer (kern e) s hw sent reply" "l_which (lease c) = 0"
  obtains k where "c\<lparr> world := k \<rparr> = check_lease (take_alarms e c)" "sent k = sent (world c)"
proof -
  obtain k where k: "take_alarms e c = c\<lparr> world := k \<rparr>" "sent k = sent (world c)" using peer_alarms [OF assms(1), of c] by blast
  moreover have "check_lease (c\<lparr> world := k \<rparr>) = c\<lparr> world := k \<rparr>" using assms(2) by (intro check_lease_calm) simp
  ultimately show thesis using that [of k] by simp
qed

lemma peer_send:
  assumes "peer (kern e) s hw sent reply"
  obtains k where "send e i dest bs c = (True, c\<lparr> world := k \<rparr>)" "sent k = bs"
proof -
  obtain n d k where "kern e (SendTo i dest bs) (world c) = (Ok n d, k)" "sent k = bs" using peer_requests(1) [OF assms] by blast
  then show thesis using that [of k] by (simp add: send_def)
qed

lemma peer_response:
  assumes "peer (kern e) s hw sent reply"
  obtains k where "get_response e i c = (True, c\<lparr> received := deliver (reply (sent (world c))) (received c), world := k \<rparr>)"
    "sent k = sent (world c)"
proof -
  obtain n1 d1 k1 where 1: "kern e (Setsockopt i (SO_RCVTIMEO (tv_sec (tmr c)))) (world c) = (Ok n1 d1, k1)" "sent k1 = sent (world c)"
    using peer_requests(3) [OF assms] by blast
  obtain n2 k2 where 2: "kern e (RecvFrom i) k1 = (Ok n2 (reply (sent (world c))), k2)" "sent k2 = sent (world c)"
    using peer_requests(2) [OF assms, of i k1] 1(2) by auto
  obtain k3 where "take_alarms e (c\<lparr> received := deliver (reply (sent (world c))) (received c), world := k2 \<rparr>)
      = c\<lparr> received := deliver (reply (sent (world c))) (received c), world := k3 \<rparr>" "sent k3 = sent (world c)"
    using peer_alarms [OF assms, of "c\<lparr> received := deliver (reply (sent (world c))) (received c), world := k2 \<rparr>"] 2(2) by auto
  with 1 2 show thesis using that [of k3] by (simp add: get_response_def Let_def)
qed

text \<open>Packets that pass the checks.\<close>

lemma two_bytes: "field p bp_htype 2 = [a, b] \<Longrightarrow> field p bp_htype 1 = [a] \<and> field p bp_hlen 1 = [b]"
proof -
  assume "field p bp_htype 2 = [a, b]"
  then have "take 2 (drop 1 p) = [a, b]" by (simp add: field_def bp_htype_def)
  then obtain r where "drop 1 p = a # b # r"
    by (cases "drop 1 p" rule: remdups_adj.cases) auto
  moreover from this have "drop 2 p = b # r" by (metis drop_drop drop_0 drop_Suc_Cons one_add_one numeral_1_eq_Suc_0 One_nat_def)
  ultimately show ?thesis by (simp add: field_def bp_htype_def bp_hlen_def)
qed

lemma same_transaction:
  assumes "field32 (received c) bp_xid = xid c" "field (received c) bp_htype 2 = [1, 6]" "field (res c) bp_htype 2 = [1, 6]"
    "field (received c) bp_chaddr 6 = field (res c) bp_chaddr 6"
  shows "\<not> CHECK_XID c"
  using assms two_bytes [OF assms(2)] two_bytes [OF assms(3)] by (simp add: CHECK_XID_def Let_def)

lemma examine_accepts:
  assumes "carries (received c) is" "\<not> CHECK_XID c" "field32 (received c) bp_siaddr \<noteq> 0" "lookup TAG_DHCP_MESS_TYPE is = Some [t]"
  shows "examine c = Inr (Some True, c\<lparr> msgtype := t \<rparr>)"
proof -
  have "dhcp_size (received c) = Inr (bp_vend + 5 + length (enc is))"
    using dhcp_size_exact [OF carries_length [OF assms(1)]] assms(1) by blast
  moreover have "get_bootp_option (received c) TAG_DHCP_MESS_TYPE 1 = Inr (Some [t], 1)"
    using get_option_found [OF assms(1) sent_tags_ok(1) assms(4), of 1] by simp
  ultimately show ?thesis using assms(2,3) by (simp add: examine_def)
qed

lemma keep_carries:
  assumes "carries (received c) is" "length (res c) = bootp_size"
  obtains p where "keep_received c = Inr (c\<lparr> res := p \<rparr>)" "carries p is" "\<And>at k. at + k \<le> bp_vend \<Longrightarrow> field p at k = field (received c) at k"
proof -
  have n: "dhcp_size (received c) = Inr (bp_vend + 5 + length (enc is))"
    using dhcp_size_exact [OF carries_length [OF assms(1)]] assms(1) by blast
  show thesis
    using that [of "bcopy (bp_vend + 5 + length (enc is)) (received c) (res c)"] bcopy_carries [OF assms le_refl] n
    by (simp add: keep_received_def)
qed

lemma put_item_other: "t \<noteq> tag \<Longrightarrow> lookup t (put_item tag v is) = lookup t is"
  by (simp add: put_item_def lookup_set_other lookup_remove_other)

lemma discover_type: "lookup TAG_DHCP_MESS_TYPE discover_items = Some [DHCPDISCOVER]"
proof -
  have "put_item TAG_DHCP_MESS_TYPE [DHCPDISCOVER] [] = [Opt TAG_DHCP_MESS_TYPE [DHCPDISCOVER]]"
    by (simp add: put_item_def set_item_def room_def BP_VEND_LEN_def)
  then show ?thesis by (simp add: discover_items_def default_items_def put_item_other)
qed

text \<open>The five rounds.\<close>

lemma round1:
  assumes "peer (kern e) s hw sent reply" "6 \<le> length hw" "l_which (lease c) = 0" "pstate c = DHCPSTATE_INIT"
  obtains p k where "dhcp_iter e i hw old c = Inr (Again (c\<lparr> res := p, world := k, seen_bootp_reply := False, pstate := DHCPSTATE_SELECTING \<rparr>))"
    "carries p discover_items" "field p bp_htype 2 = [1, 6]" "field p bp_chaddr 6 = take 6 hw"
    "says (sent k) discover_items" "field32 (sent k) bp_xid = xid c" "field (sent k) bp_htype 2 = [1, 6]" "field (sent k) bp_chaddr 6 = take 6 hw"
proof -
  obtain k1 where k1: "c\<lparr> world := k1 \<rparr> = check_lease (take_alarms e c)" using peer_round [OF assms(1,3)] .
  obtain p n where p: "carries p discover_items" "bp_vend + 5 + length (enc discover_items) \<le> n" "field32 p bp_xid = xid c"
    "field p bp_htype 2 = [1, 6]" "field p bp_chaddr 6 = take 6 hw"
    and st: "st_init e i hw (c\<lparr> world := k1 \<rparr>) = (case send e i INADDR_BROADCAST (take n p) (c\<lparr> world := snd (kern e Now k1), res := p \<rparr>) of
         (ok, c1) \<Rightarrow> Inr (Again (if ok then c1\<lparr> seen_bootp_reply := False, pstate := DHCPSTATE_SELECTING \<rparr>
                     else c1\<lparr> pstate := DHCPSTATE_FAILED \<rparr>)))"
    using st_init_sends [OF assms(2), of "c\<lparr> world := k1 \<rparr>" e i] by auto
  obtain k where k: "send e i INADDR_BROADCAST (take n p) (c\<lparr> world := snd (kern e Now k1), res := p \<rparr>)
      = (True, c\<lparr> world := snd (kern e Now k1), res := p, world := k \<rparr>)" "sent k = take n p"
    using peer_send [OF assms(1)] .
  have "dhcp_iter e i hw old c = Inr (Again (c\<lparr> res := p, world := k, seen_bootp_reply := False, pstate := DHCPSTATE_SELECTING \<rparr>))"
    using dispatch(1) [OF k1] assms(4) st k(1) by simp
  moreover have "says (sent k) discover_items" unfolding k(2) using p by (intro says_take)
  moreover have "field (sent k) at j = field p at j" if "at + j \<le> bp_vend" for at j
    using that p(2) unfolding k(2) by (intro field_take) simp
  ultimately show thesis using that [where p = p and k = k] p by (simp add: field32_def field_defs)
qed

lemma round2:
  assumes "peer (kern e) s hw sent reply" "l_which (lease c) = 0" "pstate c = DHCPSTATE_SELECTING" "length (received c) = bootp_size"
    and "answer yi srv is (sent (world c)) (reply (sent (world c)))" "lookup TAG_DHCP_MESS_TYPE is = Some [DHCPOFFER]" "srv \<noteq> 0"
    and "field32 (sent (world c)) bp_xid = xid c" "field (sent (world c)) bp_htype 2 = [1, 6]" "field (sent (world c)) bp_chaddr 6 = take 6 hw"
    and "length (res c) = bootp_size" "field (res c) bp_htype 2 = [1, 6]" "field (res c) bp_chaddr 6 = take 6 hw"
  obtains p k rx where "dhcp_iter e i hw old c = Inr (Again (c\<lparr> received := rx, world := k, msgtype := DHCPOFFER, res := p,
      tmr := reset_timeout (tmr c), pstate := DHCPSTATE_REQUESTING, xid := xid c + 0x10000 \<rparr>))"
    "carries p is" "field p bp_htype 2 = [1, 6]" "field p bp_chaddr 6 = take 6 hw" "field32 p bp_yiaddr = yi" "field32 p bp_siaddr = srv"
    "length rx = bootp_size"
proof -
  obtain k1 where k1: "c\<lparr> world := k1 \<rparr> = check_lease (take_alarms e c)" "sent k1 = sent (world c)" using peer_round [OF assms(1,2)] .
  define rx where "rx = deliver (reply (sent (world c))) (received c)"
  obtain k2 where k2: "get_response e i (c\<lparr> world := k1 \<rparr>) = (True, c\<lparr> received := rx, world := k2 \<rparr>)"
    using peer_response [OF assms(1), of i "c\<lparr> world := k1 \<rparr>"] by (auto simp: k1(2) rx_def)
  have says: "says (reply (sent (world c))) is" using assms(5) by (simp add: answer_def)
  note d = deliver_says [OF says assms(4), folded rx_def]
  have rx: "field32 rx bp_xid = xid c" "field rx bp_htype 2 = [1, 6]" "field rx bp_chaddr 6 = take 6 hw" "field32 rx bp_yiaddr = yi" "field32 rx bp_siaddr = srv"
    using assms(5,8-10) d(2) [of bp_xid 4] d(2) [of bp_htype 2] d(2) [of bp_chaddr 6] d(2) [of bp_yiaddr 4] d(2) [of bp_siaddr 4]
    by (simp_all add: answer_def field32_def field_defs)
  let ?c2 = "c\<lparr> received := rx, world := k2 \<rparr>"
  have x: "examine ?c2 = Inr (Some True, ?c2\<lparr> msgtype := DHCPOFFER \<rparr>)"
    using d(1) rx assms(6,7,12,13) same_transaction [of ?c2] by (intro examine_accepts) simp_all
  obtain p where p: "keep_received (?c2\<lparr> msgtype := DHCPOFFER \<rparr>) = Inr (?c2\<lparr> msgtype := DHCPOFFER, res := p \<rparr>)" "carries p is"
    "\<And>at k. at + k \<le> bp_vend \<Longrightarrow> field p at k = field rx at k"
    using keep_carries [of "?c2\<lparr> msgtype := DHCPOFFER \<rparr>" "is"] d(1) assms(11) by auto
  have "dhcp_iter e i hw old c = Inr (Again (c\<lparr> received := rx, world := k2, msgtype := DHCPOFFER, res := p,
      tmr := reset_timeout (tmr c), pstate := DHCPSTATE_REQUESTING, xid := xid c + 0x10000 \<rparr>))"
    using dispatch(2) [OF k1(1)] assms(3) k2 x p(1) by (simp add: st_selecting_def reset_tmr_def new_xid_def)
  then show thesis using p rx carries_length [OF d(1)] that [where p = p and k = k2 and rx = rx] by (simp add: field32_def field_defs)
qed

lemma round3:
  assumes "peer (kern e) s hw sent reply" "l_which (lease c) = 0" "pstate c = DHCPSTATE_REQUESTING"
    and "carries (res c) is" "length (xmit2 c) = bootp_size" "field (res c) bp_htype 2 = [1, 6]" "field (res c) bp_chaddr 6 = take 6 hw"
    and "field32 (res c) bp_yiaddr = yi"
  obtains p x k where "dhcp_iter e i hw old c = Inr (Again (c\<lparr> res := p, xmit2 := x, world := k, pstate := DHCPSTATE_REQUEST_RECV \<rparr>))"
    "carries p (request_items yi is)" "field p bp_htype 2 = [1, 6]" "field p bp_chaddr 6 = take 6 hw" "field32 p bp_yiaddr = yi"
    "field32 p bp_siaddr = field32 (res c) bp_siaddr" "says (sent k) (sent_items (request_items yi is))"
    "field32 (sent k) bp_xid = xid c" "field (sent k) bp_htype 2 = [1, 6]" "field (sent k) bp_chaddr 6 = take 6 hw"
proof -
  obtain k1 where k1: "c\<lparr> world := k1 \<rparr> = check_lease (take_alarms e c)" using peer_round [OF assms(1,2)] .
  let ?c = "c\<lparr> world := k1 \<rparr>"
  obtain p x n where p: "carries p (request_items yi is)" "carries x (sent_items (request_items yi is))"
    "bp_vend + 5 + length (enc (sent_items (request_items yi is))) \<le> n" "field p bp_htype 2 = [1, 6]"
    "\<forall>at k. 12 \<le> at \<longrightarrow> at + k \<le> bp_vend \<longrightarrow> field p at k = field (res c) at k"
    and x: "field32 x bp_xid = xid c" "field x bp_htype 2 = [1, 6]" "field x bp_chaddr 6 = take 6 hw"
    and st: "st_requesting e i ?c = (case send e i INADDR_BROADCAST (take n x) (?c\<lparr> res := p, xmit2 := x \<rparr>) of
         (ok, c1) \<Rightarrow> Inr (Again (c1\<lparr> pstate := (if ok then DHCPSTATE_REQUEST_RECV else DHCPSTATE_FAILED) \<rparr>)))"
    using st_requesting_sends [of ?c "is" e i] assms(4-8) by auto
  obtain k where k: "send e i INADDR_BROADCAST (take n x) (?c\<lparr> res := p, xmit2 := x \<rparr>) = (True, ?c\<lparr> res := p, xmit2 := x, world := k \<rparr>)"
    "sent k = take n x" using peer_send [OF assms(1)] .
  have "dhcp_iter e i hw old c = Inr (Again (c\<lparr> res := p, xmit2 := x, world := k, pstate := DHCPSTATE_REQUEST_RECV \<rparr>))"
    using dispatch(3) [OF k1(1)] assms(3) st k(1) by simp
  moreover have "says (sent k) (sent_items (request_items yi is))" unfolding k(2) using p by (intro says_take)
  moreover have "field (sent k) at j = field x at j" if "at + j \<le> bp_vend" for at j
    using that p(3) unfolding k(2) by (intro field_take) simp
  ultimately show thesis
    using that [where p = p and x = x and k = k] p x assms(7,8) by (simp add: field32_def field_defs)
qed

text \<open>The options the client adds do not touch the addresses of the lease.\<close>

definition sane :: "item list \<Rightarrow> bool" where
  "sane is \<longleftrightarrow> (\<forall>i \<in> set is. item_sane i)"

lemma lease_addrs_append [simp]: "lease_addrs (a @ b) = lease_addrs a @ lease_addrs b"
  by (simp add: lease_addrs_def)

lemma remove_last_lease: "tag \<notin> addr_tags \<Longrightarrow> lease_addrs (remove_last tag is) = lease_addrs is \<and> (sane is \<longrightarrow> sane (remove_last tag is))"
  by (auto simp: remove_last_def sane_def item_addrs_def split: option.splits dest!: split_last_Some)

lemma replace_lease: "tag \<notin> addr_tags \<Longrightarrow> lease_addrs (replace_first tag v is) = lease_addrs is \<and> (sane is \<longrightarrow> sane (replace_first tag v is))"
  by (induction tag v "is" rule: replace_first.induct) (auto simp: sane_def item_sane_def item_addrs_def)

lemma add_item_lease: "tag \<notin> addr_tags \<Longrightarrow> lease_addrs (is @ [Opt tag v]) = lease_addrs is \<and> (sane is \<longrightarrow> sane (is @ [Opt tag v]))"
  by (simp add: sane_def item_sane_def item_addrs_def)

lemma set_item_lease:
  assumes "tag \<notin> addr_tags"
  shows "lease_addrs (set_item tag v is) = lease_addrs is \<and> (sane is \<longrightarrow> sane (set_item tag v is))"
proof (cases "lookup tag is")
  case None
  then have "set_item tag v is = is @ [Opt tag v]" by (simp add: set_item_def)
  then show ?thesis using add_item_lease [OF assms, of "is" v] by metis
next
  case (Some u)
  then have "set_item tag v is = (if length u = length v then replace_first tag v is else remove_last tag is @ [Opt tag v])"
    by (simp add: set_item_def)
  then show ?thesis
    using replace_lease [OF assms] remove_last_lease [OF assms] add_item_lease [OF assms, of "remove_last tag is" v] by metis
qed

lemma put_item_lease: "tag \<notin> addr_tags \<Longrightarrow> lease_addrs (put_item tag v is) = lease_addrs is \<and> (sane is \<longrightarrow> sane (put_item tag v is))"
  by (simp add: put_item_def set_item_lease remove_last_lease)

lemma sent_not_addr: "TAG_DHCP_MESS_TYPE \<notin> addr_tags" "TAG_DHCP_REQ_IP \<notin> addr_tags" "TAG_DHCP_PARM_REQ_LIST \<notin> addr_tags"
  "TAG_DHCP_MAX_MSGSZ \<notin> addr_tags"
  by (simp_all add: addr_tags_def tag_defs)

lemma request_lease: "lease_addrs (request_items yi is) = lease_addrs is" "sane is \<Longrightarrow> sane (request_items yi is)"
  by (simp_all add: request_items_def default_items_def put_item_lease sent_not_addr)

lemma get_option_total:
  assumes "carries p is" "tag_ok tag" "lookup TAG_DHCP_OPTOVER is = None"
  obtains r n where "get_bootp_option p tag len = Inr (r, n)" "r = map_option (take len) (lookup tag is)"
  using get_option_found [OF assms(1,2)] get_option_absent [OF assms(1,2) _ assms(3)] by (cases "lookup tag is") auto

lemma new_lease_total:
  assumes "carries bp is" "lookup TAG_DHCP_OPTOVER is = None" "dividend rs \<noteq> 0"
  obtains l' where "new_lease rs now bp l = Inr l'" "l_which l' = 0"
proof -
  obtain r1 n1 where 1: "get_bootp_option bp TAG_DHCP_LEASE_TIME 4 = Inr (r1, n1)" using get_option_total [OF assms(1) sent_tags_ok(6) assms(2)] .
  obtain r2 n2 where 2: "get_bootp_option bp TAG_DHCP_REBIND_TIME 4 = Inr (r2, n2)" using get_option_total [OF assms(1) sent_tags_ok(8) assms(2)] .
  obtain r3 n3 where 3: "get_bootp_option bp TAG_DHCP_RENEWAL_TIME 4 = Inr (r3, n3)" using get_option_total [OF assms(1) sent_tags_ok(7) assms(2)] .
  have "\<exists>l'. new_lease rs now bp l = Inr l' \<and> l_which l' = 0"
    using assms(3) by (simp add: new_lease_def 1 2 3 Let_def no_lease_def)
  then show thesis using that by blast
qed

lemma round4:
  assumes "peer (kern e) s hw sent reply" "l_which (lease c) = 0" "pstate c = DHCPSTATE_REQUEST_RECV" "length (received c) = bootp_size"
    and "answer yi srv is (sent (world c)) (reply (sent (world c)))" "lookup TAG_DHCP_MESS_TYPE is = Some [DHCPACK]" "srv \<noteq> 0"
    and "field32 (sent (world c)) bp_xid = xid c" "field (sent (world c)) bp_htype 2 = [1, 6]" "field (sent (world c)) bp_chaddr 6 = take 6 hw"
    and "field (res c) bp_htype 2 = [1, 6]" "field (res c) bp_chaddr 6 = take 6 hw" "field32 (res c) bp_yiaddr = yi" "field32 (res c) bp_siaddr = srv"
    and "lookup TAG_DHCP_OPTOVER is = None" "dividend (rsl e) \<noteq> 0"
  obtains rx k l now where "dhcp_iter e i hw old c = Inr (Again (c\<lparr> received := rx, msgtype := DHCPACK, tmr := reset_timeout (tmr c),
      lease := l, world := k, pstate := DHCPSTATE_BOUND \<rparr>))"
    "carries rx is" "new_lease (rsl e) now rx (lease c) = Inr l" "l_which l = 0"
proof -
  obtain k1 where k1: "c\<lparr> world := k1 \<rparr> = check_lease (take_alarms e c)" "sent k1 = sent (world c)" using peer_round [OF assms(1,2)] .
  define rx where "rx = deliver (reply (sent (world c))) (received c)"
  obtain k2 where k2: "get_response e i (c\<lparr> world := k1 \<rparr>) = (True, c\<lparr> received := rx, world := k2 \<rparr>)"
    using peer_response [OF assms(1), of i "c\<lparr> world := k1 \<rparr>"] by (auto simp: k1(2) rx_def)
  have says: "says (reply (sent (world c))) is" using assms(5) by (simp add: answer_def)
  note d = deliver_says [OF says assms(4), folded rx_def]
  have rx: "field32 rx bp_xid = xid c" "field rx bp_htype 2 = [1, 6]" "field rx bp_chaddr 6 = take 6 hw" "field32 rx bp_yiaddr = yi" "field32 rx bp_siaddr = srv"
    using assms(5,8-10) d(2) [of bp_xid 4] d(2) [of bp_htype 2] d(2) [of bp_chaddr 6] d(2) [of bp_yiaddr 4] d(2) [of bp_siaddr 4]
    by (simp_all add: answer_def field32_def field_defs)
  let ?c2 = "c\<lparr> received := rx, world := k2 \<rparr>"
  have x: "examine ?c2 = Inr (Some True, ?c2\<lparr> msgtype := DHCPACK \<rparr>)"
    using d(1) rx assms(6,7,11,12) same_transaction [of ?c2] by (intro examine_accepts) simp_all
  obtain n dd k3 where now: "kern e Now k2 = (Ok n dd, k3)" using peer_requests(5) [OF assms(1)] by blast
  obtain l where l: "new_lease (rsl e) (word_of_int n) rx (lease c) = Inr l" "l_which l = 0"
    using new_lease_total [OF d(1) assms(15,16)] .
  have "record_lease e (reset_tmr (?c2\<lparr> msgtype := DHCPACK \<rparr>))
      = Inr (c\<lparr> received := rx, msgtype := DHCPACK, tmr := reset_timeout (tmr c), lease := l, world := k3 \<rparr>)"
    using now l(1) by (simp add: record_lease_def reset_tmr_def)
  then have "dhcp_iter e i hw old c = Inr (Again (c\<lparr> received := rx, msgtype := DHCPACK, tmr := reset_timeout (tmr c),
      lease := l, world := k3, pstate := DHCPSTATE_BOUND \<rparr>))"
    using dispatch(4) [OF k1(1)] assms(3,13,14) k2 x rx(4,5) by (simp add: st_request_recv_def)
  then show thesis using that [where rx = rx and k = k3 and l = l and now = "word_of_int n"] d(1) l by simp
qed

lemma faultless_down: "faultless (with_socket ke (down_body ke dev 0))" "faultless (ADD_ROUTE ke ip gw nm dev)"
  unfolding down_body_def ADD_ROUTE_def Let_def by (auto intro!: faultless_intros)

lemma round5:
  assumes "peer (kern e) s hw sent reply" "l_which (lease c) = 0" "pstate c = DHCPSTATE_BOUND"
    and "carries (res c) is" "sane is"
    and "issamesubnet (inet_ntoa (field32 (res c) bp_yiaddr)) (inet_ntoa (inaddr_ip (bridge_conf (config (net c))))) = Inr False"
  obtains k where "dhcp_iter e i hw 0 c = Inr (Done True (set_wan 1 (c\<lparr> world := k, net := (net c)\<lparr> config := (config (net c))\<lparr>
      WAN_config_addrs := without_own (inaddr_ip (bridge_conf (config (net c)))) (lease_config (res c) is) \<rparr> \<rparr> \<rparr>)))"
proof -
  obtain k1 where k1: "c\<lparr> world := k1 \<rparr> = check_lease (take_alarms e c)" using peer_round [OF assms(1,2)] .
  define k2 where "k2 = snd (kern e (Close i) k1)"
  obtain r k3 where "with_socket (kern e) (down_body (kern e) (strlcpy (intf e) IFNAMSIZ) 0) (snd (kern e RouteReinit k2)) = Inr (r, k3)"
    using faultless_down(1) by (rule faultlessE)
  then have down: "do_dhcp_down_net (kern e) (intf e) 0 k2 = Inr (r, 0, k3)" by (simp add: do_dhcp_down_net_def)
  let ?b = "bridge_conf (config (net c))"
  obtain r2 k4 where add: "ADD_ROUTE (kern e) (inaddr_ip ?b) (inaddr_ip ?b) (inaddr_mas ?b) BRIDGE k3 = Inr (r2, k4)"
    using faultless_down(2) by (rule faultlessE)
  have "set_config_value (cops e) (res c) (net c) = Inr ((net c)\<lparr> config := (config (net c))\<lparr>
      WAN_config_addrs := without_own (inaddr_ip ?b) (lease_config (res c) is) \<rparr> \<rparr>)"
    using set_config_lease [OF assms(4), of "cops e" "net c"] assms(5,6) by (simp add: sane_def Let_def)
  then have "st_bound e i 0 (c\<lparr> world := k1 \<rparr>) = Inr (Done True (set_wan 1 (c\<lparr> world := k4, net := (net c)\<lparr> config := (config (net c))\<lparr>
      WAN_config_addrs := without_own (inaddr_ip ?b) (lease_config (res c) is) \<rparr> \<rparr> \<rparr>)))"
    using down add by (simp add: st_bound_def reinit_def close_socket_def k2_def [symmetric] state_defs Let_def)
  then show thesis using dispatch(5) [OF k1] assms(3) that [of k4] by simp
qed

text \<open>Procedures that succeed when the network stack accepts everything.\<close>

definition succeeds :: "'k proc \<Rightarrow> bool" where
  "succeeds p \<longleftrightarrow> (\<forall>k. \<exists>k'. p k = Inr (True, k'))"

named_theorems succeeds_intros
  \<open>procedures that succeed\<close>

lemma succeeds_req [succeeds_intros]:
  assumes "accepting ke s"
  shows "succeeds (req ke r)" "succeeds (req_exist ke r)"
proof -
  have "\<exists>n d k'. ke r k = (Ok n d, k')" for k using assms unfolding accepting_def by blast
  then have "\<exists>k'. req ke r k = Inr (True, k') \<and> req_exist ke r k = Inr (True, k')" for k
    unfolding req_def req_exist_def by (metis (no_types, lifting) case_prod_conv kres.case(1))
  then show "succeeds (req ke r)" "succeeds (req_exist ke r)" unfolding succeeds_def by blast+
qed

lemma succeeds_seqs [succeeds_intros]: "\<forall>p \<in> set ps. succeeds p \<Longrightarrow> succeeds (seqs ps)"
proof (induction ps)
  case Nil
  show ?case by (simp add: succeeds_def)
next
  case (Cons p ps)
  show ?case unfolding succeeds_def
  proof
    fix k
    obtain k1 where "p k = Inr (True, k1)" using Cons.prems unfolding succeeds_def by fastforce
    moreover obtain k2 where "seqs ps k1 = Inr (True, k2)" using Cons unfolding succeeds_def by fastforce
    ultimately show "\<exists>k'. seqs (p # ps) k = Inr (True, k')" by auto
  qed
qed

lemma succeeds_with_socket:
  assumes "accepting ke s" "succeeds (body s)"
  shows "succeeds (with_socket ke body)"
  unfolding succeeds_def
proof
  fix k
  obtain d k1 where "ke Socket k = (Ok s d, k1)" "0 \<le> s" using assms(1) unfolding accepting_def by blast
  moreover obtain k2 where "body s k1 = Inr (True, k2)" using assms(2) unfolding succeeds_def by blast
  ultimately show "\<exists>k'. with_socket ke body k = Inr (True, k')" by (simp add: with_socket_def)
qed

lemma peer_starts:
  assumes "peer (kern e) s hw sent reply" "pstate c = 0"
  obtains k x where "do_dhcp n e c = dhcp_loop n e s hw 0
      (c\<lparr> pstate := DHCPSTATE_INIT, lease := (lease c)\<lparr> l_which := 0, l_next := 0 \<rparr>, seen_bootp_reply := False, msgtype := 0,
          tmr := reset_timeout (tmr c), world := k, xid := x \<rparr>)"
proof -
  note acc = peer_accepting [OF assms(1)]
  have "succeeds (bring_half_up (kern e) (intf e))"
    unfolding bring_half_up_def Let_def using acc by (intro succeeds_with_socket [OF acc]) (auto intro!: succeeds_intros)
  then obtain k1 where half: "bring_half_up (kern e) (intf e) (world c) = Inr (True, k1)" unfolding succeeds_def by blast
  obtain d k2 where sock: "kern e Socket k1 = (Ok s d, k2)" using peer_requests(7) [OF assms(1)] by blast
  have s: "0 \<le> s" using acc by (simp add: accepting_def)
  have "succeeds (sock_setup e s)" unfolding sock_setup_def using acc by (auto intro!: succeeds_intros)
  then obtain k3 where prep: "sock_setup e s k2 = Inr (True, k3)" unfolding succeeds_def by blast
  obtain v k4 where hwr: "kern e (Ioctl s (SIOCGIFHWADDR (strlcpy (intf e) IFNAMSIZ))) k3 = (Ok v hw, k4)"
    using peer_requests(8) [OF assms(1)] by blast
  obtain rx k5 where rnd: "kern e Random k4 = (rx, k5)" by fastforce
  show thesis
    using that [where k = k5 and x = "first_xid hw (case rx of Ok v _ \<Rightarrow> word_of_int v | Fail _ \<Rightarrow> 0)"] half sock s prep hwr rnd assms(2)
    by (simp add: do_dhcp_def Let_def reset_tmr_def)
qed

lemma loop_again: "dhcp_iter e s hw old c = Inr (Again c') \<Longrightarrow> dhcp_loop (Suc n) e s hw old c = dhcp_loop n e s hw old c'"
  by simp

lemma loop_done: "dhcp_iter e s hw old c = Inr (Done r c') \<Longrightarrow> dhcp_loop (Suc n) e s hw old c = Inr (Some (r, c'))"
  by simp

text \<open>The whole conversation.\<close>

lemma handshake:
  assumes peer: "peer (kern e) s hw sent reply" "6 \<le> length hw"
    and srv: "serves reply yi srv off ack" "srv \<noteq> 0" "roomy off" "sane off" "lookup TAG_DHCP_OPTOVER ack = None" "dividend (rsl e) \<noteq> 0"
    and c: "pstate c = 0" "length (received c) = bootp_size" "length (xmit2 c) = bootp_size"
    and lan: "issamesubnet (inet_ntoa yi) (inet_ntoa (inaddr_ip (bridge_conf (config (net c))))) = Inr False"
  obtains c' p rx now l where "do_dhcp 5 e c = Inr (Some (True, c'))" "pstate c' = DHCPSTATE_BOUND"
    "net c' = (net c)\<lparr> config := (config (net c))\<lparr> WAN_config_addrs := without_own (inaddr_ip (bridge_conf (config (net c)))) (lease_config p off),
       wan_status := 1 \<rparr> \<rparr>" "field32 p bp_yiaddr = yi" "field32 p bp_siaddr = srv"
    "carries rx ack" "new_lease (rsl e) now rx l = Inr (lease c')" "res c' = p" "carries p (request_items yi off)"
proof -
  obtain k0 x0 where start: "do_dhcp 5 e c = dhcp_loop 5 e s hw 0
      (c\<lparr> pstate := DHCPSTATE_INIT, lease := (lease c)\<lparr> l_which := 0, l_next := 0 \<rparr>, seen_bootp_reply := False, msgtype := 0,
          tmr := reset_timeout (tmr c), world := k0, xid := x0 \<rparr>)"
    using peer_starts [OF peer(1) c(1)] .
  define c0 where "c0 = c\<lparr> pstate := DHCPSTATE_INIT, lease := (lease c)\<lparr> l_which := 0, l_next := 0 \<rparr>, seen_bootp_reply := False, msgtype := 0,
          tmr := reset_timeout (tmr c), world := k0, xid := x0 \<rparr>"
  have h0: "l_which (lease c0) = 0" "pstate c0 = DHCPSTATE_INIT" by (simp_all add: c0_def)
  obtain p1 k1 where it1: "dhcp_iter e s hw 0 c0 = Inr (Again (c0\<lparr> res := p1, world := k1, seen_bootp_reply := False, pstate := DHCPSTATE_SELECTING \<rparr>))"
    and p1: "carries p1 discover_items" "field p1 bp_htype 2 = [1, 6]" "field p1 bp_chaddr 6 = take 6 hw"
    and k1: "says (sent k1) discover_items" "field32 (sent k1) bp_xid = xid c0" "field (sent k1) bp_htype 2 = [1, 6]" "field (sent k1) bp_chaddr 6 = take 6 hw"
    using round1 [OF peer h0, where i = s and old = 0] .
  define c1 where "c1 = c0\<lparr> res := p1, world := k1, seen_bootp_reply := False, pstate := DHCPSTATE_SELECTING \<rparr>"
  have off: "lookup TAG_DHCP_MESS_TYPE off = Some [DHCPOFFER]" "answer yi srv off (sent k1) (reply (sent k1))"
    using srv(1) k1(1) discover_type unfolding serves_def by blast+
  have h1: "l_which (lease c1) = 0" "pstate c1 = DHCPSTATE_SELECTING" "length (received c1) = bootp_size"
    "answer yi srv off (sent (world c1)) (reply (sent (world c1)))"
    "field32 (sent (world c1)) bp_xid = xid c1" "field (sent (world c1)) bp_htype 2 = [1, 6]" "field (sent (world c1)) bp_chaddr 6 = take 6 hw"
    "length (res c1) = bootp_size" "field (res c1) bp_htype 2 = [1, 6]" "field (res c1) bp_chaddr 6 = take 6 hw"
    using c off k1 p1 carries_length [OF p1(1)] by (simp_all add: c1_def c0_def)
  obtain p2 k2 rx2 where it2: "dhcp_iter e s hw 0 c1 = Inr (Again (c1\<lparr> received := rx2, world := k2, msgtype := DHCPOFFER, res := p2,
      tmr := reset_timeout (tmr c1), pstate := DHCPSTATE_REQUESTING, xid := xid c1 + 0x10000 \<rparr>))"
    and p2: "carries p2 off" "field p2 bp_htype 2 = [1, 6]" "field p2 bp_chaddr 6 = take 6 hw" "field32 p2 bp_yiaddr = yi" "field32 p2 bp_siaddr = srv"
      "length rx2 = bootp_size"
    using round2 [OF peer(1) h1(1-3) h1(4) off(1) srv(2) h1(5-10), where i = s and old = 0] .
  define c2 where "c2 = c1\<lparr> received := rx2, world := k2, msgtype := DHCPOFFER, res := p2,
      tmr := reset_timeout (tmr c1), pstate := DHCPSTATE_REQUESTING, xid := xid c1 + 0x10000 \<rparr>"
  have h2: "l_which (lease c2) = 0" "pstate c2 = DHCPSTATE_REQUESTING" "carries (res c2) off" "length (xmit2 c2) = bootp_size"
    "field (res c2) bp_htype 2 = [1, 6]" "field (res c2) bp_chaddr 6 = take 6 hw" "field32 (res c2) bp_yiaddr = yi" "field32 (res c2) bp_siaddr = srv"
    using c p2 by (simp_all add: c2_def c1_def c0_def)
  obtain p3 x3 k3 where it3: "dhcp_iter e s hw 0 c2 = Inr (Again (c2\<lparr> res := p3, xmit2 := x3, world := k3, pstate := DHCPSTATE_REQUEST_RECV \<rparr>))"
    and p3: "carries p3 (request_items yi off)" "field p3 bp_htype 2 = [1, 6]" "field p3 bp_chaddr 6 = take 6 hw" "field32 p3 bp_yiaddr = yi"
      "field32 p3 bp_siaddr = srv"
    and k3: "says (sent k3) (sent_items (request_items yi off))" "field32 (sent k3) bp_xid = xid c2" "field (sent k3) bp_htype 2 = [1, 6]" "field (sent k3) bp_chaddr 6 = take 6 hw"
    using round3 [OF peer(1) h2(1-7), where i = s and old = 0, unfolded h2(8)] .
  define c3 where "c3 = c2\<lparr> res := p3, xmit2 := x3, world := k3, pstate := DHCPSTATE_REQUEST_RECV \<rparr>"
  have ack: "lookup TAG_DHCP_MESS_TYPE ack = Some [DHCPACK]" "answer yi srv ack (sent k3) (reply (sent k3))"
    using srv(1) k3(1) request_lookups [OF srv(3) off(1)] unfolding serves_def by blast+
  have h3: "l_which (lease c3) = 0" "pstate c3 = DHCPSTATE_REQUEST_RECV" "length (received c3) = bootp_size"
    "answer yi srv ack (sent (world c3)) (reply (sent (world c3)))"
    "field32 (sent (world c3)) bp_xid = xid c3" "field (sent (world c3)) bp_htype 2 = [1, 6]" "field (sent (world c3)) bp_chaddr 6 = take 6 hw"
    "field (res c3) bp_htype 2 = [1, 6]" "field (res c3) bp_chaddr 6 = take 6 hw" "field32 (res c3) bp_yiaddr = yi" "field32 (res c3) bp_siaddr = srv"
    using ack k3 p3 p2(6) by (simp_all add: c3_def c2_def c1_def c0_def)
  obtain rx4 k4 l4 now where it4: "dhcp_iter e s hw 0 c3 = Inr (Again (c3\<lparr> received := rx4, msgtype := DHCPACK, tmr := reset_timeout (tmr c3),
      lease := l4, world := k4, pstate := DHCPSTATE_BOUND \<rparr>))"
    and l4: "carries rx4 ack" "new_lease (rsl e) now rx4 (lease c3) = Inr l4" "l_which l4 = 0"
    using round4 [OF peer(1) h3(1-4) ack(1) srv(2) h3(5-11) srv(5,6), where i = s and old = 0] .
  define c4 where "c4 = c3\<lparr> received := rx4, msgtype := DHCPACK, tmr := reset_timeout (tmr c3), lease := l4, world := k4, pstate := DHCPSTATE_BOUND \<rparr>"
  have net: "net c4 = net c" "res c4 = p3" by (simp_all add: c4_def c3_def c2_def c1_def c0_def)
  have h4: "l_which (lease c4) = 0" "pstate c4 = DHCPSTATE_BOUND" "carries (res c4) (request_items yi off)" "sane (request_items yi off)"
    "issamesubnet (inet_ntoa (field32 (res c4) bp_yiaddr)) (inet_ntoa (inaddr_ip (bridge_conf (config (net c4))))) = Inr False"
    using l4 p3 request_lease(2) [OF srv(4)] lan by (simp_all add: net) (simp_all add: c4_def)
  obtain k5 where it5: "dhcp_iter e s hw 0 c4 = Inr (Done True (set_wan 1 (c4\<lparr> world := k5, net := (net c4)\<lparr> config := (config (net c4))\<lparr>
      WAN_config_addrs := without_own (inaddr_ip (bridge_conf (config (net c4)))) (lease_config (res c4) (request_items yi off)) \<rparr> \<rparr> \<rparr>)))"
    using round5 [OF peer(1) h4, where i = s] .
  have same: "lease_config p3 (request_items yi off) = lease_config p3 off" by (simp add: lease_config_def request_lease(1))
  define c5 where "c5 = set_wan 1 (c4\<lparr> world := k5, net := (net c4)\<lparr> config := (config (net c4))\<lparr>
      WAN_config_addrs := without_own (inaddr_ip (bridge_conf (config (net c4)))) (lease_config (res c4) (request_items yi off)) \<rparr> \<rparr> \<rparr>)"
  have "dhcp_loop 5 e s hw 0 c0 = dhcp_loop 4 e s hw 0 c1" using loop_again [OF it1 [folded c1_def], of 4] by simp
  also have "\<dots> = dhcp_loop 3 e s hw 0 c2" using loop_again [OF it2 [folded c2_def], of 3] by simp
  also have "\<dots> = dhcp_loop 2 e s hw 0 c3" using loop_again [OF it3 [folded c3_def], of 2] by simp
  also have "\<dots> = dhcp_loop 1 e s hw 0 c4" using loop_again [OF it4 [folded c4_def], of 1] by (simp only: Suc_1)
  also have "\<dots> = Inr (Some (True, c5))" using loop_done [OF it5 [folded c5_def], of 0] by (simp only: One_nat_def)
  finally have "do_dhcp 5 e c = Inr (Some (True, c5))" unfolding start c0_def [symmetric] .
  moreover have "pstate c5 = DHCPSTATE_BOUND" "lease c5 = l4" by (simp_all add: c5_def set_wan_def c4_def)
  moreover have "net c5 = (net c)\<lparr> config := (config (net c))\<lparr> WAN_config_addrs := without_own (inaddr_ip (bridge_conf (config (net c))))
      (lease_config p3 off), wan_status := 1 \<rparr> \<rparr>"
    unfolding c5_def set_wan_def net same by simp
  moreover have "res c5 = p3" by (simp add: c5_def set_wan_def net)
  ultimately show thesis using that [OF _ _ _ p3(4,5) l4(1)] l4(2) p3(1) by blast
qed

section \<open>The alarms of a lease\<close>

lemma unat_ucast64: "unat (ucast (w :: u32) :: u64) = unat w"
proof -
  have "unat w < 2 ^ LENGTH(32)" by (rule unsigned_less)
  then have "unat w < 2 ^ 64" by simp
  then show ?thesis by (simp add: unsigned_ucast_eq take_bit_nat_eq_self)
qed

lemma unat_ticks:
  assumes "dividend rs \<noteq> 0" "unat t * 1000000000 div unat (dividend rs) * unat (divisor rs) < 2 ^ 64"
  shows "unat (ticks rs (ucast (t :: u32))) = unat t * 1000000000 div unat (dividend rs) * unat (divisor rs)"
proof -
  have u: "unat (ucast t :: u64) = unat t" "unat (ucast (dividend rs) :: u64) = unat (dividend rs)" "unat (ucast (divisor rs) :: u64) = unat (divisor rs)"
    by (rule unat_ucast64)+
  have "unat t < 2 ^ LENGTH(32)" by (rule unsigned_less)
  then have "unat t * 1000000000 < 2 ^ 64" by simp
  then have m: "unat (ucast t * 1000000000 :: u64) = unat t * 1000000000" using u(1) by (simp add: unat_word_ariths)
  have "unat (ucast t * 1000000000 div ucast (dividend rs) :: u64) = unat t * 1000000000 div unat (dividend rs)"
    by (simp add: unat_div m u)
  then show ?thesis using assms(2) by (simp add: ticks_def unat_word_ariths u)
qed

lemma ticks_mono:
  fixes t u :: u32
  assumes "dividend rs \<noteq> 0" "unat now + unat t * 1000000000 div unat (dividend rs) * unat (divisor rs) < 2 ^ 64" "u \<le> t"
  shows "unat (now + ticks rs (ucast u)) = unat now + unat u * 1000000000 div unat (dividend rs) * unat (divisor rs)"
proof -
  define a where "a = unat u * 1000000000 div unat (dividend rs) * unat (divisor rs)"
  have "a \<le> unat t * 1000000000 div unat (dividend rs) * unat (divisor rs)"
    unfolding a_def using assms(3) by (intro mult_le_mono1 div_le_mono) (simp add: word_le_nat_alt)
  with assms(2) have small: "unat now + a < 2 ^ 64" by linarith
  then have "unat (ticks rs (ucast u)) = a" using unat_ticks [of rs u] assms(1) by (simp add: a_def)
  then have "unat (now + ticks rs (ucast u)) = unat now + a" using small by (simp add: unat_word_ariths)
  then show ?thesis by (simp only: a_def)
qed

lemma lease_shares: "u div 2 \<le> u - u div 8" "u - u div 8 \<le> u" for u :: u32
proof -
  have "unat (u - u div 8) = unat u - unat u div 8" by (simp add: unat_sub word_le_nat_alt unat_div)
  then show "u div 2 \<le> u - u div 8" "u - u div 8 \<le> u" by (simp_all add: word_le_nat_alt unat_div)
qed

lemma new_lease_times:
  assumes "carries bp is" "lookup TAG_DHCP_OPTOVER is = None" "lookup TAG_DHCP_LEASE_TIME is = Some (put_u32 t)" "t \<noteq> 0xffffffff"
    and "lookup TAG_DHCP_REBIND_TIME is = None" "lookup TAG_DHCP_RENEWAL_TIME is = None" "dividend rs \<noteq> 0"
  shows "new_lease rs now bp l = Inr (l\<lparr> l_which := 0, l_expiry := now + ticks rs (ucast t),
     l_t2 := now + ticks rs (ucast (t - t div 8)), l_t1 := now + ticks rs (ucast (t div 2)), l_next := DHCP_LEASE_T1,
     l_alarm := Some (Armed (now + ticks rs (ucast (t div 2)))) \<rparr>)"
proof -
  have ov: "overlay 0 (put_u32 t) = t" by (simp add: overlay_def)
  have "get_bootp_option bp TAG_DHCP_LEASE_TIME 4 = Inr (Some (put_u32 t), 4)"
    using get_option_found [OF assms(1) sent_tags_ok(6) assms(3), of 4] by simp
  moreover have "get_bootp_option bp TAG_DHCP_REBIND_TIME 4 = Inr (None, 4)" "get_bootp_option bp TAG_DHCP_RENEWAL_TIME 4 = Inr (None, 4)"
    using get_option_absent [OF assms(1) _ _ assms(2)] assms(5,6) by simp_all
  ultimately show ?thesis
    using assms(4,7) by (simp add: new_lease_def ov no_lease_def Let_def)
qed

section \<open>Properties\<close>

text \<open>
  (C13) The client obtains a lease: with a server that offers an address to a DISCOVER and confirms it to a REQUEST that
  names the offered address and the server, \<^verbatim>\<open>do_dhcp\<close> returns success after five rounds with the state
  \<^verbatim>\<open>BOUND\<close>, the configuration holds the offered lease and nothing else has changed in it, the WAN counts as up, and the
  lease is counted from the acknowledgement. (The offer must leave room for the options of the request and
  must not be in the network of the LAN.)
\<close>

theorem dhcp_obtains_lease:
  assumes "peer (kern e) s hw sent reply" "6 \<le> length hw"
    and "serves reply yi srv off ack" "srv \<noteq> 0" "roomy off" "sane off" "lookup TAG_DHCP_OPTOVER ack = None" "dividend (rsl e) \<noteq> 0"
    and "pstate c = 0" "length (received c) = bootp_size" "length (xmit2 c) = bootp_size"
    and "issamesubnet (inet_ntoa yi) (inet_ntoa (inaddr_ip (bridge_conf (config (net c))))) = Inr False"
  shows "\<exists>c' p rx now l. do_dhcp 5 e c = Inr (Some (True, c')) \<and> pstate c' = DHCPSTATE_BOUND
     \<and> net c' = (net c)\<lparr> config := (config (net c))\<lparr>
          WAN_config_addrs := without_own (inaddr_ip (bridge_conf (config (net c)))) (lease_config p off), wan_status := 1 \<rparr> \<rparr>
     \<and> field32 p bp_yiaddr = yi \<and> field32 p bp_siaddr = srv \<and> carries rx ack \<and> new_lease (rsl e) now rx l = Inr (lease c')"
  using handshake [OF assms] by metis


definition mute_kernel :: "unit kernel" where
  "mute_kernel r k = (case r of RecvFrom _ \<Rightarrow> (Fail False, k) | Ioctl _ _ \<Rightarrow> (Ok 3 (replicate 6 2), k) | _ \<Rightarrow> (Ok 3 [], k))"

lemma mute_silent: "silent mute_kernel" "ethernet mute_kernel"
  by (auto simp: silent_def ethernet_def mute_kernel_def)



text \<open>
  The request names the offer: from an offer with room for it the client makes and broadcasts a DHCPREQUEST of the new
  transaction with the offered address and the server identifier of the offer.
\<close>

theorem request_names_offer:
  assumes "carries (res c) off" "roomy off" "lookup TAG_DHCP_MESS_TYPE off = Some [DHCPOFFER]" "length (xmit2 c) = bootp_size"
  shows "\<exists>p x d is. st_requesting e s c = (case send e s INADDR_BROADCAST d (c\<lparr> res := p, xmit2 := x \<rparr>) of
         (ok, c1) \<Rightarrow> Inr (Again (c1\<lparr> pstate := (if ok then DHCPSTATE_REQUEST_RECV else DHCPSTATE_FAILED) \<rparr>)))
     \<and> says d is \<and> lookup TAG_DHCP_MESS_TYPE is = Some [DHCPREQUEST] \<and> lookup TAG_DHCP_REQ_IP is = Some (put_u32 (field32 (res c) bp_yiaddr))
     \<and> lookup TAG_DHCP_SERVER_ID is = lookup TAG_DHCP_SERVER_ID off \<and> field32 d bp_xid = xid c \<and> field d bp_chaddr 6 = field (res c) bp_chaddr 6"
proof -
  let ?is = "sent_items (request_items (field32 (res c) bp_yiaddr) off)"
  obtain p x n where x: "carries x ?is" "bp_vend + 5 + length (enc ?is) \<le> n" "field32 x bp_xid = xid c" "field x bp_chaddr 6 = field (res c) bp_chaddr 6"
    and st: "st_requesting e s c = (case send e s INADDR_BROADCAST (take n x) (c\<lparr> res := p, xmit2 := x \<rparr>) of
         (ok, c1) \<Rightarrow> Inr (Again (c1\<lparr> pstate := (if ok then DHCPSTATE_REQUEST_RECV else DHCPSTATE_FAILED) \<rparr>)))"
    using st_requesting_sends [OF assms(1,4), of e s] by blast
  have "field (take n x) at j = field x at j" if "at + j \<le> bp_vend" for at j using that x(2) by (intro field_take) simp
  then have "field32 (take n x) bp_xid = xid c" "field (take n x) bp_chaddr 6 = field (res c) bp_chaddr 6"
    using x(3,4) by (simp_all add: field32_def field_defs)
  then show ?thesis using st says_take [OF x(1,2)] request_lookups [OF assms(2,3)] by blast
qed

text \<open>
  (C24) The alarms of a lease come in order: for a finite lease with the default times, if the expiry can be
  counted in ticks, \<^verbatim>\<open>new_lease\<close> sets the alarm for T1, and T1, T2 and the expiry follow each other; the
  alarm function sets it for the next of these times, marks which have passed, and in the end disables it.
\<close>

theorem lease_alarms_in_order:
  assumes "carries bp is" "lookup TAG_DHCP_OPTOVER is = None" "lookup TAG_DHCP_LEASE_TIME is = Some (put_u32 t)" "t \<noteq> 0xffffffff"
    and "lookup TAG_DHCP_REBIND_TIME is = None" "lookup TAG_DHCP_RENEWAL_TIME is = None" "dividend rs \<noteq> 0"
    and "unat now + unat t * 1000000000 div unat (dividend rs) * unat (divisor rs) < 2 ^ 64"
  shows "\<exists>l'. new_lease rs now bp l = Inr l'
     \<and> now \<le> l_t1 l' \<and> l_t1 l' \<le> l_t2 l' \<and> l_t2 l' \<le> l_expiry l'
     \<and> unat (l_expiry l') = unat now + unat t * 1000000000 div unat (dividend rs) * unat (divisor rs)
     \<and> (l_alarm l', l_which l') = (Some (Armed (l_t1 l')), 0)
     \<and> (l_alarm (fire l'), l_which (fire l')) = (Some (Armed (l_t2 l')), DHCP_LEASE_T1)
     \<and> (l_alarm (fire (fire l')), l_which (fire (fire l'))) = (Some (Armed (l_expiry l')), DHCP_LEASE_T1 OR DHCP_LEASE_T2)
     \<and> (l_alarm (fire (fire (fire l'))), l_which (fire (fire (fire l')))) = (Some Disabled, DHCP_LEASE_T1 OR DHCP_LEASE_T2 OR DHCP_LEASE_EX)
     \<and> fire (fire (fire (fire l'))) = fire (fire (fire l'))"
proof -
  define l' where "l' = l\<lparr> l_which := 0, l_expiry := now + ticks rs (ucast t),
     l_t2 := now + ticks rs (ucast (t - t div 8)), l_t1 := now + ticks rs (ucast (t div 2)), l_next := DHCP_LEASE_T1,
     l_alarm := Some (Armed (now + ticks rs (ucast (t div 2)))) \<rparr>"
  have n: "unat (l_t1 l') = unat now + unat (t div 2) * 1000000000 div unat (dividend rs) * unat (divisor rs)"
    "unat (l_t2 l') = unat now + unat (t - t div 8) * 1000000000 div unat (dividend rs) * unat (divisor rs)"
    "unat (l_expiry l') = unat now + unat t * 1000000000 div unat (dividend rs) * unat (divisor rs)"
    using ticks_mono [OF assms(7,8)] lease_shares [of t] order_trans [OF lease_shares] by (simp_all add: l'_def)
  have "unat (l_t1 l') \<le> unat (l_t2 l')" unfolding n(1,2)
    using lease_shares(1) [of t] by (intro add_left_mono mult_le_mono1 div_le_mono) (simp add: word_le_nat_alt)
  moreover have "unat (l_t2 l') \<le> unat (l_expiry l')" unfolding n(2,3)
    using lease_shares(2) [of t] by (intro add_left_mono mult_le_mono1 div_le_mono) (simp add: word_le_nat_alt)
  moreover have "unat now \<le> unat (l_t1 l')" unfolding n(1) by simp
  moreover have "new_lease rs now bp l = Inr l'" unfolding l'_def by (rule new_lease_times [OF assms(1-7)])
  moreover have "l_alarm l' = Some (Armed (l_t1 l'))" "l_next l' = DHCP_LEASE_T1" "l_which l' = 0" by (simp_all add: l'_def)
  ultimately show ?thesis
    using n(3) by (intro exI [of _ l']) (simp add: word_le_nat_alt fire_def alarm_function_def lease_bits Let_def)
qed

section \<open>A concrete server\<close>

text \<open>A network stack whose state is the last packet sent, and a server that copies the header of the
  packet it answers.\<close>

definition wire :: "u8 list \<Rightarrow> (u8 list \<Rightarrow> u8 list) \<Rightarrow> (u8 list) kernel" where
  "wire hw reply r k = (case r of
     SendTo _ _ bs \<Rightarrow> (Ok (int (length bs)) [], bs) | RecvFrom _ \<Rightarrow> (Ok 0 (reply k), k) | Alarms \<Rightarrow> (Ok 0 [], k)
   | Ioctl _ _ \<Rightarrow> (Ok 0 hw, k) | _ \<Rightarrow> (Ok 3 [], k))"

lemma wire_peer: "peer (wire hw reply) 3 hw id reply"
  unfolding peer_def by (auto simp: wire_def split: kreq.splits)

definition demo_offer :: "item list" where
  "demo_offer = [Opt TAG_DHCP_MESS_TYPE [DHCPOFFER], Opt TAG_DHCP_SERVER_ID [10, 0, 0, 1], Opt TAG_DHCP_LEASE_TIME (put_u32 3600),
     Opt TAG_SUBNET_MASK [255, 0, 0, 0], Opt TAG_GATEWAY [10, 0, 0, 1]]"

definition demo_ack :: "item list" where
  "demo_ack = [Opt TAG_DHCP_MESS_TYPE [DHCPACK], Opt TAG_DHCP_SERVER_ID [10, 0, 0, 1], Opt TAG_DHCP_LEASE_TIME (put_u32 3600)]"

definition copy_header :: "u8 list \<Rightarrow> packet \<Rightarrow> packet" where
  "copy_header d p = put_field32 (put_field32 (put_field (put_field (put_field p bp_xid (field d bp_xid 4)) bp_htype (field d bp_htype 2))
     bp_chaddr (field d bp_chaddr 6)) bp_yiaddr 0x0a000007) bp_siaddr 0x0a000001"

definition demo_server :: "u8 list \<Rightarrow> u8 list" where
  "demo_server d = copy_header d (packet_of (case decode (drop (bp_vend + 4) d) of
     Some is \<Rightarrow> if lookup TAG_DHCP_MESS_TYPE is = Some [DHCPDISCOVER] then demo_offer else demo_ack | None \<Rightarrow> demo_ack))"

lemma demo_items: "carries (packet_of demo_offer) demo_offer" "carries (packet_of demo_ack) demo_ack" "roomy demo_offer" "sane demo_offer"
  by (rule carries_packet_of carries_packet_of | simp add: demo_offer_def demo_ack_def tag_defs room_def BP_VEND_LEN_def roomy_def sane_def
      item_sane_def addr_tags_def dvd_eq_mod_eq_0)+

lemma copy_header_answers:
  assumes "carries p is" "says d js"
  shows "answer 0x0a000007 0x0a000001 is d (copy_header d p)"
proof -
  have len: "length p = bootp_size" by (rule carries_length [OF assms(1)])
  have "bp_vend + 4 \<le> length d" using assms(2) by (auto simp: says_def)
  then have f: "length (field d bp_xid 4) = 4" "length (field d bp_htype 2) = 2" "length (field d bp_chaddr 6) = 6"
    by (simp_all add: field_def field_defs)
  have "carries (copy_header d p) is" unfolding copy_header_def put_field32_def
    using assms(1) f by (intro put_header_carries) (simp_all add: field_defs)
  then have "says (copy_header d p) is" using says_take [of "copy_header d p" "is" bootp_size] carries_length carries_room by fastforce
  moreover have "field (copy_header d p) bp_xid 4 = field d bp_xid 4" "field (copy_header d p) bp_htype 2 = field d bp_htype 2"
    "field (copy_header d p) bp_chaddr 6 = field d bp_chaddr 6"
    using f len field_put_same [of bp_xid "field d bp_xid 4" p] field_put_same [of bp_htype "field d bp_htype 2" "put_field p bp_xid (field d bp_xid 4)"]
      field_put_same [of bp_chaddr "field d bp_chaddr 6" "put_field (put_field p bp_xid (field d bp_xid 4)) bp_htype (field d bp_htype 2)"]
    by (simp_all add: copy_header_def put_field32_def field_put_other field_defs)
  moreover have "field32 (copy_header d p) bp_yiaddr = 0x0a000007" "field32 (copy_header d p) bp_siaddr = 0x0a000001"
    using f len field32_put_other [of bp_yiaddr bp_siaddr "put_u32 0x0a000001"]
    by (simp_all add: copy_header_def field_defs) (simp_all add: put_field32_def field32_put_other field32_put_same [unfolded put_field32_def])
  ultimately show ?thesis by (simp add: answer_def field32_def)
qed

lemma demo_serves: "serves demo_server 0x0a000007 0x0a000001 demo_offer demo_ack"
proof -
  have dec: "decode (drop (bp_vend + 4) d) = Some is" if "says d is" for d "is"
    using that by (auto simp: says_def decode_enc)
  have "answer 0x0a000007 0x0a000001 demo_offer d (demo_server d)" if "says d is" "lookup TAG_DHCP_MESS_TYPE is = Some [DHCPDISCOVER]" for d "is"
    using copy_header_answers [OF demo_items(1) that(1)] dec [OF that(1)] that(2) by (simp add: demo_server_def)
  moreover have "answer 0x0a000007 0x0a000001 demo_ack d (demo_server d)" if "says d is" "lookup TAG_DHCP_MESS_TYPE is = Some [DHCPREQUEST]" for d "is"
    using copy_header_answers [OF demo_items(2) that(1)] dec [OF that(1)] that(2) by (simp add: demo_server_def message_defs)
  moreover have "lookup TAG_DHCP_MESS_TYPE demo_offer = Some [DHCPOFFER]" "lookup TAG_DHCP_MESS_TYPE demo_ack = Some [DHCPACK]"
    by (simp_all add: demo_offer_def demo_ack_def)
  ultimately show ?thesis unfolding serves_def by blast
qed

lemma demo_start:
  "peer (kern (demo_env (wire hw demo_server))) 3 hw id demo_server" "lookup TAG_DHCP_OPTOVER demo_ack = None" "dividend (rsl (demo_env ke)) \<noteq> 0"
  "pstate (demo_client 0 k) = 0" "length (received (demo_client 0 k)) = bootp_size" "length (xmit2 (demo_client 0 k)) = bootp_size"
  "issamesubnet (inet_ntoa 0x0a000007) (inet_ntoa (inaddr_ip (bridge_conf (config (net (demo_client 0 k)))))) = Inr False"
proof -
  have "''192.168.0.1'' = inet_ntoa (quad 192 168 0 1)" by code_simp
  then have lan: "inaddr_ip (bridge_conf (config (net (demo_client 0 k)))) = quad 192 168 0 1"
    by (simp add: demo_client_def demo_net_def default_config_def default_bridge_def inet_addr_ntoa)
  have "issamesubnet (inet_ntoa 0x0a000007) (inet_ntoa (quad 192 168 0 1)) = Inr False" by code_simp
  then show "issamesubnet (inet_ntoa 0x0a000007) (inet_ntoa (inaddr_ip (bridge_conf (config (net (demo_client 0 k)))))) = Inr False"
    by (simp only: lan)
qed (simp_all add: demo_env_def demo_client_def wire_peer demo_ack_def tag_defs)

theorem dhcp_obtains_lease_witness:
  "\<exists>c' p rx now l. do_dhcp 5 (demo_env (wire [2, 0, 0, 1, 2, 3] demo_server)) (demo_client 0 []) = Inr (Some (True, c')) \<and> pstate c' = DHCPSTATE_BOUND
     \<and> net c' = (net (demo_client 0 ([] :: u8 list)))\<lparr> config := (config (net (demo_client 0 ([] :: u8 list))))\<lparr>
          WAN_config_addrs := without_own (inaddr_ip (bridge_conf (config (net (demo_client 0 ([] :: u8 list)))))) (lease_config p demo_offer), wan_status := 1 \<rparr> \<rparr>
     \<and> field32 p bp_yiaddr = 0x0a000007 \<and> field32 p bp_siaddr = 0x0a000001 \<and> carries rx demo_ack
     \<and> new_lease (rsl (demo_env (wire [2, 0, 0, 1, 2, 3] demo_server))) now rx l = Inr (lease c')"
  by (rule dhcp_obtains_lease [OF demo_start(1) _ demo_serves _ demo_items(3,4) demo_start(2-7)]) simp_all


theorem request_names_offer_witness:
  "\<exists>p x d is. st_requesting (demo_env yes_kernel) 3 ((demo_client 0 ())\<lparr> res := packet_of demo_offer \<rparr>)
       = (case send (demo_env yes_kernel) 3 INADDR_BROADCAST d ((demo_client 0 ())\<lparr> res := p, xmit2 := x \<rparr>) of
         (ok, c1) \<Rightarrow> Inr (Again (c1\<lparr> pstate := (if ok then DHCPSTATE_REQUEST_RECV else DHCPSTATE_FAILED) \<rparr>)))
     \<and> says d is \<and> lookup TAG_DHCP_SERVER_ID is = Some [10, 0, 0, 1]"
proof -
  let ?c = "(demo_client 0 ())\<lparr> res := packet_of demo_offer \<rparr>"
  have "carries (res ?c) demo_offer" "length (xmit2 ?c) = bootp_size" using demo_items(1) by (simp_all add: demo_start(6))
  moreover have "lookup TAG_DHCP_MESS_TYPE demo_offer = Some [DHCPOFFER]" "lookup TAG_DHCP_SERVER_ID demo_offer = Some [10, 0, 0, 1]"
    by (simp_all add: demo_offer_def tag_defs)
  ultimately show ?thesis using request_names_offer [of ?c demo_offer "demo_env yes_kernel" 3] demo_items(3) by auto
qed

theorem lease_alarms_in_order_witness:
  "\<exists>l'. new_lease \<lparr> dividend = 1000000000, divisor = 100 \<rparr> 5000 (packet_of demo_ack) (lease (demo_client 0 ())) = Inr l' \<and> unat (l_expiry l') = 365000
     \<and> l_alarm l' = Some (Armed (l_t1 l')) \<and> l_alarm (fire (fire (fire l'))) = Some Disabled"
  using lease_alarms_in_order [OF demo_items(2), of 3600 "\<lparr> dividend = 1000000000, divisor = 100 \<rparr>" 5000 "lease (demo_client 0 ())"]
  by (auto simp: demo_ack_def tag_defs)

end
