(* ===== verification/Dhcp_Sockets.thy ===== *)
theory Dhcp_Sockets
  imports Dhcp_Protocol
begin

text \<open>
  Sockets of the DHCP client: whatever the network stack and the server do, \<^verbatim>\<open>do_dhcp\<close> has closed every socket it
  opened when it returns.
\<close>

text \<open>The requests between two states of the client.\<close>

definition ext :: "(log \<Rightarrow> bool) \<Rightarrow> ('k \<times> log, 'f) client \<Rightarrow> ('k \<times> log, 'f) client \<Rightarrow> bool" where
  "ext Q c c' \<longleftrightarrow> (\<exists>xs. snd (world c') = snd (world c) @ xs \<and> Q xs)"

definition closes :: "int \<Rightarrow> log \<Rightarrow> bool" where
  "closes s xs \<longleftrightarrow> (\<forall>ss. opened (s # ss) xs = ss)"

lemma ext_refl: "snd (world c') = snd (world c) \<Longrightarrow> ext quiet c c'"
  by (simp add: ext_def quiet_Nil)

lemma ext_trans: "ext quiet c c1 \<Longrightarrow> ext quiet c1 c2 \<Longrightarrow> ext quiet c c2"
  by (fastforce simp: ext_def intro: quiet_append)

lemma ext_closes: "ext quiet c c1 \<Longrightarrow> ext (closes s) c1 c2 \<Longrightarrow> ext (closes s) c c2"
  by (fastforce simp: ext_def closes_def opened_quiet)

lemma logged_quiet:
  assumes "logged ke r k = (x, k')" "\<not> sock_req r"
  shows "\<exists>xs. snd k' = snd k @ xs \<and> quiet xs"
  using assms by (cases k) (auto simp: logged_def quiet_def split: prod.splits)

lemma ext_req: "logged ke r (world c) = (x, k') \<Longrightarrow> \<not> sock_req r \<Longrightarrow> world c' = k' \<Longrightarrow> ext quiet c c'"
  using logged_quiet [of ke r "world c" x k'] by (simp add: ext_def)

lemma take_alarms_ext: "kern e = logged ke \<Longrightarrow> ext quiet c (take_alarms e c)"
  by (cases "logged ke Alarms (world c)") (auto simp: take_alarms_def split: kres.splits intro!: ext_req)

lemma check_lease_world: "world (check_lease c) = world c"
  by (simp add: check_lease_def Let_def reset_tmr_def)

lemma send_ext: "kern e = logged ke \<Longrightarrow> send e s dest bs c = (ok, c') \<Longrightarrow> ext quiet c c'"
  by (cases "logged ke (SendTo s dest bs) (world c)") (auto simp: send_def split: kres.splits intro!: ext_req)

lemma get_response_ext:
  assumes "kern e = logged ke" "get_response e s c = (got, c')"
  shows "ext quiet c c'"
proof -
  obtain x1 k1 where 1: "logged ke (Setsockopt s (SO_RCVTIMEO (tv_sec (tmr c)))) (world c) = (x1, k1)" by (meson surj_pair)
  obtain x2 k2 where 2: "logged ke (RecvFrom s) k1 = (x2, k2)" by (meson surj_pair)
  define d where "d = c\<lparr> received := (case x2 of Ok _ data \<Rightarrow> deliver data (received c) | Fail _ \<Rightarrow> received c), world := k2 \<rparr>"
  have "c' = take_alarms e d" using assms 1 2 by (cases x2) (simp_all add: get_response_def Let_def d_def)
  moreover have "ext quiet c (c\<lparr> world := k1 \<rparr>)" using 1 by (auto intro: ext_req)
  moreover have "ext quiet (c\<lparr> world := k1 \<rparr>) d" using 2 by (auto simp: d_def intro!: ext_req)
  ultimately show ?thesis using take_alarms_ext [OF assms(1), of d] ext_trans by blast
qed

lemma examine_world: "examine c = Inr (r, c') \<Longrightarrow> world c' = world c"
  by (auto simp: examine_def cres_simps split: if_splits option.splits)

lemma record_lease_ext: "kern e = logged ke \<Longrightarrow> record_lease e c = Inr c' \<Longrightarrow> ext quiet c c'"
  by (cases "logged ke Now (world c)") (auto simp: record_lease_def cres_simps intro!: ext_req)

lemma keep_world: "keep_received c = Inr c' \<Longrightarrow> world c' = world c"
  by (auto simp: keep_received_def cres_simps)

text \<open>The rounds that continue.\<close>

definition round_sockets :: "int \<Rightarrow> ('k \<times> log, 'f) client \<Rightarrow> ('k \<times> log, 'f) outcome \<Rightarrow> bool" where
  "round_sockets s c out \<longleftrightarrow> (case out of Again c' \<Rightarrow> ext quiet c c' | Done r c' \<Rightarrow> ext (closes s) c c')"

lemma ext_world: "ext Q c c' \<Longrightarrow> world d = world c \<Longrightarrow> world d' = world c' \<Longrightarrow> ext Q d d'"
  by (simp add: ext_def)

lemma sending_rounds:
  assumes "kern e = logged ke"
  shows "st_init e s hw c = Inr out \<Longrightarrow> round_sockets s c out"
    "st_requesting e s c = Inr out \<Longrightarrow> round_sockets s c out"
    "st_release e s c = Inr out \<Longrightarrow> round_sockets s c out"
    "send_renewal e s u c = Inr c1 \<Longrightarrow> round_sockets s c (Again (c1\<lparr> pstate := st \<rparr>))"
proof -
  show "round_sockets s c out" if "st_init e s hw c = Inr out"
  proof (rule st_init_out [OF that])
    fix p dest bs
    assume o: "out = (case send e s dest bs (c\<lparr> world := snd (kern e Now (world c)), res := p \<rparr>) of (ok, c1) \<Rightarrow>
     Again (if ok then c1\<lparr> seen_bootp_reply := False, pstate := DHCPSTATE_SELECTING \<rparr> else c1\<lparr> pstate := DHCPSTATE_FAILED \<rparr>))"
    obtain x k where now: "logged ke Now (world c) = (x, k)" by (meson surj_pair)
    obtain ok c1 where snd: "send e s dest bs (c\<lparr> world := k, res := p \<rparr>) = (ok, c1)" by fastforce
    have "ext quiet c (c\<lparr> world := k, res := p \<rparr>)" using now by (auto intro: ext_req)
    then have "ext quiet c c1" using send_ext [OF assms snd] ext_trans by blast
    then show ?thesis using o snd now assms by (auto simp: round_sockets_def intro: ext_world)
  qed
  show "round_sockets s c out" if "st_requesting e s c = Inr out"
  proof (rule st_requesting_out [OF that])
    fix p x dest bs
    assume o: "out = (case send e s dest bs (c\<lparr> res := p, xmit2 := x \<rparr>) of (ok, c1) \<Rightarrow>
     Again (c1\<lparr> pstate := (if ok then DHCPSTATE_REQUEST_RECV else DHCPSTATE_FAILED) \<rparr>))"
    obtain ok c1 where snd: "send e s dest bs (c\<lparr> res := p, xmit2 := x \<rparr>) = (ok, c1)" by fastforce
    show ?thesis using o snd send_ext [OF assms snd] by (auto simp: round_sockets_def intro: ext_world)
  qed
  show "round_sockets s c out" if "st_release e s c = Inr out"
  proof (rule st_release_out [OF that])
    fix p x dest bs
    assume o: "out = (case send e s dest bs ((new_xid c)\<lparr> res := p, xmit2 := x \<rparr>) of (ok, c1) \<Rightarrow>
     Again (c1\<lparr> pstate := (if ok then DHCPSTATE_NOTBOUND else DHCPSTATE_FAILED) \<rparr>))"
    obtain ok c1 where snd: "send e s dest bs ((new_xid c)\<lparr> res := p, xmit2 := x \<rparr>) = (ok, c1)" by fastforce
    show ?thesis using o snd send_ext [OF assms snd] by (auto simp: round_sockets_def new_xid_def intro: ext_world)
  qed
  show "round_sockets s c (Again (c1\<lparr> pstate := st \<rparr>))" if "send_renewal e s u c = Inr c1"
  proof (rule send_renewal_out [OF that])
    fix p x dest bs
    assume o: "c1 = snd (send e s dest bs (c\<lparr> res := p, xmit2 := x \<rparr>))"
    obtain ok c2 where snd: "send e s dest bs (c\<lparr> res := p, xmit2 := x \<rparr>) = (ok, c2)" by fastforce
    show ?thesis using o snd send_ext [OF assms snd] by (auto simp: round_sockets_def intro: ext_world)
  qed
qed

lemma receiving_rounds:
  assumes "kern e = logged ke"
  shows "st_selecting e s c = Inr out \<Longrightarrow> round_sockets s c out"
    "st_request_recv e s c = Inr out \<Longrightarrow> round_sockets s c out"
    "recv_renewal e s resend c = Inr out \<Longrightarrow> round_sockets s c out"
proof -
  obtain got c1 where g: "get_response e s c = (got, c1)" by fastforce
  have c1: "ext quiet c c1" by (rule get_response_ext [OF assms g])
  have same: "ext quiet c d" if "world d = world c1" for d using ext_world [OF c1 refl that] .
  have leased: "ext quiet c d" if "record_lease e d' = Inr d" "world d' = world c1" for d d'
    using same [OF that(2)] record_lease_ext [OF assms that(1)] ext_trans by blast
  show "round_sockets s c out" if st: "st_selecting e s c = Inr out"
  proof (cases got)
    case False
    then show ?thesis using st_selecting_out(1) [OF st g]
      by (auto simp: round_sockets_def reset_tmr_def new_xid_def keep_world intro!: same)
  next
    case True
    then show ?thesis using st_selecting_out(2) [OF st g]
      by (auto simp: round_sockets_def reset_tmr_def new_xid_def keep_world examine_world intro!: same)
  qed
  show "round_sockets s c out" if st: "st_request_recv e s c = Inr out"
  proof (cases got)
    case False
    then obtain t more where "out = Again (c1\<lparr> tmr := t, pstate := (if more then DHCPSTATE_REQUESTING else DHCPSTATE_FAILED) \<rparr>)"
      using st_request_recv_out(1) [OF st g] by blast
    then show ?thesis by (simp add: round_sockets_def same)
  next
    case True
    then obtain r c2 where x: "examine c1 = Inr (r, c2)" and
      o: "out = Again c2 \<or> out = Again (reset_tmr (new_xid (c2\<lparr> pstate := DHCPSTATE_INIT \<rparr>)))
        \<or> (\<exists>c3. record_lease e (reset_tmr c2) = Inr c3 \<and> out = Again (c3\<lparr> pstate := DHCPSTATE_BOUND \<rparr>))"
      using st_request_recv_out(2) [OF st g] by blast
    have w: "world c2 = world c1" "world (reset_tmr c2) = world c1" using examine_world [OF x] by (simp_all add: reset_tmr_def)
    from o show ?thesis
    proof (elim disjE exE conjE)
      fix c3
      assume a: "record_lease e (reset_tmr c2) = Inr c3" "out = Again (c3\<lparr> pstate := DHCPSTATE_BOUND \<rparr>)"
      have "ext quiet c (c3\<lparr> pstate := DHCPSTATE_BOUND \<rparr>)" using leased [OF a(1) w(2)] by (auto elim: ext_world)
      with a(2) show ?thesis by (simp add: round_sockets_def)
    qed (simp_all add: round_sockets_def reset_tmr_def new_xid_def w same)
  qed
  show "round_sockets s c out" if st: "recv_renewal e s resend c = Inr out"
  proof (cases got)
    case False
    then show ?thesis using recv_renewal_out(1) [OF st g] by (auto simp: round_sockets_def intro!: same)
  next
    case True
    then obtain r c2 where x: "examine c1 = Inr (r, c2)" and
      o: "out = Again c2 \<or> out = Again (c2\<lparr> pstate := DHCPSTATE_NOTBOUND \<rparr>)
        \<or> (\<exists>c3 c4. record_lease e (reset_tmr c2) = Inr c3 \<and> keep_received c3 = Inr c4 \<and> out = Again (c4\<lparr> pstate := DHCPSTATE_BOUND \<rparr>))"
      using recv_renewal_out(2) [OF st g] by blast
    have w: "world c2 = world c1" "world (reset_tmr c2) = world c1" using examine_world [OF x] by (simp_all add: reset_tmr_def)
    from o show ?thesis
    proof (elim disjE exE conjE)
      fix c3 c4
      assume a: "record_lease e (reset_tmr c2) = Inr c3" "keep_received c3 = Inr c4" "out = Again (c4\<lparr> pstate := DHCPSTATE_BOUND \<rparr>)"
      have "ext quiet c (c4\<lparr> pstate := DHCPSTATE_BOUND \<rparr>)" using leased [OF a(1) w(2)] keep_world [OF a(2)] by (auto elim: ext_world)
      with a(3) show ?thesis by (simp add: round_sockets_def)
    qed (simp_all add: round_sockets_def w same)
  qed
qed

text \<open>The rounds that end: they close the socket first, and what they call closes its own.\<close>

lemma logs_client_functions:
  "logs (bring_half_up (logged ke) i) tidy"
  "logs (with_socket (logged ke) (down_body (logged ke) dev st)) tidy"
  "logs (seqs [req (logged ke) (Setsockopt s SO_BROADCAST), req (logged ke) (Bind s 68), req (logged ke) (Setsockopt s SO_REUSEADDR),
     req (logged ke) (Setsockopt s SO_REUSEPORT)]) quiet"
proof -
  show "logs (bring_half_up (logged ke) i) tidy"
    unfolding bring_half_up_def Let_def by (rule logs_with_socket) (auto intro!: logs_intros)
  have del: "logs (seqs [req (logged ke) (Ioctl s (SIOCDIFADDR dev a)), req (logged ke) (Ioctl s (SIOCSIFFLAGS dev down_flags))]) quiet" for s a
    by (auto intro!: logs_intros)
  have "logs (\<lambda>k. case logged ke (Ioctl s (SIOCGIFADDR dev)) k of
      (Ok _ d, k') \<Rightarrow> seqs [req (logged ke) (Ioctl s (SIOCDIFADDR dev (overlay 0 (take 4 d)))), req (logged ke) (Ioctl s (SIOCSIFFLAGS dev down_flags))] k'
    | (Fail _, k') \<Rightarrow> Inr (False, k')) quiet" (is "logs ?p _") for s
  proof (rule logsI)
    fix k tr r k' tr'
    assume run: "?p (k, tr) = Inr (r, k', tr')"
    obtain x k1 where x: "ke (Ioctl s (SIOCGIFADDR dev)) k = (x, k1)" by (meson surj_pair)
    have q: "quiet [(Ioctl s (SIOCGIFADDR dev), x)]" by (simp add: quiet_def)
    show "\<exists>xs. tr' = tr @ xs \<and> quiet xs"
    proof (cases x)
      case (Fail f)
      with run x q show ?thesis by (auto simp: logged_def)
    next
      case (Ok n d)
      with run x have "seqs [req (logged ke) (Ioctl s (SIOCDIFADDR dev (overlay 0 (take 4 d)))), req (logged ke) (Ioctl s (SIOCSIFFLAGS dev down_flags))]
          (k1, tr @ [(Ioctl s (SIOCGIFADDR dev), x)]) = Inr (r, k', tr')" by (simp add: logged_def)
      from logsD [OF del this] obtain xs where "tr' = (tr @ [(Ioctl s (SIOCGIFADDR dev), x)]) @ xs" "quiet xs" by blast
      then show ?thesis using quiet_append [OF q] by (intro exI [of _ "[(Ioctl s (SIOCGIFADDR dev), x)] @ xs"]) simp
    qed
  qed
  then show "logs (with_socket (logged ke) (down_body (logged ke) dev st)) tidy"
    using del unfolding down_body_def Let_def by (intro logs_with_socket) simp
  show "logs (seqs [req (logged ke) (Setsockopt s SO_BROADCAST), req (logged ke) (Bind s 68), req (logged ke) (Setsockopt s SO_REUSEADDR),
     req (logged ke) (Setsockopt s SO_REUSEPORT)]) quiet" by (auto intro!: logs_intros)
qed

lemma logsE: "logs p Q \<Longrightarrow> p k = Inr (r, k') \<Longrightarrow> \<exists>xs. snd k' = snd k @ xs \<and> Q xs"
  using logsD [of p Q "fst k" "snd k" r "fst k'" "snd k'"] by simp

lemma tidy_trans:
  assumes "\<exists>xs. k2 = k1 @ xs \<and> tidy xs" "\<exists>xs. k3 = k2 @ xs \<and> tidy xs"
  shows "\<exists>xs. k3 = k1 @ xs \<and> tidy xs"
  using assms tidy_append by fastforce

lemma tidy_Nil: "\<exists>xs. k = k @ xs \<and> tidy xs"
  using quiet_tidy [OF quiet_Nil] by auto

lemma down_net_tidy:
  assumes "do_dhcp_down_net (logged ke) i st k = Inr (b, st', k')"
  shows "\<exists>xs. snd k' = snd k @ xs \<and> tidy xs"
proof -
  obtain x k1 where r: "logged ke RouteReinit k = (x, k1)" by (meson surj_pair)
  with assms have "with_socket (logged ke) (down_body (logged ke) (strlcpy i IFNAMSIZ) st) k1 = Inr (b, k')"
    by (auto simp: do_dhcp_down_net_def cres_simps)
  then have "\<exists>xs. snd k' = snd k1 @ xs \<and> tidy xs" by (rule logsE [OF logs_client_functions(2)])
  moreover have "\<exists>xs. snd k1 = snd k @ xs \<and> tidy xs" using logged_quiet [OF r] quiet_tidy by auto
  ultimately show ?thesis using tidy_trans by blast
qed

lemma reinit_tidy:
  assumes "kern e = logged ke" "reinit e this old c = Inr (r, c')"
  shows "ext tidy c c'"
proof (cases "old = this")
  case True
  with assms show ?thesis using tidy_Nil by (auto simp: reinit_def ext_def)
next
  case False
  with assms obtain b old' k1 where d: "do_dhcp_down_net (logged ke) (intf e) old (world c) = Inr (b, old', k1)"
    by (auto simp: reinit_def cres_simps)
  note t1 = down_net_tidy [OF d]
  show ?thesis
  proof (cases "old' = 0")
    case True
    with assms False d t1 show ?thesis by (auto simp: reinit_def ext_def)
  next
    case old: False
    with assms False d obtain ok k2 where i: "init_net (logged ke) (net c) (intf e) (res c) k1 = Inr (ok, k2)"
      by (auto simp: reinit_def cres_simps)
    note t2 = tidy_trans [OF t1 logsE [OF logs_net_functions(1) i]]
    show ?thesis
    proof (cases ok)
      case True
      with assms False d old i t2 show ?thesis by (auto simp: reinit_def ext_def)
    next
      case no: False
      with assms False d old i obtain b2 st2 k3 where "do_dhcp_down_net (logged ke) (intf e) (pstate c) k2 = Inr (b2, st2, k3)" "world c' = k3"
        by (auto simp: reinit_def cres_simps)
      then show ?thesis using tidy_trans [OF t2 down_net_tidy] by (simp add: ext_def)
    qed
  qed
qed

lemma close_then:
  assumes "kern e = logged ke" "ext tidy (close_socket e s c) c'"
  shows "ext (closes s) c c'"
proof -
  obtain xs where xs: "snd (world c') = snd (world (close_socket e s c)) @ xs" "tidy xs" using assms(2) by (auto simp: ext_def)
  obtain x k1 where "ke (Close s) (fst (world c)) = (x, k1)" by (meson surj_pair)
  then have "snd (world (close_socket e s c)) = snd (world c) @ [(Close s, x)]"
    using assms(1) by (cases "world c") (simp add: close_socket_def logged_def)
  moreover have "opened (s # ss) ([(Close s, x)] @ xs) = ss" for ss
    using xs(2) by (simp only: opened_append) (simp add: opened_def opened1_def tidy_def)
  ultimately show ?thesis using xs(1) unfolding ext_def closes_def by (intro exI [of _ "[(Close s, x)] @ xs"]) simp
qed

lemma ending_rounds:
  assumes "kern e = logged ke"
  shows "st_bound e s old c = Inr out \<Longrightarrow> round_sockets s c out"
    "st_fallback e s old c = Inr out \<Longrightarrow> round_sockets s c out"
    "round_sockets s c (st_end e s r c)"
proof -
  show "round_sockets s c out" if st: "st_bound e s old c = Inr out"
  proof -
    obtain r c1 where r: "reinit e DHCPSTATE_BOUND old (close_socket e s c) = Inr (r, c1)"
      using st by (cases "reinit e DHCPSTATE_BOUND old (close_socket e s c)") (auto simp: st_bound_def)
    note t1 = reinit_tidy [OF assms r]
    show ?thesis
    proof (cases r)
      case None
      with st r have "out = Done False c1" by (simp add: st_bound_def)
      then show ?thesis using close_then [OF assms t1] by (simp add: round_sockets_def)
    next
      case (Some old')
      define chk where "chk = (if old' = DHCPSTATE_BOUND then
          bind_ok (check_default_route (kern e) (net c1) (intf e) (res c1) (world c1)) (\<lambda>(_, k). Inr (c1\<lparr> world := k \<rparr>)) else Inr c1)"
      from st r Some obtain c2 where c2: "chk = Inr c2" by (cases chk) (auto simp: st_bound_def chk_def)
      have t2: "ext tidy c1 c2"
      proof (cases "old' = DHCPSTATE_BOUND")
        case True
        then obtain b k where k: "check_default_route (logged ke) (net c1) (intf e) (res c1) (world c1) = Inr (b, k)" "c2 = c1\<lparr> world := k \<rparr>"
          using c2 assms by (auto simp: chk_def cres_simps)
        then show ?thesis using logsE [OF logs_net_functions(2) k(1)] by (simp add: ext_def)
      next
        case False
        with c2 show ?thesis using tidy_Nil by (auto simp: chk_def ext_def)
      qed
      let ?b = "bridge_conf (config (net c2))"
      from st r Some c2 assms obtain b k n where a: "ADD_ROUTE (logged ke) (inaddr_ip ?b) (inaddr_ip ?b) (inaddr_mas ?b) BRIDGE (world c2) = Inr (b, k)"
        and o: "out = Done True (set_wan 1 (c2\<lparr> world := k, net := n \<rparr>))"
        by (auto simp: st_bound_def chk_def [symmetric] Let_def cres_simps)
      have "ext tidy (close_socket e s c) (set_wan 1 (c2\<lparr> world := k, net := n \<rparr>))"
        using tidy_trans [OF tidy_trans [OF t1 [unfolded ext_def] t2 [unfolded ext_def]] logsE [OF logs_net_functions(3) a]]
        by (simp add: ext_def set_wan_def)
      then show ?thesis using close_then [OF assms] o by (simp add: round_sockets_def)
    qed
  qed
  show "round_sockets s c out" if st: "st_fallback e s old c = Inr out"
  proof -
    let ?c = "close_socket e s c\<lparr> lease := no_lease (lease (close_socket e s c)) \<rparr>"
    from st obtain r c1 where r: "reinit e DHCPSTATE_BOOTP_FALLBACK old ?c = Inr (r, c1)" and o: "out = Done (r \<noteq> None) c1"
      by (auto simp: st_fallback_def Let_def cres_simps)
    have "ext tidy (close_socket e s c) c1" using reinit_tidy [OF assms r] by (auto simp: ext_def)
    then show ?thesis using close_then [OF assms] o by (simp add: round_sockets_def)
  qed
  have "ext tidy (close_socket e s c) (set_wan 0 (close_socket e s c\<lparr> lease := no_lease (lease (close_socket e s c)) \<rparr>))"
    using tidy_Nil by (auto simp: ext_def set_wan_def)
  then show "round_sockets s c (st_end e s r c)" using close_then [OF assms] by (simp add: round_sockets_def st_end_def Let_def)
qed

lemma iter_sockets:
  assumes "kern e = logged ke" "dhcp_iter e s hw old c = Inr out"
  shows "round_sockets s c out"
proof -
  define d where "d = check_lease (take_alarms e c)"
  have q: "ext quiet c d" using take_alarms_ext [OF assms(1), of c] by (rule ext_world) (simp_all add: d_def check_lease_world)
  have "round_sockets s d out"
    using assms(2) [unfolded dhcp_iter_cases Let_def d_def [symmetric]]
    by (auto simp: cres_simps split: if_splits
      intro: sending_rounds [OF assms(1)] receiving_rounds [OF assms(1)] ending_rounds [OF assms(1)])
  with q show ?thesis using ext_trans ext_closes by (fastforce simp: round_sockets_def split: outcome.splits)
qed

lemma loop_sockets:
  assumes "kern e = logged ke" "dhcp_loop n e s hw old c = Inr (Some (r, c'))"
  shows "ext (closes s) c c'"
  using assms(2)
proof (induction n arbitrary: c)
  case 0
  then show ?case by simp
next
  case (Suc n)
  from Suc.prems obtain out where out: "dhcp_iter e s hw old c = Inr out" by (cases "dhcp_iter e s hw old c") simp_all
  note ok = iter_sockets [OF assms(1) out]
  show ?case
  proof (cases out)
    case (Again d)
    with Suc.prems out have "dhcp_loop n e s hw old d = Inr (Some (r, c'))" by simp
    then show ?thesis using Suc.IH ok Again ext_closes by (fastforce simp: round_sockets_def)
  next
    case (Done b d)
    with Suc.prems out ok show ?thesis by (simp add: round_sockets_def)
  qed
qed

lemma closed_again:
  assumes "0 \<le> s" "\<exists>xs. k1 = k0 @ xs \<and> tidy xs" "k2 = k1 @ [(Socket, Ok s d)]" "\<exists>xs. k3 = k2 @ xs \<and> closes s xs"
  shows "\<exists>xs. k3 = k0 @ xs \<and> tidy xs"
proof -
  obtain xs ys where xs: "k1 = k0 @ xs" "tidy xs" and ys: "k3 = k2 @ ys" "closes s ys" using assms(2,4) by blast
  have "tidy ([(Socket, Ok s d)] @ ys)"
    using assms(1) ys(2) unfolding tidy_def closes_def opened_append by (simp add: opened_def opened1_def)
  then have "tidy (xs @ [(Socket, Ok s d)] @ ys)" by (rule tidy_append [OF xs(2)])
  with xs ys assms(3) show ?thesis by auto
qed

section \<open>Properties of the sockets\<close>

text \<open>
  (C23) No socket is left open: when \<^verbatim>\<open>do_dhcp\<close> returns, on whatever path and with whatever results of the network
  stack and packets of the server, every socket that it or the functions it calls have opened is closed, and no other.
\<close>

theorem client_closes_sockets:
  assumes "do_dhcp n (e\<lparr> kern := logged ke \<rparr>) c = Inr (Some (r, c'))"
  shows "\<exists>xs. snd (world c') = snd (world c) @ xs \<and> tidy xs"
proof -
  define f where "f = e\<lparr> kern := logged ke \<rparr>"
  have kf: "kern f = logged ke" by (simp add: f_def)
  note run = assms [folded f_def]
  define half where "half = (if pstate c = DHCPSTATE_INIT \<or> pstate c = DHCPSTATE_FAILED \<or> pstate c = 0 then
                 bind_ok (bring_half_up (kern f) (intf f) (world c)) (\<lambda>(ok, k).
                 Inr (ok, if ok then c\<lparr> world := k, pstate := DHCPSTATE_INIT, lease := (lease c)\<lparr> l_which := 0, l_next := 0 \<rparr> \<rparr>
                          else c\<lparr> world := k \<rparr>))
               else Inr (True, c))"
  obtain ok c1 where c1: "half = Inr (ok, c1)" using run by (cases half) (auto simp: do_dhcp_def half_def)
  have t1: "\<exists>xs. snd (world c1) = snd (world c) @ xs \<and> tidy xs"
  proof (cases "pstate c = DHCPSTATE_INIT \<or> pstate c = DHCPSTATE_FAILED \<or> pstate c = 0")
    case True
    then obtain b k where "bring_half_up (logged ke) (intf f) (world c) = Inr (b, k)" "world c1 = k"
      using c1 kf by (auto simp: half_def cres_simps split: if_splits)
    then show ?thesis using logsE [OF logs_client_functions(1)] by blast
  next
    case False
    with c1 have "c1 = c" by (simp add: half_def)
    then show ?thesis using tidy_Nil by simp
  qed
  obtain x k where sock: "logged ke Socket (world c1) = (x, k)" by (meson surj_pair)
  then have k: "snd k = snd (world c1) @ [(Socket, x)]" by (cases "world c1") (auto simp: logged_def split: prod.splits)
  show ?thesis
  proof (cases "ok \<and> (\<exists>s d. x = Ok s d \<and> 0 \<le> s)")
    case False
    show ?thesis
    proof (cases ok)
      case True
      with False have "tidy [(Socket, x)]" by (auto simp: tidy_def opened_def opened1_def split: kres.splits)
      moreover have "world c' = k" using True False run c1 sock kf by (auto simp: do_dhcp_def half_def [symmetric] split: kres.splits if_splits)
      ultimately show ?thesis using tidy_trans [OF t1, of "snd k"] k by auto
    next
      case no: False
      with run c1 have "c' = c1" by (simp add: do_dhcp_def half_def [symmetric])
      with t1 show ?thesis by simp
    qed
  next
    case True
    then obtain s d where s: ok "x = Ok s d" "0 \<le> s" by blast
    have "ext (closes s) (c1\<lparr> world := k \<rparr>) c'"
    proof -
      obtain ok2 k1 where prep: "sock_setup f s k = Inr (ok2, k1)"
        using run c1 sock s kf by (cases "sock_setup f s k") (auto simp: do_dhcp_def half_def [symmetric])
      then have q1: "\<exists>xs. snd k1 = snd k @ xs \<and> quiet xs" unfolding sock_setup_def kf by (rule logsE [OF logs_client_functions(3)])
      obtain hx k2 where hx: "logged ke (Ioctl s (SIOCGIFHWADDR (strlcpy (intf f) IFNAMSIZ))) k1 = (hx, k2)" by (meson surj_pair)
      define c2 where "c2 = c1\<lparr> world := k1, seen_bootp_reply := False, msgtype := 0 \<rparr>"
      have e1: "ext quiet (c1\<lparr> world := k \<rparr>) c2" using q1 by (simp add: ext_def c2_def)
      have cl: "ext (closes s) d (close_socket f s d)" for d using close_then [OF kf, of s d] tidy_Nil by (auto simp: ext_def)
      show ?thesis
      proof (cases "ok2 \<and> (\<exists>v hw. hx = Ok v hw)")
        case False
        show ?thesis
        proof (cases ok2)
          case True
          define c3 where "c3 = (reset_tmr c2)\<lparr> world := k2 \<rparr>"
          have "c' = close_socket f s c3"
            using True False run c1 sock s kf prep hx by (cases hx) (auto simp: do_dhcp_def half_def [symmetric] c2_def c3_def Let_def)
          moreover have "ext quiet c2 c3" using hx by (auto simp: c2_def c3_def intro: ext_req)
          ultimately show ?thesis using ext_closes [OF ext_trans [OF e1]] cl [of c3] by blast
        next
          case no: False
          with run c1 sock s kf prep have "c' = close_socket f s c2" by (simp add: do_dhcp_def half_def [symmetric] c2_def Let_def)
          then show ?thesis using ext_closes [OF e1] cl [of c2] by simp
        qed
      next
        case True
        then obtain v hw where h: ok2 "hx = Ok v hw" by blast
        obtain rx k3 where rnd: "logged ke Random k2 = (rx, k3)" by (meson surj_pair)
        define c3 where "c3 = (reset_tmr c2)\<lparr> world := k3, xid := first_xid hw (case rx of Ok v _ \<Rightarrow> word_of_int v | Fail _ \<Rightarrow> 0) \<rparr>"
        have "dhcp_loop n f s hw (pstate c) c3 = Inr (Some (r, c'))"
          using run c1 sock s kf prep hx h rnd by (simp add: do_dhcp_def half_def [symmetric] c2_def c3_def Let_def)
        then have "ext (closes s) c3 c'" by (rule loop_sockets [OF kf])
        moreover have "ext quiet c2 (c2\<lparr> world := k2 \<rparr>)" using hx by (auto simp: c2_def intro: ext_req)
        moreover have "ext quiet (c2\<lparr> world := k2 \<rparr>) c3" using rnd by (auto simp: c3_def intro: ext_req)
        ultimately show ?thesis using e1 ext_trans ext_closes by blast
      qed
    qed
    then show ?thesis using closed_again [OF s(3) t1 k [unfolded s(2)]] by (simp add: ext_def)
  qed
qed

lemma logged_mute: "silent (logged mute_kernel)" "ethernet (logged mute_kernel)"
  by (auto simp: silent_def ethernet_def logged_def mute_kernel_def)

theorem client_closes_sockets_witness:
  "\<exists>r c' xs. do_dhcp 21 ((demo_env (logged mute_kernel))\<lparr> kern := logged mute_kernel \<rparr>) (demo_client 0 ((), [])) = Inr (Some (r, c'))
     \<and> snd (world c') = xs \<and> tidy xs"
proof -
  let ?e = "(demo_env (logged mute_kernel))\<lparr> kern := logged mute_kernel \<rparr>" and ?c = "demo_client 0 ((), [] :: log)"
  have "pstate ?c \<in> {0, DHCPSTATE_INIT, DHCPSTATE_FAILED}" "\<forall>t. l_alarm (lease ?c) \<noteq> Some (Armed t)"
    "silent (kern ?e)" "ethernet (kern ?e)" "retry ?e \<le> 3600"
    by (simp_all add: logged_mute) (simp_all add: demo_client_def demo_env_def)
  from silent_gives_up [OF this] obtain c' where c': "do_dhcp 21 ?e ?c = Inr (Some (False, c'))" by blast
  have "snd (world ?c) = []" by (simp add: demo_client_def)
  then have "\<exists>xs. snd (world c') = xs \<and> tidy xs" using client_closes_sockets [OF c'] by simp
  with c' show ?thesis by blast
qed

end
