(* ===== verification/Wan_Link.thy ===== *)
theory Wan_Link
  imports Dhcp_Sockets
begin

text \<open>
  The WAN connection: \<^verbatim>\<open>init_wan_interface\<close>, \<^verbatim>\<open>interface_down\<close> and \<^verbatim>\<open>set_nw_lan_interface\<close> of
  \<^verbatim>\<open>packages/net/common/current/src/network_support.c\<close>, and the management of the lease in
  \<^verbatim>\<open>dhcp_support.c\<close>: \<^verbatim>\<open>dhcp_bind\<close>, \<^verbatim>\<open>dhcp_halt\<close>, \<^verbatim>\<open>dhcp_release\<close> and the thread \<^verbatim>\<open>dhcp_mgt_entry\<close>.

  The WAN is \<^verbatim>\<open>eth0\<close>, so that the branches for a WAN on \<^verbatim>\<open>eth1\<close> are never taken. The variables
  \<^verbatim>\<open>eth0_bootp_data\<close>, \<^verbatim>\<open>eth0_dhcpstate\<close> and \<^verbatim>\<open>eth0_lease\<close> are the fields \<open>res\<close>, \<open>pstate\<close> and \<open>lease\<close> of a client of
  \<^verbatim>\<open>Dhcp_Client\<close>. A function that may wait for ever takes a number of rounds and returns \<open>None\<close> when they are used
  up. Calls of \<^verbatim>\<open>init_wan_interface\<close> exclude each other by a flag, so they run one after the other: one that
  finds the flag set when all earlier calls have returned waits for ever.
\<close>

section \<open>State\<close>

record ('k, 'f) wan =
  eth0 :: "('k, 'f) client"
  eth0_up :: bool
  eth1_up :: bool
  eth1_bootp_data :: packet
  WAN_interface :: string
  is_ppp_up :: int
  static_connection_up :: bool
  in_init_wan :: bool
  in_init_lan :: bool
  loop_init :: u32
  dhcp_mgt_thread :: bool

text \<open>The environment: that of the client, and the number \<^verbatim>\<open>CYGPKG_NET_NLOOP\<close> of loopback interfaces.\<close>

record ('k, 'f) wan_env =
  dhcp :: "('k, 'f) dhcp_env"
  nloop :: nat

definition wan_kern :: "('k, 'f) wan_env \<Rightarrow> 'k kernel" where
  "wan_kern e = kern (dhcp e)"

definition client_env :: "('k, 'f) wan_env \<Rightarrow> ('k, 'f) wan \<Rightarrow> ('k, 'f) dhcp_env" where
  "client_env e w = (dhcp e)\<lparr> intf := WAN_interface w \<rparr>"

text \<open>Running a procedure on the world of the connection.\<close>

definition on_world :: "'k proc \<Rightarrow> ('k, 'f) client \<Rightarrow> (bool \<times> ('k, 'f) client) cres" where
  "on_world p c = bind_ok (p (world c)) (\<lambda>(r, k). Inr (r, c\<lparr> world := k \<rparr>))"

text \<open>The results of functions that may not return.\<close>

definition bind_run :: "'a option cres \<Rightarrow> ('a \<Rightarrow> 'b option cres) \<Rightarrow> 'b option cres" where
  "bind_run m f = bind_ok m (\<lambda>r. case r of None \<Rightarrow> Inr None | Some x \<Rightarrow> f x)"

section \<open>Taking the interface down\<close>

definition drop_address :: "'k kernel \<Rightarrow> string \<Rightarrow> int \<Rightarrow> 'k proc" where
  "drop_address ke dev s k = guard_c (length dev < IFNAMSIZ) OutOfBounds (case ke (Ioctl s (SIOCGIFADDR dev)) k of
     (Fail _, k') \<Rightarrow> Inr (False, k')
   | (Ok _ d, k') \<Rightarrow> req ke (Ioctl s (SIOCDIFADDR dev (overlay 0 (take 4 d)))) k')"

definition interface_down :: "'k kernel \<Rightarrow> string \<Rightarrow> ('k, 'f) client \<Rightarrow> (bool \<times> ('k, 'f) client) cres" where
  "interface_down ke dev c = (case ke Socket (world c) of
     (Fail _, k) \<Rightarrow> Inr (False, c\<lparr> world := k \<rparr>)
   | (Ok s _, k) \<Rightarrow>
       if s < 0 then Inr (False, c\<lparr> world := k \<rparr>)
       else
         bind_ok (drop_address ke dev s k) (\<lambda>(ok, k1).
         if \<not> ok then Inr (False, c\<lparr> world := snd (ke (Close s) k1) \<rparr>)
         else
           let c1 = set_wan 0 (if dev = WAN then set_wan 1 c else c) in
           bind_ok (seqs [req ke FlushNat, ask ke DeleteDynRules] k1) (\<lambda>(ok, k2).
           Inr (ok, c1\<lparr> world := snd (ke (Close s) k2) \<rparr>))))"

section \<open>Lease management\<close>

definition dhcp_bind :: "nat \<Rightarrow> ('k, 'f) wan_env \<Rightarrow> ('k, 'f) wan \<Rightarrow> (bool \<times> ('k, 'f) wan) option cres" where
  "dhcp_bind n e w =
     (let old = pstate (eth0 w);
          c = (if old = 0 then (eth0 w)\<lparr> lease := (lease (eth0 w))\<lparr> attention := 0 \<rparr> \<rparr> else eth0 w)
      in bind_run (if eth0_up w \<and> pstate c \<noteq> DHCPSTATE_FAILED then do_dhcp n (client_env e w) c else Inr (Some (eth0_up w, c)))
        (\<lambda>(up, c1).
         if pstate c1 = DHCPSTATE_FAILED then
           bind_ok (interface_down (wan_kern e) WAN c1) (\<lambda>(_, c2). Inr (Some (False, w\<lparr> eth0 := c2, eth0_up := up \<rparr>)))
         else
           bind_ok (if up \<and> pstate c1 = DHCPSTATE_BOUND \<and> old \<noteq> pstate c1
                    then on_world (init_net (wan_kern e) (net c1) (WAN_interface w) (res c1)) c1
                    else Inr (up, c1)) (\<lambda>(up', c2).
           Inr (Some (\<not> (old = DHCPSTATE_BOUND \<and> pstate c2 = DHCPSTATE_NOTBOUND), w\<lparr> eth0 := c2, eth0_up := up' \<rparr>)))))"

definition dhcp_halt :: "('k, 'f) wan_env \<Rightarrow> ('k, 'f) wan \<Rightarrow> ('k, 'f) wan cres" where
  "dhcp_halt e w =
     (let c = eth0 w in
      bind_ok (if eth0_up w \<and> pstate c \<noteq> DHCPSTATE_FAILED then
                 bind_ok (do_dhcp_down_net (wan_kern e) (WAN_interface w) (pstate c) (world c)) (\<lambda>(_, st, k).
                 Inr (c\<lparr> pstate := st, world := k \<rparr>))
               else Inr c) (\<lambda>c1.
      Inr (w\<lparr> eth0 := c1, eth0_up := False \<rparr>)))"

definition dhcp_release :: "nat \<Rightarrow> ('k, 'f) wan_env \<Rightarrow> ('k, 'f) wan \<Rightarrow> ('k, 'f) wan option cres" where
  "dhcp_release n e w =
     (if eth0_up w then bind_run (do_dhcp_release n (client_env e w) (eth0 w)) (\<lambda>c. Inr (Some (w\<lparr> eth0 := c \<rparr>)))
      else Inr (Some w))"

text \<open>The thread is created once, and the semaphore with it.\<close>

definition dhcp_start_dhcp_mgt_thread :: "('k, 'f) wan \<Rightarrow> ('k, 'f) wan" where
  "dhcp_start_dhcp_mgt_thread w =
     (if dhcp_mgt_thread w then w
      else w\<lparr> eth0 := (eth0 w)\<lparr> lease := (lease (eth0 w))\<lparr> attention := 0 \<rparr> \<rparr>, dhcp_mgt_thread := True \<rparr>)"

section \<open>Bringing the connection up\<close>

text \<open>The loopback interfaces from \<open>i\<close>, \<open>m\<close> of them; the results are not looked at.\<close>

fun init_loopbacks :: "'k kernel \<Rightarrow> nat \<Rightarrow> nat \<Rightarrow> 'k \<Rightarrow> 'k cres" where
  "init_loopbacks ke i 0 k = Inr k"
| "init_loopbacks ke i (Suc m) k = bind_ok (init_loopback_interface ke (of_nat i) k) (\<lambda>(_, k'). init_loopbacks ke (Suc i) m k')"

definition connect_dhcp :: "nat \<Rightarrow> ('k, 'f) wan_env \<Rightarrow> ('k, 'f) wan \<Rightarrow> ('k, 'f) wan option cres" where
  "connect_dhcp n e w =
     (if Connection_Type (config (net (eth0 w))) = conn_DHCP then
        bind_run (do_dhcp n (client_env e w) ((eth0 w)\<lparr> pstate := 0 \<rparr>)) (\<lambda>(ok, c). Inr (Some (w\<lparr> eth0 := c, eth0_up := ok \<rparr>)))
      else Inr (Some w))"

text \<open>The hardware address that \<^verbatim>\<open>build_bootp_record\<close> asks for.\<close>

definition ask_hwaddr :: "'k kernel \<Rightarrow> string \<Rightarrow> 'k \<Rightarrow> (u8 list option \<times> 'k) cres" where
  "ask_hwaddr ke dev k = (case ke Socket k of
     (Fail _, k1) \<Rightarrow> Inr (None, k1)
   | (Ok s _, k1) \<Rightarrow>
       if s < 0 then Inr (None, k1)
       else guard_c (length dev < IFNAMSIZ) OutOfBounds (case ke (Ioctl s (SIOCGIFHWADDR dev)) k1 of
         (Fail _, k2) \<Rightarrow> Inr (None, snd (ke (Close s) k2))
       | (Ok _ d, k2) \<Rightarrow> Inr (Some d, snd (ke (Close s) k2))))"

definition connect_static :: "('k, 'f) wan_env \<Rightarrow> ('k, 'f) wan \<Rightarrow> ('k, 'f) wan cres" where
  "connect_static e w =
     (if Connection_Type (config (net (eth0 w))) = conn_STATIC_IP then
        (let c = set_wan 1 (eth0 w); a = WAN_config_addrs (config (net c)) in
         bind_ok (ask_hwaddr (wan_kern e) (WAN_interface w) (world c)) (\<lambda>(hw, k).
         bind_ok (build_bootp_record hw (wan_IPAddr a) (wan_Mask a) (wan_Broadcast a) (wan_Gateway a) (wan_Server a)) (\<lambda>p.
         Inr (w\<lparr> eth0 := c\<lparr> res := p, world := k \<rparr>, eth0_up := True, static_connection_up := True \<rparr>))))
      else Inr w)"

text \<open>Waiting for the callback of the PPP package.\<close>

fun wait_ppp :: "nat \<Rightarrow> 'k kernel \<Rightarrow> 'k \<Rightarrow> (int \<times> 'k) option" where
  "wait_ppp 0 ke k = None"
| "wait_ppp (Suc n) ke k = (case ke PppStatus k of
     (Ok v _, k') \<Rightarrow> if v \<noteq> 0 then Some (v, k') else wait_ppp n ke k' | (Fail _, k') \<Rightarrow> wait_ppp n ke k')"

definition ppp_args :: "string \<Rightarrow> string list" where
  "ppp_args nat_id = [''ipfw'', ''nat'', ''config'', nat_id, ''if'', ''ppp0'']"

definition ppp_nat :: "'k kernel \<Rightarrow> 'k proc" where
  "ppp_nat ke = seqs
     [req ke FlushNat, ask ke (IpfwMain (ppp_args ''123'')), ask ke (IpfwMain (ppp_args ''122'')),
      req ke (IpfwMain (nat_rule ''17001'' ''123'')), req ke (IpfwMain (nat_rule ''18001'' ''122'')),
      ask ke (NatReconfigure ''ppp0'')]"

text \<open>
  The size of \<^verbatim>\<open>struct myifnet\<close> is that of a pointer. \<open>False\<close>: the function has returned in the middle.
\<close>

definition connect_ppp :: "nat \<Rightarrow> ('k, 'f) wan_env \<Rightarrow> ('k, 'f) wan \<Rightarrow> (bool \<times> ('k, 'f) wan) option cres" where
  "connect_ppp n e w =
     (if Connection_Type (config (net (eth0 w))) = conn_PPPoE then
        (let ke = wan_kern e; c = eth0 w; v = PPPoE_config_values (config (net c)); w0 = w\<lparr> is_ppp_up := 0 \<rparr> in
         bind_ok (seqs [ask ke (PppIfname ''ppp0''), req ke (Malloc 4)] (world c)) (\<lambda>(ok, k1).
         if \<not> ok then Inr (Some (False, w0\<lparr> eth0 := c\<lparr> world := k1 \<rparr> \<rparr>))
         else
           bind_ok (seqs [req ke PppSifup, req ke PppInit] k1) (\<lambda>(ok, k2).
           if \<not> ok then Inr (Some (False, w0\<lparr> eth0 := c\<lparr> world := snd (ke Free k2) \<rparr>, eth0_up := False \<rparr>))
           else
             bind_ok (seqs [ask ke (PppSetAuth (Username v) (Passwd v)), ask ke PppOpenEthernet] k2) (\<lambda>(_, k3).
             case wait_ppp n ke k3 of
               None \<Rightarrow> Inr None
             | Some (r, k4) \<Rightarrow>
                 if r = 1 then
                   bind_ok (ppp_nat ke k4) (\<lambda>(ok, k5).
                   let w1 = w0\<lparr> eth0 := c\<lparr> world := k5 \<rparr>, is_ppp_up := r \<rparr> in
                   if \<not> ok then Inr (Some (False, w1)) else Inr (Some (True, w1\<lparr> eth0 := set_wan 1 (eth0 w1) \<rparr>)))
                 else Inr (Some (True, w0\<lparr> eth0 := c\<lparr> world := k4 \<rparr>, is_ppp_up := r \<rparr>))))))
      else Inr (Some (True, w)))"

text \<open>
  \<^verbatim>\<open>strcpy\<close> into the five bytes of the literal that \<^verbatim>\<open>WAN_interface\<close> points to.
\<close>

definition choose_interface :: "('k, 'f) wan \<Rightarrow> ('k, 'f) wan cres" where
  "choose_interface w =
     (let st = net (eth0 w) in
      if vlan_on st then guard_c (length (VLAN1 st) < 5) OutOfBounds (Inr (w\<lparr> WAN_interface := VLAN1 st \<rparr>)) else Inr w)"

definition start_interface :: "('k, 'f) wan_env \<Rightarrow> ('k, 'f) wan \<Rightarrow> ('k, 'f) wan cres" where
  "start_interface e w =
     (if eth0_up w then
        bind_ok (on_world (init_net (wan_kern e) (net (eth0 w)) (WAN_interface w) (res (eth0 w))) (eth0 w)) (\<lambda>(ok, c).
        Inr (w\<lparr> eth0 := c, eth0_up := ok \<rparr>))
      else Inr w)"

definition start_loopbacks :: "('k, 'f) wan_env \<Rightarrow> ('k, 'f) wan \<Rightarrow> ('k, 'f) wan cres" where
  "start_loopbacks e w =
     bind_ok (if loop_init w = 0 then init_loopbacks (wan_kern e) 0 (nloop e) (world (eth0 w)) else Inr (world (eth0 w))) (\<lambda>k.
     Inr (w\<lparr> eth0 := (eth0 w)\<lparr> world := k \<rparr>, loop_init := loop_init w + 1 \<rparr>))"

text \<open>The part behind the three connection types.\<close>

definition finish_wan :: "('k, 'f) wan_env \<Rightarrow> ('k, 'f) wan \<Rightarrow> ('k, 'f) wan cres" where
  "finish_wan e w =
     bind_ok (start_interface e w) (\<lambda>w1.
     bind_ok (start_loopbacks e w1) (\<lambda>w2.
     let w3 = (if Connection_Type (config (net (eth0 w2))) = conn_DHCP then dhcp_start_dhcp_mgt_thread w2 else w2) in
     Inr (w3\<lparr> in_init_wan := False \<rparr>)))"

definition init_wan_interface :: "nat \<Rightarrow> ('k, 'f) wan_env \<Rightarrow> ('k, 'f) wan \<Rightarrow> ('k, 'f) wan option cres" where
  "init_wan_interface n e w =
     bind_ok (choose_interface w) (\<lambda>w0.
     if in_init_wan w0 then Inr None
     else
       bind_run (if eth0_up w0 then Inr (Some (True, w0\<lparr> in_init_wan := True \<rparr>))
                 else
                   bind_run (connect_dhcp n e (w0\<lparr> in_init_wan := True \<rparr>)) (\<lambda>w1.
                   bind_ok (connect_static e w1) (\<lambda>w2. connect_ppp n e w2)))
         (\<lambda>(go, w3). if go then bind_ok (finish_wan e w3) (\<lambda>w4. Inr (Some w4)) else Inr (Some w3)))"

text \<open>\<^verbatim>\<open>set_nw_lan_interface\<close>: the LAN on \<^verbatim>\<open>eth1\<close>, in a build without the bridge.\<close>

definition set_nw_lan_interface :: "('k, 'f) wan_env \<Rightarrow> ('k, 'f) wan \<Rightarrow> ('k, 'f) wan option cres" where
  "set_nw_lan_interface e w =
     (let c = eth0 w; b = bridge_conf (config (net c)); ip = inet_ntoa (inaddr_ip b) in
      if in_init_lan w then Inr None
      else
        bind_ok (if eth1_up w then Inr (w\<lparr> in_init_lan := True \<rparr>)
                 else
                   bind_ok (ask_hwaddr (wan_kern e) ''eth1'' (world c)) (\<lambda>(hw, k).
                   bind_ok (build_bootp_record hw ip (inet_ntoa (inaddr_mas b)) (inet_ntoa (inaddr_broad b)) ip ip) (\<lambda>p.
                   Inr (w\<lparr> in_init_lan := True, eth1_up := True, eth1_bootp_data := p, eth0 := c\<lparr> world := k \<rparr> \<rparr>)))) (\<lambda>w1.
        bind_ok (on_world (init_net (wan_kern e) (net (eth0 w1)) ''eth1'' (eth1_bootp_data w1)) (eth0 w1)) (\<lambda>(ok, c1).
        Inr (Some (w1\<lparr> eth0 := c1, eth1_up := ok \<rparr>)))))"

section \<open>The management thread\<close>

text \<open>The inner loop that starts the connection again until an interface is up, which the LAN interface is too.\<close>

fun restart_wan :: "nat \<Rightarrow> nat \<Rightarrow> ('k, 'f) wan_env \<Rightarrow> ('k, 'f) wan \<Rightarrow> ('k, 'f) wan option cres" where
  "restart_wan 0 n e w = Inr None"
| "restart_wan (Suc m) n e w =
     bind_run (init_wan_interface n e w) (\<lambda>w1. if eth0_up w1 \<or> eth1_up w1 then Inr (Some w1) else restart_wan m n e w1)"

text \<open>The wait for the semaphore, which the alarm posts.\<close>

fun wait_attention :: "nat \<Rightarrow> ('k, 'f) dhcp_env \<Rightarrow> ('k, 'f) client \<Rightarrow> ('k, 'f) client option" where
  "wait_attention 0 e c = None"
| "wait_attention (Suc n) e c =
     (let c1 = take_alarms e c; a = attention (lease c1) in
      if a \<noteq> 0 then Some (c1\<lparr> lease := (lease c1)\<lparr> attention := a - 1 \<rparr> \<rparr>) else wait_attention n e c1)"

text \<open>
  One round of the thread, from the wait on the semaphore to the next one: \<open>False\<close> when the thread ends. The same
  number bounds the wait, the restarts and the rounds of the client.
\<close>

definition dhcp_mgt_round :: "nat \<Rightarrow> ('k, 'f) wan_env \<Rightarrow> bool \<Rightarrow> ('k, 'f) wan \<Rightarrow> (bool \<times> ('k, 'f) wan) option cres" where
  "dhcp_mgt_round n e loop_on_failure w = (case wait_attention n (dhcp e) (eth0 w) of
     None \<Rightarrow> Inr None
   | Some c \<Rightarrow>
       bind_run (dhcp_bind n e (w\<lparr> eth0 := c \<rparr>)) (\<lambda>(ok, w1).
       if ok then Inr (Some (True, w1))
       else
         bind_ok (dhcp_halt e w1) (\<lambda>w2.
         if \<not> loop_on_failure then Inr (Some (False, w2))
         else
           bind_run (restart_wan n n e w2) (\<lambda>w3.
           bind_ok (init_loopbacks (wan_kern e) 0 (nloop e) (world (eth0 w3))) (\<lambda>k.
           Inr (Some (True, w3\<lparr> eth0 := (eth0 w3)\<lparr> world := k \<rparr> \<rparr>)))))))"

fun dhcp_mgt_entry :: "nat \<Rightarrow> nat \<Rightarrow> ('k, 'f) wan_env \<Rightarrow> bool \<Rightarrow> ('k, 'f) wan \<Rightarrow> ('k, 'f) wan option cres" where
  "dhcp_mgt_entry 0 n e loop_on_failure w = Inr None"
| "dhcp_mgt_entry (Suc j) n e loop_on_failure w =
     bind_run (dhcp_mgt_round n e loop_on_failure w) (\<lambda>(again, w1).
     if again then dhcp_mgt_entry j n e loop_on_failure w1 else Inr (Some w1))"

section \<open>Setting up succeeds\<close>

lemma succeeds_ask [succeeds_intros]: "succeeds (ask ke r)"
  unfolding succeeds_def ask_def by (auto split: prod.splits)

lemma succeeds_nothing [succeeds_intros]: "succeeds (\<lambda>k. Inr (True, k))"
  by (simp add: succeeds_def)

lemma succeeds_with_option:
  assumes "carries p is" "tag_ok tag" "lookup TAG_DHCP_OPTOVER is = None" "\<And>v. succeeds (body v)"
  shows "succeeds (with_option p tag old body)"
proof -
  obtain r n where "get_bootp_option p tag 4 = Inr (r, n)" using get_option_total [OF assms(1-3)] .
  then show ?thesis using assms(4) by (cases r) (simp_all add: with_option_def succeeds_def)
qed

lemma succeeds_with_gateway:
  assumes "carries p is" "lookup TAG_DHCP_OPTOVER is = None" "\<forall>v. lookup TAG_GATEWAY is = Some v \<longrightarrow> 4 \<le> length v"
    and "\<And>v. succeeds (body v)" "succeeds none"
  shows "succeeds (with_gateway p body none)"
proof -
  have "tag_ok TAG_GATEWAY" by (simp add: tag_ok_def tag_defs)
  then obtain r n where "get_bootp_option p TAG_GATEWAY 4 = Inr (r, n)" "r = map_option (take 4) (lookup TAG_GATEWAY is)"
    using get_option_total [OF assms(1) _ assms(2)] by blast
  then show ?thesis using assms(3-5) by (cases "lookup TAG_GATEWAY is") (simp_all add: with_gateway_def succeeds_def)
qed

lemma init_net_succeeds:
  assumes "accepting ke s" "carries p is" "lookup TAG_DHCP_OPTOVER is = None" "\<forall>v. lookup TAG_GATEWAY is = Some v \<longrightarrow> 4 \<le> length v"
    and "length i < IFNAMSIZ"
  shows "succeeds (init_net ke st i p)"
proof -
  note req = succeeds_req [OF assms(1)]
  have tags: "tag_ok TAG_SUBNET_MASK" "tag_ok TAG_IP_BROADCAST" by (simp_all add: tag_ok_def tag_defs)
  have "succeeds (with_option p TAG_SUBNET_MASK x (\<lambda>m. seqs [req ke (Ioctl s (SIOCSIFNETMASK i m)), req ke (Ioctl s (SIOCSIFADDR i y))]))" for x y
    by (rule succeeds_with_option [OF assms(2) tags(1) assms(3)]) (auto intro!: succeeds_seqs req)
  moreover have "succeeds (with_option p TAG_IP_BROADCAST x (\<lambda>b. req ke (Ioctl s (SIOCSIFBRDADDR i b))))" for x
    by (rule succeeds_with_option [OF assms(2) tags(2) assms(3)]) (rule req)
  moreover have "succeeds (with_gateway p (\<lambda>gw. if gw \<noteq> 0 then req_exist ke (Ioctl s (SIOCADDRT (default_route i gw))) else (\<lambda>k. Inr (True, k)))
      (\<lambda>k. Inr (True, k)))"
    by (rule succeeds_with_gateway [OF assms(2-4)]) (auto intro!: succeeds_nothing req)
  ultimately show ?thesis
    unfolding init_net_def Let_def using assms(5)
    by (intro succeeds_with_socket [OF assms(1)] succeeds_seqs ballI) (auto intro!: req succeeds_ask succeeds_nothing)
qed

lemma succeedsE: "succeeds p \<Longrightarrow> (\<And>k'. p k = Inr (True, k') \<Longrightarrow> thesis) \<Longrightarrow> thesis"
  unfolding succeeds_def by blast

lemma loopbacks_total:
  obtains k' where "init_loopbacks ke i m k = Inr k'"
proof -
  have "\<exists>k'. init_loopbacks ke i m k = Inr k'"
  proof (induction m arbitrary: i k)
    case 0
    then show ?case by simp
  next
    case (Suc m)
    have "faultless (init_loopback_interface ke (of_nat i))"
      unfolding init_loopback_interface_def by (auto intro!: faultless_intros)
    then obtain r k1 where "init_loopback_interface ke (of_nat i) k = Inr (r, k1)" by (rule faultlessE)
    with Suc.IH [of "Suc i" k1] show ?case by simp
  qed
  then show thesis using that by blast
qed

text \<open>The part of the connection that the last steps of \<^verbatim>\<open>init_wan_interface\<close> leave as it is.\<close>

definition same_link :: "('k, 'f) wan \<Rightarrow> ('k, 'f) wan \<Rightarrow> bool" where
  "same_link w w' \<longleftrightarrow> net (eth0 w') = net (eth0 w) \<and> pstate (eth0 w') = pstate (eth0 w) \<and> res (eth0 w') = res (eth0 w)
     \<and> received (eth0 w') = received (eth0 w) \<and> xmit2 (eth0 w') = xmit2 (eth0 w)
     \<and> (lease (eth0 w'))\<lparr> attention := 0 \<rparr> = (lease (eth0 w))\<lparr> attention := 0 \<rparr>
     \<and> WAN_interface w' = WAN_interface w \<and> eth1_up w' = eth1_up w \<and> is_ppp_up w' = is_ppp_up w
     \<and> static_connection_up w' = static_connection_up w"

lemma finish_ok:
  assumes "start_interface e w = Inr w1"
  obtains w' where "finish_wan e w = Inr w'" "same_link w1 w'" "eth0_up w' = eth0_up w1" "\<not> in_init_wan w'"
    "Connection_Type (config (net (eth0 w1))) = conn_DHCP \<Longrightarrow> dhcp_mgt_thread w'"
    "Connection_Type (config (net (eth0 w1))) = conn_DHCP \<Longrightarrow> \<not> dhcp_mgt_thread w1 \<Longrightarrow> attention (lease (eth0 w')) = 0"
proof -
  obtain k where "init_loopbacks (wan_kern e) 0 (nloop e) (world (eth0 w1)) = Inr k" by (rule loopbacks_total)
  moreover define k' where "k' = (if loop_init w1 = 0 then k else world (eth0 w1))"
  ultimately have lo: "start_loopbacks e w1 = Inr (w1\<lparr> eth0 := (eth0 w1)\<lparr> world := k' \<rparr>, loop_init := loop_init w1 + 1 \<rparr>)"
    by (simp add: start_loopbacks_def)
  let ?w2 = "w1\<lparr> eth0 := (eth0 w1)\<lparr> world := k' \<rparr>, loop_init := loop_init w1 + 1 \<rparr>"
  let ?w3 = "if Connection_Type (config (net (eth0 w1))) = conn_DHCP then dhcp_start_dhcp_mgt_thread ?w2 else ?w2"
  have "finish_wan e w = Inr (?w3\<lparr> in_init_wan := False \<rparr>)" using assms lo by (simp add: finish_wan_def Let_def)
  then show thesis by (rule that) (auto simp: same_link_def dhcp_start_dhcp_mgt_thread_def)
qed

lemma start_interface_up:
  assumes "accepting (wan_kern e) s" "eth0_up w" "carries (res (eth0 w)) is" "lookup TAG_DHCP_OPTOVER is = None"
    and "\<forall>v. lookup TAG_GATEWAY is = Some v \<longrightarrow> 4 \<le> length v" "length (WAN_interface w) < IFNAMSIZ"
  obtains k where "start_interface e w = Inr (w\<lparr> eth0 := (eth0 w)\<lparr> world := k \<rparr> \<rparr>)"
proof -
  obtain k where "init_net (wan_kern e) (net (eth0 w)) (WAN_interface w) (res (eth0 w)) (world (eth0 w)) = Inr (True, k)"
    using init_net_succeeds [OF assms(1,3-6)] by (rule succeedsE)
  then show thesis using that [of k] assms(2) by (simp add: start_interface_def on_world_def)
qed

text \<open>A server that is ready to give a lease to this connection.\<close>

definition ready :: "('k, 'f) wan_env \<Rightarrow> u32 \<Rightarrow> u32 \<Rightarrow> item list \<Rightarrow> bool" where
  "ready e yi srv off \<longleftrightarrow> (\<exists>s hw sent reply ack. peer (wan_kern e) s hw sent reply \<and> 6 \<le> length hw \<and> serves reply yi srv off ack
     \<and> lookup TAG_DHCP_OPTOVER ack = None)
     \<and> srv \<noteq> 0 \<and> roomy off \<and> sane off \<and> dividend (rsl (dhcp e)) \<noteq> 0 \<and> lookup TAG_DHCP_OPTOVER off = None \<and> lookup TAG_GATEWAY off \<noteq> Some []"

text \<open>A connection by DHCP that is not up, on the physical interface.\<close>

definition dhcp_idle :: "u32 \<Rightarrow> ('k, 'f) wan \<Rightarrow> bool" where
  "dhcp_idle yi w \<longleftrightarrow> \<not> eth0_up w \<and> \<not> in_init_wan w \<and> Connection_Type (config (net (eth0 w))) = conn_DHCP \<and> \<not> vlan_on (net (eth0 w))
     \<and> length (WAN_interface w) < IFNAMSIZ \<and> length (received (eth0 w)) = bootp_size \<and> length (xmit2 (eth0 w)) = bootp_size
     \<and> issamesubnet (inet_ntoa yi) (inet_ntoa (inaddr_ip (bridge_conf (config (net (eth0 w)))))) = Inr False"

lemma lookup_in: "lookup t is = Some v \<Longrightarrow> Opt t v \<in> set is"
  by (induction t "is" rule: lookup.induct) (auto split: if_splits)

lemma request_tags:
  assumes "lookup TAG_DHCP_OPTOVER is = None" "lookup TAG_GATEWAY is \<noteq> Some []" "sane is"
  shows "lookup TAG_DHCP_OPTOVER (request_items yi is) = None"
    "\<forall>v. lookup TAG_GATEWAY (request_items yi is) = Some v \<longrightarrow> 4 \<le> length v"
proof -
  have other: "lookup t (request_items yi is) = lookup t is" if "t \<in> {TAG_DHCP_OPTOVER, TAG_GATEWAY}" for t
    using that by (auto simp: request_items_def default_items_def put_item_other tag_defs)
  then show "lookup TAG_DHCP_OPTOVER (request_items yi is) = None" using assms(1) by simp
  have "4 \<le> length v" if "lookup TAG_GATEWAY is = Some v" for v
  proof -
    have "item_sane (Opt TAG_GATEWAY v)" using lookup_in [OF that] assms(3) by (simp add: sane_def)
    then have "4 dvd length v" by (simp add: item_sane_def addr_tags_def)
    moreover have "v \<noteq> []" using that assms(2) by auto
    ultimately show ?thesis by (auto dest: dvd_imp_le)
  qed
  then show "\<forall>v. lookup TAG_GATEWAY (request_items yi is) = Some v \<longrightarrow> 4 \<le> length v" using other by simp
qed

lemma dhcp_connects:
  assumes "ready e yi srv off" "dhcp_idle yi w"
  obtains w' p where "init_wan_interface 5 e w = Inr (Some w')" "eth0_up w'" "\<not> in_init_wan w'" "dhcp_mgt_thread w'" "pstate (eth0 w') = DHCPSTATE_BOUND"
    "net (eth0 w') = (net (eth0 w))\<lparr> config := (config (net (eth0 w)))\<lparr> WAN_config_addrs :=
       without_own (inaddr_ip (bridge_conf (config (net (eth0 w))))) (lease_config p off), wan_status := 1 \<rparr> \<rparr>"
    "field32 p bp_yiaddr = yi" "field32 p bp_siaddr = srv"
proof -
  obtain s hw sent reply ack where peer: "peer (wan_kern e) s hw sent reply" "6 \<le> length hw" and srv: "serves reply yi srv off ack"
    "lookup TAG_DHCP_OPTOVER ack = None" using assms(1) unfolding ready_def by blast
  have off: "srv \<noteq> 0" "roomy off" "sane off" "dividend (rsl (dhcp e)) \<noteq> 0" "lookup TAG_DHCP_OPTOVER off = None" "lookup TAG_GATEWAY off \<noteq> Some []"
    using assms(1) unfolding ready_def by blast+
  have idle: "\<not> eth0_up w" "\<not> in_init_wan w" "Connection_Type (config (net (eth0 w))) = conn_DHCP" "\<not> vlan_on (net (eth0 w))"
     "length (WAN_interface w) < IFNAMSIZ" "length (received (eth0 w)) = bootp_size" "length (xmit2 (eth0 w)) = bootp_size"
     "issamesubnet (inet_ntoa yi) (inet_ntoa (inaddr_ip (bridge_conf (config (net (eth0 w)))))) = Inr False"
    using assms(2) unfolding dhcp_idle_def by blast+
  define w0 where "w0 = w\<lparr> in_init_wan := True \<rparr>"
  define c where "c = (eth0 w)\<lparr> pstate := 0 \<rparr>"
  let ?e = "client_env e w0"
  have env: "kern ?e = wan_kern e" "rsl ?e = rsl (dhcp e)" by (simp_all add: client_env_def wan_kern_def)
  have c: "pstate c = 0" "length (received c) = bootp_size" "length (xmit2 c) = bootp_size"
     "issamesubnet (inet_ntoa yi) (inet_ntoa (inaddr_ip (bridge_conf (config (net c))))) = Inr False" "net c = net (eth0 w)"
    using idle by (simp_all add: c_def)
  obtain c' p where dhcp: "do_dhcp 5 ?e c = Inr (Some (True, c'))" "pstate c' = DHCPSTATE_BOUND"
    "net c' = (net c)\<lparr> config := (config (net c))\<lparr> WAN_config_addrs := without_own (inaddr_ip (bridge_conf (config (net c)))) (lease_config p off),
       wan_status := 1 \<rparr> \<rparr>" "field32 p bp_yiaddr = yi" "field32 p bp_siaddr = srv" "res c' = p" "carries p (request_items yi off)"
    by (rule handshake [where e = ?e, unfolded env, OF peer srv(1) off(1-3) srv(2) off(4) c(1-4)])
  define w1 where "w1 = w0\<lparr> eth0 := c', eth0_up := True \<rparr>"
  have ct: "Connection_Type (config (net c')) = conn_DHCP" using dhcp(3) c(5) idle(3) by simp
  have "connect_dhcp 5 e w0 = Inr (Some w1)" using dhcp(1) idle(3) by (simp add: connect_dhcp_def bind_run_def w1_def w0_def c_def)
  moreover have "connect_static e w1 = Inr w1" "connect_ppp 5 e w1 = Inr (Some (True, w1))"
    using ct by (simp_all add: connect_static_def connect_ppp_def w1_def conn_DHCP_def conn_STATIC_IP_def conn_PPPoE_def)
  ultimately have "init_wan_interface 5 e w = bind_ok (finish_wan e w1) (\<lambda>w4. Inr (Some w4))"
    using idle(1,2,4) by (simp add: init_wan_interface_def choose_interface_def bind_run_def w0_def Let_def)
  moreover obtain k where st: "start_interface e w1 = Inr (w1\<lparr> eth0 := (eth0 w1)\<lparr> world := k \<rparr> \<rparr>)"
    using start_interface_up [OF peer_accepting [OF peer(1)], of w1 "request_items yi off"] dhcp(6,7) request_tags [OF off(5,6,3)] idle(5)
    by (auto simp: w1_def w0_def)
  obtain w' where "finish_wan e w1 = Inr w'" "same_link (w1\<lparr> eth0 := (eth0 w1)\<lparr> world := k \<rparr> \<rparr>) w'" "eth0_up w' = eth0_up w1" "\<not> in_init_wan w'"
    "dhcp_mgt_thread w'"
    using finish_ok [OF st] ct by (auto simp: w1_def)
  ultimately show thesis using that [of w' p] dhcp(2-5) c(5) by (simp add: same_link_def w1_def)
qed

lemma static_connects:
  assumes "accepting (wan_kern e) s" "ethernet (wan_kern e)"
    and "\<not> eth0_up w" "\<not> in_init_wan w" "Connection_Type (config (net (eth0 w))) = conn_STATIC_IP" "\<not> vlan_on (net (eth0 w))"
    and "length (WAN_interface w) < IFNAMSIZ"
  obtains w' where "init_wan_interface n e w = Inr (Some w')" "eth0_up w'" "static_connection_up w'" "\<not> in_init_wan w'"
    "net (eth0 w') = net (set_wan 1 (eth0 w))" "field32 (res (eth0 w')) bp_yiaddr = inet_addr (wan_IPAddr (WAN_config_addrs (config (net (eth0 w)))))"
proof -
  define w0 where "w0 = w\<lparr> in_init_wan := True \<rparr>"
  let ?a = "WAN_config_addrs (config (net (eth0 w)))"
  obtain hw k where hw: "ask_hwaddr (wan_kern e) (WAN_interface w) (world (eth0 w)) = Inr (Some hw, k)" "6 \<le> length hw"
  proof -
    obtain d k1 where "wan_kern e Socket (world (eth0 w)) = (Ok s d, k1)" using assms(1) unfolding accepting_def by blast
    moreover obtain v hw k2 where "wan_kern e (Ioctl s (SIOCGIFHWADDR (WAN_interface w))) k1 = (Ok v hw, k2)" using assms(1) unfolding accepting_def by blast
    moreover have "6 \<le> length hw" using assms(2) calculation(2) unfolding ethernet_def by blast
    moreover have "0 \<le> s" using assms(1) by (simp add: accepting_def)
    ultimately show thesis using that [of hw "snd (wan_kern e (Close s) k2)"] assms(7) by (simp add: ask_hwaddr_def)
  qed
  then obtain p where p: "build_bootp_record (Some hw) (wan_IPAddr ?a) (wan_Mask ?a) (wan_Broadcast ?a) (wan_Gateway ?a) (wan_Server ?a) = Inr p"
    "carries p (record_items (wan_Mask ?a) (wan_Broadcast ?a) (wan_Gateway ?a))" "field32 p bp_yiaddr = inet_addr (wan_IPAddr ?a)"
    using build_record [of "Some hw"] by (metis option.inject)
  define w1 where "w1 = w0\<lparr> eth0 := (set_wan 1 (eth0 w))\<lparr> res := p, world := k \<rparr>, eth0_up := True, static_connection_up := True \<rparr>"
  have "connect_dhcp n e w0 = Inr (Some w0)" using assms(5) by (simp add: connect_dhcp_def w0_def conn_DHCP_def conn_STATIC_IP_def)
  moreover have "connect_static e w0 = Inr w1"
    using assms(5) hw(1) p(1) by (simp add: connect_static_def w0_def w1_def set_wan_def Let_def)
  moreover have ct: "Connection_Type (config (net (eth0 w1))) = conn_STATIC_IP" using assms(5) by (simp add: w1_def set_wan_def)
  then have "connect_ppp n e w1 = Inr (Some (True, w1))" by (simp add: connect_ppp_def conn_STATIC_IP_def conn_PPPoE_def)
  ultimately have i: "init_wan_interface n e w = bind_ok (finish_wan e w1) (\<lambda>w4. Inr (Some w4))"
    using assms(3,4,6) by (simp add: init_wan_interface_def choose_interface_def bind_run_def w0_def Let_def)
  have tags: "lookup TAG_DHCP_OPTOVER (record_items m b g) = None" "\<forall>v. lookup TAG_GATEWAY (record_items m b g) = Some v \<longrightarrow> 4 \<le> length v" for m b g
    by (simp_all add: record_items_def tag_defs)
  obtain k2 where st: "start_interface e w1 = Inr (w1\<lparr> eth0 := (eth0 w1)\<lparr> world := k2 \<rparr> \<rparr>)"
    using start_interface_up [OF assms(1), of w1 "record_items (wan_Mask ?a) (wan_Broadcast ?a) (wan_Gateway ?a)"] p(2) tags assms(7)
    by (auto simp: w1_def w0_def)
  obtain w' where "finish_wan e w1 = Inr w'" "same_link (w1\<lparr> eth0 := (eth0 w1)\<lparr> world := k2 \<rparr> \<rparr>) w'" "eth0_up w' = eth0_up w1" "\<not> in_init_wan w'"
    using finish_ok [OF st] by auto
  then show thesis using that [of w'] i p(3) by (simp add: same_link_def w1_def)
qed

section \<open>A lease that runs out\<close>

lemma faultless_down_net:
  assumes "accepting ke s"
  obtains r st' k' where "do_dhcp_down_net ke dev st k = Inr (r, st', k')"
proof -
  let ?d = "strlcpy dev IFNAMSIZ"
  have del: "faultless (seqs [req ke (Ioctl i (SIOCDIFADDR ?d a)), req ke (Ioctl i (SIOCSIFFLAGS ?d down_flags))])" for i a
    by (auto intro!: faultless_intros)
  have "faultless (down_body ke ?d st i)" for i
    using del unfolding faultless_def down_body_def Let_def by (auto split: prod.splits kres.splits)
  then have "faultless (with_socket ke (down_body ke ?d st))" by (rule faultless_with_socket)
  then obtain r k1 where "with_socket ke (down_body ke ?d st) (snd (ke RouteReinit k)) = Inr (r, k1)" by (rule faultlessE)
  then show thesis using that by (simp add: do_dhcp_down_net_def)
qed

lemma expired_client:
  assumes "peer (kern e) s hw sent reply" "pstate c = DHCPSTATE_BOUND" "l_which (lease c) AND DHCP_LEASE_EX \<noteq> 0"
  obtains c' where "do_dhcp (Suc n) e c = Inr (Some (True, c'))" "pstate c' = DHCPSTATE_NOTBOUND" "net c' = net (set_wan 0 c)"
    "received c' = received c" "xmit2 c' = xmit2 c"
proof -
  note acc = peer_accepting [OF assms(1)]
  obtain d k1 where sock: "kern e Socket (world c) = (Ok s d, k1)" using peer_requests(7) [OF assms(1)] by blast
  have s: "0 \<le> s" using acc by (simp add: accepting_def)
  have "succeeds (sock_setup e s)" unfolding sock_setup_def using acc by (auto intro!: succeeds_intros)
  then obtain k2 where prep: "sock_setup e s k1 = Inr (True, k2)" by (rule succeedsE)
  obtain v k3 where hwr: "kern e (Ioctl s (SIOCGIFHWADDR (strlcpy (intf e) IFNAMSIZ))) k2 = (Ok v hw, k3)"
    using peer_requests(8) [OF assms(1)] by blast
  obtain rx k4 where rnd: "kern e Random k3 = (rx, k4)" by fastforce
  define x where "x = first_xid hw (case rx of Ok v _ \<Rightarrow> word_of_int v | Fail _ \<Rightarrow> 0)"
  define c1 where "c1 = c\<lparr> seen_bootp_reply := False, msgtype := 0, tmr := reset_timeout (tmr c), world := k4, xid := x \<rparr>"
  have run: "do_dhcp (Suc n) e c = dhcp_loop (Suc n) e s hw DHCPSTATE_BOUND c1"
    using assms(2) sock s prep hwr rnd by (simp add: do_dhcp_def Let_def reset_tmr_def c1_def x_def state_defs)
  obtain k5 where al: "take_alarms e c1 = c1\<lparr> world := k5 \<rparr>" using peer_alarms [OF assms(1), of c1] by blast
  define c2 where "c2 = c1\<lparr> world := k5, lease := (lease c)\<lparr> l_which := 0 \<rparr>, pstate := DHCPSTATE_NOTBOUND \<rparr>"
  have "check_lease (take_alarms e c1) = c2"
    using assms(2,3) unfolding al by (simp add: check_lease_def c2_def c1_def Let_def state_defs)
  then have "dhcp_iter e s hw DHCPSTATE_BOUND c1 = Inr (st_end e s True c2)"
    by (simp add: dhcp_iter_def Let_def) (simp add: c2_def state_defs)
  then have "do_dhcp (Suc n) e c = Inr (Some (True, set_wan 0 ((close_socket e s c2)\<lparr> lease := no_lease (lease (close_socket e s c2)) \<rparr>)))"
    unfolding run by (simp add: st_end_def Let_def)
  then show thesis by (rule that) (simp_all add: set_wan_def close_socket_def c2_def c1_def)
qed

lemma expiry_recovers:
  assumes "ready e yi srv off" "dhcp_idle yi (w\<lparr> eth0_up := False \<rparr>)" "eth0_up w" "pstate (eth0 w) = DHCPSTATE_BOUND"
    and "l_which (lease (eth0 w)) AND DHCP_LEASE_EX \<noteq> 0" "0 < attention (lease (eth0 w))"
  obtains w' p where "dhcp_mgt_round 5 e True w = Inr (Some (True, w'))" "eth0_up w'" "pstate (eth0 w') = DHCPSTATE_BOUND"
    "net (eth0 w') = (net (eth0 w))\<lparr> config := (config (net (eth0 w)))\<lparr> WAN_config_addrs :=
       without_own (inaddr_ip (bridge_conf (config (net (eth0 w))))) (lease_config p off), wan_status := 1 \<rparr> \<rparr>"
    "field32 p bp_yiaddr = yi" "field32 p bp_siaddr = srv" "\<not> in_init_wan w'"
proof -
  obtain s hw sent reply where peer: "peer (wan_kern e) s hw sent reply" using assms(1) unfolding ready_def by blast
  note acc = peer_accepting [OF peer]
  obtain k where al: "take_alarms (dhcp e) (eth0 w) = (eth0 w)\<lparr> world := k \<rparr>"
    using peer_alarms [OF peer [unfolded wan_kern_def], of "eth0 w"] by blast
  define c where "c = (eth0 w)\<lparr> world := k, lease := (lease (eth0 w))\<lparr> attention := attention (lease (eth0 w)) - 1 \<rparr> \<rparr>"
  have wait: "wait_attention 5 (dhcp e) (eth0 w) = Some c" using assms(6) by (simp add: numeral_eq_Suc al c_def Let_def)
  define w1 where "w1 = w\<lparr> eth0 := c \<rparr>"
  have "kern (client_env e w1) = wan_kern e" by (simp add: client_env_def wan_kern_def)
  moreover have "pstate c = DHCPSTATE_BOUND" "l_which (lease c) AND DHCP_LEASE_EX \<noteq> 0" using assms(4,5) by (simp_all add: c_def)
  ultimately obtain c' where c': "do_dhcp (Suc 4) (client_env e w1) c = Inr (Some (True, c'))" "pstate c' = DHCPSTATE_NOTBOUND" "net c' = net (set_wan 0 c)"
    "received c' = received c" "xmit2 c' = xmit2 c"
    using expired_client [of "client_env e w1" s hw sent reply c 4] peer by metis
  define w2 where "w2 = w\<lparr> eth0 := c' \<rparr>"
  have five: "Suc 4 = 5" by simp
  have "dhcp_bind 5 e w1 = Inr (Some (False, w2))"
    using c'(1,2) assms(3,4) unfolding five
    by (simp add: dhcp_bind_def Let_def bind_run_def w1_def w2_def c_def state_defs)
  moreover obtain r st k2 where "do_dhcp_down_net (wan_kern e) (WAN_interface w) (pstate c') (world c') = Inr (r, st, k2)"
    using faultless_down_net [OF acc] .
  then have "dhcp_halt e w2 = Inr (w2\<lparr> eth0 := c'\<lparr> pstate := st, world := k2 \<rparr>, eth0_up := False \<rparr>)"
    using c'(2) assms(3) by (simp add: dhcp_halt_def w2_def Let_def state_defs)
  moreover define w3 where "w3 = w2\<lparr> eth0 := c'\<lparr> pstate := st, world := k2 \<rparr>, eth0_up := False \<rparr>"
  have n3: "net (eth0 w3) = (net (eth0 w))\<lparr> config := (config (net (eth0 w)))\<lparr> wan_status := 0 \<rparr> \<rparr>"
    by (simp add: w3_def c'(3) set_wan_def c_def)
  then have "dhcp_idle yi w3"
    using assms(2) c'(4,5) by (simp add: dhcp_idle_def vlan_on_def) (simp add: w3_def w2_def c_def)
  from dhcp_connects [OF assms(1) this] obtain w4 p where w4: "init_wan_interface 5 e w3 = Inr (Some w4)" "eth0_up w4" "\<not> in_init_wan w4"
    "pstate (eth0 w4) = DHCPSTATE_BOUND" "net (eth0 w4) = (net (eth0 w3))\<lparr> config := (config (net (eth0 w3)))\<lparr> WAN_config_addrs :=
       without_own (inaddr_ip (bridge_conf (config (net (eth0 w3))))) (lease_config p off), wan_status := 1 \<rparr> \<rparr>"
    "field32 p bp_yiaddr = yi" "field32 p bp_siaddr = srv" by metis
  have "restart_wan 5 5 e w3 = Inr (Some w4)" using w4(1,2) restart_wan.simps(2) [of 4 5 e w3] by (simp add: bind_run_def)
  moreover obtain k4 where "init_loopbacks (wan_kern e) 0 (nloop e) (world (eth0 w4)) = Inr k4" by (rule loopbacks_total)
  ultimately have r: "dhcp_mgt_round 5 e True w = Inr (Some (True, w4\<lparr> eth0 := (eth0 w4)\<lparr> world := k4 \<rparr> \<rparr>))"
    using wait by (simp add: dhcp_mgt_round_def bind_run_def w1_def w3_def)
  show thesis by (rule that [OF r, of p]) (simp_all add: w4 n3)
qed

section \<open>A connection that does not come up\<close>

text \<open>No server: the client gives up, and then nobody posts the semaphore.\<close>

lemma wait_for_ever:
  assumes "\<forall>t. l_alarm (lease c) \<noteq> Some (Armed t)" "attention (lease c) = 0"
  shows "wait_attention n e c = None"
  using assms
proof (induction n arbitrary: c)
  case 0
  then show ?case by simp
next
  case (Suc n)
  have "fire (lease c) = lease c" using Suc.prems(1) by (auto simp: fire_def split: option.splits alarm.splits)
  then have "(fire ^^ m) (lease c) = lease c" for m by (induction m) auto
  then have "lease (take_alarms e c) = lease c" by (auto simp: take_alarms_def split: prod.splits kres.splits)
  then show ?case using Suc by (simp add: Let_def)
qed

lemma silent_wan:
  assumes "silent (wan_kern e)" "ethernet (wan_kern e)" "retry (dhcp e) \<le> 3600"
    and "\<not> eth0_up w" "\<not> in_init_wan w" "\<not> dhcp_mgt_thread w" "Connection_Type (config (net (eth0 w))) = conn_DHCP" "\<not> vlan_on (net (eth0 w))"
    and "\<forall>t. l_alarm (lease (eth0 w)) \<noteq> Some (Armed t)"
  obtains w' where "init_wan_interface 21 e w = Inr (Some w')" "\<not> eth0_up w'" "dhcp_mgt_thread w'" "\<not> in_init_wan w'"
    "\<And>j n b. dhcp_mgt_entry j n e b w' = Inr None"
proof -
  define w0 where "w0 = w\<lparr> in_init_wan := True \<rparr>"
  define c where "c = (eth0 w)\<lparr> pstate := 0 \<rparr>"
  let ?e = "client_env e w0"
  have env: "kern ?e = wan_kern e" "retry ?e = retry (dhcp e)" by (simp_all add: client_env_def wan_kern_def)
  have c: "pstate c \<in> {0, DHCPSTATE_INIT, DHCPSTATE_FAILED}" "\<forall>t. l_alarm (lease c) \<noteq> Some (Armed t)" "net c = net (eth0 w)"
    using assms(9) by (simp_all add: c_def)
  obtain c' where c': "do_dhcp 21 ?e c = Inr (Some (False, c'))" "\<forall>t. l_alarm (lease c') \<noteq> Some (Armed t)" "net c' = net c \<or> net c' = net (set_wan 0 c)"
    by (rule silent_gives_up [where e = ?e, unfolded env, OF c(1,2) assms(1-3)])
  define w1 where "w1 = w0\<lparr> eth0 := c', eth0_up := False \<rparr>"
  have ct: "Connection_Type (config (net c')) = conn_DHCP" using c'(3) c(3) assms(7) by (auto simp: set_wan_def)
  have "connect_dhcp 21 e w0 = Inr (Some w1)" using c'(1) assms(7) by (simp add: connect_dhcp_def bind_run_def w1_def w0_def c_def)
  moreover have "connect_static e w1 = Inr w1" "connect_ppp 21 e w1 = Inr (Some (True, w1))"
    using ct by (simp_all add: connect_static_def connect_ppp_def w1_def conn_DHCP_def conn_STATIC_IP_def conn_PPPoE_def)
  ultimately have i: "init_wan_interface 21 e w = bind_ok (finish_wan e w1) (\<lambda>w4. Inr (Some w4))"
    using assms(4,5,8) by (simp add: init_wan_interface_def choose_interface_def bind_run_def w0_def Let_def)
  have "start_interface e w1 = Inr w1" by (simp add: start_interface_def w1_def)
  from finish_ok [OF this] obtain w' where w': "finish_wan e w1 = Inr w'" "same_link w1 w'" "eth0_up w' = eth0_up w1" "\<not> in_init_wan w'"
    "dhcp_mgt_thread w'" "attention (lease (eth0 w')) = 0"
    using ct assms(6) by (auto simp: w1_def w0_def)
  have "l_alarm ((lease (eth0 w'))\<lparr> attention := 0 \<rparr>) = l_alarm ((lease c')\<lparr> attention := 0 \<rparr>)"
    using w'(2) by (simp add: same_link_def w1_def)
  then have "\<forall>t. l_alarm (lease (eth0 w')) \<noteq> Some (Armed t)" using c'(2) by simp
  then have "dhcp_mgt_round n e b w' = Inr None" for n b
    using wait_for_ever [OF _ w'(6)] by (simp add: dhcp_mgt_round_def)
  then have "dhcp_mgt_entry j n e b w' = Inr None" for j n b by (cases j) (simp_all add: bind_run_def)
  then show thesis using that [of w'] i w' by (simp add: w1_def)
qed

section \<open>The flag that keeps calls apart\<close>

lemma bind_run_Some: "bind_run m f = Inr (Some y) \<longleftrightarrow> (\<exists>x. m = Inr (Some x) \<and> f x = Inr (Some y))"
  by (cases m) (auto simp: bind_run_def split: option.splits)

lemma finish_opens: "finish_wan e w = Inr w' \<Longrightarrow> \<not> in_init_wan w'"
  by (auto simp: finish_wan_def Let_def bind_ok_eq_Inr)

text \<open>Where a call of \<^verbatim>\<open>init_wan_interface\<close> has returned in the middle, the configuration is as it was.\<close>

definition refusal :: "'f nw_state \<Rightarrow> (bool \<times> ('k, 'f) wan) option cres \<Rightarrow> bool" where
  "refusal st r \<longleftrightarrow> (\<forall>w'. r = Inr (Some (False, w')) \<longrightarrow> net (eth0 w') = st)"

lemma refusal_simps [simp]:
  "refusal st (Inr (Some (b, w))) \<longleftrightarrow> b \<or> net (eth0 w) = st" "refusal st (Inr None)" "refusal st (Inl f)"
  by (auto simp: refusal_def)

lemma refusal_intros:
  "(\<And>x k. refusal st (g x k)) \<Longrightarrow> refusal st (bind_ok m (\<lambda>(x, k). g x k))"
  "(b \<Longrightarrow> refusal st x) \<Longrightarrow> (\<not> b \<Longrightarrow> refusal st y) \<Longrightarrow> refusal st (if b then x else y)"
  "(\<And>r k. refusal st (h r k)) \<Longrightarrow> refusal st (case p of None \<Rightarrow> Inr None | Some (r, k) \<Rightarrow> h r k)"
  by (cases m) (auto split: option.splits)

lemma connect_ppp_refused:
  assumes "connect_ppp n e w = Inr (Some (False, w'))"
  shows "Connection_Type (config (net (eth0 w'))) = conn_PPPoE"
proof -
  have ct: "Connection_Type (config (net (eth0 w))) = conn_PPPoE"
  proof (rule ccontr)
    assume "Connection_Type (config (net (eth0 w))) \<noteq> conn_PPPoE"
    with assms show False by (simp add: connect_ppp_def)
  qed
  have "refusal (net (eth0 w)) (connect_ppp n e w)"
    unfolding connect_ppp_def Let_def by (intro refusal_intros) simp_all
  then show ?thesis using assms ct by (simp add: refusal_def)
qed

text \<open>Only a PPPoE connection that was given up leaves the flag set.\<close>

lemma monitor_opens:
  assumes "init_wan_interface n e w = Inr (Some w')" "in_init_wan w'"
  shows "Connection_Type (config (net (eth0 w'))) = conn_PPPoE"
proof -
  obtain w0 where w0: "choose_interface w = Inr w0" "\<not> in_init_wan w0"
    using assms(1) by (auto simp: init_wan_interface_def bind_ok_eq_Inr split: if_splits)
  let ?w = "w0\<lparr> in_init_wan := True \<rparr>"
  obtain go w3 where w3: "(if eth0_up w0 then Inr (Some (True, ?w))
      else bind_run (connect_dhcp n e ?w) (\<lambda>w1. bind_ok (connect_static e w1) (\<lambda>w2. connect_ppp n e w2))) = Inr (Some (go, w3))"
    "(if go then bind_ok (finish_wan e w3) (\<lambda>w4. Inr (Some w4)) else Inr (Some w3)) = Inr (Some w')"
    using assms(1) w0 by (auto simp: init_wan_interface_def bind_run_Some simp del: if_split_asm)
  have "\<not> go" using w3(2) assms(2) finish_opens by (auto simp: bind_ok_eq_Inr split: if_splits)
  with w3 show ?thesis
    by (auto simp: bind_run_Some bind_ok_eq_Inr split: if_splits dest: connect_ppp_refused)
qed

lemma shut_monitor_blocks:
  assumes "in_init_wan w" "\<not> vlan_on (net (eth0 w))"
  shows "init_wan_interface n e w = Inr None"
  using assms by (simp add: init_wan_interface_def choose_interface_def Let_def)

lemma ppp_refused:
  assumes "Connection_Type (config (net (eth0 w))) = conn_PPPoE" "\<And>k. \<exists>f k'. wan_kern e PppSifup k = (Fail f, k')"
  obtains w' where "connect_ppp n e w = Inr (Some (False, w'))" "net (eth0 w') = net (eth0 w)" "in_init_wan w' = in_init_wan w"
    "eth0_up w' \<Longrightarrow> eth0_up w"
proof -
  have "\<exists>ok k1. seqs [ask (wan_kern e) (PppIfname ''ppp0''), req (wan_kern e) (Malloc 4)] (world (eth0 w)) = Inr (ok, k1)"
    by (rule faultlessE [of "seqs [ask (wan_kern e) (PppIfname ''ppp0''), req (wan_kern e) (Malloc 4)]"]) (auto intro!: faultless_intros)
  then obtain ok k1 where 1: "seqs [ask (wan_kern e) (PppIfname ''ppp0''), req (wan_kern e) (Malloc 4)] (world (eth0 w)) = Inr (ok, k1)" by blast
  obtain f k2 where "wan_kern e PppSifup k1 = (Fail f, k2)" using assms(2) by blast
  then have 2: "seqs [req (wan_kern e) PppSifup, req (wan_kern e) PppInit] k1 = Inr (False, k2)" by (simp add: req_def)
  show thesis
  proof (cases ok)
    case True
    then have "connect_ppp n e w = Inr (Some (False, w\<lparr> is_ppp_up := 0, eth0 := (eth0 w)\<lparr> world := snd (wan_kern e Free k2) \<rparr>, eth0_up := False \<rparr>))"
      using assms(1) 1 2 by (simp add: connect_ppp_def Let_def del: seqs.simps)
    then show thesis by (rule that) simp_all
  next
    case False
    then have "connect_ppp n e w = Inr (Some (False, w\<lparr> is_ppp_up := 0, eth0 := (eth0 w)\<lparr> world := k1 \<rparr> \<rparr>))"
      using assms(1) 1 by (simp add: connect_ppp_def Let_def del: seqs.simps)
    then show thesis by (rule that) simp_all
  qed
qed

section \<open>Properties\<close>

text \<open>
  (C16) The WAN connects by DHCP: when a server is ready to give a lease, \<^verbatim>\<open>init_wan_interface\<close> on an idle connection returns with the
  interface up and bound, the lease in the configuration, the flag clear for the next call and the management
  thread running.
\<close>

theorem dhcp_wan_comes_up:
  assumes "ready e yi srv off" "dhcp_idle yi w"
  shows "\<exists>w' p. init_wan_interface 5 e w = Inr (Some w') \<and> eth0_up w' \<and> pstate (eth0 w') = DHCPSTATE_BOUND
     \<and> \<not> in_init_wan w' \<and> dhcp_mgt_thread w' \<and> field32 p bp_yiaddr = yi \<and> field32 p bp_siaddr = srv
     \<and> net (eth0 w') = (net (eth0 w))\<lparr> config := (config (net (eth0 w)))\<lparr> WAN_config_addrs :=
          without_own (inaddr_ip (bridge_conf (config (net (eth0 w))))) (lease_config p off), wan_status := 1 \<rparr> \<rparr>"
  using dhcp_connects [OF assms] by metis

definition demo_wan :: "'k \<Rightarrow> ('k, unit) wan" where
  "demo_wan k = \<lparr> eth0 = demo_client 0 k, eth0_up = False, eth1_up = False, eth1_bootp_data = replicate bootp_size 0, WAN_interface = WAN,
     is_ppp_up = 0, static_connection_up = False, in_init_wan = False, in_init_lan = False, loop_init = 0, dhcp_mgt_thread = False \<rparr>"

definition demo_wan_env :: "'k kernel \<Rightarrow> ('k, unit) wan_env" where
  "demo_wan_env ke = \<lparr> dhcp = demo_env ke, nloop = 1 \<rparr>"

lemma demo_ready: "ready (demo_wan_env (wire [2, 0, 0, 1, 2, 3] demo_server)) 0x0a000007 0x0a000001 demo_offer"
proof -
  let ?e = "demo_wan_env (wire [2, 0, 0, 1, 2, 3] demo_server)"
  have "peer (wan_kern ?e) 3 [2, 0, 0, 1, 2, 3] id demo_server"
    using demo_start(1) [of "[2, 0, 0, 1, 2, 3]"] by (simp add: demo_wan_env_def wan_kern_def)
  then have "\<exists>s hw sent reply ack. peer (wan_kern ?e) s hw sent reply \<and> 6 \<le> length hw \<and> serves reply 0x0a000007 0x0a000001 demo_offer ack
      \<and> lookup TAG_DHCP_OPTOVER ack = None"
    using demo_serves demo_start(2) by (intro exI conjI) auto
  moreover have "dividend (rsl (dhcp ?e)) \<noteq> 0" by (simp add: demo_wan_env_def demo_env_def)
  moreover have "lookup TAG_DHCP_OPTOVER demo_offer = None" "lookup TAG_GATEWAY demo_offer \<noteq> Some []" by (simp_all add: demo_offer_def tag_defs)
  ultimately show ?thesis unfolding ready_def using demo_items(3,4) by simp
qed

lemma demo_config: "Connection_Type (config (net (demo_client st k))) = conn_DHCP" "\<not> vlan_on (net (demo_client st k))"
  by (simp_all add: demo_client_def demo_net_def default_config_def vlan_on_def)

lemma demo_idle: "dhcp_idle 0x0a000007 (demo_wan k)"
  unfolding dhcp_idle_def by (simp add: demo_start(5-7) demo_config demo_wan_def WAN_def IFNAMSIZ_def)

theorem dhcp_wan_comes_up_witness:
  "\<exists>w'. init_wan_interface 5 (demo_wan_env (wire [2, 0, 0, 1, 2, 3] demo_server)) (demo_wan []) = Inr (Some w') \<and> eth0_up w' \<and> dhcp_mgt_thread w'"
  using dhcp_wan_comes_up [OF demo_ready demo_idle] by blast

text \<open>
  The WAN connects with a fixed address: when the network stack accepts the requests, \<^verbatim>\<open>init_wan_interface\<close> returns with the
  interface up, the record made from the configured addresses and the flag clear for the next call.
\<close>

theorem static_wan_comes_up:
  assumes "accepting (wan_kern e) s" "ethernet (wan_kern e)"
    and "\<not> eth0_up w" "\<not> in_init_wan w" "Connection_Type (config (net (eth0 w))) = conn_STATIC_IP" "\<not> vlan_on (net (eth0 w))"
    and "length (WAN_interface w) < IFNAMSIZ"
  shows "\<exists>w'. init_wan_interface n e w = Inr (Some w') \<and> eth0_up w' \<and> static_connection_up w' \<and> \<not> in_init_wan w'
     \<and> net (eth0 w') = net (set_wan 1 (eth0 w))
     \<and> field32 (res (eth0 w')) bp_yiaddr = inet_addr (wan_IPAddr (WAN_config_addrs (config (net (eth0 w)))))"
  using static_connects [OF assms] by metis

definition demo_static :: "'k \<Rightarrow> ('k, unit) wan" where
  "demo_static k = (demo_wan k)\<lparr> eth0 := (demo_client 0 k)\<lparr> net := (demo_net ())\<lparr> config :=
     (config (demo_net ()))\<lparr> Connection_Type := conn_STATIC_IP \<rparr> \<rparr> \<rparr> \<rparr>"

theorem static_wan_comes_up_witness:
  "\<exists>w'. init_wan_interface 0 (demo_wan_env (wire [2, 0, 0, 1, 2, 3] demo_server)) (demo_static []) = Inr (Some w') \<and> eth0_up w' \<and> static_connection_up w'"
proof -
  let ?e = "demo_wan_env (wire [2, 0, 0, 1, 2, 3] demo_server)"
  have k: "wan_kern ?e = wire [2, 0, 0, 1, 2, 3] demo_server" by (simp add: wan_kern_def demo_wan_env_def demo_env_def)
  have "accepting (wan_kern ?e) 3" "ethernet (wan_kern ?e)"
    unfolding k using peer_accepting [OF wire_peer] by (auto simp: ethernet_def wire_def)
  from static_wan_comes_up [OF this, of "demo_static []" 0] show ?thesis
    by (auto simp: demo_static_def demo_wan_def vlan_on_def demo_net_def default_config_def WAN_def IFNAMSIZ_def)
qed

text \<open>
  (C17) A lease that has run out is replaced: when the alarm has marked the lease as expired and posted the semaphore, one
  round of the management thread takes the interface down, starts it again and ends with a new lease.
\<close>

theorem expired_lease_is_replaced:
  assumes "ready e yi srv off" "dhcp_idle yi (w\<lparr> eth0_up := False \<rparr>)" "eth0_up w" "pstate (eth0 w) = DHCPSTATE_BOUND"
    and "l_which (lease (eth0 w)) AND DHCP_LEASE_EX \<noteq> 0" "0 < attention (lease (eth0 w))"
  shows "\<exists>w' p. dhcp_mgt_round 5 e True w = Inr (Some (True, w')) \<and> eth0_up w' \<and> pstate (eth0 w') = DHCPSTATE_BOUND \<and> \<not> in_init_wan w'
     \<and> field32 p bp_yiaddr = yi \<and> field32 p bp_siaddr = srv
     \<and> net (eth0 w') = (net (eth0 w))\<lparr> config := (config (net (eth0 w)))\<lparr> WAN_config_addrs :=
          without_own (inaddr_ip (bridge_conf (config (net (eth0 w))))) (lease_config p off), wan_status := 1 \<rparr> \<rparr>"
  using expiry_recovers [OF assms] by metis

definition demo_expired :: "'k \<Rightarrow> ('k, unit) wan" where
  "demo_expired k = (demo_wan k)\<lparr> eth0_up := True, eth0 := (demo_client DHCPSTATE_BOUND k)\<lparr>
     lease := (lease (demo_client 0 k))\<lparr> l_which := DHCP_LEASE_EX, attention := 1 \<rparr> \<rparr> \<rparr>"

theorem expired_lease_is_replaced_witness:
  "\<exists>w'. dhcp_mgt_round 5 (demo_wan_env (wire [2, 0, 0, 1, 2, 3] demo_server)) True (demo_expired []) = Inr (Some (True, w')) \<and> eth0_up w'"
proof -
  have "dhcp_idle 0x0a000007 ((demo_expired k)\<lparr> eth0_up := False \<rparr>)" for k :: "u8 list"
    using demo_idle [of k] by (simp add: dhcp_idle_def demo_expired_def demo_wan_def demo_client_def)
  from expired_lease_is_replaced [OF demo_ready this, of "[]"] show ?thesis
    by (auto simp: demo_expired_def demo_client_def lease_bits)
qed

text \<open>
  (C25) A connection that has failed is not tried again: when no server answers at start-up, \<^verbatim>\<open>init_wan_interface\<close> gives up after 21 rounds and
  starts the management thread, which then waits for ever, since nothing posts the semaphore.
\<close>

theorem failed_dhcp_is_not_retried:
  assumes "silent (wan_kern e)" "ethernet (wan_kern e)" "retry (dhcp e) \<le> 3600"
    and "\<not> eth0_up w" "\<not> in_init_wan w" "\<not> dhcp_mgt_thread w" "Connection_Type (config (net (eth0 w))) = conn_DHCP" "\<not> vlan_on (net (eth0 w))"
    and "\<forall>t. l_alarm (lease (eth0 w)) \<noteq> Some (Armed t)"
  shows "\<exists>w'. init_wan_interface 21 e w = Inr (Some w') \<and> \<not> eth0_up w' \<and> dhcp_mgt_thread w'
     \<and> (\<forall>j n loop_on_failure. dhcp_mgt_entry j n e loop_on_failure w' = Inr None)"
  using silent_wan [OF assms] by metis

theorem failed_dhcp_is_not_retried_witness:
  "\<exists>w'. init_wan_interface 21 (demo_wan_env mute_kernel) (demo_wan ()) = Inr (Some w') \<and> \<not> eth0_up w'
     \<and> (\<forall>j n loop_on_failure. dhcp_mgt_entry j n (demo_wan_env mute_kernel) loop_on_failure w' = Inr None)"
proof -
  have "wan_kern (demo_wan_env mute_kernel) = mute_kernel" "retry (dhcp (demo_wan_env mute_kernel)) \<le> 3600"
    by (simp_all add: demo_wan_env_def wan_kern_def demo_env_def)
  moreover have "\<forall>t. l_alarm (lease (eth0 (demo_wan ()))) \<noteq> Some (Armed t)" by (simp add: demo_wan_def demo_client_def)
  ultimately show ?thesis
    using failed_dhcp_is_not_retried [of "demo_wan_env mute_kernel" "demo_wan ()"]
    by (auto simp: demo_wan_def mute_silent demo_config)
qed


definition demo_pppoe :: "(unit, unit) wan" where
  "demo_pppoe = (demo_wan ())\<lparr> eth0 := (demo_client 0 ())\<lparr> net := (demo_net ())\<lparr> config :=
     (config (demo_net ()))\<lparr> Connection_Type := conn_PPPoE \<rparr> \<rparr> \<rparr> \<rparr>"

definition no_ppp_kernel :: "unit kernel" where
  "no_ppp_kernel r k = (if r = PppSifup then (Fail False, k) else (Ok 3 [], k))"


end
