(* ===== verification/Ap_Wlan.thy ===== *)
theory Ap_Wlan
  imports Cli_Commands
begin

text \<open>
  The wireless start-up \<^verbatim>\<open>ecosap/apwlan.c\<close> and the commands \<^verbatim>\<open>makevap\<close>, \<^verbatim>\<open>activatevap\<close>, \<^verbatim>\<open>ap_start\<close>,
  \<^verbatim>\<open>ap_stop\<close> and \<^verbatim>\<open>hostapd\<close> of \<^verbatim>\<open>ecosap/shell/wlan_commands.c\<close>.

  The code works by printing a command line into a buffer, cutting it at its spaces and passing the
  pieces to a tool. The tools (\<^verbatim>\<open>wlan_config\<close>, \<^verbatim>\<open>iw_config\<close>, \<^verbatim>\<open>iw_priv\<close>, \<^verbatim>\<open>ifconfig_main\<close>,
  \<^verbatim>\<open>brconfig_main\<close>, \<^verbatim>\<open>hostapd_cmds\<close>, \<^verbatim>\<open>wpa_supplicant_cmds\<close>) are not part of the repository or are imported
  programs: they are a parameter \<open>ext\<close> that takes a tool and its arguments and changes a state \<open>'w\<close>.
  The first half shows that the text in between does not matter as long as the values are words that
  fit; the second follows the virtual access points (VAPs) through start and stop.

  As in the other theories, IPTV and the bridge are enabled in the build.
\<close>

section \<open>Tools and command lines\<close>

datatype tool = Wlan_config | Iw_config | Iw_priv | Ifconfig_main | Brconfig_main | Hostapd_cmds
  | Wpa_supplicant_cmds

type_synonym 'w ext_tools = "tool \<Rightarrow> string list \<Rightarrow> 'w \<Rightarrow> int \<times> 'w"
type_synonym 'w act = "'w \<Rightarrow> (int \<times> 'w) cres"

text \<open>An argument array: reading an entry may fault, and an entry may be NULL (\<open>None\<close>).\<close>

type_synonym argv = "nat \<Rightarrow> string option cres"

definition arg :: "argv \<Rightarrow> nat \<Rightarrow> string cres" where
  "arg argv i = bind_ok (argv i) (\<lambda>p. case p of None \<Rightarrow> Inl NullDeref | Some s \<Rightarrow> Inr s)"

text \<open>All tokens that a \<^verbatim>\<open>strtok\<close> loop finds.\<close>

function tokens :: "string option \<Rightarrow> string list" where
  "tokens lasts = (case strtok_next [SPACE] lasts of None \<Rightarrow> [] | Some (t, r) \<Rightarrow> t # tokens r)"
  by pat_completeness auto
termination
  by (relation "measure (\<lambda>l. case l of None \<Rightarrow> 0 | Some s \<Rightarrow> Suc (length s))")
     (auto simp: strtok_next_def dest: strtok_step_shorter split: option.splits)

declare tokens.simps [simp del]

definition argptr :: "string list \<Rightarrow> argv" where
  "argptr ts i = (if i < length ts then Inr (Some (ts ! i)) else if i < 16 then Inl UninitRead else Inl OutOfBounds)"

definition run_command :: "string option \<Rightarrow> (nat \<Rightarrow> argv \<Rightarrow> 'w act) option \<Rightarrow> 'w act" where
  "run_command cmd_buf func w =
     (case (cmd_buf, func) of
        (Some buf, Some f) \<Rightarrow>
          (let ts = tokens (Some buf)
           in if 16 < length ts then Inl OutOfBounds else f (length ts) (argptr ts) w)
      | _ \<Rightarrow> Inr (- 1, w))"

text \<open>A tool from outside is passed the arguments that \<^verbatim>\<open>argc\<close> counts.\<close>

fun args_upto :: "nat \<Rightarrow> argv \<Rightarrow> string list cres" where
  "args_upto 0 argv = Inr []"
| "args_upto (Suc n) argv = bind_ok (args_upto n argv) (\<lambda>as. bind_ok (arg argv n) (\<lambda>a. Inr (as @ [a])))"

definition ext_fn :: "'w ext_tools \<Rightarrow> tool \<Rightarrow> nat \<Rightarrow> argv \<Rightarrow> 'w act" where
  "ext_fn ext t argc argv w = bind_ok (args_upto argc argv) (\<lambda>as. Inr (ext t as w))"

definition MAX_CMD_SIZE :: nat where "MAX_CMD_SIZE = 128"

text \<open>\<^verbatim>\<open>snprintf\<close> into \<^verbatim>\<open>cmd_buf\<close> followed by \<^verbatim>\<open>run_command\<close>.\<close>

definition runf :: "(nat \<Rightarrow> argv \<Rightarrow> 'w act) \<Rightarrow> string \<Rightarrow> 'w act" where
  "runf f text = run_command (Some (take (MAX_CMD_SIZE - 1) text)) (Some f)"

text \<open>Calls one after the other, with the result of the last.\<close>

fun script :: "int \<Rightarrow> 'w act list \<Rightarrow> 'w act" where
  "script ret [] w = Inr (ret, w)"
| "script ret (a # as) w = bind_ok (a w) (\<lambda>(ret', w'). script ret' as w')"

abbreviation show_d :: "u32 \<Rightarrow> string" where
  "show_d n \<equiv> show_int (sint n)"

section \<open>VAPs\<close>

definition makevap :: "'w ext_tools \<Rightarrow> nat \<Rightarrow> argv \<Rightarrow> 'w act" where
  "makevap ext argc argv w =
     (if argc < 3 then Inr (0, w)
      else
        bind_ok (arg argv 0) (\<lambda>mode. bind_ok (arg argv 1) (\<lambda>vap.
        bind_ok
          (if mode = ''sta'' then
             script 0
               [runf (ext_fn ext Wlan_config) (vap @ '' create wlandev wifi0 wlanmode '' @ mode @ '' nosbeacon''),
                runf (ext_fn ext Iw_config) (vap @ '' '' @ ''mode managed'')] w
           else if mode = ''ap'' then
             (let apmode = (if mode = ''adhoc'' then ''mode adhoc'' else ''mode master'') in
              bind_ok (runf (ext_fn ext Wlan_config) (vap @ '' create wlandev wifi0 wlanmode '' @ mode) w) (\<lambda>(_, w1).
              bind_ok (if 4 \<le> argc then
                         bind_ok (argv 3) (\<lambda>p. Inr (case p of None \<Rightarrow> 0 | Some s \<Rightarrow> atoi s))
                       else Inr 0) (\<lambda>channel.
              bind_ok (arg argv 2) (\<lambda>essid.
              bind_ok (runf (ext_fn ext Iw_config)
                         (vap @ '' essid '' @ essid @ '' '' @ apmode @ '' freq '' @ show_int channel) w1) (\<lambda>(_, w2).
              bind_ok (argv 4) (\<lambda>p. case p of
                  None \<Rightarrow> Inr (0, w2)
                | Some bint \<Rightarrow> runf (ext_fn ext Iw_priv) (vap @ '' bintval '' @ bint) w2))))))
           else Inr (0, w)) (\<lambda>(_, w3).
        bind_ok (runf (ext_fn ext Iw_priv) (vap @ '' mode '' @ ''11NGHT40'') w3) (\<lambda>(_, w4).
        Inr (0, w4))))))"

definition activatevap :: "'w ext_tools \<Rightarrow> u32 \<Rightarrow> nat \<Rightarrow> argv \<Rightarrow> 'w act" where
  "activatevap ext vlan argc argv w =
     (if argc < 1 then Inr (0, w)
      else
        bind_ok (argv 0) (\<lambda>p. case p of
          None \<Rightarrow> Inr (- 1, w)
        | Some apname \<Rightarrow>
            bind_ok (runf (ext_fn ext Ifconfig_main) (apname @ '' up'') w) (\<lambda>(_, w1).
            bind_ok
              (if vlan = 0 then
                 bind_ok (argv 1) (\<lambda>b. case b of
                   None \<Rightarrow> Inr (0, w1)
                 | Some bridge \<Rightarrow>
                     if bridge \<noteq> ''none'' then runf (ext_fn ext Brconfig_main) (bridge @ '' add '' @ apname) w1
                     else Inr (0, w1))
               else Inr (0, w1)) (\<lambda>(_, w2).
            Inr (0, w2)))))"

section \<open>Start and stop\<close>

definition tagged :: "'f nw_state \<Rightarrow> bool" where
  "tagged st \<longleftrightarrow> vlan_flag (vlan_config (new_config st)) \<noteq> 0 \<and> is_tagged (vlan_config (new_config st)) \<noteq> 0"

definition apwlan_create_vaps :: "'w ext_tools \<Rightarrow> 'f nw_state \<Rightarrow> 'w act" where
  "apwlan_create_vaps ext st =
     (let wlan = WLAN_config (config st); ap = ap_config wlan; sta = sta_config wlan;
          iptv = vlan_iptv_ap_config wlan
      in script 0
        ([runf (makevap ext) (''ap ath0 '' @ ap_ssid ap @ '' '' @ show_d (ap_channel ap) @ '' '' @ show_d (ap_beacon_int ap)),
          runf (ext_fn ext Ifconfig_main) ''ath0 down'']
         @ (if wlan_op_mode wlan = ''repeater'' \<and> sta_wds sta = 1 then
              [runf (makevap ext) (''sta ath1 '' @ sta_ssid sta),
               runf (ext_fn ext Ifconfig_main) ''ath1 down'']
            else [])
         @ (if tagged st then
              [runf (makevap ext) (''ap ath2 '' @ iptv_ssid iptv @ '' '' @ show_d (iptv_channel iptv) @ '' ''
                 @ show_d (iptv_beacon_int iptv)),
               runf (ext_fn ext Ifconfig_main) ''ath2 down'']
            else [])))"

text \<open>The parts that \<^verbatim>\<open>apwlan_ap_start\<close> and \<^verbatim>\<open>apwlan_repeater_start\<close> have in common.\<close>

definition set_mode :: "'w ext_tools \<Rightarrow> WLAN_AP_Config \<Rightarrow> 'w act list" where
  "set_mode ext ap =
     (if ap_wlan_mode ap = ''11NG'' then
        [runf (ext_fn ext Iw_priv) (if ap_bw ap = 40 then ''ath0 mode 11NGHT40'' else ''ath0 mode 11NGHT20''),
         runf (ext_fn ext Iw_priv) (''ath0 chwidth '' @ show_int (if ap_bw ap = 20 then 1 else 2))]
      else [runf (ext_fn ext Iw_priv) (''ath0 mode '' @ ap_wlan_mode ap)])"

definition start_hostapd :: "'w ext_tools \<Rightarrow> 'f nw_state \<Rightarrow> 'w act list" where
  "start_hostapd ext st =
     (let wlan = WLAN_config (config st); ap = ap_config wlan; iptv = vlan_iptv_ap_config wlan in
      [runf (ext_fn ext Hostapd_cmds)
         (if ap_security ap = ''open'' then ''conf -i ath0 open '' @ ap_ssid ap @ '' '' @ show_d (ap_channel ap)
          else ''conf -i ath0 '' @ ap_security ap @ '' '' @ ap_ssid ap @ '' '' @ show_d (ap_channel ap) @ '' ''
            @ ap_passphrase ap)]
      @ (if tagged st then
           [runf (ext_fn ext Hostapd_cmds)
              (if iptv_security iptv = ''open''
               then ''conf -i ath2 open '' @ iptv_ssid iptv @ '' '' @ show_d (iptv_channel iptv)
               else ''conf -i ath2 '' @ iptv_security iptv @ '' '' @ iptv_ssid iptv @ '' ''
                 @ show_d (iptv_channel iptv) @ '' '' @ iptv_passphrase iptv)]
         else [])
      @ [runf (ext_fn ext Hostapd_cmds) ''start''])"

definition Server_Int :: string where "Server_Int = ''br0''"

definition apwlan_ap_start :: "'w ext_tools \<Rightarrow> 'f nw_state \<Rightarrow> 'w act" where
  "apwlan_ap_start ext st =
     (let ap = ap_config (WLAN_config (config st)); vlan = vlan_flag (vlan_config (new_config st)) in
      script 0
        ([runf (ext_fn ext Iw_priv) ''wifi0 setCountryID 841'',
          runf (activatevap ext vlan) (''ath0 '' @ Server_Int)]
         @ set_mode ext ap
         @ (if ap_wds ap \<noteq> 0 then [runf (ext_fn ext Iw_priv) (''ath0 wds '' @ show_d (ap_wds ap))] else [])
         @ [runf (ext_fn ext Ifconfig_main) ''ath0 down'']
         @ start_hostapd ext st))"

definition apwlan_repeater_start :: "'w ext_tools \<Rightarrow> 'f nw_state \<Rightarrow> 'w act" where
  "apwlan_repeater_start ext st w =
     (let wlan = WLAN_config (config st); ap = ap_config wlan; sta = sta_config wlan;
          vlan = vlan_flag (vlan_config (new_config st))
      in if sta_wds sta \<noteq> 1 then Inr (- 1, w)
      else script 0
        ([runf (ext_fn ext Iw_priv) ''wifi0 setCountryID 841'',
          runf (activatevap ext vlan) (''ath1 '' @ Server_Int),
          runf (ext_fn ext Brconfig_main) ''br0 add ath1'',
          runf (ext_fn ext Iw_priv) ''ath1 wds 1'',
          runf (ext_fn ext Iw_priv) ''ath1 vap_ind 1'',
          runf (ext_fn ext Wpa_supplicant_cmds)
            (if sta_security sta = ''open'' then ''start -i ath1 open '' @ sta_ssid sta
             else ''start -i ath1 '' @ sta_security sta @ '' '' @ sta_ssid sta @ '' '' @ sta_passphrase sta),
          runf (activatevap ext vlan) (''ath0 '' @ Server_Int)]
         @ set_mode ext ap
         @ [runf (ext_fn ext Iw_priv) (''ath0 chwidth '' @ show_int (if ap_bw ap = 20 then 1 else 2)),
            runf (ext_fn ext Iw_priv) ''ath0 wds 1'',
            runf (ext_fn ext Iw_priv) ''ath0 vap_ind 1'']
         @ start_hostapd ext st) w)"

definition apwlan_start :: "'w ext_tools \<Rightarrow> 'f nw_state \<Rightarrow> 'w act" where
  "apwlan_start ext st w =
     (let mode = wlan_op_mode (WLAN_config (config st)) in
      bind_ok (apwlan_create_vaps ext st w) (\<lambda>(_, w1).
      if mode = ''ap'' \<or> mode = ''rootap'' then apwlan_ap_start ext st w1
      else if mode = ''repeater'' then apwlan_repeater_start ext st w1
      else Inr (0, w1)))"

definition apwlan_init :: "'w ext_tools \<Rightarrow> 'f nw_state \<Rightarrow> 'w act" where
  "apwlan_init ext st w =
     (if magic_num (WLAN_config (config st)) \<noteq> CONFIG_WLAN_MAGIC_NUM then Inr (- 1, w)
      else bind_ok (apwlan_start ext st w) (\<lambda>(_, w1). Inr (0, w1)))"

definition apwlan_stop :: "'w ext_tools \<Rightarrow> 'f nw_state \<Rightarrow> 'w act" where
  "apwlan_stop ext st =
     script 0
       ([runf (ext_fn ext Hostapd_cmds) ''stop'',
         runf (ext_fn ext Ifconfig_main) ''ath0 down'',
         runf (ext_fn ext Wlan_config) ''ath0 destroy'']
        @ (if wlan_op_mode (WLAN_config (config st)) = ''repeater'' then
             [runf (ext_fn ext Wpa_supplicant_cmds) ''stop'',
              runf (ext_fn ext Ifconfig_main) ''ath1 down'',
              runf (ext_fn ext Brconfig_main) (Server_Int @ '' delete ath1''),
              runf (ext_fn ext Wlan_config) ''ath1 destroy'']
           else []))"

section \<open>Shell commands\<close>

definition ap_start_cmd :: "'w ext_tools \<Rightarrow> 'f nw_state \<Rightarrow> 'w \<Rightarrow> (int \<times> 'w \<times> 'f nw_state) cres" where
  "ap_start_cmd ext st w =
     (let st1 = st\<lparr> config := (config st)\<lparr> WLAN_config := WLAN_config (new_config st) \<rparr> \<rparr>
      in bind_ok (apwlan_start ext st1 w) (\<lambda>(r, w1). Inr (r, w1, st1)))"

definition ap_stop_cmd :: "'w ext_tools \<Rightarrow> 'f nw_state \<Rightarrow> 'w \<Rightarrow> (int \<times> 'w \<times> 'f nw_state) cres" where
  "ap_stop_cmd ext st w = bind_ok (apwlan_stop ext st w) (\<lambda>(_, w1). Inr (0, w1, st))"

text \<open>\<^verbatim>\<open>strcpy\<close> into an array of \<open>n\<close> characters.\<close>

definition strcpy_to :: "nat \<Rightarrow> string \<Rightarrow> string cres" where
  "strcpy_to n s = (if length s < n then Inr s else Inl OutOfBounds)"

definition hostapd_ap :: "nat \<Rightarrow> argv \<Rightarrow> WLAN_AP_Config \<Rightarrow> WLAN_AP_Config cres" where
  "hostapd_ap argc argv ap =
     bind_ok (arg argv 4) (\<lambda>a4. bind_ok (strcpy_to 36 a4) (\<lambda>ssid.
     bind_ok (arg argv 5) (\<lambda>a5.
     bind_ok (arg argv 3) (\<lambda>a3. bind_ok (strcpy_to 16 a3) (\<lambda>security.
     let ap1 = ap\<lparr> ap_ssid := ssid, ap_channel := word_of_int (atoi a5), ap_security := security \<rparr>
     in if 6 < argc
        then bind_ok (arg argv 6) (\<lambda>a6. bind_ok (strcpy_to 65 a6) (\<lambda>pass. Inr (ap1\<lparr> ap_passphrase := pass \<rparr>)))
        else Inr ap1)))))"

definition hostapd_iptv :: "nat \<Rightarrow> argv \<Rightarrow> WLAN_AP_VLAN_IPTV_Config \<Rightarrow> WLAN_AP_VLAN_IPTV_Config cres" where
  "hostapd_iptv argc argv ap =
     bind_ok (arg argv 4) (\<lambda>a4. bind_ok (strcpy_to 36 a4) (\<lambda>ssid.
     bind_ok (arg argv 5) (\<lambda>a5.
     bind_ok (arg argv 3) (\<lambda>a3. bind_ok (strcpy_to 16 a3) (\<lambda>security.
     let ap1 = ap\<lparr> iptv_ssid := ssid, iptv_channel := word_of_int (atoi a5), iptv_security := security \<rparr>
     in if 6 < argc
        then bind_ok (arg argv 6) (\<lambda>a6. bind_ok (strcpy_to 65 a6) (\<lambda>pass. Inr (ap1\<lparr> iptv_passphrase := pass \<rparr>)))
        else Inr ap1)))))"

text \<open>\<^verbatim>\<open>strtol("ath0", ..., 10)\<close> is 0.\<close>

definition hostapd_conf :: "'f conf_ops \<Rightarrow> nat \<Rightarrow> argv \<Rightarrow> 'f nw_state \<Rightarrow> 'f nw_state cres" where
  "hostapd_conf cops argc argv st =
     bind_ok (arg argv 2) (\<lambda>a2.
     let c = config st; n = new_config st; w = WLAN_config n in
     if a2 = ''ath0'' then
       bind_ok (hostapd_ap argc argv (ap_config w)) (\<lambda>ap.
       nw_flash cops (st\<lparr>
         config := c\<lparr> WLAN_config := (WLAN_config c)\<lparr> ap_config := (ap_config (WLAN_config c))\<lparr> ap_if_idx := 0 \<rparr> \<rparr> \<rparr>,
         new_config := n\<lparr> WLAN_config := w\<lparr> ap_config := ap \<rparr> \<rparr> \<rparr>))
     else
       bind_ok (hostapd_iptv argc argv (vlan_iptv_ap_config w)) (\<lambda>ap.
       nw_flash cops (st\<lparr> new_config := n\<lparr> WLAN_config := w\<lparr> vlan_iptv_ap_config := ap \<rparr> \<rparr> \<rparr>)))"

definition hostapd_cmd ::
  "'w ext_tools \<Rightarrow> 'f conf_ops \<Rightarrow> nat \<Rightarrow> argv \<Rightarrow> 'f nw_state \<Rightarrow> 'w \<Rightarrow> (int \<times> 'w \<times> 'f nw_state) cres" where
  "hostapd_cmd ext cops argc argv st w =
     bind_ok (if 1 < argc then bind_ok (arg argv 0) (\<lambda>a0. if a0 = ''conf'' then hostapd_conf cops argc argv st else Inr st)
              else Inr st) (\<lambda>st1.
     bind_ok (ext_fn ext Hostapd_cmds argc argv w) (\<lambda>(r, w1). Inr (r, w1, st1)))"


section \<open>Words through the command line\<close>

definition token_word :: "string \<Rightarrow> bool" where
  "token_word w \<longleftrightarrow> w \<noteq> [] \<and> SPACE \<notin> set w"

lemma strtok_step_word:
  assumes "token_word w"
  shows "strtok_step [SPACE] w = Some (w, None)" "strtok_step [SPACE] (w @ SPACE # r) = Some (w, Some r)"
proof -
  have drop: "dropWhile (\<lambda>c. c \<in> set [SPACE]) (w @ x) = w @ x" for x
    using assms by (cases w) (auto simp: token_word_def)
  have "dropWhile (\<lambda>c. c \<noteq> SPACE) w = []" "dropWhile (\<lambda>c. c \<noteq> SPACE) (w @ SPACE # r) = SPACE # r"
    using assms by (auto simp: token_word_def) (subst dropWhile_append2, auto)
  with drop [of "[]"] drop [of "SPACE # r"] assms takeWhile_word(1) [of w] takeWhile_word(2) [of w r]
  show "strtok_step [SPACE] w = Some (w, None)" "strtok_step [SPACE] (w @ SPACE # r) = Some (w, Some r)"
    unfolding strtok_step_def Let_def by (simp_all add: token_word_def)
qed

lemma tokens_unwords: "\<forall>w \<in> set ws. token_word w \<Longrightarrow> tokens (Some (unwords ws)) = ws"
proof (induction ws rule: unwords.induct)
  case 1
  show ?case by (subst tokens.simps) (simp add: strtok_next_def strtok_step_def)
next
  case (2 w)
  then show ?case
    by (subst tokens.simps) (simp add: strtok_next_def strtok_step_word tokens.simps [of None])
next
  case (3 w v ws)
  then show ?case by (subst tokens.simps) (simp add: strtok_next_def strtok_step_word)
qed

lemma args_upto_argptr: "n \<le> length ts \<Longrightarrow> args_upto n (argptr ts) = Inr (take n ts)"
  by (induction n) (simp_all add: argptr_def arg_def take_Suc_conv_app_nth)

lemma arg_argptr: "i < length ts \<Longrightarrow> arg (argptr ts) i = Inr (ts ! i)"
  by (simp add: arg_def argptr_def)

text \<open>A line of words that fits the buffer reaches the function as these words.\<close>

definition line_ok :: "string list \<Rightarrow> bool" where
  "line_ok ws \<longleftrightarrow> (\<forall>w \<in> set ws. token_word w) \<and> length (unwords ws) \<le> 127 \<and> length ws \<le> 16"

lemma runf_words: "line_ok ws \<Longrightarrow> runf f (unwords ws) w = f (length ws) (argptr ws) w"
  by (simp add: line_ok_def runf_def run_command_def MAX_CMD_SIZE_def tokens_unwords Let_def)

text \<open>The effect of calling tools in order, and what it means that code does that.\<close>

type_synonym tool_call = "tool \<times> string list"

fun run_calls :: "'w ext_tools \<Rightarrow> tool_call list \<Rightarrow> 'w \<Rightarrow> 'w" where
  "run_calls ext [] w = w"
| "run_calls ext ((t, as) # cs) w = run_calls ext cs (snd (ext t as w))"

definition performs :: "'w ext_tools \<Rightarrow> 'w act \<Rightarrow> tool_call list \<Rightarrow> bool" where
  "performs ext a cs \<longleftrightarrow> (\<forall>w. \<exists>r. a w = Inr (r, run_calls ext cs w))"

lemma run_calls_append: "run_calls ext (cs @ ds) w = run_calls ext ds (run_calls ext cs w)"
  by (induction ext cs w rule: run_calls.induct) simp_all

lemma performsE:
  assumes "performs ext a cs"
  obtains r where "a w = Inr (r, run_calls ext cs w)"
  using assms by (auto simp: performs_def)

text \<open>The same for a list of actions, the body of a script.\<close>

inductive performs_all :: "'w ext_tools \<Rightarrow> 'w act list \<Rightarrow> tool_call list \<Rightarrow> bool" for ext where
  none: "performs_all ext [] []"
| more: "performs ext a cs \<Longrightarrow> performs_all ext as ds \<Longrightarrow> performs_all ext (a # as) (cs @ ds)"

lemma performs_all_append:
  "performs_all ext as cs \<Longrightarrow> performs_all ext bs ds \<Longrightarrow> performs_all ext (as @ bs) (cs @ ds)"
  by (induction rule: performs_all.induct) (auto intro: performs_all.intros)

lemma performs_all_single: "performs ext a cs \<Longrightarrow> performs_all ext [a] cs"
  using performs_all.more [OF _ performs_all.none] by fastforce

lemma performs_all_if:
  "(b \<Longrightarrow> performs_all ext as cs) \<Longrightarrow> (\<not> b \<Longrightarrow> performs_all ext bs ds) \<Longrightarrow>
   performs_all ext (if b then as else bs) (if b then cs else ds)"
  by simp

lemma performs_script: "performs_all ext as cs \<Longrightarrow> performs ext (script r as) cs"
proof (induction arbitrary: r rule: performs_all.induct)
  case (more a cs as ds)
  show ?case unfolding performs_def
  proof
    fix w
    obtain r1 where "a w = Inr (r1, run_calls ext cs w)" using more.hyps(1) by (rule performsE)
    moreover obtain r2 where "script r1 as (run_calls ext cs w) = Inr (r2, run_calls ext ds (run_calls ext cs w))"
      using more.IH [of r1] by (rule performsE)
    ultimately show "\<exists>r'. script r (a # as) w = Inr (r', run_calls ext (cs @ ds) w)"
      by (simp add: run_calls_append)
  qed
qed (simp add: performs_def)

lemma performs_tool: "line_ok ws \<Longrightarrow> performs ext (runf (ext_fn ext t) (unwords ws)) [(t, ws)]"
  by (auto simp: performs_def runf_words ext_fn_def args_upto_argptr) (metis prod.collapse)

lemma performs_toolI: "text = unwords ws \<Longrightarrow> line_ok ws \<Longrightarrow> performs ext (runf (ext_fn ext t) text) [(t, ws)]"
  using performs_tool by blast


section \<open>Numbers in command lines\<close>

lemma show_nat_word: "SPACE \<notin> set (show_nat n)"
proof
  assume "SPACE \<in> set (show_nat n)"
  then have "c_isdigit SPACE" by (rule show_nat_digits)
  then show False by code_simp
qed

lemma show_d_word: "token_word (show_d n)"
  by (auto simp: token_word_def show_int_def show_nat_word)

lemma length_show_d: "length (show_d n) \<le> 11"
proof -
  have "nat (- sint n) < 10 ^ Suc 9" "nat (sint n) < 10 ^ Suc 9"
    using sint_greater_eq [of n] sint_less [of n] by simp_all
  then show ?thesis
    using length_show_nat_pow [of "nat (- sint n)" 9] length_show_nat_pow [of "nat (sint n)" 9]
    by (simp add: show_int_def)
qed

lemma show_d_small:
  assumes "n < 1000"
  shows "show_d n = show_nat (unat n)" "length (show_d n) \<le> 3" "show_int (atoi (show_d n)) = show_d n"
proof -
  have n: "unat n < 1000" using assms by (simp add: word_less_nat_alt)
  have "uint n < 1000" using assms by (simp add: word_less_alt)
  then have "sint n = uint n"
    using signed_take_bit_int_eq_self [of 31 "uint n"] uint_nonnegative [of n] by (simp add: sint_uint)
  then have "sint n = int (unat n)" by (simp only: uint_nat)
  then have s: "show_d n = show_nat (unat n)" by (simp add: show_int_def)
  with n show "show_d n = show_nat (unat n)" "length (show_d n) \<le> 3" "show_int (atoi (show_d n)) = show_d n"
    using length_show_nat_le [of "unat n"] by (simp_all add: atoi_show_nat show_int_def)
qed

section \<open>The calls made\<close>

text \<open>What the code is meant to call, as lists of tools and their arguments.\<close>

definition makevap_ap_calls :: "string \<Rightarrow> string \<Rightarrow> string \<Rightarrow> string \<Rightarrow> tool_call list" where
  "makevap_ap_calls vap essid channel bint =
     [(Wlan_config, [vap, ''create'', ''wlandev'', ''wifi0'', ''wlanmode'', ''ap'']),
      (Iw_config, [vap, ''essid'', essid, ''mode'', ''master'', ''freq'', channel]),
      (Iw_priv, [vap, ''bintval'', bint]),
      (Iw_priv, [vap, ''mode'', ''11NGHT40''])]"

definition makevap_sta_calls :: "string \<Rightarrow> tool_call list" where
  "makevap_sta_calls vap =
     [(Wlan_config, [vap, ''create'', ''wlandev'', ''wifi0'', ''wlanmode'', ''sta'', ''nosbeacon'']),
      (Iw_config, [vap, ''mode'', ''managed'']),
      (Iw_priv, [vap, ''mode'', ''11NGHT40''])]"

definition activatevap_calls :: "u32 \<Rightarrow> string \<Rightarrow> tool_call list" where
  "activatevap_calls vlan vap =
     (Ifconfig_main, [vap, ''up'']) # (if vlan = 0 then [(Brconfig_main, [''br0'', ''add'', vap])] else [])"

definition create_calls :: "'f nw_state \<Rightarrow> tool_call list" where
  "create_calls st =
     (let wlan = WLAN_config (config st); ap = ap_config wlan; iptv = vlan_iptv_ap_config wlan in
      makevap_ap_calls ''ath0'' (ap_ssid ap) (show_d (ap_channel ap)) (show_d (ap_beacon_int ap))
      @ [(Ifconfig_main, [''ath0'', ''down''])]
      @ (if wlan_op_mode wlan = ''repeater'' \<and> sta_wds (sta_config wlan) = 1
         then makevap_sta_calls ''ath1'' @ [(Ifconfig_main, [''ath1'', ''down''])] else [])
      @ (if tagged st
         then makevap_ap_calls ''ath2'' (iptv_ssid iptv) (show_d (iptv_channel iptv)) (show_d (iptv_beacon_int iptv))
           @ [(Ifconfig_main, [''ath2'', ''down''])] else []))"

definition mode_calls :: "WLAN_AP_Config \<Rightarrow> tool_call list" where
  "mode_calls ap =
     (if ap_wlan_mode ap = ''11NG''
      then [(Iw_priv, [''ath0'', ''mode'', if ap_bw ap = 40 then ''11NGHT40'' else ''11NGHT20'']),
            (Iw_priv, [''ath0'', ''chwidth'', if ap_bw ap = 20 then ''1'' else ''2''])]
      else [(Iw_priv, [''ath0'', ''mode'', ap_wlan_mode ap])])"

text \<open>The passphrase is left out for an open network.\<close>

definition hostapd_args :: "string \<Rightarrow> string \<Rightarrow> string \<Rightarrow> u32 \<Rightarrow> string \<Rightarrow> string list" where
  "hostapd_args vap security ssid channel passphrase =
     [''conf'', ''-i'', vap, security, ssid, show_d channel] @ (if security = ''open'' then [] else [passphrase])"

definition hostapd_calls :: "'f nw_state \<Rightarrow> tool_call list" where
  "hostapd_calls st =
     (let wlan = WLAN_config (config st); ap = ap_config wlan; iptv = vlan_iptv_ap_config wlan in
      [(Hostapd_cmds, hostapd_args ''ath0'' (ap_security ap) (ap_ssid ap) (ap_channel ap) (ap_passphrase ap))]
      @ (if tagged st then [(Hostapd_cmds,
           hostapd_args ''ath2'' (iptv_security iptv) (iptv_ssid iptv) (iptv_channel iptv) (iptv_passphrase iptv))]
         else [])
      @ [(Hostapd_cmds, [''start''])])"

definition ap_start_calls :: "'f nw_state \<Rightarrow> tool_call list" where
  "ap_start_calls st =
     (let ap = ap_config (WLAN_config (config st)); vlan = vlan_flag (vlan_config (new_config st)) in
      [(Iw_priv, [''wifi0'', ''setCountryID'', ''841''])] @ activatevap_calls vlan ''ath0'' @ mode_calls ap
      @ (if ap_wds ap \<noteq> 0 then [(Iw_priv, [''ath0'', ''wds'', show_d (ap_wds ap)])] else [])
      @ [(Ifconfig_main, [''ath0'', ''down''])] @ hostapd_calls st)"

definition repeater_calls :: "'f nw_state \<Rightarrow> tool_call list" where
  "repeater_calls st =
     (let wlan = WLAN_config (config st); ap = ap_config wlan; sta = sta_config wlan;
          vlan = vlan_flag (vlan_config (new_config st))
      in
      [(Iw_priv, [''wifi0'', ''setCountryID'', ''841''])] @ activatevap_calls vlan ''ath1''
      @ [(Brconfig_main, [''br0'', ''add'', ''ath1'']), (Iw_priv, [''ath1'', ''wds'', ''1'']),
         (Iw_priv, [''ath1'', ''vap_ind'', ''1'']),
         (Wpa_supplicant_cmds, [''start'', ''-i'', ''ath1'', sta_security sta, sta_ssid sta]
            @ (if sta_security sta = ''open'' then [] else [sta_passphrase sta]))]
      @ activatevap_calls vlan ''ath0'' @ mode_calls ap
      @ [(Iw_priv, [''ath0'', ''chwidth'', if ap_bw ap = 20 then ''1'' else ''2'']),
         (Iw_priv, [''ath0'', ''wds'', ''1'']), (Iw_priv, [''ath0'', ''vap_ind'', ''1''])]
      @ hostapd_calls st)"

definition start_calls :: "'f nw_state \<Rightarrow> tool_call list" where
  "start_calls st =
     (let mode = wlan_op_mode (WLAN_config (config st)) in
      create_calls st
      @ (if mode = ''ap'' \<or> mode = ''rootap'' then ap_start_calls st
         else if mode = ''repeater'' \<and> sta_wds (sta_config (WLAN_config (config st))) = 1 then repeater_calls st
         else []))"

definition stop_calls :: "'f nw_state \<Rightarrow> tool_call list" where
  "stop_calls st =
     [(Hostapd_cmds, [''stop'']), (Ifconfig_main, [''ath0'', ''down'']), (Wlan_config, [''ath0'', ''destroy''])]
     @ (if wlan_op_mode (WLAN_config (config st)) = ''repeater''
        then [(Wpa_supplicant_cmds, [''stop'']), (Ifconfig_main, [''ath1'', ''down'']),
              (Brconfig_main, [''br0'', ''delete'', ''ath1'']), (Wlan_config, [''ath1'', ''destroy''])]
        else [])"

text \<open>Values that pass through the command lines: words, and none so long that a line is cut.\<close>

definition net_ok :: "string \<Rightarrow> string \<Rightarrow> string \<Rightarrow> bool" where
  "net_ok ssid security passphrase \<longleftrightarrow>
     token_word ssid \<and> length ssid \<le> 35 \<and> token_word security \<and> length security \<le> 8
     \<and> (security \<noteq> ''open'' \<longrightarrow> token_word passphrase \<and> length passphrase \<le> 64)"

definition wlan_ok :: "WLAN_Default_Config \<Rightarrow> bool" where
  "wlan_ok c \<longleftrightarrow>
     net_ok (ap_ssid (ap_config c)) (ap_security (ap_config c)) (ap_passphrase (ap_config c))
     \<and> ap_channel (ap_config c) < 1000 \<and> token_word (ap_wlan_mode (ap_config c))
     \<and> length (ap_wlan_mode (ap_config c)) \<le> 15
     \<and> net_ok (iptv_ssid (vlan_iptv_ap_config c)) (iptv_security (vlan_iptv_ap_config c))
         (iptv_passphrase (vlan_iptv_ap_config c))
     \<and> iptv_channel (vlan_iptv_ap_config c) < 1000
     \<and> net_ok (sta_ssid (sta_config c)) (sta_security (sta_config c)) (sta_passphrase (sta_config c))"


section \<open>The code makes these calls\<close>

lemma runf_tool: "text = unwords ws \<Longrightarrow> line_ok ws \<Longrightarrow> runf (ext_fn ext t) text w = Inr (ext t ws w)"
  by (simp add: runf_words ext_fn_def args_upto_argptr)

lemma performs_makevap_ap:
  assumes "token_word vap" "length vap = 4" "token_word essid" "length essid \<le> 35" "ch < 1000"
  shows "performs ext (runf (makevap ext) (''ap '' @ vap @ '' '' @ essid @ '' '' @ show_d ch @ '' '' @ show_d b))
    (makevap_ap_calls vap essid (show_d ch) (show_d b))"
proof -
  let ?ws = "[''ap'', vap, essid, show_d ch, show_d b]"
  note facts = assms show_d_word [of ch] show_d_word [of b] length_show_d [of b] show_d_small(2) [OF assms(5)]
  have "line_ok ?ws" using facts by (simp add: line_ok_def token_word_def)
  have run: "runf (makevap ext) (unwords ?ws) w = makevap ext 5 (argptr ?ws) w" for w
    using runf_words [OF \<open>line_ok ?ws\<close>] by (simp add: eval_nat_numeral)
  have "line_ok [vap, ''create'', ''wlandev'', ''wifi0'', ''wlanmode'', ''ap'']"
    "line_ok [vap, ''essid'', essid, ''mode'', ''master'', ''freq'', show_d ch]"
    "line_ok [vap, ''bintval'', show_d b]" "line_ok [vap, ''mode'', ''11NGHT40'']"
    using facts by (simp_all add: line_ok_def token_word_def)
  note tools = this [THEN runf_tool [rotated]]
  have "makevap ext 5 (argptr ?ws) w = Inr (0, run_calls ext (makevap_ap_calls vap essid (show_d ch) (show_d b)) w)" for w
    by (simp add: makevap_def arg_argptr argptr_def tools makevap_ap_calls_def show_d_small(3) [OF assms(5)]
        split_beta)
  with run show ?thesis by (simp add: performs_def)
qed

lemma performs_makevap_sta:
  assumes "token_word vap" "length vap = 4" "token_word essid" "length essid \<le> 35"
  shows "performs ext (runf (makevap ext) (''sta '' @ vap @ '' '' @ essid)) (makevap_sta_calls vap)"
proof -
  let ?ws = "[''sta'', vap, essid]"
  have "line_ok ?ws" using assms by (simp add: line_ok_def token_word_def)
  have run: "runf (makevap ext) (unwords ?ws) w = makevap ext 3 (argptr ?ws) w" for w
    using runf_words [OF \<open>line_ok ?ws\<close>] by (simp add: eval_nat_numeral)
  have "line_ok [vap, ''create'', ''wlandev'', ''wifi0'', ''wlanmode'', ''sta'', ''nosbeacon'']"
    "line_ok [vap, ''mode'', ''managed'']" "line_ok [vap, ''mode'', ''11NGHT40'']"
    using assms by (simp_all add: line_ok_def token_word_def)
  note tools = this [THEN runf_tool [rotated]]
  have "makevap ext 3 (argptr ?ws) w = Inr (0, run_calls ext (makevap_sta_calls vap) w)" for w
    by (simp add: makevap_def arg_argptr tools makevap_sta_calls_def split_beta)
  with run show ?thesis by (simp add: performs_def)
qed

lemma performs_activatevap:
  assumes "token_word vap" "length vap = 4"
  shows "performs ext (runf (activatevap ext vlan) (vap @ '' '' @ ''br0'')) (activatevap_calls vlan vap)"
proof -
  let ?ws = "[vap, ''br0'']"
  have "line_ok ?ws" using assms by (simp add: line_ok_def token_word_def)
  have run: "runf (activatevap ext vlan) (unwords ?ws) w = activatevap ext vlan 2 (argptr ?ws) w" for w
    using runf_words [OF \<open>line_ok ?ws\<close>] by (simp add: eval_nat_numeral)
  have "line_ok [vap, ''up'']" "line_ok [''br0'', ''add'', vap]"
    using assms by (simp_all add: line_ok_def token_word_def)
  note tools = this [THEN runf_tool [rotated]]
  have "activatevap ext vlan 2 (argptr ?ws) w = Inr (0, run_calls ext (activatevap_calls vlan vap) w)" for w
    by (simp add: activatevap_def argptr_def tools activatevap_calls_def split_beta)
  with run show ?thesis by (simp add: performs_def)
qed


text \<open>Lines that are fixed, or end in a value that is a word.\<close>

lemma performs_words:
  "text = unwords ws \<Longrightarrow> \<forall>w \<in> set ws. token_word w \<Longrightarrow> length text \<le> 127 \<Longrightarrow> length ws \<le> 16 \<Longrightarrow>
   performs ext (runf (ext_fn ext t) text) [(t, ws)]"
  by (rule performs_toolI) (simp_all add: line_ok_def)

lemmas performs_rules = performs_all.more performs_all.none performs_all_append performs_all_if performs_script

lemma performs_create:
  assumes "wlan_ok (WLAN_config (config st))"
  shows "performs ext (apwlan_create_vaps ext st) (create_calls st)"
proof -
  let ?w = "WLAN_config (config st)"
  let ?ap = "ap_config ?w" and ?sta = "sta_config ?w" and ?iptv = "vlan_iptv_ap_config ?w"
  note ok = assms [unfolded wlan_ok_def net_ok_def]
  have down: "performs ext (runf (ext_fn ext Ifconfig_main) ''ath0 down'') [(Ifconfig_main, [''ath0'', ''down''])]"
    "performs ext (runf (ext_fn ext Ifconfig_main) ''ath1 down'') [(Ifconfig_main, [''ath1'', ''down''])]"
    "performs ext (runf (ext_fn ext Ifconfig_main) ''ath2 down'') [(Ifconfig_main, [''ath2'', ''down''])]"
    by (rule performs_words; simp add: token_word_def)+
  have make: "performs ext (runf (makevap ext) (''ap ath0 '' @ ap_ssid ?ap @ '' '' @ show_d (ap_channel ?ap) @ '' '' @ show_d (ap_beacon_int ?ap)))
      (makevap_ap_calls ''ath0'' (ap_ssid ?ap) (show_d (ap_channel ?ap)) (show_d (ap_beacon_int ?ap)))"
    "performs ext (runf (makevap ext) (''ap ath2 '' @ iptv_ssid ?iptv @ '' '' @ show_d (iptv_channel ?iptv) @ '' '' @ show_d (iptv_beacon_int ?iptv)))
      (makevap_ap_calls ''ath2'' (iptv_ssid ?iptv) (show_d (iptv_channel ?iptv)) (show_d (iptv_beacon_int ?iptv)))"
    "performs ext (runf (makevap ext) (''sta ath1 '' @ sta_ssid ?sta)) (makevap_sta_calls ''ath1'')"
    using ok performs_makevap_ap [of "''ath0''" "ap_ssid ?ap" "ap_channel ?ap" ext "ap_beacon_int ?ap"]
      performs_makevap_ap [of "''ath2''" "iptv_ssid ?iptv" "iptv_channel ?iptv" ext "iptv_beacon_int ?iptv"]
      performs_makevap_sta [of "''ath1''" "sta_ssid ?sta" ext]
    by (simp_all add: token_word_def)
  have "performs ext (apwlan_create_vaps ext st) (
      (makevap_ap_calls ''ath0'' (ap_ssid ?ap) (show_d (ap_channel ?ap)) (show_d (ap_beacon_int ?ap))
        @ [(Ifconfig_main, [''ath0'', ''down''])] @ [])
      @ (if wlan_op_mode ?w = ''repeater'' \<and> sta_wds ?sta = 1
         then makevap_sta_calls ''ath1'' @ [(Ifconfig_main, [''ath1'', ''down''])] @ [] else [])
      @ (if tagged st
         then makevap_ap_calls ''ath2'' (iptv_ssid ?iptv) (show_d (iptv_channel ?iptv)) (show_d (iptv_beacon_int ?iptv))
           @ [(Ifconfig_main, [''ath2'', ''down''])] @ [] else []))"
    unfolding apwlan_create_vaps_def Let_def by (intro performs_rules down make)
  then show ?thesis by (simp only: create_calls_def Let_def append_assoc append_Nil2 append.simps)
qed


lemma set_mode_calls:
  assumes "token_word (ap_wlan_mode ap)" "length (ap_wlan_mode ap) \<le> 15"
  shows "performs_all ext (set_mode ext ap) (mode_calls ap)"
proof -
  have "show_int 1 = ''1''" "show_int 2 = ''2''" by code_simp+
  then have chwidth: "show_int (if b then 1 else 2) = (if b then ''1'' else ''2'')" for b by simp
  have "performs_all ext (set_mode ext ap)
     (if ap_wlan_mode ap = ''11NG''
      then [(Iw_priv, [''ath0'', ''mode'', if ap_bw ap = 40 then ''11NGHT40'' else ''11NGHT20''])]
         @ [(Iw_priv, [''ath0'', ''chwidth'', if ap_bw ap = 20 then ''1'' else ''2''])] @ []
      else [(Iw_priv, [''ath0'', ''mode'', ap_wlan_mode ap])] @ [])"
    unfolding set_mode_def chwidth
    using assms by (intro performs_rules; intro performs_words) (auto simp: token_word_def)
  then show ?thesis by (simp only: mode_calls_def append_Nil2 append.simps)
qed

lemma performs_hostapd:
  assumes "net_ok ssid security passphrase" "channel < 1000" "d \<noteq> SPACE"
  shows "performs ext (runf (ext_fn ext Hostapd_cmds)
      (if security = ''open'' then ''conf -i ath'' @ [d] @ '' open '' @ ssid @ '' '' @ show_d channel
       else ''conf -i ath'' @ [d] @ '' '' @ security @ '' '' @ ssid @ '' '' @ show_d channel @ '' '' @ passphrase))
     [(Hostapd_cmds, hostapd_args (''ath'' @ [d]) security ssid channel passphrase)]"
  using assms show_d_word [of channel] show_d_small(2) [of channel]
  by (intro performs_words) (auto simp: net_ok_def token_word_def hostapd_args_def)

lemma start_hostapd_calls:
  assumes "wlan_ok (WLAN_config (config st))"
  shows "performs_all ext (start_hostapd ext st) (hostapd_calls st)"
proof -
  let ?w = "WLAN_config (config st)"
  let ?ap = "ap_config ?w" and ?iptv = "vlan_iptv_ap_config ?w"
  have conf: "performs ext (runf (ext_fn ext Hostapd_cmds)
      (if ap_security ?ap = ''open'' then ''conf -i ath0 open '' @ ap_ssid ?ap @ '' '' @ show_d (ap_channel ?ap)
       else ''conf -i ath0 '' @ ap_security ?ap @ '' '' @ ap_ssid ?ap @ '' '' @ show_d (ap_channel ?ap) @ '' '' @ ap_passphrase ?ap))
     [(Hostapd_cmds, hostapd_args ''ath0'' (ap_security ?ap) (ap_ssid ?ap) (ap_channel ?ap) (ap_passphrase ?ap))]"
    "performs ext (runf (ext_fn ext Hostapd_cmds)
      (if iptv_security ?iptv = ''open'' then ''conf -i ath2 open '' @ iptv_ssid ?iptv @ '' '' @ show_d (iptv_channel ?iptv)
       else ''conf -i ath2 '' @ iptv_security ?iptv @ '' '' @ iptv_ssid ?iptv @ '' '' @ show_d (iptv_channel ?iptv) @ '' ''
         @ iptv_passphrase ?iptv))
     [(Hostapd_cmds, hostapd_args ''ath2'' (iptv_security ?iptv) (iptv_ssid ?iptv) (iptv_channel ?iptv) (iptv_passphrase ?iptv))]"
    using assms performs_hostapd [of "ap_ssid ?ap" "ap_security ?ap" "ap_passphrase ?ap" "ap_channel ?ap" "CHR ''0''" ext]
      performs_hostapd [of "iptv_ssid ?iptv" "iptv_security ?iptv" "iptv_passphrase ?iptv" "iptv_channel ?iptv" "CHR ''2''" ext]
    by (simp_all add: wlan_ok_def split: if_splits)
  have start: "performs ext (runf (ext_fn ext Hostapd_cmds) ''start'') [(Hostapd_cmds, [''start''])]"
    by (rule performs_words; simp add: token_word_def)
  have "performs_all ext (start_hostapd ext st)
     (([(Hostapd_cmds, hostapd_args ''ath0'' (ap_security ?ap) (ap_ssid ?ap) (ap_channel ?ap) (ap_passphrase ?ap))] @ [])
      @ (if tagged st then [(Hostapd_cmds,
           hostapd_args ''ath2'' (iptv_security ?iptv) (iptv_ssid ?iptv) (iptv_channel ?iptv) (iptv_passphrase ?iptv))] @ []
         else [])
      @ [(Hostapd_cmds, [''start''])] @ [])"
    unfolding start_hostapd_def Let_def by (intro performs_rules conf start)
  then show ?thesis by (simp only: hostapd_calls_def Let_def append_Nil2 append.simps)
qed


lemma fixed_lines:
  "performs ext (runf (ext_fn ext Iw_priv) ''wifi0 setCountryID 841'') [(Iw_priv, [''wifi0'', ''setCountryID'', ''841''])]"
  "performs ext (runf (ext_fn ext Ifconfig_main) ''ath0 down'') [(Ifconfig_main, [''ath0'', ''down''])]"
  "performs ext (runf (ext_fn ext Ifconfig_main) ''ath1 down'') [(Ifconfig_main, [''ath1'', ''down''])]"
  "performs ext (runf (ext_fn ext Brconfig_main) ''br0 add ath1'') [(Brconfig_main, [''br0'', ''add'', ''ath1''])]"
  "performs ext (runf (ext_fn ext Brconfig_main) (''br0'' @ '' delete ath1'')) [(Brconfig_main, [''br0'', ''delete'', ''ath1''])]"
  "performs ext (runf (ext_fn ext Iw_priv) ''ath1 wds 1'') [(Iw_priv, [''ath1'', ''wds'', ''1''])]"
  "performs ext (runf (ext_fn ext Iw_priv) ''ath1 vap_ind 1'') [(Iw_priv, [''ath1'', ''vap_ind'', ''1''])]"
  "performs ext (runf (ext_fn ext Iw_priv) ''ath0 wds 1'') [(Iw_priv, [''ath0'', ''wds'', ''1''])]"
  "performs ext (runf (ext_fn ext Iw_priv) ''ath0 vap_ind 1'') [(Iw_priv, [''ath0'', ''vap_ind'', ''1''])]"
  "performs ext (runf (ext_fn ext Hostapd_cmds) ''stop'') [(Hostapd_cmds, [''stop''])]"
  "performs ext (runf (ext_fn ext Wpa_supplicant_cmds) ''stop'') [(Wpa_supplicant_cmds, [''stop''])]"
  "performs ext (runf (ext_fn ext Wlan_config) ''ath0 destroy'') [(Wlan_config, [''ath0'', ''destroy''])]"
  "performs ext (runf (ext_fn ext Wlan_config) ''ath1 destroy'') [(Wlan_config, [''ath1'', ''destroy''])]"
  "performs ext (runf (ext_fn ext Iw_priv) (''ath0 wds '' @ show_d n)) [(Iw_priv, [''ath0'', ''wds'', show_d n])]"
  using show_d_word [of n] length_show_d [of n]
  by (intro performs_words; simp add: token_word_def)+

lemma activate_lines:
  "performs ext (runf (activatevap ext vlan) (''ath0 '' @ Server_Int)) (activatevap_calls vlan ''ath0'')"
  "performs ext (runf (activatevap ext vlan) (''ath1 '' @ Server_Int)) (activatevap_calls vlan ''ath1'')"
  using performs_activatevap [of "''ath0''" ext vlan] performs_activatevap [of "''ath1''" ext vlan]
  by (simp_all add: Server_Int_def token_word_def)

lemma performs_ap_start:
  assumes "wlan_ok (WLAN_config (config st))"
  shows "performs ext (apwlan_ap_start ext st) (ap_start_calls st)"
proof -
  let ?ap = "ap_config (WLAN_config (config st))" and ?vlan = "vlan_flag (vlan_config (new_config st))"
  have mode: "performs_all ext (set_mode ext ?ap) (mode_calls ?ap)"
    using assms by (intro set_mode_calls) (simp_all add: wlan_ok_def)
  have "performs ext (apwlan_ap_start ext st)
     (([(Iw_priv, [''wifi0'', ''setCountryID'', ''841''])] @ activatevap_calls ?vlan ''ath0'' @ []) @ mode_calls ?ap
      @ (if ap_wds ?ap \<noteq> 0 then [(Iw_priv, [''ath0'', ''wds'', show_d (ap_wds ?ap)])] @ [] else [])
      @ ([(Ifconfig_main, [''ath0'', ''down''])] @ []) @ hostapd_calls st)"
    unfolding apwlan_ap_start_def Let_def
    by (intro performs_rules fixed_lines activate_lines mode start_hostapd_calls assms)
  then show ?thesis by (simp only: ap_start_calls_def Let_def append_Nil2 append.simps append_assoc)
qed

lemma performs_repeater_start:
  assumes "wlan_ok (WLAN_config (config st))" "sta_wds (sta_config (WLAN_config (config st))) = 1"
  shows "performs ext (apwlan_repeater_start ext st) (repeater_calls st)"
proof -
  let ?w = "WLAN_config (config st)" and ?vlan = "vlan_flag (vlan_config (new_config st))"
  let ?ap = "ap_config ?w" and ?sta = "sta_config ?w"
  have mode: "performs_all ext (set_mode ext ?ap) (mode_calls ?ap)"
    using assms(1) by (intro set_mode_calls) (simp_all add: wlan_ok_def)
  have supp: "performs ext (runf (ext_fn ext Wpa_supplicant_cmds)
      (if sta_security ?sta = ''open'' then ''start -i ath1 open '' @ sta_ssid ?sta
       else ''start -i ath1 '' @ sta_security ?sta @ '' '' @ sta_ssid ?sta @ '' '' @ sta_passphrase ?sta))
     [(Wpa_supplicant_cmds, [''start'', ''-i'', ''ath1'', sta_security ?sta, sta_ssid ?sta]
        @ (if sta_security ?sta = ''open'' then [] else [sta_passphrase ?sta]))]"
    using assms(1) by (intro performs_words) (auto simp: wlan_ok_def net_ok_def token_word_def)
  have chwidth: "performs ext (runf (ext_fn ext Iw_priv) (''ath0 chwidth '' @ show_int (if ap_bw ?ap = 20 then 1 else 2)))
     [(Iw_priv, [''ath0'', ''chwidth'', if ap_bw ?ap = 20 then ''1'' else ''2''])]"
  proof -
    have "show_int 1 = ''1''" "show_int 2 = ''2''" by code_simp+
    then show ?thesis by (intro performs_words) (auto simp: token_word_def)
  qed
  let ?acts = "[runf (ext_fn ext Iw_priv) ''wifi0 setCountryID 841'',
          runf (activatevap ext ?vlan) (''ath1 '' @ Server_Int),
          runf (ext_fn ext Brconfig_main) ''br0 add ath1'',
          runf (ext_fn ext Iw_priv) ''ath1 wds 1'',
          runf (ext_fn ext Iw_priv) ''ath1 vap_ind 1'',
          runf (ext_fn ext Wpa_supplicant_cmds)
            (if sta_security ?sta = ''open'' then ''start -i ath1 open '' @ sta_ssid ?sta
             else ''start -i ath1 '' @ sta_security ?sta @ '' '' @ sta_ssid ?sta @ '' '' @ sta_passphrase ?sta),
          runf (activatevap ext ?vlan) (''ath0 '' @ Server_Int)]
         @ set_mode ext ?ap
         @ [runf (ext_fn ext Iw_priv) (''ath0 chwidth '' @ show_int (if ap_bw ?ap = 20 then 1 else 2)),
            runf (ext_fn ext Iw_priv) ''ath0 wds 1'',
            runf (ext_fn ext Iw_priv) ''ath0 vap_ind 1'']
         @ start_hostapd ext st"
  have "performs ext (script 0 ?acts)
     (([(Iw_priv, [''wifi0'', ''setCountryID'', ''841''])] @ activatevap_calls ?vlan ''ath1''
      @ [(Brconfig_main, [''br0'', ''add'', ''ath1''])] @ [(Iw_priv, [''ath1'', ''wds'', ''1''])]
      @ [(Iw_priv, [''ath1'', ''vap_ind'', ''1''])]
      @ [(Wpa_supplicant_cmds, [''start'', ''-i'', ''ath1'', sta_security ?sta, sta_ssid ?sta]
            @ (if sta_security ?sta = ''open'' then [] else [sta_passphrase ?sta]))]
      @ activatevap_calls ?vlan ''ath0'' @ []) @ mode_calls ?ap
      @ ([(Iw_priv, [''ath0'', ''chwidth'', if ap_bw ?ap = 20 then ''1'' else ''2''])]
      @ [(Iw_priv, [''ath0'', ''wds'', ''1''])] @ [(Iw_priv, [''ath0'', ''vap_ind'', ''1''])] @ [])
      @ hostapd_calls st)"
    by (intro performs_rules fixed_lines activate_lines mode supp chwidth start_hostapd_calls assms(1))
  moreover have "apwlan_repeater_start ext st = script 0 ?acts"
    using assms(2) by (simp add: apwlan_repeater_start_def Let_def fun_eq_iff)
  ultimately show ?thesis
    by (simp only: repeater_calls_def Let_def append_Nil2 append.simps append_assoc)
qed

lemma performs_stop: "performs ext (apwlan_stop ext st) (stop_calls st)"
proof -
  have "performs ext (apwlan_stop ext st)
     (([(Hostapd_cmds, [''stop''])] @ [(Ifconfig_main, [''ath0'', ''down''])] @ [(Wlan_config, [''ath0'', ''destroy''])] @ [])
     @ (if wlan_op_mode (WLAN_config (config st)) = ''repeater''
        then [(Wpa_supplicant_cmds, [''stop''])] @ [(Ifconfig_main, [''ath1'', ''down''])]
          @ [(Brconfig_main, [''br0'', ''delete'', ''ath1''])] @ [(Wlan_config, [''ath1'', ''destroy''])] @ []
        else []))"
    unfolding apwlan_stop_def Server_Int_def by (intro performs_rules fixed_lines)
  then show ?thesis by (simp only: stop_calls_def append_Nil2 append.simps append_assoc)
qed

lemma performs_start:
  assumes "wlan_ok (WLAN_config (config st))"
  shows "performs ext (apwlan_start ext st) (start_calls st)"
  unfolding performs_def
proof
  fix w
  let ?w1 = "run_calls ext (create_calls st) w"
  obtain r where create: "apwlan_create_vaps ext st w = Inr (r, ?w1)"
    using performs_create [OF assms] by (rule performsE)
  obtain r1 where ap: "apwlan_ap_start ext st ?w1 = Inr (r1, run_calls ext (ap_start_calls st) ?w1)"
    using performs_ap_start [OF assms] by (rule performsE)
  have rep: "\<exists>r2. apwlan_repeater_start ext st ?w1 = Inr (r2, run_calls ext (repeater_calls st) ?w1)"
    if "sta_wds (sta_config (WLAN_config (config st))) = 1"
    using performs_repeater_start [OF assms that, of ext] by (auto simp: performs_def)
  show "\<exists>r. apwlan_start ext st w = Inr (r, run_calls ext (start_calls st) w)"
    using create ap rep
    by (auto simp: apwlan_start_def start_calls_def Let_def run_calls_append apwlan_repeater_start_def)
qed


section \<open>The life of a VAP\<close>

text \<open>The VAP a call works on. A call for the radio \<^verbatim>\<open>wifi0\<close> and the calls without \<^verbatim>\<open>-i\<close> have none.\<close>

fun target :: "tool_call \<Rightarrow> string option" where
  "target (Brconfig_main, [_, _, v]) = Some v"
| "target (Hostapd_cmds, _ # _ # v # _) = Some v"
| "target (Wpa_supplicant_cmds, _ # _ # v # _) = Some v"
| "target (Iw_config, v # _) = Some v"
| "target (Iw_priv, v # _) = (if v = ''wifi0'' then None else Some v)"
| "target (Ifconfig_main, v # _) = Some v"
| "target _ = None"

text \<open>\<open>lifecycle vaps cs\<close>: starting with the VAPs \<open>vaps\<close>, the calls create only VAPs that do not exist, and
  use and destroy only VAPs that do; the result is what is left.\<close>

fun lifecycle :: "string list \<Rightarrow> tool_call list \<Rightarrow> string list option" where
  "lifecycle vaps [] = Some vaps"
| "lifecycle vaps ((Wlan_config, v # cmd # opts) # cs) =
     (if cmd = ''create'' \<and> v \<notin> set vaps then lifecycle (v # vaps) cs
      else if cmd = ''destroy'' \<and> v \<in> set vaps then lifecycle (remove1 v vaps) cs
      else None)"
| "lifecycle vaps (c # cs) =
     (case target c of None \<Rightarrow> lifecycle vaps cs | Some v \<Rightarrow> if v \<in> set vaps then lifecycle vaps cs else None)"

lemma lifecycle_append: "lifecycle vaps (cs @ ds) = Option.bind (lifecycle vaps cs) (\<lambda>v. lifecycle v ds)"
  by (induction vaps cs rule: lifecycle.induct) (simp_all split: option.splits)

definition vaps_of_mode :: "'f nw_state \<Rightarrow> string list" where
  "vaps_of_mode st =
     (if wlan_op_mode (WLAN_config (config st)) = ''repeater'' then [''ath1'', ''ath0''] else [''ath0''])"

definition mode_ok :: "WLAN_Default_Config \<Rightarrow> bool" where
  "mode_ok w \<longleftrightarrow> wlan_op_mode w = ''ap'' \<or> wlan_op_mode w = ''rootap''
     \<or> (wlan_op_mode w = ''repeater'' \<and> sta_wds (sta_config w) = 1)"

lemmas call_defs = create_calls_def makevap_ap_calls_def makevap_sta_calls_def activatevap_calls_def
  mode_calls_def hostapd_calls_def hostapd_args_def Let_def

lemma lifecycle_parts:
  "''ath0'' \<in> set vaps \<Longrightarrow> lifecycle vaps (mode_calls ap) = Some vaps"
  "v \<in> set vaps \<Longrightarrow> lifecycle vaps (activatevap_calls vlan v) = Some vaps"
  "''ath0'' \<in> set vaps \<Longrightarrow> tagged st \<longrightarrow> ''ath2'' \<in> set vaps \<Longrightarrow> lifecycle vaps (hostapd_calls st) = Some vaps"
  by (simp_all add: call_defs)

lemma lifecycle_create:
  assumes "set vaps \<inter> {''ath0'', ''ath1''} = {}" "\<not> tagged st" "mode_ok (WLAN_config (config st))"
  shows "lifecycle vaps (create_calls st) = Some (vaps_of_mode st @ vaps)"
  using assms by (auto simp: create_calls_def makevap_ap_calls_def makevap_sta_calls_def Let_def vaps_of_mode_def mode_ok_def)

lemma lifecycle_start:
  assumes "\<not> tagged st" "mode_ok (WLAN_config (config st))"
  shows "lifecycle [] (start_calls st) = Some (vaps_of_mode st)"
proof -
  have "''ath0'' \<in> set (vaps_of_mode st)" by (simp add: vaps_of_mode_def)
  then have ap: "lifecycle (vaps_of_mode st) (ap_start_calls st) = Some (vaps_of_mode st)"
    using assms(1) by (simp add: ap_start_calls_def Let_def lifecycle_append lifecycle_parts)
  have rep: "lifecycle (vaps_of_mode st) (repeater_calls st) = Some (vaps_of_mode st)"
    if "wlan_op_mode (WLAN_config (config st)) = ''repeater''"
    using assms(1) that by (simp add: repeater_calls_def Let_def lifecycle_append lifecycle_parts vaps_of_mode_def)
  show ?thesis
    using assms(2) ap rep lifecycle_create [OF _ assms, of "[]"]
    by (auto simp: start_calls_def lifecycle_append Let_def mode_ok_def)
qed

lemma lifecycle_stop: "lifecycle (vaps_of_mode st) (stop_calls st) = Some []"
  by (simp add: stop_calls_def vaps_of_mode_def)

text \<open>A tool state that records the calls.\<close>

definition rec_tools :: "tool_call list ext_tools" where
  "rec_tools t as w = (0, w @ [(t, as)])"

lemma run_calls_rec: "run_calls rec_tools cs w = w @ cs"
  by (induction cs arbitrary: w) (auto simp: rec_tools_def)

text \<open>The commands \<^verbatim>\<open>ap_start\<close> and \<^verbatim>\<open>ap_stop\<close> in turn, with the configuration changed in between.\<close>

fun ap_cycles :: "'f nw_state list \<Rightarrow> tool_call list \<Rightarrow> tool_call list cres" where
  "ap_cycles [] w = Inr w"
| "ap_cycles (st # sts) w =
     bind_ok (ap_start_cmd rec_tools st w) (\<lambda>(_, w1, st1).
     bind_ok (ap_stop_cmd rec_tools st1 w1) (\<lambda>(_, w2, _). ap_cycles sts w2))"

lemma ap_cycle:
  assumes "wlan_ok (WLAN_config (new_config st))" "mode_ok (WLAN_config (new_config st))" "\<not> tagged st"
  shows "\<exists>cs. ap_cycles (st # sts) w = ap_cycles sts (w @ cs) \<and> lifecycle [] cs = Some []"
proof -
  let ?st = "st\<lparr> config := (config st)\<lparr> WLAN_config := WLAN_config (new_config st) \<rparr> \<rparr>"
  have ok: "wlan_ok (WLAN_config (config ?st))" "mode_ok (WLAN_config (config ?st))" "\<not> tagged ?st"
    using assms by (simp_all add: tagged_def)
  obtain r1 where "apwlan_start rec_tools ?st w = Inr (r1, w @ start_calls ?st)"
    using performs_start [OF ok(1), of rec_tools] by (auto simp: performs_def run_calls_rec)
  moreover obtain r2 where "apwlan_stop rec_tools ?st (w @ start_calls ?st) = Inr (r2, w @ start_calls ?st @ stop_calls ?st)"
    using performs_stop [of rec_tools ?st] unfolding performs_def run_calls_rec append_assoc by (metis append_assoc)
  moreover have "lifecycle [] (start_calls ?st @ stop_calls ?st) = Some []"
    by (simp add: lifecycle_append lifecycle_start [OF ok(3,2)] lifecycle_stop)
  ultimately show ?thesis
    by (intro exI [of _ "start_calls ?st @ stop_calls ?st"])
       (simp add: ap_start_cmd_def ap_stop_cmd_def Let_def)
qed

lemma ap_cycles_lifecycle:
  assumes "\<forall>st \<in> set sts. wlan_ok (WLAN_config (new_config st)) \<and> mode_ok (WLAN_config (new_config st)) \<and> \<not> tagged st"
  shows "\<exists>cs. ap_cycles sts w = Inr (w @ cs) \<and> lifecycle [] cs = Some []"
  using assms
proof (induction sts arbitrary: w)
  case (Cons st sts)
  then obtain cs where cs: "ap_cycles (st # sts) w = ap_cycles sts (w @ cs)" "lifecycle [] cs = Some []"
    using ap_cycle [of st sts w] by auto
  obtain ds where "ap_cycles sts (w @ cs) = Inr ((w @ cs) @ ds)" "lifecycle [] ds = Some []"
    using Cons.IH [of "w @ cs"] Cons.prems by auto
  with cs show ?case by (intro exI [of _ "cs @ ds"]) (simp add: lifecycle_append)
qed simp


section \<open>Properties\<close>

text \<open>The default configuration, and one for a repeater.\<close>

definition demo_repeater :: "u8 list nw_state" where
  "demo_repeater = demo_state\<lparr> new_config := (new_config demo_state)\<lparr> WLAN_config :=
     default_wlan\<lparr> wlan_op_mode := ''repeater'', sta_config := (sta_config default_wlan)\<lparr> sta_security := ''wpa2'',
       sta_passphrase := ''12345678'', sta_wds := 1 \<rparr> \<rparr> \<rparr> \<rparr>"

lemma demo_wlan:
  "WLAN_config (config demo_state) = default_wlan" "WLAN_config (new_config demo_state) = default_wlan"
  "\<not> tagged demo_state" "\<not> tagged demo_repeater"
  by (simp_all add: demo_state_def demo_repeater_def default_config_def tagged_def)

lemma default_wlan_ok: "wlan_ok default_wlan" "mode_ok default_wlan"
  by code_simp+

lemma demo_repeater_ok: "wlan_ok (WLAN_config (new_config demo_repeater))" "mode_ok (WLAN_config (new_config demo_repeater))"
proof -
  have "wlan_ok (default_wlan\<lparr> wlan_op_mode := ''repeater'', sta_config := (sta_config default_wlan)\<lparr> sta_security := ''wpa2'',
       sta_passphrase := ''12345678'', sta_wds := 1 \<rparr> \<rparr>)" by code_simp
  then show "wlan_ok (WLAN_config (new_config demo_repeater))" "mode_ok (WLAN_config (new_config demo_repeater))"
    by (simp_all add: demo_repeater_def mode_ok_def)
qed

text \<open>
  (C34) The start of the access point makes exactly the calls it is meant to: whatever the tools do, running
  \<^verbatim>\<open>apwlan_start\<close> with its printed command lines has the effect of calling the tools of \<open>start_calls\<close> in
  this order with these arguments, when the configured values are words that fit.
\<close>

theorem start_makes_its_calls:
  assumes "wlan_ok (WLAN_config (config st))"
  shows "\<exists>r. apwlan_start ext st w = Inr (r, run_calls ext (start_calls st) w)"
  using performs_start [OF assms, of ext] by (simp add: performs_def)

theorem start_makes_its_calls_witness:
  "\<exists>r. apwlan_start rec_tools demo_state [] = Inr (r, start_calls demo_state)"
  using start_makes_its_calls [of demo_state rec_tools "[]"] by (simp add: demo_wlan default_wlan_ok run_calls_rec)



text \<open>
  With tagged IPTV the VAP \<^verbatim>\<open>ath2\<close> is not destroyed: it is left after \<^verbatim>\<open>apwlan_stop\<close>, and the next
  start creates it a second time.
\<close>

theorem iptv_vap_outlives_stop:
  assumes "wlan_ok (WLAN_config (config st))" "wlan_op_mode (WLAN_config (config st)) = ''ap''" "tagged st"
  shows "\<exists>r1 cs r2 ds r3 es. apwlan_start rec_tools st [] = Inr (r1, cs) \<and> apwlan_stop rec_tools st cs = Inr (r2, ds)
     \<and> lifecycle [] ds = Some [''ath2''] \<and> apwlan_start rec_tools st ds = Inr (r3, es) \<and> lifecycle [] es = None"
proof -
  obtain r1 where "apwlan_start rec_tools st [] = Inr (r1, start_calls st)"
    using performs_start [OF assms(1), of rec_tools] unfolding performs_def run_calls_rec by (metis append_Nil)
  moreover obtain r2 where "apwlan_stop rec_tools st (start_calls st) = Inr (r2, start_calls st @ stop_calls st)"
    using performs_stop [of rec_tools st] by (auto simp: performs_def run_calls_rec)
  moreover obtain r3 where "apwlan_start rec_tools st (start_calls st @ stop_calls st)
      = Inr (r3, (start_calls st @ stop_calls st) @ start_calls st)"
    using performs_start [OF assms(1), of rec_tools] unfolding performs_def run_calls_rec by blast
  moreover have create: "lifecycle [] (create_calls st) = Some [''ath2'', ''ath0'']" "lifecycle [''ath2''] (create_calls st) = None"
    using assms(2,3) by (simp_all add: create_calls_def makevap_ap_calls_def Let_def)
  moreover have "lifecycle [''ath2'', ''ath0''] (ap_start_calls st) = Some [''ath2'', ''ath0'']"
    by (simp add: ap_start_calls_def Let_def lifecycle_append lifecycle_parts)
  moreover have "lifecycle [''ath2'', ''ath0''] (stop_calls st) = Some [''ath2'']"
    using assms(2) by (simp add: stop_calls_def)
  ultimately show ?thesis
    using assms(2) by (auto simp: start_calls_def lifecycle_append Let_def)
qed

definition demo_tagged :: "u8 list nw_state" where
  "demo_tagged = demo_state\<lparr> new_config := (new_config demo_state)\<lparr> vlan_config :=
     \<lparr> vlan_flag = 1, is_tagged = 1, inet_value = 1, iptv_value = 100 \<rparr> \<rparr> \<rparr>"

theorem iptv_vap_outlives_stop_witness:
  "\<exists>r1 cs r2 ds r3 es. apwlan_start rec_tools demo_tagged [] = Inr (r1, cs) \<and> apwlan_stop rec_tools demo_tagged cs = Inr (r2, ds)
     \<and> lifecycle [] ds = Some [''ath2''] \<and> apwlan_start rec_tools demo_tagged ds = Inr (r3, es) \<and> lifecycle [] es = None"
proof (rule iptv_vap_outlives_stop)
  have "WLAN_config (config demo_tagged) = default_wlan" by (simp add: demo_tagged_def demo_wlan)
  then show "wlan_ok (WLAN_config (config demo_tagged))" "wlan_op_mode (WLAN_config (config demo_tagged)) = ''ap''"
    by (simp_all add: default_wlan_ok) (simp add: default_wlan_def)
  show "tagged demo_tagged" by (simp add: demo_tagged_def tagged_def)
qed

text \<open>
  A network name with a space is cut: \<^verbatim>\<open>hostapd\<close> is given its first word as the name and the second
  in the place of the channel.
\<close>

theorem ssid_with_space_is_cut:
  assumes "ap_security (ap_config (WLAN_config (config st))) = ''open''" "\<not> tagged st"
    and "ap_ssid (ap_config (WLAN_config (config st))) = a @ '' '' @ b" "token_word a" "token_word b"
    and "length a + length b \<le> 34"
  shows "\<exists>r. script 0 (start_hostapd ext st) w = Inr (r, run_calls ext
     [(Hostapd_cmds, [''conf'', ''-i'', ''ath0'', ''open'', a, b, show_d (ap_channel (ap_config (WLAN_config (config st))))]),
      (Hostapd_cmds, [''start''])] w)"
proof -
  let ?ch = "ap_channel (ap_config (WLAN_config (config st)))"
  have conf: "performs ext (runf (ext_fn ext Hostapd_cmds) (''conf -i ath0 open '' @ (a @ '' '' @ b) @ '' '' @ show_d ?ch))
      [(Hostapd_cmds, [''conf'', ''-i'', ''ath0'', ''open'', a, b, show_d ?ch])]"
    using assms(4-6) show_d_word [of ?ch] length_show_d [of ?ch]
    by (intro performs_words) (auto simp: token_word_def)
  have start: "performs ext (runf (ext_fn ext Hostapd_cmds) ''start'') [(Hostapd_cmds, [''start''])]"
    by (intro performs_words; simp add: token_word_def)
  have "start_hostapd ext st = [runf (ext_fn ext Hostapd_cmds) (''conf -i ath0 open '' @ (a @ '' '' @ b) @ '' '' @ show_d ?ch)]
      @ [runf (ext_fn ext Hostapd_cmds) ''start'']"
    using assms(1-3) by (simp add: start_hostapd_def Let_def)
  with performs_script [OF performs_all_append [OF performs_all_single [OF conf] performs_all_single [OF start]], of 0]
  show ?thesis by (simp add: performs_def)
qed

definition demo_spaced :: "u8 list nw_state" where
  "demo_spaced = demo_state\<lparr> config := (config demo_state)\<lparr> WLAN_config :=
     default_wlan\<lparr> ap_config := (ap_config default_wlan)\<lparr> ap_ssid := ''my 7'' \<rparr> \<rparr> \<rparr> \<rparr>"

theorem ssid_with_space_is_cut_witness:
  "\<exists>r. script 0 (start_hostapd rec_tools demo_spaced) [] = Inr (r,
     [(Hostapd_cmds, [''conf'', ''-i'', ''ath0'', ''open'', ''my'', ''7'', ''6'']), (Hostapd_cmds, [''start''])])"
proof -
  have 6: "show_int 6 = ''6''" by code_simp
  have "\<not> tagged demo_spaced" by (simp add: demo_spaced_def tagged_def demo_state_def default_config_def)
  moreover have "ap_config (WLAN_config (config demo_spaced)) = (ap_config default_wlan)\<lparr> ap_ssid := ''my 7'' \<rparr>"
    by (simp add: demo_spaced_def)
  ultimately show ?thesis
    using ssid_with_space_is_cut [of demo_spaced "''my''" "''7''" rec_tools "[]"]
    by (simp add: default_wlan_def token_word_def rec_tools_def 6)
qed


text \<open>The argument array of the shell: \<open>stale\<close> is what the entries behind the arguments hold.\<close>

definition shell_argv :: "string list \<Rightarrow> argv \<Rightarrow> argv" where
  "shell_argv args stale i = (if i < length args then Inr (Some (args ! i)) else stale i)"

lemma arg_shell: "i < length args \<Longrightarrow> arg (shell_argv args stale) i = Inr (args ! i)"
  by (simp add: arg_def shell_argv_def)

lemma args_upto_shell: "n \<le> length args \<Longrightarrow> args_upto n (shell_argv args stale) = Inr (take n args)"
  by (induction n) (simp_all add: arg_shell take_Suc_conv_app_nth)

definition conf_args :: "string \<Rightarrow> string \<Rightarrow> string \<Rightarrow> string \<Rightarrow> string list" where
  "conf_args security ssid channel passphrase = [''conf'', ''-i'', ''ath0'', security, ssid, channel, passphrase]"

lemma hostapd_ap_conf:
  assumes "length ssid < 36" "length security < 16" "length passphrase < 65"
  shows "hostapd_ap 7 (shell_argv (conf_args security ssid channel passphrase) stale) ap
    = Inr (ap\<lparr> ap_ssid := ssid, ap_channel := word_of_int (atoi channel), ap_security := security, ap_passphrase := passphrase \<rparr>)"
  using assms by (simp add: hostapd_ap_def arg_shell conf_args_def strcpy_to_def Let_def)

text \<open>
  The command \<^verbatim>\<open>hostapd conf\<close> for the access point takes effect at once and for good: the tool is called
  with its arguments, name, channel, security and passphrase are in the new configuration, and the next
  start of the system loads them from the flash.
\<close>

theorem hostapd_conf_is_stored:
  fixes channel :: string
  assumes "conf_store cops ok img" "ok (store st)" "wf_config (new_config st)"
    and "Magic_Number (new_config st) = CONFIG_MAGIC_NUM" "vlan_printable (vlan_config (new_config st))"
    and "fits 36 ssid" "fits 16 security" "fits 65 passphrase"
  defines "args \<equiv> conf_args security ssid channel passphrase"
    and "ap \<equiv> (ap_config (WLAN_config (new_config st)))\<lparr> ap_ssid := ssid, ap_channel := word_of_int (atoi channel),
       ap_security := security, ap_passphrase := passphrase \<rparr>"
  shows "\<exists>r st1. hostapd_cmd ext cops 7 (shell_argv args stale) st w = Inr (r, snd (ext Hostapd_cmds args w), st1)
     \<and> ap_config (WLAN_config (new_config st1)) = ap
     \<and> (\<forall>ram. \<exists>st2. ecosap_nw_default_start cops (ram\<lparr> store := store st1 \<rparr>) = Inr st2
           \<and> ap_config (WLAN_config (config st2)) = ap)"
proof -
  let ?n = "new_config st" and ?c = "config st"
  let ?n1 = "?n\<lparr> WLAN_config := (WLAN_config ?n)\<lparr> ap_config := ap \<rparr> \<rparr>"
  let ?st = "st\<lparr> config := ?c\<lparr> WLAN_config := (WLAN_config ?c)\<lparr> ap_config := (ap_config (WLAN_config ?c))\<lparr> ap_if_idx := 0 \<rparr> \<rparr> \<rparr>,
      new_config := ?n1 \<rparr>"
  have wf: "wf_config ?n1"
    using assms(3,6-8) by (simp add: wf_config_def wf_wlan_def wf_ap_def ap_def)
  then obtain f where f: "nw_flash cops ?st = Inr (?st\<lparr> store := f \<rparr>)" "conf_store.holds ok img f ?n1"
    using conf_store.nw_flash_holds [OF assms(1), of ?st] assms(2) by auto
  have "hostapd_ap 7 (shell_argv args stale) (ap_config (WLAN_config ?n)) = Inr ap"
    using assms(6-8) by (simp add: args_def ap_def hostapd_ap_conf fits_def)
  moreover have "arg (shell_argv args stale) 2 = Inr ''ath0''" "arg (shell_argv args stale) 0 = Inr ''conf''"
    "args_upto 7 (shell_argv args stale) = Inr args"
    using args_upto_shell [of 7 args stale] by (simp_all add: args_def conf_args_def arg_shell)
  ultimately have "hostapd_cmd ext cops 7 (shell_argv args stale) st w
      = Inr (fst (ext Hostapd_cmds args w), snd (ext Hostapd_cmds args w), ?st\<lparr> store := f \<rparr>)"
    using f(1) by (simp add: hostapd_cmd_def hostapd_conf_def ext_fn_def Let_def split_beta)
  moreover have "\<exists>st2. ecosap_nw_default_start cops (ram\<lparr> store := f \<rparr>) = Inr st2 \<and> config st2 = ?n1" for ram
    using conf_store.default_start_loads [OF assms(1) _ wf, of "ram\<lparr> store := f \<rparr>"] f(2) assms(4,5)
    by (auto simp: vlan_printable_def)
  ultimately show ?thesis by (intro exI conjI) (assumption, simp, fastforce)
qed

theorem hostapd_conf_is_stored_witness:
  "\<exists>r st1. hostapd_cmd rec_tools ram_conf_ops 7 (shell_argv [''conf'', ''-i'', ''ath0'', ''wpa2'', ''lab'', ''11'', ''secret99''] (\<lambda>_. Inr None))
       demo_state [] = Inr (r, [(Hostapd_cmds, [''conf'', ''-i'', ''ath0'', ''wpa2'', ''lab'', ''11'', ''secret99''])], st1)
     \<and> ap_ssid (ap_config (WLAN_config (new_config st1))) = ''lab''"
proof -
  have "wf_config (new_config demo_state)" "Magic_Number (new_config demo_state) = CONFIG_MAGIC_NUM"
    "vlan_printable (vlan_config (new_config demo_state))"
    using wf_default_config by (simp_all add: demo_state_def default_config_def vlan_printable_def)
  from hostapd_conf_is_stored [OF ram.conf_store_axioms TrueI this, of "''lab''" "''wpa2''" "''secret99''" rec_tools "''11''" "\<lambda>_. Inr None" "[]"]
  show ?thesis by (auto simp: fits_def is_cstr_def rec_tools_def conf_args_def)
qed

text \<open>
  \<^verbatim>\<open>hostapd conf\<close> does not check the length of its arguments: a name of 36 characters or more is
  written past the end of its array.
\<close>

theorem hostapd_long_ssid_overflows:
  assumes "36 \<le> length ssid"
  shows "hostapd_cmd ext cops 7 (shell_argv (conf_args security ssid channel passphrase) stale) st w = Inl OutOfBounds"
  using assms by (simp add: hostapd_cmd_def hostapd_conf_def hostapd_ap_def arg_shell conf_args_def strcpy_to_def Let_def)

theorem hostapd_long_ssid_overflows_witness:
  "hostapd_cmd rec_tools ram_conf_ops 7 (shell_argv (conf_args ''open'' (replicate 40 (CHR ''x'')) ''6'' ''-'') (\<lambda>_. Inr None)) demo_state []
     = Inl OutOfBounds"
  by (rule hostapd_long_ssid_overflows) simp


lemma strcpy_to_fits: "strcpy_to n s = Inr t \<Longrightarrow> is_cstr s \<Longrightarrow> fits n t"
  by (auto simp: strcpy_to_def fits_def split: if_splits)

lemma arg_cstr: "arg argv i = Inr s \<Longrightarrow> \<forall>i s. argv i = Inr (Some s) \<longrightarrow> is_cstr s \<Longrightarrow> is_cstr s"
  by (auto simp: arg_def bind_ok_eq_Inr split: option.splits)

lemma hostapd_ap_wf:
  assumes "hostapd_ap argc argv ap = Inr ap'" "wf_ap ap" "\<forall>i s. argv i = Inr (Some s) \<longrightarrow> is_cstr s"
  shows "wf_ap ap'"
  using assms
  by (auto simp: hostapd_ap_def Let_def bind_ok_eq_Inr wf_ap_def dest: arg_cstr strcpy_to_fits split: if_splits)

lemma hostapd_iptv_wf:
  assumes "hostapd_iptv argc argv ap = Inr ap'" "wf_iptv_ap ap" "\<forall>i s. argv i = Inr (Some s) \<longrightarrow> is_cstr s"
  shows "wf_iptv_ap ap'"
  using assms
  by (auto simp: hostapd_iptv_def Let_def bind_ok_eq_Inr wf_iptv_ap_def dest: arg_cstr strcpy_to_fits split: if_splits)



end
