(* ===== verification/Spi_Flash.thy ===== *)
theory Spi_Flash
  imports Ap_Prelude
begin

text \<open>
  The serial flash driver of the board,
  \<^verbatim>\<open>packages/devs/flash/mips/qca953x/current/src/mips_qca953x_flash.c\<close> with the macros of
  \<^verbatim>\<open>devs_flash_spi_qca953x.h\<close>: it bit-bangs the SPI pins through one register of the SoC.

  The flash chip is not part of the repository and is a parameter of every definition, a record
  \<open>nor_ops\<close>: what the chip does when a frame of bytes has been clocked in and the chip select
  rises, what it has shifted out so far, and the memory that is mapped for reading. The locale
  \<open>nor_flash\<close> states what the data sheets of such memories promise (write enable, page program by
  clearing bits, erase of a 4 KB sector, the busy bit of the status register); the concrete chip
  \<open>nor_chip\<close> satisfies it.

  The register file is the pins: bit 16 of \<^verbatim>\<open>ATH_SPI_WRITE\<close> is the (active low) chip select, bit 8
  the clock, bit 0 the data line. Data is taken at the rising edge of the clock.
\<close>

section \<open>The chip and the pins\<close>

record 'h nor_ops =
  frame_end :: "u8 list \<Rightarrow> 'h \<Rightarrow> 'h"
  shift_out :: "u8 list \<Rightarrow> 'h \<Rightarrow> u32"
  mem_at :: "'h \<Rightarrow> nat \<Rightarrow> u8"

record 'h spi =
  cs_low :: bool
  clk :: bool
  bits :: "bool list"
  chip :: 'h
  fs :: u32
  clock :: u32

definition ATH_SPI_CS_DIS :: u32 where "ATH_SPI_CS_DIS = 0x70000"
definition ATH_SPI_CE_LOW :: u32 where "ATH_SPI_CE_LOW = 0x60000"
definition ATH_SPI_CE_HIGH :: u32 where "ATH_SPI_CE_HIGH = 0x60100"
definition ATH_SPI_PAGE_SIZE :: nat where "ATH_SPI_PAGE_SIZE = 256"

definition ATHR_FLASH_START :: u32 where "ATHR_FLASH_START = 0x9f000000"
definition ATHR_FLASH_SIZE :: u32 where "ATHR_FLASH_SIZE = 0x00100000"
definition ATHR_FLASH_SECTOR :: u32 where "ATHR_FLASH_SECTOR = 0x1000"
definition CFG_FLASH_BASE :: u32 where "CFG_FLASH_BASE = 0x9f000000"

text \<open>The bytes of the bits shifted in, most significant bit first; an incomplete byte is dropped.\<close>

definition byte_of :: "bool list \<Rightarrow> u8" where
  "byte_of bs = horner_sum of_bool 2 (rev bs)"

fun bytes_of :: "bool list \<Rightarrow> u8 list" where
  "bytes_of (a # b # c # d # e # f # g # h # bs) = byte_of [a, b, c, d, e, f, g, h] # bytes_of bs"
| "bytes_of _ = []"

text \<open>A write to \<^verbatim>\<open>ATH_SPI_WRITE\<close>.\<close>

definition spi_write :: "'h nor_ops \<Rightarrow> u32 \<Rightarrow> 'h spi \<Rightarrow> 'h spi" where
  "spi_write ops v s =
     (if bit v 16 then
        s\<lparr> cs_low := False, clk := bit v 8, bits := [],
           chip := (if cs_low s then frame_end ops (bytes_of (bits s)) (chip s) else chip s) \<rparr>
      else
        (let old = (if cs_low s then bits s else [])
         in s\<lparr> cs_low := True, clk := bit v 8,
               bits := (if bit v 8 \<and> \<not> clk s then old @ [bit v 0] else old) \<rparr>))"

definition spi_rd_status :: "'h nor_ops \<Rightarrow> 'h spi \<Rightarrow> u32" where
  "spi_rd_status ops s = shift_out ops (bytes_of (bits s)) (chip s)"

section \<open>Primitives\<close>

definition ath_be_msb :: "u32 \<Rightarrow> nat \<Rightarrow> u32" where
  "ath_be_msb v i = drop_bit (7 - i) (v AND push_bit (7 - i) 1)"

definition bang_bit :: "'h nor_ops \<Rightarrow> u32 \<Rightarrow> nat \<Rightarrow> 'h spi \<Rightarrow> 'h spi" where
  "bang_bit ops v i s =
     spi_write ops (ATH_SPI_CE_HIGH OR ath_be_msb v i)
       (spi_write ops (ATH_SPI_CE_LOW OR ath_be_msb v i) s)"

definition ath_spi_bit_banger :: "'h nor_ops \<Rightarrow> u32 \<Rightarrow> 'h spi \<Rightarrow> 'h spi" where
  "ath_spi_bit_banger ops v s = fold (bang_bit ops v) [0..<8] s"

definition ath_spi_go :: "'h nor_ops \<Rightarrow> 'h spi \<Rightarrow> 'h spi" where
  "ath_spi_go ops s = spi_write ops ATH_SPI_CS_DIS (spi_write ops ATH_SPI_CE_LOW s)"

definition ath_spi_send_addr :: "'h nor_ops \<Rightarrow> u32 \<Rightarrow> 'h spi \<Rightarrow> 'h spi" where
  "ath_spi_send_addr ops a s =
     ath_spi_bit_banger ops (a AND 0x0000ff)
       (ath_spi_bit_banger ops (drop_bit 8 (a AND 0x00ff00))
         (ath_spi_bit_banger ops (drop_bit 16 (a AND 0xff0000)) s))"

definition ath_spi_delay_8 :: "'h nor_ops \<Rightarrow> 'h spi \<Rightarrow> 'h spi" where
  "ath_spi_delay_8 ops = ath_spi_bit_banger ops 0"

definition ath_spi_done :: "'h spi \<Rightarrow> 'h spi" where
  "ath_spi_done s = s\<lparr> fs := 0 \<rparr>"

section \<open>Commands\<close>

definition ath_spi_read_id :: "'h nor_ops \<Rightarrow> 'h spi \<Rightarrow> u32 \<times> 'h spi" where
  "ath_spi_read_id ops s =
     (let s1 = spi_write ops ATH_SPI_CS_DIS s;
          s2 = ath_spi_bit_banger ops 0x9f s1;
          s3 = ath_spi_delay_8 ops (ath_spi_delay_8 ops (ath_spi_delay_8 ops s2));
          s4 = ath_spi_go ops s3
      in (spi_rd_status ops s4, s4))"

definition ath_spi_write_enable :: "'h nor_ops \<Rightarrow> 'h spi \<Rightarrow> 'h spi" where
  "ath_spi_write_enable ops s =
     (let s1 = s\<lparr> fs := 1 \<rparr>;
          s2 = spi_write ops ATH_SPI_CS_DIS s1;
          s3 = ath_spi_bit_banger ops 0x06 s2
      in ath_spi_go ops s3)"

text \<open>One pass of the polling loop, and the loop, which ends when the busy bit reads 0.\<close>

definition poll_once :: "'h nor_ops \<Rightarrow> 'h spi \<Rightarrow> 'h spi" where
  "poll_once ops s =
     ath_spi_delay_8 ops (ath_spi_bit_banger ops 0x05 (spi_write ops ATH_SPI_CS_DIS s))"

partial_function (option) ath_spi_poll :: "'h nor_ops \<Rightarrow> 'h spi \<Rightarrow> 'h spi option" where
  "ath_spi_poll ops s =
     (let s' = poll_once ops s
      in if spi_rd_status ops s' AND 1 \<noteq> 0 then ath_spi_poll ops s' else Some s')"

definition ath_spi_sector_erase :: "'h nor_ops \<Rightarrow> u32 \<Rightarrow> 'h spi \<Rightarrow> 'h spi option" where
  "ath_spi_sector_erase ops addr s =
     (let s1 = ath_spi_write_enable ops s;
          s2 = ath_spi_bit_banger ops 0x20 s1;
          s3 = ath_spi_send_addr ops addr s2
      in ath_spi_poll ops (ath_spi_go ops s3))"

definition ath_spi_write_page :: "'h nor_ops \<Rightarrow> u32 \<Rightarrow> u8 list \<Rightarrow> 'h spi \<Rightarrow> 'h spi option" where
  "ath_spi_write_page ops addr data s =
     (let s1 = ath_spi_write_enable ops s;
          s2 = ath_spi_bit_banger ops 0x02 s1;
          s3 = ath_spi_send_addr ops addr s2;
          s4 = fold (\<lambda>ch. ath_spi_bit_banger ops (ucast ch)) data s3
      in ath_spi_poll ops (ath_spi_go ops s4))"

section \<open>Driver entry points\<close>

record flash_dev =
  dev_start :: u32
  dev_end :: u32
  block_info :: "(u32 \<times> u32) list"
  dev_init :: bool

definition cyg_flash_qca953x_flashdev :: flash_dev where
  "cyg_flash_qca953x_flashdev =
     \<lparr> dev_start = ATHR_FLASH_START, dev_end = ATHR_FLASH_START + ATHR_FLASH_SIZE - 1,
       block_info = [(ATHR_FLASH_SECTOR, ATHR_FLASH_SIZE div ATHR_FLASH_SECTOR)],
       dev_init = False \<rparr>"

definition qca953x_init :: "'h nor_ops \<Rightarrow> flash_dev \<Rightarrow> 'h spi \<Rightarrow> int \<times> flash_dev \<times> 'h spi" where
  "qca953x_init ops dev s =
     (let s1 = s\<lparr> clock := 0x43 \<rparr>;
          s2 = s1\<lparr> fs := fs s1 OR 1 \<rparr>;
          s3 = snd (ath_spi_read_id ops s2);
          s4 = s3\<lparr> fs := fs s3 AND NOT 1 \<rparr>
      in (0, dev\<lparr> dev_start := ATHR_FLASH_START, dev_end := ATHR_FLASH_START + ATHR_FLASH_SIZE,
                  dev_init := True \<rparr>, s4))"

definition qca953x_to_local_addr :: "flash_dev \<Rightarrow> u32 \<Rightarrow> u32 option" where
  "qca953x_to_local_addr dev addr =
     (if addr \<ge> dev_start dev \<and> addr \<le> dev_end dev then Some (addr - dev_start dev) else None)"

definition qca953x_erase_block :: "'h nor_ops \<Rightarrow> u32 \<Rightarrow> 'h spi \<Rightarrow> (int \<times> 'h spi) option" where
  "qca953x_erase_block ops block_base s =
     map_option (\<lambda>s'. (0, ath_spi_done s')) (ath_spi_sector_erase ops block_base s)"

text \<open>The page loop; \<open>done_len\<close> is \<^verbatim>\<open>total\<close>. \<^verbatim>\<open>bytes_this_page\<close> is computed from the start address in
  every pass.\<close>

function program_loop ::
  "'h nor_ops \<Rightarrow> u32 \<Rightarrow> u8 list \<Rightarrow> nat \<Rightarrow> 'h spi \<Rightarrow> 'h spi option" where
  "program_loop ops addr source done_len s =
     (if done_len < length source then
        (let dst = addr + of_nat done_len;
             bytes_this_page = ATH_SPI_PAGE_SIZE - unat addr mod ATH_SPI_PAGE_SIZE;
             len_this_lp = (if length source - done_len > bytes_this_page then bytes_this_page
                            else length source - done_len)
         in case ath_spi_write_page ops dst (take len_this_lp (drop done_len source)) s of
              None \<Rightarrow> None
            | Some s' \<Rightarrow> program_loop ops addr source (done_len + len_this_lp) s')
      else Some s)"
  by pat_completeness auto
termination
  by (relation "measure (\<lambda>(ops, addr, source, done_len, s). length source - done_len)")
    (auto simp: ATH_SPI_PAGE_SIZE_def)

declare program_loop.simps [simp del]

definition qca953x_program ::
  "'h nor_ops \<Rightarrow> u32 \<Rightarrow> u8 list \<Rightarrow> 'h spi \<Rightarrow> (int \<times> 'h spi) option" where
  "qca953x_program ops addr source s =
     map_option (\<lambda>s'. (0, ath_spi_done s')) (program_loop ops (addr - CFG_FLASH_BASE) source 0 s)"

text \<open>The flash is read through the memory map.\<close>

definition mapped_read :: "'h nor_ops \<Rightarrow> 'h spi \<Rightarrow> u32 \<Rightarrow> nat \<Rightarrow> u8 list" where
  "mapped_read ops s addr len =
     map (\<lambda>i. mem_at ops (chip s) (unat (addr - ATHR_FLASH_START) + i)) [0..<len]"

definition qca953x_spi_read :: "'h nor_ops \<Rightarrow> 'h spi \<Rightarrow> u32 \<Rightarrow> nat \<Rightarrow> u8 list" where
  "qca953x_spi_read ops s addr rbuf_len = mapped_read ops s addr rbuf_len"

section \<open>What the pins carry\<close>

definition byte_bits :: "u8 \<Rightarrow> bool list" where
  "byte_bits b = rev (map (bit b) [0..<8])"

lemma byte_of_byte_bits: "byte_of (byte_bits b) = b"
proof -
  have "byte_of (byte_bits b) = take_bit 8 b"
    by (simp only: byte_of_def byte_bits_def rev_rev_ident horner_sum_bit_eq_take_bit)
  then show ?thesis
    by (simp add: take_bit_word_eq_self)
qed

lemma upt_8: "[0..<8] = [0, 1, 2, 3, 4, 5, 6, 7 :: nat]"
  by code_simp

lemma bytes_of_byte_bits: "bytes_of (byte_bits b @ bs) = b # bytes_of bs"
proof -
  have "byte_bits b = [bit b 7, bit b 6, bit b 5, bit b 4, bit b 3, bit b 2, bit b 1, bit b 0]"
    by (simp add: byte_bits_def upt_8)
  then show ?thesis
    using byte_of_byte_bits [of b] by simp
qed

lemma bytes_of_concat: "bytes_of (concat (map byte_bits bs)) = bs"
  by (induction bs) (simp_all add: bytes_of_byte_bits)

lemma bit_be_msb: "i < 8 \<Longrightarrow> bit (ath_be_msb v i) n \<longleftrightarrow> n = 0 \<and> bit v (7 - i)"
  by (auto simp: ath_be_msb_def bit_drop_bit_eq bit_and_iff bit_exp_iff)

lemma spi_pin_values:
  assumes "i < 8"
  shows "\<not> bit (ATH_SPI_CE_LOW OR ath_be_msb v i) 16" "\<not> bit (ATH_SPI_CE_LOW OR ath_be_msb v i) 8"
    "\<not> bit (ATH_SPI_CE_HIGH OR ath_be_msb v i) 16" "bit (ATH_SPI_CE_HIGH OR ath_be_msb v i) 8"
    "bit (ATH_SPI_CE_HIGH OR ath_be_msb v i) 0 \<longleftrightarrow> bit v (7 - i)"
  using assms by (simp_all add: bit_or_iff bit_be_msb ATH_SPI_CE_LOW_def ATH_SPI_CE_HIGH_def)

lemma bang_bit_effect:
  assumes "i < 8"
  shows "bang_bit ops v i s =
     s\<lparr> cs_low := True, clk := True, bits := (if cs_low s then bits s else []) @ [bit v (7 - i)] \<rparr>"
  using assms by (simp add: bang_bit_def spi_write_def spi_pin_values Let_def)

text \<open>Eight clocks put one byte on the wire, most significant bit first.\<close>

lemma bit_banger_effect:
  "ath_spi_bit_banger ops v s =
     s\<lparr> cs_low := True, clk := True,
        bits := (if cs_low s then bits s else []) @ byte_bits (ucast v) \<rparr>"
proof -
  have "byte_bits (ucast v) = [bit v 7, bit v 6, bit v 5, bit v 4, bit v 3, bit v 2, bit v 1, bit v 0]"
    by (simp add: byte_bits_def upt_8 bit_ucast_iff)
  then show ?thesis
    by (simp add: ath_spi_bit_banger_def upt_8 bang_bit_effect)
qed

text \<open>A frame in progress that has carried the bytes \<open>bs\<close>, over the chip \<open>h\<close>.\<close>

definition framed :: "'h spi \<Rightarrow> u8 list \<Rightarrow> 'h \<Rightarrow> bool" where
  "framed s bs h \<longleftrightarrow> cs_low s \<and> bits s = concat (map byte_bits bs) \<and> chip s = h"

definition deselected :: "'h spi \<Rightarrow> 'h \<Rightarrow> bool" where
  "deselected s h \<longleftrightarrow> \<not> cs_low s \<and> chip s = h"

lemma banger_framed: "framed s bs h \<Longrightarrow> framed (ath_spi_bit_banger ops v s) (bs @ [ucast v]) h"
  by (simp add: framed_def bit_banger_effect)

lemma banger_deselected: "deselected s h \<Longrightarrow> framed (ath_spi_bit_banger ops v s) [ucast v] h"
  by (simp add: framed_def deselected_def bit_banger_effect)

lemma spi_cs_dis_framed: "framed s bs h \<Longrightarrow> deselected (spi_write ops ATH_SPI_CS_DIS s) (frame_end ops bs h)"
  by (simp add: framed_def deselected_def spi_write_def ATH_SPI_CS_DIS_def bytes_of_concat)

lemma spi_cs_dis_deselected: "deselected s h \<Longrightarrow> deselected (spi_write ops ATH_SPI_CS_DIS s) h"
  by (simp add: deselected_def spi_write_def ATH_SPI_CS_DIS_def)

lemma spi_go_framed: "framed s bs h \<Longrightarrow> deselected (ath_spi_go ops s) (frame_end ops bs h)"
  by (simp add: framed_def deselected_def ath_spi_go_def spi_write_def ATH_SPI_CS_DIS_def
      ATH_SPI_CE_LOW_def bytes_of_concat)

lemma spi_fs_upd [simp]:
  "framed (s\<lparr> fs := x \<rparr>) bs h \<longleftrightarrow> framed s bs h" "deselected (s\<lparr> fs := x \<rparr>) h \<longleftrightarrow> deselected s h"
  "framed (s\<lparr> clock := x \<rparr>) bs h \<longleftrightarrow> framed s bs h" "deselected (s\<lparr> clock := x \<rparr>) h \<longleftrightarrow> deselected s h"
  by (simp_all add: framed_def deselected_def)

lemma spi_rd_status_framed: "framed s bs h \<Longrightarrow> spi_rd_status ops s = shift_out ops bs h"
  by (simp add: framed_def spi_rd_status_def bytes_of_concat)

text \<open>Every command starts by deselecting the chip, which ends a frame that is still open.\<close>

definition settles :: "'h nor_ops \<Rightarrow> 'h spi \<Rightarrow> 'h \<Rightarrow> bool" where
  "settles ops s h \<longleftrightarrow> deselected s h \<or> (\<exists>bs h0. framed s bs h0 \<and> h = frame_end ops bs h0)"

lemma settles_cs_dis: "settles ops s h \<Longrightarrow> deselected (spi_write ops ATH_SPI_CS_DIS s) h"
  by (auto simp: settles_def intro: spi_cs_dis_framed spi_cs_dis_deselected)

lemma settles_fs [simp]:
  "settles ops (s\<lparr> fs := x \<rparr>) h \<longleftrightarrow> settles ops s h" "settles ops (s\<lparr> clock := x \<rparr>) h \<longleftrightarrow> settles ops s h"
  by (simp_all add: settles_def)

definition addr_bytes :: "u32 \<Rightarrow> u8 list" where
  "addr_bytes a = [ucast (drop_bit 16 a), ucast (drop_bit 8 a), ucast a]"

lemma send_addr_framed:
  assumes "framed s bs h"
  shows "framed (ath_spi_send_addr ops a s) (bs @ addr_bytes a) h"
proof -
  have "(ucast (drop_bit 16 (a AND 0xff0000)) :: u8) = ucast (drop_bit 16 a)"
    "(ucast (drop_bit 8 (a AND 0x00ff00)) :: u8) = ucast (drop_bit 8 a)"
    "(ucast (a AND 0x0000ff) :: u8) = ucast a"
  proof -
    have m: "(0xff0000 :: u32) = push_bit 16 (mask 8)" "(0x00ff00 :: u32) = push_bit 8 (mask 8)"
      "(0x0000ff :: u32) = mask 8"
      by (simp_all add: mask_eq_exp_minus_1 push_bit_eq_mult)
    show "(ucast (drop_bit 16 (a AND 0xff0000)) :: u8) = ucast (drop_bit 16 a)"
      "(ucast (drop_bit 8 (a AND 0x00ff00)) :: u8) = ucast (drop_bit 8 a)"
      "(ucast (a AND 0x0000ff) :: u8) = ucast a"
      unfolding m
      by (auto intro!: bit_word_eqI
          simp: bit_ucast_iff bit_drop_bit_eq bit_and_iff bit_push_bit_iff bit_mask_iff)
  qed
  then have "bs @ addr_bytes a = ((bs @ [ucast (drop_bit 16 (a AND 0xff0000))])
      @ [ucast (drop_bit 8 (a AND 0x00ff00))]) @ [ucast (a AND 0x0000ff)]"
    by (simp only: addr_bytes_def append_assoc append.simps)
  then show ?thesis
    using assms by (simp only: ath_spi_send_addr_def) (intro banger_framed)
qed

lemma write_enable_effect:
  assumes "settles ops s h"
  shows "deselected (ath_spi_write_enable ops s) (frame_end ops [0x06] h)"
  using assms
  by (auto simp: ath_spi_write_enable_def Let_def
      intro!: spi_go_framed banger_deselected [where v = "0x06", simplified] settles_cs_dis)

lemma ucast_u8_u32: "ucast (ucast (d :: u8) :: u32) = d"
  by (rule bit_word_eqI) (auto simp: bit_ucast_iff)

lemma data_framed:
  assumes "framed s bs h"
  shows "framed (fold (\<lambda>ch. ath_spi_bit_banger ops (ucast ch)) data s) (bs @ data) h"
  using assms
proof (induction data arbitrary: s bs)
  case Nil
  then show ?case by simp
next
  case (Cons d ds)
  have "framed (ath_spi_bit_banger ops (ucast d) s) (bs @ [d]) h"
    using banger_framed [OF Cons.prems, of ops "ucast d"] by (simp only: ucast_u8_u32)
  from Cons.IH [OF this] show ?case by simp
qed

section \<open>What the chip promises\<close>

definition addr24 :: "u8 \<Rightarrow> u8 \<Rightarrow> u8 \<Rightarrow> nat" where
  "addr24 a b c = unat a * 65536 + unat b * 256 + unat c"

text \<open>The memory after an erase of the 4 KB sector of an address, and after a page program, which
  can only clear bits.\<close>

definition erase_sector :: "nat \<Rightarrow> (nat \<Rightarrow> u8) \<Rightarrow> nat \<Rightarrow> u8" where
  "erase_sector a m i = (if i div 4096 = a div 4096 then 0xFF else m i)"

definition program_bytes :: "nat \<Rightarrow> u8 list \<Rightarrow> (nat \<Rightarrow> u8) \<Rightarrow> nat \<Rightarrow> u8" where
  "program_bytes a data m i =
     (if a \<le> i \<and> i < a + length data then m i AND data ! (i - a) else m i)"

lemma program_bytes_Nil: "program_bytes a [] m = m"
  by (rule ext) (auto simp: program_bytes_def)

lemma program_bytes_append:
  "program_bytes (a + length xs) ys (program_bytes a xs m) = program_bytes a (xs @ ys) m"
  by (rule ext) (auto simp: program_bytes_def nth_append diff_diff_left)

text \<open>
  \<open>wel\<close> is the write enable latch, \<open>busy\<close> the number of status frames that still read busy. A page
  program is only specified inside one page of 256 bytes.
\<close>

locale nor_flash =
  fixes ops :: "'h nor_ops" and wel :: "'h \<Rightarrow> bool" and busy :: "'h \<Rightarrow> nat"
  assumes wren_frame: "\<And>h. busy h = 0 \<Longrightarrow>
        wel (frame_end ops [0x06] h) \<and> busy (frame_end ops [0x06] h) = 0
        \<and> mem_at ops (frame_end ops [0x06] h) = mem_at ops h"
    and erase_frame: "\<And>h a b c. busy h = 0 \<Longrightarrow> wel h \<Longrightarrow>
        mem_at ops (frame_end ops [0x20, a, b, c] h) = erase_sector (addr24 a b c) (mem_at ops h)"
    and program_frame: "\<And>h a b c data. busy h = 0 \<Longrightarrow> wel h \<Longrightarrow> data \<noteq> [] \<Longrightarrow>
        length data \<le> 256 - addr24 a b c mod 256 \<Longrightarrow>
        mem_at ops (frame_end ops (0x02 # a # b # c # data) h)
          = program_bytes (addr24 a b c) data (mem_at ops h)"
    and status_frame: "\<And>h d. mem_at ops (frame_end ops [0x05, d] h) = mem_at ops h
        \<and> busy (frame_end ops [0x05, d] h) = busy h - 1"
    and status_out: "\<And>h d. shift_out ops [0x05, d] h AND 1 \<noteq> 0 \<longleftrightarrow> busy h \<noteq> 0"
    and id_frame: "\<And>h d e f. mem_at ops (frame_end ops [0x9f, d, e, f] h) = mem_at ops h
        \<and> busy (frame_end ops [0x9f, d, e, f] h) = busy h"
begin

text \<open>No operation is under way and the memory is \<open>m\<close>.\<close>

definition quiet :: "'h spi \<Rightarrow> (nat \<Rightarrow> u8) \<Rightarrow> bool" where
  "quiet s m \<longleftrightarrow> (\<exists>h. settles ops s h \<and> busy h = 0 \<and> mem_at ops h = m) \<and> mem_at ops (chip s) = m"

lemma quiet_regs [simp]:
  "quiet (s\<lparr> fs := x \<rparr>) m \<longleftrightarrow> quiet s m" "quiet (s\<lparr> clock := x \<rparr>) m \<longleftrightarrow> quiet s m"
  by (simp_all add: quiet_def)

lemma quiet_done [simp]: "quiet (ath_spi_done s) m \<longleftrightarrow> quiet s m"
  by (simp add: ath_spi_done_def)

lemma poll_once_framed:
  assumes "settles ops s h"
  shows "framed (poll_once ops s) [0x05, 0] h"
proof -
  have "framed (ath_spi_bit_banger ops 0x05 (spi_write ops ATH_SPI_CS_DIS s)) [0x05] h"
    using banger_deselected [OF settles_cs_dis [OF assms], where v = "0x05"] by simp
  from banger_framed [OF this, of ops 0] show ?thesis
    by (simp add: poll_once_def ath_spi_delay_8_def)
qed

text \<open>The polling loop returns, and nothing is under way when it does.\<close>

lemma poll_returns:
  assumes "settles ops s h"
  shows "\<exists>s'. ath_spi_poll ops s = Some s' \<and> quiet s' (mem_at ops h)"
  using assms
proof (induction "busy h" arbitrary: s h)
  case 0
  have f: "framed (poll_once ops s) [0x05, 0] h"
    using "0.prems" by (rule poll_once_framed)
  then have "settles ops (poll_once ops s) (frame_end ops [0x05, 0] h)"
    by (auto simp: settles_def)
  moreover have "\<not> spi_rd_status ops (poll_once ops s) AND 1 \<noteq> 0"
    using f "0.hyps" status_out by (simp add: spi_rd_status_framed)
  ultimately show ?case
    using f "0.hyps" status_frame [where h = h and d = 0]
    by (subst ath_spi_poll.simps) (auto simp: quiet_def framed_def)
next
  case (Suc n)
  have f: "framed (poll_once ops s) [0x05, 0] h"
    using Suc.prems by (rule poll_once_framed)
  have next_h: "n = busy (frame_end ops [0x05, 0] h)"
    using Suc.hyps(2) status_frame [where h = h and d = 0] by simp
  have "settles ops (poll_once ops s) (frame_end ops [0x05, 0] h)"
    using f by (auto simp: settles_def)
  from Suc.hyps(1) [OF next_h this] have
    "\<exists>s'. ath_spi_poll ops (poll_once ops s) = Some s' \<and> quiet s' (mem_at ops h)"
    using status_frame [where h = h and d = 0] by simp
  moreover have "spi_rd_status ops (poll_once ops s) AND 1 \<noteq> 0"
    using f Suc.hyps(2) status_out [where h = h and d = 0] by (simp add: spi_rd_status_framed)
  ultimately show ?case
    by (subst ath_spi_poll.simps) simp
qed

lemma addr24_addr_bytes:
  assumes "addr_bytes w = [a, b, c]"
  shows "addr24 a b c = unat w mod 2 ^ 24"
proof -
  have b: "unat (ucast x :: u8) = unat x mod 256" for x :: u32
    by (simp add: unsigned_ucast_eq take_bit_eq_mod)
  have sh: "unat (drop_bit n w) = unat w div 2 ^ n" for n
    by (simp only: unat_drop_bit_eq) (simp add: drop_bit_eq_div)
  have "addr24 a b c = (unat w div 256 div 256 mod 256 * 256 + unat w div 256 mod 256) * 256 + unat w mod 256"
    using assms
    by (auto simp: addr24_def addr_bytes_def b sh simp flip: div_mult2_eq)
  also have "\<dots> = unat w mod 2 ^ 24"
    using mod_mult2_eq [of "unat w" 256 65536] mod_mult2_eq [of "unat w div 256" 256 256] by simp
  finally show ?thesis .
qed

lemma write_enabled:
  assumes "quiet s m"
  obtains h where "deselected (ath_spi_write_enable ops s) h" "wel h" "busy h = 0" "mem_at ops h = m"
proof -
  obtain h where h: "settles ops s h" "busy h = 0" "mem_at ops h = m"
    using assms by (auto simp: quiet_def)
  from write_enable_effect [OF h(1)] wren_frame [OF h(2)] h(3) show thesis
    by (intro that [of "frame_end ops [0x06] h"]) simp_all
qed

lemma write_page_effect:
  assumes "quiet s m" and "data \<noteq> []" and "length data \<le> 256 - unat addr mod 256"
  shows "\<exists>s'. ath_spi_write_page ops addr data s = Some s'
     \<and> quiet s' (program_bytes (unat addr mod 2 ^ 24) data m)"
proof -
  obtain h where h: "deselected (ath_spi_write_enable ops s) h" "wel h" "busy h = 0" "mem_at ops h = m"
    using write_enabled [OF assms(1)] .
  obtain a b c where abc: "addr_bytes addr = [a, b, c]"
    by (simp add: addr_bytes_def)
  let ?s2 = "ath_spi_bit_banger ops 0x02 (ath_spi_write_enable ops s)"
  let ?s4 = "fold (\<lambda>ch. ath_spi_bit_banger ops (ucast ch)) data (ath_spi_send_addr ops addr ?s2)"
  have "framed ?s2 [0x02] h"
    using banger_deselected [OF h(1), where v = "0x02"] by simp
  then have "framed ?s4 (([0x02] @ addr_bytes addr) @ data) h"
    by (intro data_framed send_addr_framed)
  from spi_go_framed [OF this]
  have "settles ops (ath_spi_go ops ?s4) (frame_end ops (0x02 # a # b # c # data) h)"
    by (simp add: abc settles_def)
  from poll_returns [OF this]
  obtain s' where s': "ath_spi_poll ops (ath_spi_go ops ?s4) = Some s'"
    "quiet s' (mem_at ops (frame_end ops (0x02 # a # b # c # data) h))"
    by blast
  have a24: "addr24 a b c = unat addr mod 2 ^ 24"
    by (rule addr24_addr_bytes [OF abc])
  have "addr24 a b c mod 256 = unat addr mod 256"
    unfolding a24 by (simp add: mod_mod_cancel)
  with program_frame [OF h(3,2) assms(2), where a = a and b = b and c = c] assms(3)
  have "mem_at ops (frame_end ops (0x02 # a # b # c # data) h) = program_bytes (unat addr mod 2 ^ 24) data m"
    by (simp add: h(4) a24)
  with s' show ?thesis
    by (simp add: ath_spi_write_page_def)
qed

lemma sector_erase_effect:
  assumes "quiet s m"
  shows "\<exists>s'. ath_spi_sector_erase ops addr s = Some s'
     \<and> quiet s' (erase_sector (unat addr mod 2 ^ 24) m)"
proof -
  obtain h where h: "deselected (ath_spi_write_enable ops s) h" "wel h" "busy h = 0" "mem_at ops h = m"
    using write_enabled [OF assms] .
  obtain a b c where abc: "addr_bytes addr = [a, b, c]"
    by (simp add: addr_bytes_def)
  let ?s2 = "ath_spi_bit_banger ops 0x20 (ath_spi_write_enable ops s)"
  let ?s3 = "ath_spi_send_addr ops addr ?s2"
  have "framed ?s2 [0x20] h"
    using banger_deselected [OF h(1), where v = "0x20"] by simp
  then have "framed ?s3 ([0x20] @ addr_bytes addr) h"
    by (rule send_addr_framed)
  from spi_go_framed [OF this]
  have "settles ops (ath_spi_go ops ?s3) (frame_end ops [0x20, a, b, c] h)"
    by (simp add: abc settles_def)
  from poll_returns [OF this] show ?thesis
    using erase_frame [OF h(3,2), where a = a and b = b and c = c] h(4) addr24_addr_bytes [OF abc]
    by (simp add: ath_spi_sector_erase_def)
qed

text \<open>Several pages.\<close>

lemma program_loop_effect:
  assumes "quiet s m" and "unat addr mod 256 = 0" and "unat addr + length source \<le> 2 ^ 24"
    and "t mod 256 = 0 \<or> length source \<le> t"
  shows "\<exists>s'. program_loop ops addr source t s = Some s'
     \<and> quiet s' (program_bytes (unat addr + t) (drop t source) m)"
  using assms(1,4)
proof (induction "length source - t" arbitrary: t s m rule: less_induct)
  case less
  show ?case
  proof (cases "t < length source")
    case False
    then show ?thesis
      using less.prems(1) by (simp add: program_loop.simps program_bytes_Nil)
  next
    case True
    define n where "n = (if length source - t > 256 then 256 else length source - t)"
    define data where "data = take n (drop t source)"
    have n: "0 < n" "n \<le> 256" "t + n \<le> length source" and len: "length data = n"
      using True by (auto simp: n_def data_def)
    have small: "t < 2 ^ 24"
      using True assms(3) by simp
    have dst: "unat (addr + of_nat t) = unat addr + t"
      using small assms(3) True by (simp add: unat_word_ariths unat_of_nat)
    have mod: "unat (addr + of_nat t) mod 256 = 0" "unat (addr + of_nat t) mod 2 ^ 24 = unat addr + t"
      using less.prems(2) True assms(2,3) unfolding dst by (auto simp: mod_eq_0_iff_dvd)
    have "data \<noteq> []"
      using len n(1) by auto
    from write_page_effect [OF less.prems(1) this, of "addr + of_nat t"] len n(2) mod
    obtain s1 where s1: "ath_spi_write_page ops (addr + of_nat t) data s = Some s1"
      "quiet s1 (program_bytes (unat addr + t) data m)"
      by auto
    have shorter: "length source - (t + n) < length source - t"
      using True n by simp
    have "(t + n) mod 256 = 0 \<or> length source \<le> t + n"
      using less.prems(2) True by (auto simp: n_def mod_eq_0_iff_dvd)
    from less.hyps [OF shorter s1(2) this] obtain s2 where s2: "program_loop ops addr source (t + n) s1 = Some s2"
      "quiet s2 (program_bytes (unat addr + (t + n)) (drop (t + n) source)
         (program_bytes (unat addr + t) data m))"
      by blast
    have "drop t source = data @ drop (t + n) source"
      unfolding data_def by (metis add.commute append_take_drop_id drop_drop)
    then have "program_bytes (unat addr + (t + n)) (drop (t + n) source) (program_bytes (unat addr + t) data m)
        = program_bytes (unat addr + t) (drop t source) m"
      using program_bytes_append [of "unat addr + t" data "drop (t + n) source" m] len
      by (simp add: add.assoc)
    moreover have "program_loop ops addr source t s = program_loop ops addr source (t + n) s1"
      using True s1(1) assms(2) unfolding n_def data_def
      by (subst program_loop.simps) (simp add: Let_def ATH_SPI_PAGE_SIZE_def)
    ultimately show ?thesis
      using s2 by auto
  qed
qed

lemma qca953x_program_effect:
  assumes "quiet s m" and "unat (addr - CFG_FLASH_BASE) mod 256 = 0"
    and "unat (addr - CFG_FLASH_BASE) + length source \<le> 2 ^ 24"
  shows "\<exists>s'. qca953x_program ops addr source s = Some (0, s')
     \<and> quiet s' (program_bytes (unat (addr - CFG_FLASH_BASE)) source m)"
  using program_loop_effect [OF assms, of 0] by (auto simp: qca953x_program_def)

lemma qca953x_erase_block_effect:
  assumes "quiet s m"
  shows "\<exists>s'. qca953x_erase_block ops addr s = Some (0, s')
     \<and> quiet s' (erase_sector (unat addr mod 2 ^ 24) m)"
  using sector_erase_effect [OF assms, of addr] by (auto simp: qca953x_erase_block_def)

lemma read_id_effect:
  assumes "settles ops s h"
  shows "\<exists>h'. settles ops (snd (ath_spi_read_id ops s)) h' \<and> chip (snd (ath_spi_read_id ops s)) = h'
     \<and> busy h' = busy h \<and> mem_at ops h' = mem_at ops h"
proof -
  have "framed (ath_spi_bit_banger ops 0x9f (spi_write ops ATH_SPI_CS_DIS s)) [0x9f] h"
    using banger_deselected [OF settles_cs_dis [OF assms], where v = "0x9f"] by simp
  from banger_framed [OF banger_framed [OF banger_framed [OF this, of ops 0], of ops 0], of ops 0]
  have "framed (ath_spi_delay_8 ops (ath_spi_delay_8 ops (ath_spi_delay_8 ops
      (ath_spi_bit_banger ops 0x9f (spi_write ops ATH_SPI_CS_DIS s))))) [0x9f, 0, 0, 0] h"
    by (simp add: ath_spi_delay_8_def)
  from spi_go_framed [OF this] show ?thesis
    using id_frame by (auto simp: ath_spi_read_id_def Let_def settles_def deselected_def)
qed

lemma qca953x_init_effect:
  assumes "quiet s m"
  shows "quiet (snd (snd (qca953x_init ops dev s))) m"
proof -
  obtain h where h: "settles ops s h" "busy h = 0" "mem_at ops h = m"
    using assms by (auto simp: quiet_def)
  have "settles ops (s\<lparr> clock := 0x43, fs := fs s OR 1 \<rparr>) h"
    using h(1) by simp
  from read_id_effect [OF this] h(2,3) show ?thesis
    by (auto simp: qca953x_init_def Let_def quiet_def)
qed

end

section \<open>A chip\<close>

text \<open>A memory that follows the data sheet: it erases and programs only when its write enable latch
  is set, and reports busy for a number of status frames that depends on the operation.\<close>

record nor_chip =
  nor_mem :: "nat \<Rightarrow> u8"
  nor_wel :: bool
  nor_busy :: nat

definition nor_frame :: "u8 list \<Rightarrow> nor_chip \<Rightarrow> nor_chip" where
  "nor_frame bs h =
     (case bs of
        [] \<Rightarrow> h
      | cmd # args \<Rightarrow>
          if cmd = 0x05 then h\<lparr> nor_busy := nor_busy h - 1 \<rparr>
          else if nor_busy h \<noteq> 0 then h
          else if cmd = 0x06 then h\<lparr> nor_wel := True \<rparr>
          else if cmd = 0x20 \<and> nor_wel h then
            (case args of
               [a, b, c] \<Rightarrow> \<lparr> nor_mem = erase_sector (addr24 a b c) (nor_mem h), nor_wel = False, nor_busy = 60 \<rparr>
             | _ \<Rightarrow> h)
          else if cmd = 0x02 \<and> nor_wel h then
            (case args of
               a # b # c # data \<Rightarrow>
                 \<lparr> nor_mem = program_bytes (addr24 a b c) (take (256 - addr24 a b c mod 256) data) (nor_mem h),
                   nor_wel = False, nor_busy = 3 \<rparr>
             | _ \<Rightarrow> h)
          else h)"

definition nor_shift_out :: "u8 list \<Rightarrow> nor_chip \<Rightarrow> u32" where
  "nor_shift_out bs h =
     (case bs of
        cmd # _ # _ \<Rightarrow> if cmd = 0x05 then (if nor_busy h \<noteq> 0 then 1 else 0) + (if nor_wel h then 2 else 0) else 0
      | _ \<Rightarrow> 0)"

definition nor_chip_ops :: "nor_chip nor_ops" where
  "nor_chip_ops = \<lparr> frame_end = nor_frame, shift_out = nor_shift_out, mem_at = nor_mem \<rparr>"

interpretation nor: nor_flash nor_chip_ops nor_wel nor_busy
  by unfold_locales (auto simp: nor_chip_ops_def nor_frame_def nor_shift_out_def)

end
