(* ===== verification/Flash_Io.thy ===== *)
theory Flash_Io
  imports Spi_Flash
begin

text \<open>
  The flash library \<^verbatim>\<open>packages/io/flash/current/src/flash.c\<close> for the board's single device
  (\<^verbatim>\<open>CYGHWR_IO_FLASH_DEVICE\<close> is 1), and the configuration sector of \<^verbatim>\<open>ecosap/shell/flash.c\<close>
  (\<^verbatim>\<open>cyg_flash_setconf\<close>, \<^verbatim>\<open>cyg_flash_getconf\<close>).

  Sizes and addresses are 32-bit words, as \<^verbatim>\<open>size_t\<close> and \<^verbatim>\<open>cyg_flashaddr_t\<close> are. A wait for a lock that
  is held, and a loop that makes no progress, are the fault \<open>Diverges\<close>; so is a chip that stays busy
  for ever. Where the sources recurse into the next device there is none: the model asks
  \<^verbatim>\<open>find_dev\<close>, as the recursive call would, and returns its error.
\<close>

record 'h flash_lib =
  lib_init :: bool
  fdev :: flash_dev
  flock :: bool
  fspi :: "'h spi"

definition CYG_FLASH_ERR_OK :: int where "CYG_FLASH_ERR_OK = 0"
definition CYG_FLASH_ERR_INVALID :: int where "CYG_FLASH_ERR_INVALID = 1"
definition CYG_FLASH_ERR_NOT_INIT :: int where "CYG_FLASH_ERR_NOT_INIT = 7"

section \<open>Devices and blocks\<close>

definition find_dev :: "'h flash_lib \<Rightarrow> u32 \<Rightarrow> int + flash_dev" where
  "find_dev st addr =
     (if \<not> lib_init st then Inl CYG_FLASH_ERR_NOT_INIT
      else if \<not> (addr \<ge> dev_start (fdev st) \<and> addr \<le> dev_end (fdev st)) then Inl CYG_FLASH_ERR_INVALID
      else if \<not> dev_init (fdev st) then Inl CYG_FLASH_ERR_NOT_INIT
      else Inr (fdev st))"

definition cyg_flash_init :: "'h nor_ops \<Rightarrow> 'h flash_lib \<Rightarrow> int \<times> 'h flash_lib" where
  "cyg_flash_init ops st =
     (if lib_init st then (CYG_FLASH_ERR_OK, st)
      else (case qca953x_init ops (fdev st) (fspi st) of (err, dev, s) \<Rightarrow>
        let st1 = st\<lparr> flock := False, fdev := (if err \<noteq> 0 then dev else dev\<lparr> dev_init := True \<rparr>),
                      fspi := s \<rparr>
        in (CYG_FLASH_ERR_OK, st1\<lparr> lib_init := True \<rparr>)))"

definition cyg_flash_verify_addr :: "'h flash_lib \<Rightarrow> u32 \<Rightarrow> int" where
  "cyg_flash_verify_addr st address =
     (case find_dev st address of Inl stat \<Rightarrow> stat | Inr _ \<Rightarrow> CYG_FLASH_ERR_OK)"

fun block_size_loop :: "(u32 \<times> u32) list \<Rightarrow> u32 \<Rightarrow> u32" where
  "block_size_loop [] offset = 0"
| "block_size_loop ((block_size, blocks) # bis) offset =
     (if offset < blocks * block_size then block_size
      else block_size_loop bis (offset - blocks * block_size))"

definition flash_block_size :: "flash_dev \<Rightarrow> u32 \<Rightarrow> u32" where
  "flash_block_size dev addr = block_size_loop (block_info dev) (addr - dev_start dev)"

definition cyg_flash_block_size :: "'h flash_lib \<Rightarrow> u32 \<Rightarrow> u32" where
  "cyg_flash_block_size st flash_base =
     (case find_dev st flash_base of
        Inl stat \<Rightarrow> word_of_int stat
      | Inr dev \<Rightarrow> flash_block_size dev flash_base)"

definition flash_block_begin :: "u32 \<Rightarrow> flash_dev \<Rightarrow> u32 cres" where
  "flash_block_begin addr dev =
     (let block_size = flash_block_size dev addr;
          offset = addr - dev_start dev
      in guard_c (block_size \<noteq> 0) DivideByZero
           (Inr ((offset div block_size) * block_size + dev_start dev)))"

text \<open>The last address an operation of \<open>len\<close> bytes touches on this device.\<close>

definition clip_end :: "flash_dev \<Rightarrow> u32 \<Rightarrow> u32 \<Rightarrow> u32" where
  "clip_end dev flash_base len =
     (if len > dev_end dev + 1 - flash_base then dev_end dev else flash_base + len - 1)"

text \<open>The recursive call for what lies past the device.\<close>

definition next_device :: "'h flash_lib \<Rightarrow> flash_dev \<Rightarrow> u32 \<Rightarrow> u32 \<Rightarrow> int cres" where
  "next_device st dev flash_base len =
     (if len > dev_end dev + 1 - flash_base then
        (case find_dev st (dev_end dev + 1) of Inl stat \<Rightarrow> Inr stat | Inr _ \<Rightarrow> Inl Diverges)
      else Inr CYG_FLASH_ERR_OK)"

definition of_chip :: "'a option \<Rightarrow> 'a cres" where
  "of_chip r = (case r of None \<Rightarrow> Inl Diverges | Some x \<Rightarrow> Inr x)"

section \<open>Erase\<close>

text \<open>A block that reads as erased already is skipped. The result is the status and the SPI state;
  a block size of 0 would leave block and count as they are.\<close>

function erase_loop ::
  "'h nor_ops \<Rightarrow> flash_dev \<Rightarrow> u32 \<Rightarrow> u32 \<Rightarrow> 'h spi \<Rightarrow> (int \<times> 'h spi) cres" where
  "erase_loop ops dev block erase_count s =
     (if erase_count = 0 then Inr (CYG_FLASH_ERR_OK, s)
      else
        (let block_size = flash_block_size dev block;
             count = (if erase_count < block_size then block_size else erase_count);
             erased = (\<forall>b \<in> set (mapped_read ops s block (unat block_size)). b = 0xFF)
         in if block_size = 0 then Inl Diverges
            else
              (case (if erased then Inr (CYG_FLASH_ERR_OK, s)
                     else of_chip (qca953x_erase_block ops block s)) of
                 Inl f \<Rightarrow> Inl f
               | Inr (stat, s1) \<Rightarrow>
                   if stat \<noteq> CYG_FLASH_ERR_OK then Inr (stat, s1)
                   else erase_loop ops dev (block + block_size) (count - block_size) s1)))"
  by pat_completeness auto
termination
proof (relation "measure (\<lambda>(ops, dev, block, erase_count, s). unat erase_count)", goal_cases)
  case 1
  show ?case by simp
next
  case (2 ops dev block erase_count s bsz count erased x stat s1)
  have "unat (count - bsz) < unat erase_count"
  proof (cases "erase_count < bsz")
    case True
    with 2 show ?thesis
      by (simp add: unat_gt_0)
  next
    case False
    with 2 have "unat (erase_count - bsz) = unat erase_count - unat bsz" "unat bsz \<noteq> 0"
      "unat bsz \<le> unat erase_count"
      by (simp_all add: unat_sub_if' unat_eq_zero word_le_nat_alt not_less)
    with 2 False show ?thesis by simp
  qed
  then show ?case by simp
qed

declare erase_loop.simps [simp del]

definition cyg_flash_erase ::
  "'h nor_ops \<Rightarrow> u32 \<Rightarrow> u32 \<Rightarrow> 'h flash_lib \<Rightarrow> (int \<times> 'h flash_lib) cres" where
  "cyg_flash_erase ops flash_base len st =
     (case find_dev st flash_base of
        Inl stat \<Rightarrow> Inr (stat, st)
      | Inr dev \<Rightarrow>
          guard_c (\<not> flock st) Diverges
            (let end_addr = clip_end dev flash_base len in
             bind_ok (flash_block_begin flash_base dev) (\<lambda>block.
             bind_ok (erase_loop ops dev block (end_addr + 1 - block) (fspi st)) (\<lambda>(stat, s).
             let st1 = st\<lparr> flock := False, fspi := s \<rparr> in
             if stat \<noteq> CYG_FLASH_ERR_OK then Inr (stat, st1)
             else bind_ok (next_device st1 dev flash_base len) (\<lambda>r. Inr (r, st1))))))"

section \<open>Program and read\<close>

text \<open>\<open>ram\<close> is the rest of the source buffer; \<open>offset\<close> is only used for the first block.\<close>

function write_loop ::
  "'h nor_ops \<Rightarrow> flash_dev \<Rightarrow> u32 \<Rightarrow> u8 list \<Rightarrow> u32 \<Rightarrow> u32 \<Rightarrow> 'h spi \<Rightarrow> (int \<times> 'h spi) cres" where
  "write_loop ops dev addr ram write_count offset s =
     (if write_count = 0 then Inr (CYG_FLASH_ERR_OK, s)
      else
        (let block_size = flash_block_size dev addr;
             this_write = (if write_count > block_size - offset then block_size - offset else write_count)
         in if this_write = 0 then Inl Diverges
            else if length ram < unat this_write then Inl OutOfBounds
            else
              (case of_chip (qca953x_program ops addr (take (unat this_write) ram) s) of
                 Inl f \<Rightarrow> Inl f
               | Inr (stat, s1) \<Rightarrow>
                   if stat \<noteq> CYG_FLASH_ERR_OK then Inr (stat, s1)
                   else write_loop ops dev (addr + this_write) (drop (unat this_write) ram)
                          (write_count - this_write) 0 s1)))"
  by pat_completeness auto
termination
proof (relation "measure (\<lambda>(ops, dev, addr, ram, write_count, offset, s). unat write_count)", goal_cases)
  case 1
  show ?case by simp
next
  case (2 ops dev addr ram write_count offset s bsz this_write x stat s1)
  then have "this_write \<le> write_count" "this_write \<noteq> 0"
    by (auto split: if_splits)
  then have "unat this_write \<le> unat write_count" "unat this_write \<noteq> 0"
    by (simp_all add: word_le_nat_alt unat_eq_zero)
  then have "unat (write_count - this_write) < unat write_count"
    by (simp add: unat_sub_if')
  then show ?case by simp
qed

declare write_loop.simps [simp del]

definition cyg_flash_program ::
  "'h nor_ops \<Rightarrow> u32 \<Rightarrow> u8 list \<Rightarrow> u32 \<Rightarrow> 'h flash_lib \<Rightarrow> (int \<times> 'h flash_lib) cres" where
  "cyg_flash_program ops flash_base ram_base len st =
     (case find_dev st flash_base of
        Inl stat \<Rightarrow> Inr (stat, st)
      | Inr dev \<Rightarrow>
          guard_c (\<not> flock st) Diverges
            (let end_addr = clip_end dev flash_base len;
                 write_count = end_addr + 1 - flash_base
             in
             bind_ok (flash_block_begin flash_base dev) (\<lambda>block.
             let offset = (if flash_base = block then 0 else flash_base - block) in
             bind_ok (write_loop ops dev flash_base ram_base write_count offset (fspi st)) (\<lambda>(stat, s).
             let st1 = st\<lparr> flock := False, fspi := s \<rparr> in
             if stat \<noteq> CYG_FLASH_ERR_OK then Inr (stat, st1)
             else bind_ok (next_device st1 dev flash_base len) (\<lambda>r. Inr (r, st1))))))"

text \<open>The driver has no read function: the flash is read directly. The bytes read are returned.\<close>

definition cyg_flash_read ::
  "'h nor_ops \<Rightarrow> u32 \<Rightarrow> u32 \<Rightarrow> 'h flash_lib \<Rightarrow> (int \<times> u8 list \<times> 'h flash_lib) cres" where
  "cyg_flash_read ops flash_base len st =
     (case find_dev st flash_base of
        Inl stat \<Rightarrow> Inr (stat, [], st)
      | Inr dev \<Rightarrow>
          guard_c (\<not> flock st) Diverges
            (let end_addr = clip_end dev flash_base len;
                 read_count = end_addr + 1 - flash_base;
                 ram = mapped_read ops (fspi st) flash_base (unat read_count);
                 st1 = st\<lparr> flock := False \<rparr>
             in bind_ok (next_device st1 dev flash_base len) (\<lambda>r. Inr (r, ram, st1))))"

section \<open>The configuration sector\<close>

definition DOMAIN_MAX :: nat where "DOMAIN_MAX = 1"
definition SECTOR_SIZE :: nat where "SECTOR_SIZE = 4 * 1024"
definition BADSIZE :: int where "BADSIZE = 99"
definition BADSECTOR :: int where "BADSECTOR = 98"
definition NOMEM :: int where "NOMEM = 97"
definition ALLGOOD :: int where "ALLGOOD = 0"

definition CONFIG_DATA_ADDR :: u32 where
  "CONFIG_DATA_ADDR = ATHR_FLASH_START + ATHR_FLASH_SIZE - 2 * ATHR_FLASH_SECTOR"

definition addresses :: "u32 list" where
  "addresses = [CONFIG_DATA_ADDR, 0]"

text \<open>The sector is copied to memory, the new data is put in front of it, and it is erased and written
  back. \<open>malloc_ok\<close> is whether \<^verbatim>\<open>malloc\<close> succeeds.\<close>

definition cyg_flash_setconf ::
  "'h nor_ops \<Rightarrow> bool \<Rightarrow> u8 list \<Rightarrow> nat \<Rightarrow> 'h flash_lib \<Rightarrow> (int \<times> 'h flash_lib) cres" where
  "cyg_flash_setconf ops malloc_ok buf whose st =
     (if whose \<ge> DOMAIN_MAX then Inr (BADSECTOR, st)
      else if length buf > SECTOR_SIZE then Inr (BADSIZE, st)
      else
        (let (ret, st1) = cyg_flash_init ops st in
         if ret \<noteq> 0 then Inr (ret, st1)
         else if \<not> malloc_ok then Inr (NOMEM, st1)
         else
           (let addr = addresses ! whose;
                ram_base = buf @ drop (length buf) (mapped_read ops (fspi st1) addr SECTOR_SIZE)
            in
            bind_ok (cyg_flash_erase ops addr 1 st1) (\<lambda>(ret, st2).
            if ret \<noteq> 0 then Inr (ret, st2)
            else
              bind_ok (cyg_flash_program ops addr ram_base (of_nat SECTOR_SIZE) st2) (\<lambda>(ret, st3).
              if ret \<noteq> 0 then Inr (ret, st3)
              else Inr (int (length buf), st3))))))"

text \<open>The bytes that were copied into the caller's buffer are returned beside the return value.\<close>

definition cyg_flash_getconf ::
  "'h nor_ops \<Rightarrow> nat \<Rightarrow> nat \<Rightarrow> 'h flash_lib \<Rightarrow> (int \<times> u8 list \<times> 'h flash_lib) cres" where
  "cyg_flash_getconf ops len whose st =
     (if len > SECTOR_SIZE then Inr (BADSIZE, [], st)
      else if whose \<ge> DOMAIN_MAX then Inr (BADSECTOR, [], st)
      else
        (let (ret, st1) = cyg_flash_init ops st in
         if ret \<noteq> 0 then Inr (ret, [], st1)
         else
           bind_ok (cyg_flash_read ops (addresses ! whose) (of_nat len) st1) (\<lambda>(ret, bytes, st2).
           if ret \<noteq> 0 then Inr (ret, bytes, st2) else Inr (ALLGOOD, bytes, st2))))"

section \<open>The library is well formed\<close>

text \<open>The device after \<^verbatim>\<open>qca953x_init\<close>: its end is one past the last byte.\<close>

definition board_dev :: flash_dev where
  "board_dev = cyg_flash_qca953x_flashdev\<lparr> dev_end := ATHR_FLASH_START + ATHR_FLASH_SIZE, dev_init := True \<rparr>"

definition lib_wf :: "'h flash_lib \<Rightarrow> bool" where
  "lib_wf st \<longleftrightarrow>
     (if lib_init st then fdev st = board_dev \<and> \<not> flock st else fdev st = cyg_flash_qca953x_flashdev)"

definition lib_ready :: "'h flash_lib \<Rightarrow> bool" where
  "lib_ready st \<longleftrightarrow> lib_init st \<and> fdev st = board_dev \<and> \<not> flock st"

lemmas board_defs = board_dev_def cyg_flash_qca953x_flashdev_def ATHR_FLASH_START_def
  ATHR_FLASH_SIZE_def ATHR_FLASH_SECTOR_def CONFIG_DATA_ADDR_def CFG_FLASH_BASE_def
lemmas conf_defs = DOMAIN_MAX_def SECTOR_SIZE_def addresses_def CYG_FLASH_ERR_OK_def
  CYG_FLASH_ERR_INVALID_def CYG_FLASH_ERR_NOT_INIT_def

lemma flash_init_wf:
  assumes "lib_wf st"
  shows "\<exists>st'. cyg_flash_init ops st = (0, st') \<and> lib_ready st'
     \<and> fspi st' = (if lib_init st then fspi st else snd (snd (qca953x_init ops (fdev st) (fspi st))))"
  using assms
  by (cases "lib_init st")
    (auto simp: cyg_flash_init_def lib_wf_def lib_ready_def conf_defs qca953x_init_def board_dev_def
      cyg_flash_qca953x_flashdev_def Let_def split: prod.splits)

lemma find_dev_config: "lib_ready st \<Longrightarrow> find_dev st CONFIG_DATA_ADDR = Inr board_dev"
  by (simp add: find_dev_def lib_ready_def) (simp add: board_defs)

lemma config_block:
  "flash_block_size board_dev CONFIG_DATA_ADDR = 4096"
  "flash_block_begin CONFIG_DATA_ADDR board_dev = Inr CONFIG_DATA_ADDR"
  "clip_end board_dev CONFIG_DATA_ADDR 1 = CONFIG_DATA_ADDR"
  "clip_end board_dev CONFIG_DATA_ADDR 4096 = CONFIG_DATA_ADDR + 4095"
  by (simp_all add: flash_block_size_def flash_block_begin_def clip_end_def board_defs)

lemma config_next:
  "len \<le> 4096 \<Longrightarrow> next_device st board_dev CONFIG_DATA_ADDR len = Inr 0"
  "len \<le> 4096 \<Longrightarrow> clip_end board_dev CONFIG_DATA_ADDR len + 1 - CONFIG_DATA_ADDR = len"
proof -
  have e: "dev_end board_dev + 1 - CONFIG_DATA_ADDR = 8193"
    by (simp add: board_defs)
  assume "len \<le> 4096"
  then have "\<not> 8193 < len"
    by (simp add: word_le_nat_alt word_less_nat_alt)
  then show "next_device st board_dev CONFIG_DATA_ADDR len = Inr 0"
    "clip_end board_dev CONFIG_DATA_ADDR len + 1 - CONFIG_DATA_ADDR = len"
    unfolding next_device_def clip_end_def e by (simp_all add: CYG_FLASH_ERR_OK_def)
qed

text \<open>The memory after the configuration sector has been written.\<close>

definition CONF_OFFSET :: nat where
  "CONF_OFFSET = 0xfe000"

definition conf_written :: "u8 list \<Rightarrow> (nat \<Rightarrow> u8) \<Rightarrow> nat \<Rightarrow> u8" where
  "conf_written buf m i =
     (if CONF_OFFSET \<le> i \<and> i < CONF_OFFSET + length buf then buf ! (i - CONF_OFFSET) else m i)"

definition conf_bytes :: "nat \<Rightarrow> (nat \<Rightarrow> u8) \<Rightarrow> u8 list" where
  "conf_bytes len m = map (\<lambda>i. m (CONF_OFFSET + i)) [0..<len]"

lemma conf_bytes_written:
  assumes "len \<le> length buf"
  shows "conf_bytes len (conf_written buf m) = take len buf"
  by (rule nth_equalityI) (use assms in \<open>simp_all add: conf_bytes_def conf_written_def\<close>)

lemma conf_sector_iff:
  "i div 4096 = CONF_OFFSET div 4096 \<longleftrightarrow> CONF_OFFSET \<le> i \<and> i < CONF_OFFSET + 4096"
proof -
  have "i = i div 4096 * 4096 + i mod 4096" "i mod 4096 < 4096"
    by simp_all
  then show ?thesis
    unfolding CONF_OFFSET_def by simp linarith
qed

lemma rewrite_sector:
  assumes "length buf \<le> 4096"
  shows "program_bytes CONF_OFFSET (buf @ drop (length buf) (conf_bytes 4096 m)) (erase_sector CONF_OFFSET m)
     = conf_written buf m"
proof (rule ext)
  fix i
  have one: "0xFF AND b = (b :: u8)" for b
  proof -
    have "(0xFF :: u8) = - 1" by simp
    then show ?thesis by (simp only: and.left_neutral)
  qed
  show "program_bytes CONF_OFFSET (buf @ drop (length buf) (conf_bytes 4096 m)) (erase_sector CONF_OFFSET m) i
      = conf_written buf m i"
    using assms
    by (auto simp: program_bytes_def erase_sector_def conf_written_def conf_sector_iff one nth_append conf_bytes_def)
qed

context nor_flash
begin

lemma mapped_read_config:
  assumes "quiet s m"
  shows "mapped_read ops s CONFIG_DATA_ADDR len = conf_bytes len m"
proof -
  have "unat (CONFIG_DATA_ADDR - ATHR_FLASH_START) = CONF_OFFSET"
    by (simp add: board_defs CONF_OFFSET_def)
  with assms show ?thesis
    by (simp add: mapped_read_def conf_bytes_def quiet_def)
qed

lemma erase_sector_erased:
  assumes "\<forall>b \<in> set (conf_bytes 4096 m). b = 0xFF"
  shows "erase_sector CONF_OFFSET m = m"
proof (rule ext)
  fix i
  show "erase_sector CONF_OFFSET m i = m i"
  proof (cases "i div 4096 = CONF_OFFSET div 4096")
    case True
    then have "CONF_OFFSET \<le> i" "i - CONF_OFFSET < 4096"
      by (auto simp: conf_sector_iff)
    then have "m i \<in> set (conf_bytes 4096 m)"
      by (auto simp: conf_bytes_def intro!: image_eqI [of _ _ "i - CONF_OFFSET"])
    with assms True show ?thesis
      by (simp add: erase_sector_def)
  qed (simp add: erase_sector_def)
qed

lemma erase_config:
  assumes "lib_ready st" "quiet (fspi st) m"
  shows "\<exists>st'. cyg_flash_erase ops CONFIG_DATA_ADDR 1 st = Inr (0, st') \<and> lib_ready st'
     \<and> quiet (fspi st') (erase_sector CONF_OFFSET m)"
proof -
  have a: "unat CONFIG_DATA_ADDR mod 2 ^ 24 = CONF_OFFSET"
    by (simp add: board_defs CONF_OFFSET_def)
  obtain s' where s': "erase_loop ops board_dev CONFIG_DATA_ADDR 1 (fspi st) = Inr (0, s')"
    "quiet s' (erase_sector CONF_OFFSET m)"
  proof (cases "\<forall>b \<in> set (conf_bytes 4096 m). b = 0xFF")
    case True
    with assms(2) show thesis
      by (intro that [of "fspi st"])
        (simp_all add: erase_loop.simps [of _ _ CONFIG_DATA_ADDR] erase_loop.simps [of _ _ _ 0] config_block
          mapped_read_config [OF assms(2)] erase_sector_erased conf_defs)
  next
    case False
    obtain s1 where s1: "qca953x_erase_block ops CONFIG_DATA_ADDR (fspi st) = Some (0, s1)"
      "quiet s1 (erase_sector CONF_OFFSET m)"
      using qca953x_erase_block_effect [OF assms(2), of CONFIG_DATA_ADDR] a by auto
    have no: "(\<forall>b \<in> set (conf_bytes 4096 m). b = 0xFF) = False"
      using False by blast
    from s1 show thesis
      by (intro that [of s1])
        (simp_all add: no erase_loop.simps [of _ _ CONFIG_DATA_ADDR] erase_loop.simps [of _ _ _ 0] config_block
          mapped_read_config [OF assms(2)] of_chip_def conf_defs)
  qed
  with assms(1) show ?thesis
    by (simp add: cyg_flash_erase_def find_dev_config config_block config_next Let_def conf_defs)
      (simp add: lib_ready_def)
qed

lemma program_config:
  assumes "lib_ready st" "quiet (fspi st) m" "length ram = 4096"
  shows "\<exists>st'. cyg_flash_program ops CONFIG_DATA_ADDR ram 4096 st = Inr (0, st') \<and> lib_ready st'
     \<and> quiet (fspi st') (program_bytes CONF_OFFSET ram m)"
proof -
  have a: "unat (CONFIG_DATA_ADDR - CFG_FLASH_BASE) = CONF_OFFSET"
    by (simp add: board_defs CONF_OFFSET_def)
  obtain s' where s': "qca953x_program ops CONFIG_DATA_ADDR ram (fspi st) = Some (0, s')"
    "quiet s' (program_bytes CONF_OFFSET ram m)"
    using qca953x_program_effect [OF assms(2), of CONFIG_DATA_ADDR ram] assms(3)
    unfolding a by (auto simp: CONF_OFFSET_def)
  have "write_loop ops board_dev CONFIG_DATA_ADDR ram 4096 0 (fspi st) = Inr (0, s')"
    using s'(1) assms(3)
    by (simp add: write_loop.simps [of _ _ CONFIG_DATA_ADDR] write_loop.simps [of _ _ _ _ 0] config_block
        of_chip_def conf_defs)
  with s'(2) assms(1) show ?thesis
    by (simp add: cyg_flash_program_def find_dev_config config_block config_next Let_def conf_defs)
      (simp add: lib_ready_def)
qed

lemma setconf_effect:
  assumes "lib_wf st" "quiet (fspi st) m" "length buf \<le> 4096"
  shows "\<exists>st'. cyg_flash_setconf ops True buf 0 st = Inr (int (length buf), st') \<and> lib_ready st'
     \<and> quiet (fspi st') (conf_written buf m)"
proof -
  obtain st1 where st1: "cyg_flash_init ops st = (0, st1)" "lib_ready st1" "quiet (fspi st1) m"
    using flash_init_wf [OF assms(1), of ops] assms(2) qca953x_init_effect [OF assms(2)] by auto
  obtain st2 where st2: "cyg_flash_erase ops CONFIG_DATA_ADDR 1 st1 = Inr (0, st2)" "lib_ready st2"
    "quiet (fspi st2) (erase_sector CONF_OFFSET m)"
    using erase_config [OF st1(2,3)] by blast
  let ?ram = "buf @ drop (length buf) (conf_bytes 4096 m)"
  have "length ?ram = 4096"
    using assms(3) by (simp add: conf_bytes_def)
  from program_config [OF st2(2,3) this] obtain st3
    where st3: "cyg_flash_program ops CONFIG_DATA_ADDR ?ram 4096 st2 = Inr (0, st3)" "lib_ready st3"
      "quiet (fspi st3) (conf_written buf m)"
    using rewrite_sector [OF assms(3)] by auto
  with st1 st2 assms(3) show ?thesis
    by (simp add: cyg_flash_setconf_def conf_defs mapped_read_config [OF st1(3)])
qed

lemma getconf_effect:
  assumes "lib_wf st" "quiet (fspi st) m" "len \<le> 4096"
  shows "\<exists>st'. cyg_flash_getconf ops len 0 st = Inr (0, conf_bytes len m, st') \<and> lib_ready st'
     \<and> quiet (fspi st') m"
proof -
  obtain st1 where st1: "cyg_flash_init ops st = (0, st1)" "lib_ready st1" "quiet (fspi st1) m"
    using flash_init_wf [OF assms(1), of ops] assms(2) qca953x_init_effect [OF assms(2)] by auto
  have u: "unat (of_nat len :: u32) = len"
    using assms(3) by (intro unat_of_nat_small) simp
  then have le: "(of_nat len :: u32) \<le> 4096"
    using assms(3) by (simp add: word_le_nat_alt)
  from st1 assms(3) show ?thesis
    by (simp add: cyg_flash_getconf_def cyg_flash_read_def conf_defs find_dev_config config_next [OF le] u
        mapped_read_config Let_def) (simp add: lib_ready_def ALLGOOD_def)
qed

end

lemma lib_ready_wf: "lib_ready st \<Longrightarrow> lib_wf st"
  by (simp add: lib_ready_def lib_wf_def)

section \<open>Properties\<close>

text \<open>
  (C2) What \<^verbatim>\<open>cyg_flash_setconf\<close> writes, \<^verbatim>\<open>cyg_flash_getconf\<close> reads back, through the flash library, the
  page loop of the driver and the bit-banged pins, on every chip that keeps the promises of its
  data sheet; the return value is the size and no byte outside the written ones changes.
\<close>

theorem conf_write_read:
  assumes "nor_flash ops wel busy" and "lib_wf st" and "nor_flash.quiet ops busy (fspi st) m"
    and "length buf \<le> 4096"
  shows "\<exists>st1 st2. cyg_flash_setconf ops True buf 0 st = Inr (int (length buf), st1)
     \<and> cyg_flash_getconf ops (length buf) 0 st1 = Inr (0, buf, st2)
     \<and> (\<forall>i. i < CONF_OFFSET \<or> CONF_OFFSET + length buf \<le> i \<longrightarrow> mem_at ops (chip (fspi st1)) i = m i)"
proof -
  obtain st1 where st1: "cyg_flash_setconf ops True buf 0 st = Inr (int (length buf), st1)"
    "lib_ready st1" "nor_flash.quiet ops busy (fspi st1) (conf_written buf m)"
    using nor_flash.setconf_effect [OF assms] by blast
  obtain st2 where "cyg_flash_getconf ops (length buf) 0 st1 = Inr (0, conf_bytes (length buf) (conf_written buf m), st2)"
    using nor_flash.getconf_effect [OF assms(1) lib_ready_wf [OF st1(2)] st1(3) assms(4)] by blast
  moreover have "mem_at ops (chip (fspi st1)) = conf_written buf m"
    using st1(3) nor_flash.quiet_def [OF assms(1)] by blast
  ultimately show ?thesis
    using st1(1) by (auto simp: conf_bytes_written conf_written_def)
qed

definition demo_flash :: "nor_chip flash_lib" where
  "demo_flash =
     \<lparr> lib_init = False, fdev = cyg_flash_qca953x_flashdev, flock = False,
       fspi = \<lparr> cs_low = False, clk = False, bits = [],
                chip = \<lparr> nor_mem = (\<lambda>_. 0), nor_wel = False, nor_busy = 0 \<rparr>, fs = 0, clock = 0 \<rparr> \<rparr>"

lemma demo_flash_wf: "lib_wf demo_flash" "nor.quiet (fspi demo_flash) (\<lambda>_. 0)"
  unfolding nor.quiet_def
  by (simp_all add: demo_flash_def lib_wf_def settles_def framed_def deselected_def nor_chip_ops_def)

theorem conf_write_read_witness:
  "\<exists>st1 st2. cyg_flash_setconf nor_chip_ops True [1, 2, 3] 0 demo_flash = Inr (int (length [1, 2, 3 :: u8]), st1)
     \<and> cyg_flash_getconf nor_chip_ops (length [1, 2, 3 :: u8]) 0 st1 = Inr (0, [1, 2, 3], st2)
     \<and> (\<forall>i. i < CONF_OFFSET \<or> CONF_OFFSET + length [1, 2, 3 :: u8] \<le> i
           \<longrightarrow> mem_at nor_chip_ops (chip (fspi st1)) i = (\<lambda>_. 0) i)"
  by (rule conf_write_read [OF nor.nor_flash_axioms demo_flash_wf]) simp

text \<open>
  Requests that \<^verbatim>\<open>cyg_flash_setconf\<close> refuses leave the flash as it was: an unknown domain, more
  than a sector, no memory for the copy.
\<close>

theorem conf_write_refused:
  assumes "nor_flash ops wel busy" and "lib_wf st" and "nor_flash.quiet ops busy (fspi st) m"
    and "1 \<le> whose \<or> 4096 < length buf \<or> \<not> malloc_ok"
  shows "\<exists>st'. cyg_flash_setconf ops malloc_ok buf whose st =
       Inr (if 1 \<le> whose then BADSECTOR else if 4096 < length buf then BADSIZE else NOMEM, st')
     \<and> mem_at ops (chip (fspi st')) = m"
proof -
  obtain st1 where "cyg_flash_init ops st = (0, st1)" "nor_flash.quiet ops busy (fspi st1) m"
    using flash_init_wf [OF assms(2), of ops] assms(3) nor_flash.qca953x_init_effect [OF assms(1,3)] by auto
  with assms(3,4) show ?thesis
    unfolding nor_flash.quiet_def [OF assms(1)]
    by (auto simp: cyg_flash_setconf_def conf_defs)
qed

theorem conf_write_refused_witness:
  "\<exists>st'. cyg_flash_setconf nor_chip_ops True [1] 1 demo_flash =
       Inr (if 1 \<le> (1 :: nat) then BADSECTOR else if 4096 < length [1 :: u8] then BADSIZE else NOMEM, st')
     \<and> mem_at nor_chip_ops (chip (fspi st')) = (\<lambda>_. 0)"
  by (rule conf_write_refused [OF nor.nor_flash_axioms demo_flash_wf]) simp

text \<open>
  Initialisation makes the device one byte too long: the address just past the flash passes
  \<^verbatim>\<open>cyg_flash_verify_addr\<close>, has block size 0, and an erase there divides by zero.
\<close>

theorem flash_end_off_by_one:
  "let st = snd (cyg_flash_init nor_chip_ops demo_flash); past = ATHR_FLASH_START + ATHR_FLASH_SIZE
   in cyg_flash_verify_addr st past = 0 \<and> cyg_flash_block_size st past = 0
      \<and> cyg_flash_erase nor_chip_ops past 1 st = Inl DivideByZero"
proof -
  obtain st where st: "cyg_flash_init nor_chip_ops demo_flash = (0, st)" "lib_ready st"
    using flash_init_wf [OF demo_flash_wf(1)] by blast
  let ?past = "ATHR_FLASH_START + ATHR_FLASH_SIZE"
  have f: "find_dev st ?past = Inr board_dev" and z: "flash_block_size board_dev ?past = 0"
    using st(2) by (simp_all add: find_dev_def lib_ready_def flash_block_size_def board_defs)
  with st show ?thesis
    by (simp add: cyg_flash_verify_addr_def cyg_flash_block_size_def cyg_flash_erase_def flash_block_begin_def
        guard_c_def conf_defs Let_def lib_ready_def)
qed

text \<open>
  Erase, program and read leave the device unlocked, whatever they return.
\<close>

theorem flash_ops_release_lock:
  "(cyg_flash_erase ops base len st = Inr (r, st') \<and> find_dev st base = Inr dev \<longrightarrow> \<not> flock st')
   \<and> (cyg_flash_program ops base ram len st = Inr (r, st') \<and> find_dev st base = Inr dev \<longrightarrow> \<not> flock st')
   \<and> (cyg_flash_read ops base len st = Inr (r, bytes, st') \<and> find_dev st base = Inr dev \<longrightarrow> \<not> flock st')"
  unfolding cyg_flash_erase_def cyg_flash_program_def cyg_flash_read_def
  by (auto simp: cres_simps Let_def split: if_splits prod.splits)

theorem flash_ops_release_lock_witness:
  "\<exists>st r st' bytes. cyg_flash_read nor_chip_ops CONFIG_DATA_ADDR 4 st = Inr (r, bytes, st') \<and> \<not> flock st'"
proof -
  obtain st where st: "cyg_flash_init nor_chip_ops demo_flash = (0, st)" "lib_ready st"
    using flash_init_wf [OF demo_flash_wf(1)] by blast
  have f: "find_dev st CONFIG_DATA_ADDR = Inr board_dev"
    by (rule find_dev_config [OF st(2)])
  have "\<exists>bytes st'. cyg_flash_read nor_chip_ops CONFIG_DATA_ADDR 4 st = Inr (0, bytes, st')"
    using st(2) by (simp add: cyg_flash_read_def f config_next Let_def lib_ready_def)
  then obtain bytes st' where r: "cyg_flash_read nor_chip_ops CONFIG_DATA_ADDR 4 st = Inr (0, bytes, st')"
    by blast
  with f flash_ops_release_lock have "\<not> flock st'"
    by blast
  with r show ?thesis by blast
qed

end
