(* ===== verification/Conf_Flash.thy ===== *)
theory Conf_Flash
  imports Nw_Config Flash_Io
begin

text \<open>
  The configuration kept in flash: the store that \<open>Nw_Config\<close> asks for is provided by
  \<^verbatim>\<open>cyg_flash_setconf\<close> and \<^verbatim>\<open>cyg_flash_getconf\<close> over the flash library and the SPI driver. What is
  proved of boot, default and save in the store's locale holds for every chip of the locale
  \<open>nor_flash\<close>.
\<close>

definition flash_conf_ops :: "'h nor_ops \<Rightarrow> bool \<Rightarrow> 'h flash_lib conf_ops" where
  "flash_conf_ops ops malloc_ok =
     \<lparr> setconf = cyg_flash_setconf ops malloc_ok, getconf = cyg_flash_getconf ops \<rparr>"

definition flash_image :: "'h nor_ops \<Rightarrow> 'h flash_lib \<Rightarrow> nat \<Rightarrow> u8 list" where
  "flash_image ops f n = conf_bytes n (mem_at ops (chip (fspi f)))"

context nor_flash
begin

definition flash_ok :: "'h flash_lib \<Rightarrow> bool" where
  "flash_ok f \<longleftrightarrow> lib_wf f \<and> quiet (fspi f) (mem_at ops (chip (fspi f)))"

lemma quiet_mem: "quiet s m \<Longrightarrow> mem_at ops (chip s) = m"
  by (simp add: quiet_def)

lemma flash_set_ok:
  assumes "flash_ok f" "length b \<le> 4096"
  shows "\<exists>f'. setconf (flash_conf_ops ops True) b 0 f = Inr (int (length b), f') \<and> flash_ok f'
     \<and> flash_image ops f' (length b) = b"
proof -
  obtain f' where f': "cyg_flash_setconf ops True b 0 f = Inr (int (length b), f')" "lib_ready f'"
    "quiet (fspi f') (conf_written b (mem_at ops (chip (fspi f))))"
    using setconf_effect [of f _ b] assms by (auto simp: flash_ok_def)
  then show ?thesis
    using quiet_mem [OF f'(3)]
    by (simp add: flash_conf_ops_def flash_ok_def lib_ready_wf flash_image_def conf_bytes_written)
qed

lemma flash_get_ok:
  assumes "flash_ok f" "n \<le> 4096"
  shows "\<exists>f'. getconf (flash_conf_ops ops True) n 0 f = Inr (0, flash_image ops f n, f') \<and> flash_ok f'
     \<and> (\<forall>k. flash_image ops f' k = flash_image ops f k)"
proof -
  obtain f' where f': "cyg_flash_getconf ops n 0 f = Inr (0, conf_bytes n (mem_at ops (chip (fspi f))), f')"
    "lib_ready f'" "quiet (fspi f') (mem_at ops (chip (fspi f)))"
    using getconf_effect [of f _ n] assms by (auto simp: flash_ok_def)
  then show ?thesis
    using quiet_mem [OF f'(3)] by (simp add: flash_conf_ops_def flash_ok_def lib_ready_wf flash_image_def)
qed

lemma is_conf_store: "conf_store (flash_conf_ops ops True) flash_ok (flash_image ops)"
  by (rule conf_store.intro) (rule flash_set_ok flash_get_ok; assumption)+

end

sublocale nor_flash \<subseteq> conf: conf_store "flash_conf_ops ops True" flash_ok "flash_image ops"
  by (rule is_conf_store)

section \<open>Concrete stores\<close>

definition demo_nw :: "nor_chip flash_lib nw_state" where
  "demo_nw =
     \<lparr> config = default_config default_rules, new_config = default_config default_rules,
       LAN_config_addrs = \<lparr> lan_IPAddr = [], lan_Mask = [], lan_Broadcast = [] \<rparr>, is_flash_rule = 0,
       ipfw_args = replicate 16 [],
       vlan_names = replicate 4 [], store = demo_flash, trace = [] \<rparr>"

lemma demo_flash_ok: "nor.flash_ok demo_flash"
proof -
  have "mem_at nor_chip_ops (chip (fspi demo_flash)) = (\<lambda>_. 0)"
    by (simp add: demo_flash_def nor_chip_ops_def)
  then show ?thesis
    unfolding nor.flash_ok_def by (simp add: demo_flash_wf)
qed

section \<open>Properties\<close>

text \<open>
  (C1) A saved configuration survives a restart: after \<^verbatim>\<open>write_nw_flash\<close> has stored the new
  configuration, \<^verbatim>\<open>ecosap_nw_default_start\<close> on the same flash, from any memory contents, ends with
  both copies of the configuration equal to what was saved.
\<close>

theorem config_survives_reboot:
  assumes "nor_flash ops wel busy" and "nor_flash.flash_ok ops busy (store st)"
    and "wf_config (new_config st)" and "Magic_Number (new_config st) = CONFIG_MAGIC_NUM"
    and "vlan_printable (vlan_config (new_config st))"
  shows "\<exists>st1. write_nw_flash (flash_conf_ops ops True) st = Inr (True, st1)
     \<and> (\<forall>ram. \<exists>st2. ecosap_nw_default_start (flash_conf_ops ops True) (ram\<lparr> store := store st1 \<rparr>) = Inr st2
           \<and> config st2 = new_config st \<and> new_config st2 = new_config st)"
proof -
  note cs = nor_flash.is_conf_store [OF assms(1)]
  obtain f where f: "write_nw_flash (flash_conf_ops ops True) st = Inr (True, st\<lparr> store := f \<rparr>)"
    "conf_store.holds (nor_flash.flash_ok ops busy) (flash_image ops) f (new_config st)"
    using conf_store.write_nw_flash_holds [OF cs assms(2,3)] by blast
  have "\<exists>st2. ecosap_nw_default_start (flash_conf_ops ops True) (ram\<lparr> store := f \<rparr>) = Inr st2
      \<and> config st2 = new_config st \<and> new_config st2 = new_config st" for ram
    using conf_store.default_start_loads [OF cs _ assms(3,4), of "ram\<lparr> store := f \<rparr>"] f(2) assms(5)
    by (auto simp: vlan_printable_def)
  with f(1) show ?thesis by auto
qed

theorem config_survives_reboot_witness:
  "\<exists>st1. write_nw_flash (flash_conf_ops nor_chip_ops True) demo_nw = Inr (True, st1)
     \<and> (\<forall>ram. \<exists>st2. ecosap_nw_default_start (flash_conf_ops nor_chip_ops True) (ram\<lparr> store := store st1 \<rparr>) = Inr st2
           \<and> config st2 = new_config demo_nw \<and> new_config st2 = new_config demo_nw)"
proof (rule config_survives_reboot [OF nor.nor_flash_axioms])
  show "nor.flash_ok (store demo_nw)"
    by (simp add: demo_nw_def demo_flash_ok)
  show "wf_config (new_config demo_nw)"
    by (simp add: demo_nw_def wf_default_config)
qed (simp_all add: demo_nw_def default_config_def vlan_printable_def)

text \<open>
  On a flash without a configuration the defaults are loaded and stored: both copies are the
  default configuration, and the next start finds it in the flash.
\<close>

theorem blank_flash_gets_defaults:
  assumes "nor_flash ops wel busy" and "nor_flash.flash_ok ops busy (store st)"
    and "Magic_Number (fst (get_config (flash_image ops (store st) CONFIG_SIZE))) \<noteq> CONFIG_MAGIC_NUM"
  shows "\<exists>st1. ecosap_nw_default_start (flash_conf_ops ops True) st = Inr st1
     \<and> config st1 = default_config default_rules \<and> new_config st1 = default_config default_rules
     \<and> (\<forall>ram. \<exists>st2. ecosap_nw_default_start (flash_conf_ops ops True) (ram\<lparr> store := store st1 \<rparr>) = Inr st2
           \<and> config st2 = default_config default_rules)"
proof -
  note cs = nor_flash.is_conf_store [OF assms(1)]
  have "flash_image ops (store st) CONFIG_SIZE \<noteq> []"
    by (simp add: flash_image_def conf_bytes_def CONFIG_SIZE_def)
  then obtain st1 where st1: "ecosap_nw_default_start (flash_conf_ops ops True) st = Inr st1"
    "config st1 = default_config default_rules" "new_config st1 = default_config default_rules"
    "conf_store.holds (nor_flash.flash_ok ops busy) (flash_image ops) (store st1) (default_config default_rules)"
    using conf_store.default_start_blank [OF cs assms(2,3)] by blast
  have "\<exists>st2. ecosap_nw_default_start (flash_conf_ops ops True) (ram\<lparr> store := store st1 \<rparr>) = Inr st2
      \<and> config st2 = default_config default_rules" for ram
    using conf_store.default_start_loads [OF cs _ wf_default_config, of "ram\<lparr> store := store st1 \<rparr>"] st1(4)
    by (auto simp: default_config_def)
  with st1 show ?thesis by blast
qed

theorem blank_flash_gets_defaults_witness:
  "\<exists>st1. ecosap_nw_default_start (flash_conf_ops nor_chip_ops True) demo_nw = Inr st1
     \<and> config st1 = default_config default_rules \<and> new_config st1 = default_config default_rules
     \<and> (\<forall>ram. \<exists>st2. ecosap_nw_default_start (flash_conf_ops nor_chip_ops True) (ram\<lparr> store := store st1 \<rparr>) = Inr st2
           \<and> config st2 = default_config default_rules)"
proof (rule blank_flash_gets_defaults [OF nor.nor_flash_axioms])
  show "nor.flash_ok (store demo_nw)"
    by (simp add: demo_nw_def demo_flash_ok)
  have "flash_image nor_chip_ops (store demo_nw) CONFIG_SIZE = replicate CONFIG_SIZE 0"
    by (simp add: flash_image_def conf_bytes_def demo_nw_def demo_flash_def nor_chip_ops_def map_replicate_const)
  moreover have "Magic_Number (fst (get_config (replicate CONFIG_SIZE 0))) = 0"
    by (simp add: magic_of_image get_u32_def CONFIG_SIZE_def)
  ultimately show "Magic_Number (fst (get_config (flash_image nor_chip_ops (store demo_nw) CONFIG_SIZE))) \<noteq> CONFIG_MAGIC_NUM"
    by (simp add: CONFIG_MAGIC_NUM_def)
qed

text \<open>
  A save that the flash layer refused is still reported as a success: the error codes of
  \<^verbatim>\<open>cyg_flash_setconf\<close> are positive and \<^verbatim>\<open>write_nw_flash\<close> tests for a negative one. Here there is no
  memory for the sector copy, and the flash is unchanged.
\<close>

theorem failed_save_reported_as_success:
  assumes "nor_flash ops wel busy" and "nor_flash.flash_ok ops busy (store st)"
    and "wf_config (new_config st)"
  shows "\<exists>st'. write_nw_flash (flash_conf_ops ops False) st = Inr (True, st')
     \<and> flash_image ops (store st') = flash_image ops (store st)"
proof -
  have wf: "lib_wf (store st)" and q: "nor_flash.quiet ops busy (fspi (store st)) (mem_at ops (chip (fspi (store st))))"
    using assms(2) by (simp_all add: nor_flash.flash_ok_def [OF assms(1)])
  obtain f where f: "cyg_flash_init ops (store st) = (0, f)"
    "nor_flash.quiet ops busy (fspi f) (mem_at ops (chip (fspi (store st))))"
    using flash_init_wf [OF wf, of ops] q nor_flash.qca953x_init_effect [OF assms(1) q] by auto
  have "mem_at ops (chip (fspi f)) = mem_at ops (chip (fspi (store st)))"
    by (rule nor_flash.quiet_mem [OF assms(1) f(2)])
  with f(1) length_put_config [OF assms(3)] show ?thesis
    by (simp add: write_nw_flash_def flash_conf_ops_def cyg_flash_setconf_def conf_defs NOMEM_def
        flash_image_def [abs_def] CONFIG_SIZE_def)
qed

theorem failed_save_reported_as_success_witness:
  "\<exists>st'. write_nw_flash (flash_conf_ops nor_chip_ops False) demo_nw = Inr (True, st')
     \<and> flash_image nor_chip_ops (store st') = flash_image nor_chip_ops (store demo_nw)"
  by (rule failed_save_reported_as_success [OF nor.nor_flash_axioms])
    (simp_all add: demo_nw_def demo_flash_ok wf_default_config)

text \<open>
  (C31) When the WAN takes the LAN's subnet, \<^verbatim>\<open>change_lan_subnet\<close> moves the LAN to the network of
  \<^verbatim>\<open>change_octal\<close>: the broadcast address and both ends of the DHCP pool follow the new address with
  their last octets kept, the result is in the flash, and the system is restarted once.
\<close>

theorem lan_move_is_consistent:
  assumes "nor_flash ops wel busy" and "nor_flash.flash_ok ops busy (store st)"
    and "wf_config (new_config st)"
    and "inet_aton (DHCP_From (dhcp_server_config (new_config st))) = Some f"
    and "inet_aton (DHCP_To (dhcp_server_config (new_config st))) = Some t"
  shows "\<exists>st' f' t'. change_lan_subnet (flash_conf_ops ops True) st = Inr st'
     \<and> inaddr_ip (bridge_conf (new_config st')) = change_octal (inaddr_ip (bridge_conf (new_config st)))
     \<and> inet_aton (DHCP_From (dhcp_server_config (new_config st'))) = Some f'
     \<and> inet_aton (DHCP_To (dhcp_server_config (new_config st'))) = Some t'
     \<and> addr_byte f' 3 = addr_byte f 3 \<and> addr_byte t' 3 = addr_byte t 3
     \<and> addr_byte (inaddr_broad (bridge_conf (new_config st'))) 3 = 255
     \<and> (\<forall>i < 3. \<forall>a \<in> {f', t', inaddr_broad (bridge_conf (new_config st'))}.
           addr_byte a i = addr_byte (inaddr_ip (bridge_conf (new_config st'))) i)
     \<and> flash_image ops (store st') CONFIG_SIZE = put_config (new_config st')
     \<and> trace st' = trace st @ [WatchdogReboot]"
proof -
  note cs = nor_flash.is_conf_store [OF assms(1)]
  obtain st' where st': "change_lan_subnet (flash_conf_ops ops True) st = Inr st'"
    "new_config st' = moved_config f t (new_config st)" "trace st' = trace st @ [WatchdogReboot]"
    "conf_store.holds (nor_flash.flash_ok ops busy) (flash_image ops) (store st') (new_config st')"
    using conf_store.change_lan_subnet_holds [OF cs assms(2-5)] by blast
  then have "flash_image ops (store st') CONFIG_SIZE = put_config (new_config st')"
    by (simp add: conf_store.holds_def [OF cs])
  with st' show ?thesis
    by (simp add: moved_config_def Let_def inet_aton_inet_ntoa and_low_high_bytes)
qed

theorem lan_move_is_consistent_witness:
  "\<exists>st' f' t'. change_lan_subnet (flash_conf_ops nor_chip_ops True) demo_nw = Inr st'
     \<and> inaddr_ip (bridge_conf (new_config st')) = change_octal (inaddr_ip (bridge_conf (new_config demo_nw)))
     \<and> inet_aton (DHCP_From (dhcp_server_config (new_config st'))) = Some f'
     \<and> inet_aton (DHCP_To (dhcp_server_config (new_config st'))) = Some t'
     \<and> addr_byte f' 3 = addr_byte (quad 192 168 0 2) 3 \<and> addr_byte t' 3 = addr_byte (quad 192 168 0 200) 3
     \<and> addr_byte (inaddr_broad (bridge_conf (new_config st'))) 3 = 255
     \<and> (\<forall>i < 3. \<forall>a \<in> {f', t', inaddr_broad (bridge_conf (new_config st'))}.
           addr_byte a i = addr_byte (inaddr_ip (bridge_conf (new_config st'))) i)
     \<and> flash_image nor_chip_ops (store st') CONFIG_SIZE = put_config (new_config st')
     \<and> trace st' = trace demo_nw @ [WatchdogReboot]"
proof (rule lan_move_is_consistent [OF nor.nor_flash_axioms])
  have "inet_aton (DHCP_From default_dhcps) = Some (quad 192 168 0 2)"
    "inet_aton (DHCP_To default_dhcps) = Some (quad 192 168 0 200)"
    by code_simp+
  then show "inet_aton (DHCP_From (dhcp_server_config (new_config demo_nw))) = Some (quad 192 168 0 2)"
    "inet_aton (DHCP_To (dhcp_server_config (new_config demo_nw))) = Some (quad 192 168 0 200)"
    by (simp_all add: demo_nw_def default_config_def)
qed (simp_all add: demo_nw_def demo_flash_ok wf_default_config)

end
