(* ===== verification/Shell_Threads.thy ===== *)
theory Shell_Threads
  imports Ap_Prelude
begin

text \<open>
  The shell's threads: \<^verbatim>\<open>ecosap/shell/shell_thread.c\<close> (creation and the default cleanup callback),
  \<^verbatim>\<open>thread_cleanup.c\<close> (the thread that removes finished threads) and the start of the shell in \<^verbatim>\<open>init.c\<close>
  and \<^verbatim>\<open>shelltask.c\<close>.

  The heap is a map from addresses to blocks; an address is the number of the allocation, and
  \<open>malloc_ok n\<close> says whether allocation \<open>n\<close> succeeds. A thread is named by the address of its
  \<^verbatim>\<open>shell_thread_t\<close>. The kernel's mailbox and semaphore are a queue of bounded length and a counter:
  \<^verbatim>\<open>cyg_mbox_put\<close> waits while the mailbox is full and \<^verbatim>\<open>cyg_mbox_get\<close> while it is empty.
\<close>

section \<open>Creating threads\<close>

datatype shell_error = SHELL_OK | SHELL_ALLOC_ERROR | SHELL_INVALID_PTR | SHELL_INVALID_ARGUMENT
  | SHELL_THREAD_CREATE_FAIL | SHELL_PRIORITY_ERROR | SHELL_INVALID_THREAD_NAME | SHELL_INVALID_FUNC_PTR
  | SHELL_INVALID_STACK_SIZE

definition SHELL_THREAD_MAX_PRIORITY :: u32 where "SHELL_THREAD_MAX_PRIORITY = 1"
definition SHELL_THREAD_MIN_PRIORITY :: u32 where "SHELL_THREAD_MIN_PRIORITY = 31"
definition SHELL_STACK_MIN :: u32 where "SHELL_STACK_MIN = 1024 * 2"
definition SHELL_STACK_MAX :: u32 where "SHELL_STACK_MAX = 1024 * 16"
definition SHELL_STACK_DEFAULT :: u32 where "SHELL_STACK_DEFAULT = 1024 * 4"

text \<open>\<open>stack_ptr\<close> is \<open>None\<close> for the stack inside the structure; \<open>cleanup\<close> is \<open>None\<close> for the default callback.\<close>

record shell_thread =
  priority :: u32
  th_arg :: u32
  stack_size :: u32
  stack_ptr :: "nat option"
  name :: nat
  cleanup :: "nat option"

datatype block = Thread shell_thread | Name string

record threads =
  heap :: "nat \<Rightarrow> block option"
  allocs :: nat
  shell_global_thnum :: u32
  running :: "nat list"

definition malloc :: "(nat \<Rightarrow> bool) \<Rightarrow> block \<Rightarrow> threads \<Rightarrow> nat option \<times> threads" where
  "malloc malloc_ok b s =
     (if malloc_ok (allocs s)
      then (Some (allocs s), s\<lparr> heap := (heap s)(allocs s \<mapsto> b), allocs := allocs s + 1 \<rparr>)
      else (None, s\<lparr> allocs := allocs s + 1 \<rparr>))"

definition free :: "nat \<Rightarrow> threads \<Rightarrow> threads" where
  "free p s = s\<lparr> heap := (heap s)(p := None) \<rparr>"

text \<open>
  The arguments of \<^verbatim>\<open>shell_create_thread\<close>. \<open>func\<close> and \<open>stack\<close> are pointers; \<open>thread\<close> is \<open>None\<close> for NULL and
  otherwise what \<^verbatim>\<open>*thread\<close> holds. The result is the code, \<^verbatim>\<open>*thread\<close> and the state; \<^verbatim>\<open>cyg_thread_create\<close>
  and \<^verbatim>\<open>cyg_thread_resume\<close> add the thread to \<open>running\<close>.
\<close>

record create_args =
  c_thread :: "nat option option"
  c_priority :: u32
  c_func :: "nat option"
  c_arg :: u32
  c_name :: "string option"
  c_stack :: "nat option"
  c_stack_size :: u32
  c_cleanup :: "nat option"

definition shell_create_thread ::
  "(nat \<Rightarrow> bool) \<Rightarrow> create_args \<Rightarrow> threads \<Rightarrow> shell_error \<times> nat option option \<times> threads" where
  "shell_create_thread malloc_ok a s =
     (if c_priority a > SHELL_THREAD_MIN_PRIORITY \<or> c_priority a < SHELL_THREAD_MAX_PRIORITY
      then (SHELL_PRIORITY_ERROR, c_thread a, s)
      else if c_name a = Some [] then (SHELL_INVALID_THREAD_NAME, c_thread a, s)
      else if c_func a = None then (SHELL_INVALID_FUNC_PTR, c_thread a, s)
      else if c_stack a \<noteq> None \<and> (c_stack_size a < SHELL_STACK_MIN \<or> c_stack_size a > SHELL_STACK_MAX)
      then (SHELL_INVALID_STACK_SIZE, c_thread a, s)
      else
        (let nt0 = \<lparr> priority = c_priority a, th_arg = 0,
                      stack_size = (if c_stack a = None then SHELL_STACK_DEFAULT else c_stack_size a),
                      stack_ptr = c_stack a, name = 0, cleanup = None \<rparr>
         in case malloc malloc_ok (Thread nt0) s of
              (None, s1) \<Rightarrow> (SHELL_ALLOC_ERROR, c_thread a, s1)
            | (Some nt, s1) \<Rightarrow>
                (let s2 = (if c_name a = None then s1\<lparr> shell_global_thnum := shell_global_thnum s1 + 1 \<rparr> else s1);
                     text = (case c_name a of Some n \<Rightarrow> n
                       | None \<Rightarrow> take 62 (''Shell Thread['' @ show_int (sint (shell_global_thnum s2)) @ '']''))
                 in case malloc malloc_ok (Name text) s2 of
                      (None, s3) \<Rightarrow> (SHELL_ALLOC_ERROR, c_thread a, free nt s3)
                    | (Some p, s3) \<Rightarrow>
                        (let nt1 = nt0\<lparr> name := p, cleanup := c_cleanup a, th_arg := c_arg a \<rparr>;
                             thread = (case c_thread a of Some (Some _) \<Rightarrow> Some (Some nt) | t \<Rightarrow> t)
                         in (SHELL_OK, thread,
                             s3\<lparr> heap := (heap s3)(nt \<mapsto> Thread nt1), running := running s3 @ [nt] \<rparr>)))))"

section \<open>Starting the shell\<close>

datatype boot = Up threads | Reset | Returned threads

definition plain_thread :: "u32 \<Rightarrow> nat \<Rightarrow> string \<Rightarrow> nat option \<Rightarrow> u32 \<Rightarrow> create_args" where
  "plain_thread prio func text stack ssize =
     \<lparr> c_thread = None, c_priority = prio, c_func = Some func, c_arg = 0, c_name = Some text,
       c_stack = stack, c_stack_size = ssize, c_cleanup = None \<rparr>"

definition cleanup_thread_fn :: nat where "cleanup_thread_fn = 1"
definition shell_init_thread_fn :: nat where "shell_init_thread_fn = 2"
definition shelltask_fn :: nat where "shelltask_fn = 3"
definition st_stack :: nat where "st_stack = 4"

definition create_cleanup_thread :: "(nat \<Rightarrow> bool) \<Rightarrow> threads \<Rightarrow> boot" where
  "create_cleanup_thread malloc_ok s =
     (case shell_create_thread malloc_ok (plain_thread 5 cleanup_thread_fn ''Cleanup Thread'' None 0) s of
        (err, _, s1) \<Rightarrow> if err \<noteq> SHELL_OK then Reset else Up s1)"

definition create_shell_thread :: "(nat \<Rightarrow> bool) \<Rightarrow> threads \<Rightarrow> boot" where
  "create_shell_thread malloc_ok s =
     (case shell_create_thread malloc_ok (plain_thread 28 shelltask_fn ''Shell Shell'' (Some st_stack) SHELL_STACK_MAX) s of
        (err, _, s1) \<Rightarrow> if err \<noteq> SHELL_OK then Reset else Up s1)"

text \<open>\<^verbatim>\<open>apcli_start\<close>, up to \<^verbatim>\<open>main_cleanup\<close>.\<close>

definition apcli_start :: "(nat \<Rightarrow> bool) \<Rightarrow> threads \<Rightarrow> boot" where
  "apcli_start malloc_ok s =
     (case create_cleanup_thread malloc_ok s of
        Up s1 \<Rightarrow>
          (case shell_create_thread malloc_ok (plain_thread 8 shell_init_thread_fn ''Init Thread'' None 0) s1 of
             (err, _, s2) \<Rightarrow> if err \<noteq> SHELL_OK then Returned s2 else create_shell_thread malloc_ok s2)
      | b \<Rightarrow> b)"


section \<open>Removing finished threads\<close>

text \<open>
  A thread that is done calls its callback; the default one, \<^verbatim>\<open>shell_thread_cleanup\<close>, puts the thread into
  the mailbox and then posts the semaphore. The cleanup thread waits for the semaphore and then takes
  threads out of the mailbox: it kills and deletes each and frees its name and its structure. The
  steps of the threads and of the cleanup thread may come in any order.
\<close>

datatype tstate = Run | Put | Posted | Gone

datatype cleaner = WaitSem | GetMbox | Kill nat | Free nat

record system =
  ts :: threads
  state :: "nat \<Rightarrow> tstate"
  mbox :: "nat list"
  sem :: nat
  cleaner :: cleaner
  freed :: "nat list"

definition spawn :: "(nat \<Rightarrow> bool) \<Rightarrow> create_args \<Rightarrow> system \<Rightarrow> system" where
  "spawn malloc_ok a y =
     (case shell_create_thread malloc_ok a (ts y) of
        (SHELL_OK, _, s) \<Rightarrow> y\<lparr> ts := s, state := (state y)(last (running s) := Run) \<rparr>
      | (_, _, s) \<Rightarrow> y\<lparr> ts := s \<rparr>)"

definition default_cleanup :: "nat \<Rightarrow> threads \<Rightarrow> bool" where
  "default_cleanup t s \<longleftrightarrow> (case heap s t of Some (Thread th) \<Rightarrow> cleanup th = None | _ \<Rightarrow> False)"

text \<open>The two halves of \<^verbatim>\<open>shell_thread_cleanup\<close>; \<open>cap\<close> is the size of the mailbox.\<close>

definition cleanup_put :: "nat \<Rightarrow> nat \<Rightarrow> system \<Rightarrow> system option" where
  "cleanup_put cap t y =
     (if t \<in> set (running (ts y)) \<and> default_cleanup t (ts y) \<and> state y t = Run \<and> length (mbox y) < cap
      then Some (y\<lparr> mbox := mbox y @ [t], state := (state y)(t := Put) \<rparr>) else None)"

definition cleanup_post :: "nat \<Rightarrow> system \<Rightarrow> system option" where
  "cleanup_post t y =
     (if t \<in> set (running (ts y)) \<and> state y t = Put
      then Some (y\<lparr> sem := sem y + 1, state := (state y)(t := Posted) \<rparr>) else None)"

text \<open>The free step dereferences the structure: without it the step is a fault, \<open>Some None\<close>.\<close>

definition cleanup_thread :: "system \<Rightarrow> system option option" where
  "cleanup_thread y =
     (case cleaner y of
        WaitSem \<Rightarrow> if sem y = 0 then None else Some (Some (y\<lparr> sem := sem y - 1, cleaner := GetMbox \<rparr>))
      | GetMbox \<Rightarrow>
          (case mbox y of [] \<Rightarrow> None
           | nt # rest \<Rightarrow> Some (Some (y\<lparr> mbox := rest, cleaner := Kill nt \<rparr>)))
      | Kill nt \<Rightarrow>
          (case heap (ts y) nt of
             Some (Thread th) \<Rightarrow>
               Some (Some (y\<lparr> ts := (ts y)\<lparr> running := filter (\<lambda>t. t \<noteq> nt) (running (ts y)) \<rparr>,
                 state := (state y)(nt := Gone), cleaner := Free nt \<rparr>))
           | _ \<Rightarrow> Some None)
      | Free nt \<Rightarrow>
          (case heap (ts y) nt of
             Some (Thread th) \<Rightarrow>
               (if heap (ts y) (name th) = None then Some None
                else Some (Some (y\<lparr> ts := free nt (free (name th) (ts y)), cleaner := GetMbox, freed := freed y @ [nt] \<rparr>)))
           | _ \<Rightarrow> Some None))"

inductive sys_step :: "(nat \<Rightarrow> bool) \<Rightarrow> nat \<Rightarrow> system \<Rightarrow> system \<Rightarrow> bool" for malloc_ok cap where
  spawn: "sys_step malloc_ok cap y (spawn malloc_ok a y)"
| put: "cleanup_put cap t y = Some y' \<Longrightarrow> sys_step malloc_ok cap y y'"
| post: "cleanup_post t y = Some y' \<Longrightarrow> sys_step malloc_ok cap y y'"
| clean: "cleanup_thread y = Some (Some y') \<Longrightarrow> sys_step malloc_ok cap y y'"

inductive_cases sys_stepE: "sys_step malloc_ok cap y y'"

inductive sys_reach :: "(nat \<Rightarrow> bool) \<Rightarrow> nat \<Rightarrow> system \<Rightarrow> system \<Rightarrow> bool" for malloc_ok cap where
  refl: "sys_reach malloc_ok cap y y"
| step: "sys_reach malloc_ok cap y y1 \<Longrightarrow> sys_step malloc_ok cap y1 y2 \<Longrightarrow> sys_reach malloc_ok cap y y2"

definition empty_system :: system where
  "empty_system =
     \<lparr> ts = \<lparr> heap = (\<lambda>_. None), allocs = 0, shell_global_thnum = 0, running = [] \<rparr>, state = (\<lambda>_. Gone),
       mbox = [], sem = 0, cleaner = WaitSem, freed = [] \<rparr>"


section \<open>What creation does\<close>

definition valid_args :: "create_args \<Rightarrow> bool" where
  "valid_args a \<longleftrightarrow> 1 \<le> c_priority a \<and> c_priority a \<le> 31 \<and> c_name a \<noteq> Some [] \<and> c_func a \<noteq> None
     \<and> (c_stack a \<noteq> None \<longrightarrow> 2048 \<le> c_stack_size a \<and> c_stack_size a \<le> 16384)"

lemmas create_defs = shell_create_thread_def malloc_def free_def SHELL_THREAD_MIN_PRIORITY_def
  SHELL_THREAD_MAX_PRIORITY_def SHELL_STACK_MIN_def SHELL_STACK_MAX_def

lemma create_refused:
  assumes "\<not> valid_args a"
  shows "\<exists>e. e \<noteq> SHELL_OK \<and> shell_create_thread malloc_ok a s = (e, c_thread a, s)"
  using assms by (auto simp: create_defs valid_args_def not_le)

definition new_thread :: "create_args \<Rightarrow> nat \<Rightarrow> shell_thread" where
  "new_thread a p = \<lparr> priority = c_priority a, th_arg = c_arg a,
     stack_size = (if c_stack a = None then 4096 else c_stack_size a), stack_ptr = c_stack a, name = p,
     cleanup = c_cleanup a \<rparr>"

definition new_name :: "create_args \<Rightarrow> threads \<Rightarrow> string" where
  "new_name a s = (case c_name a of Some n \<Rightarrow> n
     | None \<Rightarrow> take 62 (''Shell Thread['' @ show_int (sint (shell_global_thnum s + 1)) @ '']''))"

lemma create_valid:
  assumes "valid_args a" "heap s (allocs s) = None"
  shows "malloc_ok (allocs s) \<and> malloc_ok (Suc (allocs s)) \<Longrightarrow>
      \<exists>t s'. shell_create_thread malloc_ok a s = (SHELL_OK, t, s') \<and> allocs s' = allocs s + 2
        \<and> heap s' = (heap s)(allocs s \<mapsto> Thread (new_thread a (Suc (allocs s))), Suc (allocs s) \<mapsto> Name (new_name a s))
        \<and> running s' = running s @ [allocs s]"
    and "\<not> (malloc_ok (allocs s) \<and> malloc_ok (Suc (allocs s))) \<Longrightarrow>
      \<exists>s'. shell_create_thread malloc_ok a s = (SHELL_ALLOC_ERROR, c_thread a, s') \<and> heap s' = heap s
        \<and> running s' = running s \<and> allocs s < allocs s'"
proof -
  have ok: "\<not> (c_priority a > 31 \<or> c_priority a < 1)" "c_name a \<noteq> Some []" "c_func a \<noteq> None"
    "\<not> (c_stack a \<noteq> None \<and> (c_stack_size a < 2048 \<or> c_stack_size a > 16384))"
    using assms(1) by (auto simp: valid_args_def not_le not_less)
  show "malloc_ok (allocs s) \<and> malloc_ok (Suc (allocs s)) \<Longrightarrow>
      \<exists>t s'. shell_create_thread malloc_ok a s = (SHELL_OK, t, s') \<and> allocs s' = allocs s + 2
        \<and> heap s' = (heap s)(allocs s \<mapsto> Thread (new_thread a (Suc (allocs s))), Suc (allocs s) \<mapsto> Name (new_name a s))
        \<and> running s' = running s @ [allocs s]"
    using ok by (simp add: create_defs Let_def new_thread_def new_name_def SHELL_STACK_DEFAULT_def fun_upd_twist
        split: option.splits)
  have undo: "(heap s)(allocs s := None) = heap s" using assms(2) by auto
  show "\<not> (malloc_ok (allocs s) \<and> malloc_ok (Suc (allocs s))) \<Longrightarrow>
      \<exists>s'. shell_create_thread malloc_ok a s = (SHELL_ALLOC_ERROR, c_thread a, s') \<and> heap s' = heap s
        \<and> running s' = running s \<and> allocs s < allocs s'"
    using ok undo by (auto simp: create_defs Let_def)
qed


section \<open>The invariant\<close>

text \<open>The heap holds a structure and a name for every thread of \<open>own\<close>, and nothing else; \<open>nm\<close> says which
  name belongs to which thread.\<close>

definition owns :: "threads \<Rightarrow> (nat \<Rightarrow> nat) \<Rightarrow> nat \<Rightarrow> bool" where
  "owns s nm t \<longleftrightarrow> (\<exists>th. heap s t = Some (Thread th) \<and> name th = nm t) \<and> (\<exists>n. heap s (nm t) = Some (Name n))"

definition heap_ok :: "threads \<Rightarrow> nat set \<Rightarrow> bool" where
  "heap_ok s own \<longleftrightarrow>
     (\<exists>nm. (\<forall>t \<in> own. owns s nm t) \<and> inj_on nm own \<and> dom (heap s) = own \<union> nm ` own)
     \<and> (\<forall>p \<in> dom (heap s). p < allocs s)"

definition pending :: "system \<Rightarrow> nat list" where
  "pending y = (case cleaner y of Kill t \<Rightarrow> [t] | _ \<Rightarrow> []) @ mbox y"

definition leaving :: "system \<Rightarrow> nat set" where
  "leaving y = (case cleaner y of Free t \<Rightarrow> {t} | _ \<Rightarrow> {})"

definition sys_inv :: "system \<Rightarrow> bool" where
  "sys_inv y \<longleftrightarrow>
     heap_ok (ts y) (set (running (ts y)) \<union> leaving y)
     \<and> distinct (running (ts y)) \<and> set (running (ts y)) \<inter> leaving y = {}
     \<and> distinct (pending y) \<and> set (pending y) \<subseteq> set (running (ts y))
     \<and> (\<forall>t \<in> set (running (ts y)). t \<in> set (pending y) \<longleftrightarrow> state y t \<in> {Put, Posted})
     \<and> (\<forall>t \<in> set (running (ts y)). state y t \<noteq> Gone)
     \<and> distinct (freed y) \<and> (\<forall>t \<in> set (freed y). heap (ts y) t = None \<and> t < allocs (ts y))
     \<and> (cleaner y = WaitSem \<and> sem y = 0 \<longrightarrow> (\<forall>t \<in> set (running (ts y)). state y t \<noteq> Posted))"

lemma heap_ok_fresh: "heap_ok s own \<Longrightarrow> allocs s \<le> p \<Longrightarrow> heap s p = None"
  by (auto simp: heap_ok_def dom_def not_less [symmetric])

lemma heap_ok_owned: "heap_ok s own \<Longrightarrow> t \<in> own \<Longrightarrow> t < allocs s"
  by (auto simp: heap_ok_def)

lemma heap_ok_more_allocs: "heap_ok s own \<Longrightarrow> heap s' = heap s \<Longrightarrow> allocs s \<le> allocs s' \<Longrightarrow> heap_ok s' own"
  unfolding heap_ok_def owns_def by (simp only: ) (metis less_le_trans)

lemma heap_ok_create:
  assumes "heap_ok s own" "allocs s' = allocs s + 2" "name th = Suc (allocs s)"
    and "heap s' = (heap s)(allocs s \<mapsto> Thread th, Suc (allocs s) \<mapsto> Name n)"
  shows "heap_ok s' (insert (allocs s) own)"
proof -
  obtain nm where nm: "\<forall>t \<in> own. owns s nm t" "inj_on nm own" "dom (heap s) = own \<union> nm ` own"
    "\<forall>p \<in> dom (heap s). p < allocs s"
    using assms(1) by (auto simp: heap_ok_def)
  let ?nm = "nm(allocs s := Suc (allocs s))"
  have lt: "t < allocs s" "nm t < allocs s" if "t \<in> own" for t using nm(3,4) that by auto
  have "owns s' ?nm t" if "t \<in> own" for t
    using nm(1) that lt [OF that] assms(4) by (auto simp: owns_def)
  moreover have "owns s' ?nm (allocs s)" using assms(3,4) by (simp add: owns_def)
  moreover have img: "?nm ` own = nm ` own" using lt(1) by (auto simp: image_def)
  moreover have "inj_on ?nm (insert (allocs s) own)"
  proof -
    have "nm t \<noteq> Suc (allocs s)" if "t \<in> own" for t using lt(2) [OF that] by simp
    then have "Suc (allocs s) \<notin> nm ` own" by (metis image_iff)
    then have "inj_on ?nm own" by (rule inj_on_fun_updI [OF nm(2)])
    moreover have "Suc (allocs s) \<notin> ?nm ` (own - {allocs s})"
      using \<open>Suc (allocs s) \<notin> nm ` own\<close> img by blast
    ultimately show ?thesis by (simp add: inj_on_insert)
  qed
  moreover have "dom (heap s') = insert (allocs s) own \<union> ?nm ` insert (allocs s) own"
    using nm(3) assms(4) img by auto
  moreover have "\<forall>p \<in> dom (heap s'). p < allocs s'"
    using nm(4) assms(2,4) by (auto simp: dom_def split: if_splits)
  ultimately show ?thesis unfolding heap_ok_def by blast
qed

lemma heap_ok_free:
  assumes "heap_ok s own" "t \<in> own"
  obtains th n where "heap s t = Some (Thread th)" "heap s (name th) = Some (Name n)"
    "heap_ok (free t (free (name th) s)) (own - {t})"
proof -
  obtain nm where nm: "\<forall>t \<in> own. owns s nm t" "inj_on nm own" "dom (heap s) = own \<union> nm ` own"
    "\<forall>p \<in> dom (heap s). p < allocs s"
    using assms(1) by (auto simp: heap_ok_def)
  obtain th n where th: "heap s t = Some (Thread th)" "name th = nm t" "heap s (nm t) = Some (Name n)"
    using nm(1) assms(2) by (auto simp: owns_def)
  let ?s = "free t (free (name th) s)"
  have sep: "u \<noteq> nm v" if uv: "u \<in> own" "v \<in> own" for u v
  proof
    assume "u = nm v"
    moreover obtain uh where "heap s u = Some (Thread uh)" using nm(1) uv(1) by (auto simp: owns_def)
    moreover obtain n where "heap s (nm v) = Some (Name n)" using nm(1) uv(2) by (auto simp: owns_def)
    ultimately show False by simp
  qed
  have ne: "nm u \<noteq> nm t" if "u \<in> own - {t}" for u using nm(2) assms(2) that by (auto dest: inj_onD)
  have "\<forall>u \<in> own - {t}. owns ?s nm u"
    using nm(1) th(2) sep ne assms(2) by (auto simp: owns_def free_def)
  moreover have "dom (heap ?s) = (own - {t}) \<union> nm ` (own - {t})"
  proof -
    have "nm ` (own - {t}) = nm ` own - {nm t}"
      using inj_on_image_set_diff [OF nm(2), of own "{t}"] assms(2) by simp
    moreover have "t \<notin> nm ` own" "nm t \<notin> own" using sep assms(2) by blast+
    moreover have "dom (heap ?s) = dom (heap s) - {t, nm t}" by (auto simp: free_def th(2))
    ultimately show ?thesis unfolding nm(3) by (metis (no_types) Diff_insert2 Un_Diff Diff_insert Diff_insert0 Diff_empty)
  qed
  moreover have "\<forall>p \<in> dom (heap ?s). p < allocs ?s" using nm(4) by (auto simp: free_def split: if_splits)
  moreover have "inj_on nm (own - {t})" using nm(2) by (rule inj_on_subset) blast
  ultimately have "heap_ok ?s (own - {t})" unfolding heap_ok_def by (intro conjI exI [of _ nm])
  then show thesis using that th by simp
qed


lemma spawn_inv:
  assumes "sys_inv y"
  shows "sys_inv (spawn malloc_ok a y)"
proof -
  let ?s = "ts y"
  let ?own = "set (running ?s) \<union> leaving y"
  have hok: "heap_ok ?s ?own" using assms by (simp add: sys_inv_def)
  note fresh = heap_ok_fresh [OF hok]
  have keep: "sys_inv (y\<lparr> ts := s' \<rparr>)" if "heap s' = heap ?s" "running s' = running ?s" "allocs ?s \<le> allocs s'" for s'
    using assms that heap_ok_more_allocs [OF hok that(1,3)]
    by (auto simp: sys_inv_def pending_def leaving_def)
  show ?thesis
  proof (cases "valid_args a \<and> malloc_ok (allocs ?s) \<and> malloc_ok (Suc (allocs ?s))")
    case False
    then obtain e t s' where c: "shell_create_thread malloc_ok a ?s = (e, t, s')" "e \<noteq> SHELL_OK"
      "heap s' = heap ?s" "running s' = running ?s" "allocs ?s \<le> allocs s'"
      using create_refused [of a malloc_ok ?s] create_valid(2) [of a ?s malloc_ok] fresh by fastforce
    then have "spawn malloc_ok a y = y\<lparr> ts := s' \<rparr>" by (cases e) (simp_all add: spawn_def)
    with keep [OF c(3-5)] show ?thesis by simp
  next
    case True
    then obtain t s' where c: "shell_create_thread malloc_ok a ?s = (SHELL_OK, t, s')" "allocs s' = allocs ?s + 2"
      "heap s' = (heap ?s)(allocs ?s \<mapsto> Thread (new_thread a (Suc (allocs ?s))), Suc (allocs ?s) \<mapsto> Name (new_name a ?s))"
      "running s' = running ?s @ [allocs ?s]"
      using create_valid(1) [of a ?s malloc_ok] fresh by auto
    let ?n = "allocs ?s"
    have y': "spawn malloc_ok a y = y\<lparr> ts := s', state := (state y)(?n := Run) \<rparr>"
      using c(1,4) by (simp add: spawn_def)
    have own: "?n \<notin> ?own" using heap_ok_owned [OF hok, of ?n] by blast
    moreover have "set (pending y) \<subseteq> set (running ?s)" using assms by (simp add: sys_inv_def)
    ultimately have new: "?n \<notin> set (running ?s)" "?n \<notin> leaving y" "?n \<notin> set (pending y)" by blast+
    have "heap_ok s' (insert ?n ?own)"
      using heap_ok_create [OF hok c(2) _ c(3)] by (simp add: new_thread_def)
    moreover have "heap s' t = None" if "t < ?n" "heap ?s t = None" for t using that c(3) by simp
    ultimately show ?thesis
      using assms new c(2,4) unfolding y' sys_inv_def pending_def leaving_def
      by (auto simp: less_Suc_eq)
  qed
qed


lemma put_inv:
  assumes "sys_inv y" "cleanup_put cap t y = Some y'"
  shows "sys_inv y'"
proof -
  have t: "t \<in> set (running (ts y))" "state y t = Run"
    and y': "y' = y\<lparr> mbox := mbox y @ [t], state := (state y)(t := Put) \<rparr>"
    using assms(2) by (auto simp: cleanup_put_def split: if_splits)
  have "pending y' = pending y @ [t]" "leaving y' = leaving y" by (simp_all add: y' pending_def leaving_def)
  moreover have "t \<notin> set (pending y)" using assms(1) t by (auto simp: sys_inv_def)
  ultimately show ?thesis using assms(1) t unfolding sys_inv_def y' by auto
qed

lemma post_inv:
  assumes "sys_inv y" "cleanup_post t y = Some y'"
  shows "sys_inv y'"
proof -
  have t: "t \<in> set (running (ts y))" "state y t = Put"
    and y': "y' = y\<lparr> sem := sem y + 1, state := (state y)(t := Posted) \<rparr>"
    using assms(2) by (auto simp: cleanup_post_def split: if_splits)
  have "pending y' = pending y" "leaving y' = leaving y" by (simp_all add: y' pending_def leaving_def)
  then show ?thesis using assms(1) t unfolding sys_inv_def y' by auto
qed

text \<open>The cleanup thread never finds a structure or a name missing.\<close>

lemma clean_inv:
  assumes "sys_inv y" "cleanup_thread y = Some r"
  shows "\<exists>y'. r = Some y' \<and> sys_inv y'"
proof (cases "cleaner y")
  case WaitSem
  with assms show ?thesis
    by (auto simp: cleanup_thread_def sys_inv_def pending_def leaving_def split: if_splits)
next
  case GetMbox
  with assms show ?thesis
    by (auto simp: cleanup_thread_def sys_inv_def pending_def leaving_def split: list.splits)
next
  case (Kill t)
  then have t: "t \<in> set (running (ts y))" "t \<notin> set (mbox y)" using assms(1) by (auto simp: sys_inv_def pending_def)
  then obtain th where "heap (ts y) t = Some (Thread th)"
    using assms(1) Kill by (auto simp: sys_inv_def heap_ok_def owns_def leaving_def)
  moreover define y1 where "y1 = y\<lparr> ts := (ts y)\<lparr> running := filter (\<lambda>u. u \<noteq> t) (running (ts y)) \<rparr>,
      state := (state y)(t := Gone), cleaner := Free t \<rparr>"
  ultimately have "r = Some y1" using assms(2) Kill by (simp add: cleanup_thread_def)
  moreover have "set (running (ts y1)) \<union> leaving y1 = set (running (ts y)) \<union> leaving y"
    using t Kill by (auto simp: y1_def leaving_def)
  moreover have "heap_ok (ts y1) own = heap_ok (ts y) own" for own by (simp add: y1_def heap_ok_def owns_def)
  ultimately show ?thesis
    using assms(1) Kill t by (auto simp: sys_inv_def pending_def leaving_def y1_def)
next
  case (Free t)
  then have tin: "t \<in> set (running (ts y)) \<union> leaving y" by (simp add: leaving_def)
  have hk: "heap_ok (ts y) (set (running (ts y)) \<union> leaving y)" using assms(1) by (simp add: sys_inv_def)
  obtain th n where th: "heap (ts y) t = Some (Thread th)" "heap (ts y) (name th) = Some (Name n)"
    and h: "heap_ok (free t (free (name th) (ts y))) ((set (running (ts y)) \<union> leaving y) - {t})"
    by (rule heap_ok_free [OF hk tin])
  have lv: "leaving y = {t}" using Free by (simp add: leaving_def)
  have hok: "heap_ok (ts y) (set (running (ts y)) \<union> {t})" using hk lv by simp
  have inv: "set (running (ts y)) \<inter> {t} = {}" "\<forall>u \<in> set (freed y). heap (ts y) u = None \<and> u < allocs (ts y)"
    using assms(1) lv unfolding sys_inv_def by (metis, blast)
  have t: "t < allocs (ts y)" "t \<notin> set (running (ts y))" "t \<notin> set (freed y)"
    using heap_ok_owned [OF hok, of t] inv th(1) by auto
  define y1 where "y1 = y\<lparr> ts := free t (free (name th) (ts y)), cleaner := GetMbox, freed := freed y @ [t] \<rparr>"
  have "r = Some y1" using assms(2) Free th by (simp add: cleanup_thread_def y1_def)
  moreover have "heap_ok (ts y1) (set (running (ts y1)) \<union> leaving y1)"
  proof -
    have "(set (running (ts y)) \<union> leaving y) - {t} = set (running (ts y))" using t(2) lv by auto
    with h show ?thesis by (simp add: y1_def leaving_def free_def)
  qed
  moreover have "pending y1 = pending y" "leaving y1 = {}" "running (ts y1) = running (ts y)" "state y1 = state y"
    "freed y1 = freed y @ [t]" "cleaner y1 = GetMbox"
    using Free by (simp_all add: y1_def pending_def leaving_def free_def)
  moreover have "\<forall>u \<in> set (freed y1). heap (ts y1) u = None \<and> u < allocs (ts y1)"
    using inv(2) t(1) by (simp add: y1_def free_def)
  ultimately have "sys_inv y1" "r = Some y1"
    using assms(1) t(3) unfolding sys_inv_def by simp_all
  then show ?thesis by blast
qed

lemma step_inv: "sys_step malloc_ok cap y y' \<Longrightarrow> sys_inv y \<Longrightarrow> sys_inv y'"
  by (erule sys_stepE) (auto dest: put_inv post_inv clean_inv intro: spawn_inv)

lemma sys_reach_inv: "sys_reach malloc_ok cap y y' \<Longrightarrow> sys_inv y \<Longrightarrow> sys_inv y'"
  by (induction rule: sys_reach.induct) (auto dest: step_inv)

lemma empty_inv: "sys_inv empty_system"
  by (auto simp: sys_inv_def empty_system_def heap_ok_def pending_def leaving_def)


section \<open>Progress of the cleanup thread\<close>

text \<open>The threads still to be freed, in order, and the steps that takes.\<close>

definition work_list :: "system \<Rightarrow> nat list" where
  "work_list y = (case cleaner y of Kill t \<Rightarrow> [t] | Free t \<Rightarrow> [t] | _ \<Rightarrow> []) @ mbox y"

definition work_left :: "system \<Rightarrow> nat" where
  "work_left y = 3 * length (mbox y) + (case cleaner y of Kill t \<Rightarrow> 2 | Free t \<Rightarrow> 1 | _ \<Rightarrow> 0)"

lemma clean_progress:
  assumes "sys_inv y" "cleaner y \<noteq> WaitSem" "work_list y \<noteq> []"
  shows "\<exists>y'. cleanup_thread y = Some (Some y') \<and> freed y' @ work_list y' = freed y @ work_list y
    \<and> work_left y' < work_left y \<and> cleaner y' \<noteq> WaitSem"
proof -
  have "\<exists>r. cleanup_thread y = Some r"
    using assms(2,3) by (auto simp: cleanup_thread_def work_list_def split: cleaner.splits list.splits option.splits block.splits)
  then obtain y' where y': "cleanup_thread y = Some (Some y')" using clean_inv [OF assms(1)] by blast
  then have "freed y' @ work_list y' = freed y @ work_list y \<and> work_left y' < work_left y \<and> cleaner y' \<noteq> WaitSem"
    using assms(2)
    by (auto simp: cleanup_thread_def work_list_def work_left_def split: cleaner.splits list.splits option.splits block.splits if_splits)
  with y' show ?thesis by blast
qed

text \<open>The steps of the cleanup thread, and the second half of the callbacks that wake it.\<close>

inductive tidy :: "system \<Rightarrow> system \<Rightarrow> bool" where
  post: "cleanup_post t y = Some y' \<Longrightarrow> tidy y y'"
| clean: "cleanup_thread y = Some (Some y') \<Longrightarrow> tidy y y'"

lemma tidy_inv: "rtranclp tidy y y' \<Longrightarrow> sys_inv y \<Longrightarrow> sys_inv y'"
  by (induction rule: rtranclp_induct) (auto elim!: tidy.cases dest: post_inv clean_inv)

lemma drain_awake:
  assumes "sys_inv y" "cleaner y \<noteq> WaitSem"
  shows "\<exists>y'. rtranclp tidy y y' \<and> freed y' = freed y @ work_list y \<and> work_list y' = []"
  using assms
proof (induction "work_left y" arbitrary: y rule: less_induct)
  case less
  show ?case
  proof (cases "work_list y = []")
    case True
    then show ?thesis by (intro exI [of _ y]) simp
  next
    case False
    then obtain y1 where y1: "cleanup_thread y = Some (Some y1)" "freed y1 @ work_list y1 = freed y @ work_list y"
      "work_left y1 < work_left y" "cleaner y1 \<noteq> WaitSem"
      using clean_progress less.prems by blast
    then have step: "rtranclp tidy y y1" by (intro r_into_rtranclp tidy.clean)
    obtain y2 where "rtranclp tidy y1 y2" "freed y2 = freed y1 @ work_list y1" "work_list y2 = []"
      using less.hyps [OF y1(3) _ y1(4)] tidy_inv [OF step less.prems(1)] by blast
    then show ?thesis using rtranclp_trans [OF step] y1(2) by metis
  qed
qed

lemma wake:
  assumes "sys_inv y" "cleaner y = WaitSem" "mbox y \<noteq> []"
  shows "\<exists>y'. rtranclp tidy y y' \<and> cleaner y' \<noteq> WaitSem \<and> work_list y' = work_list y \<and> freed y' = freed y"
proof -
  have wait: "\<exists>y'. rtranclp tidy z y' \<and> cleaner y' \<noteq> WaitSem \<and> work_list y' = work_list y \<and> freed y' = freed y"
    if "cleaner z = WaitSem" "sem z \<noteq> 0" "mbox z = mbox y" "freed z = freed y" for z
  proof -
    have "cleanup_thread z = Some (Some (z\<lparr> sem := sem z - 1, cleaner := GetMbox \<rparr>))"
      using that by (simp add: cleanup_thread_def)
    then have "rtranclp tidy z (z\<lparr> sem := sem z - 1, cleaner := GetMbox \<rparr>)"
      by (intro r_into_rtranclp tidy.clean)
    then show ?thesis using that assms(2) by (intro exI conjI) (assumption, simp_all add: work_list_def)
  qed
  show ?thesis
  proof (cases "sem y = 0")
    case False
    then show ?thesis using wait assms(2) by blast
  next
    case True
    obtain t where t: "t \<in> set (mbox y)" using assms(3) by (cases "mbox y") auto
    then have run: "t \<in> set (running (ts y))" using assms(1) by (auto simp: sys_inv_def pending_def)
    then have "state y t = Put"
      using assms(1,2) t True by (auto simp: sys_inv_def pending_def)
    with run have "cleanup_post t y = Some (y\<lparr> sem := sem y + 1, state := (state y)(t := Posted) \<rparr>)"
      by (simp add: cleanup_post_def)
    then have step: "rtranclp tidy y (y\<lparr> sem := sem y + 1, state := (state y)(t := Posted) \<rparr>)"
      by (intro r_into_rtranclp tidy.post)
    from wait [of "y\<lparr> sem := sem y + 1, state := (state y)(t := Posted) \<rparr>"] assms(2)
    show ?thesis using rtranclp_trans [OF step] by fastforce
  qed
qed

lemma drain:
  assumes "sys_inv y"
  shows "\<exists>y'. rtranclp tidy y y' \<and> freed y' = freed y @ work_list y \<and> work_list y' = []"
proof (cases "cleaner y = WaitSem")
  case False
  then show ?thesis using drain_awake assms by blast
next
  case True
  show ?thesis
  proof (cases "mbox y = []")
    case mb: True
    then have "work_list y = []" using True by (simp add: work_list_def)
    then show ?thesis by (intro exI [of _ y]) simp
  next
    case False
    then obtain y1 where y1: "rtranclp tidy y y1" "cleaner y1 \<noteq> WaitSem" "work_list y1 = work_list y" "freed y1 = freed y"
      using wake [OF assms True] by blast
    then show ?thesis
      using drain_awake [OF tidy_inv [OF y1(1) assms] y1(2)] rtranclp_trans [OF y1(1)] by metis
  qed
qed

section \<open>Properties\<close>

text \<open>
  Creating a thread either works or leaves nothing behind: it succeeds exactly when priority, name,
  function and stack are valid and both allocations succeed, and then adds one thread with its structure
  and its name; in every other case heap and threads are as before and an error is returned.
\<close>

theorem thread_creation_is_all_or_nothing:
  assumes "heap s (allocs s) = None"
  shows "case shell_create_thread malloc_ok a s of (e, t, s') \<Rightarrow>
     if valid_args a \<and> malloc_ok (allocs s) \<and> malloc_ok (Suc (allocs s))
     then e = SHELL_OK \<and> running s' = running s @ [allocs s]
       \<and> heap s' = (heap s)(allocs s \<mapsto> Thread (new_thread a (Suc (allocs s))), Suc (allocs s) \<mapsto> Name (new_name a s))
     else e \<noteq> SHELL_OK \<and> running s' = running s \<and> heap s' = heap s"
  using create_refused [of a malloc_ok s] create_valid(1,2) [of a s malloc_ok] assms
  by (cases "valid_args a"; cases "malloc_ok (allocs s) \<and> malloc_ok (Suc (allocs s))") auto

theorem thread_creation_is_all_or_nothing_witness:
  "fst (shell_create_thread (\<lambda>_. True) (plain_thread 8 shell_init_thread_fn ''Init Thread'' None 0) (ts empty_system)) = SHELL_OK"
  using thread_creation_is_all_or_nothing [of "ts empty_system" "plain_thread 8 shell_init_thread_fn ''Init Thread'' None 0" "\<lambda>_. True"]
  by (simp add: empty_system_def valid_args_def plain_thread_def split: prod.splits)

text \<open>
  (C36) Finished threads are removed safely, however threads and the cleanup thread interleave: the cleanup
  thread never touches memory that has been freed, no thread is freed twice, a freed thread no longer
  runs, and every block on the heap belongs to a thread that still exists.
\<close>

theorem cleanup_is_safe:
  assumes "sys_reach malloc_ok cap empty_system y"
  shows "cleanup_thread y \<noteq> Some None \<and> distinct (freed y)
     \<and> (\<forall>t \<in> set (freed y). t \<notin> set (running (ts y)) \<and> heap (ts y) t = None)
     \<and> heap_ok (ts y) (set (running (ts y)) \<union> leaving y)"
proof -
  have inv: "sys_inv y" using sys_reach_inv [OF assms empty_inv] .
  have "t \<notin> set (running (ts y))" if "heap (ts y) t = None" for t
    using inv that by (auto simp: sys_inv_def heap_ok_def owns_def)
  with inv clean_inv [OF inv] show ?thesis by (auto simp: sys_inv_def)
qed

text \<open>Two threads; the second has finished.\<close>

definition demo_system :: system where
  "demo_system =
     (let y1 = spawn (\<lambda>_. True) (plain_thread 5 cleanup_thread_fn ''Cleanup Thread'' None 0) empty_system;
          y2 = spawn (\<lambda>_. True) (plain_thread 8 shell_init_thread_fn ''Init Thread'' None 0) y1
      in the (cleanup_put 10 2 y2))"

lemma demo_system_put: "\<exists>y2. sys_reach (\<lambda>_. True) 10 empty_system y2 \<and> cleanup_put 10 2 y2 = Some demo_system"
proof -
  let ?y1 = "spawn (\<lambda>_. True) (plain_thread 5 cleanup_thread_fn ''Cleanup Thread'' None 0) empty_system"
  let ?y2 = "spawn (\<lambda>_. True) (plain_thread 8 shell_init_thread_fn ''Init Thread'' None 0) ?y1"
  have "sys_reach (\<lambda>_. True) 10 empty_system ?y2" 
    by (rule sys_reach.step [OF sys_reach.step [OF sys_reach.refl sys_step.spawn] sys_step.spawn])
  moreover have "case cleanup_put 10 2 ?y2 of None \<Rightarrow> False | Some _ \<Rightarrow> True" by code_simp
  then have "cleanup_put 10 2 ?y2 = Some demo_system" by (simp add: demo_system_def Let_def split: option.splits)
  ultimately show ?thesis by blast
qed

lemma demo_system_reach: "sys_reach (\<lambda>_. True) 10 empty_system demo_system"
  using demo_system_put sys_reach.step sys_step.put by blast

theorem cleanup_is_safe_witness: "cleanup_thread demo_system \<noteq> Some None \<and> distinct (freed demo_system)"
  using cleanup_is_safe [OF demo_system_reach] by blast

text \<open>
  (C37) No finished thread is forgotten: from every reachable state the cleanup thread can go on, woken where
  needed by the threads in the mailbox themselves, until each of them has been freed, in the order in
  which they were put there, and none is left.
\<close>

theorem finished_threads_are_freed:
  assumes "sys_reach malloc_ok cap empty_system y"
  shows "\<exists>y'. rtranclp tidy y y' \<and> freed y' = freed y @ work_list y \<and> work_list y' = []"
  by (rule drain [OF sys_reach_inv [OF assms empty_inv]])

theorem finished_threads_are_freed_witness:
  "\<exists>y'. rtranclp tidy demo_system y' \<and> freed y' = [2] \<and> work_list y' = []"
proof -
  have "mbox demo_system = [2]" "freed demo_system = []" "cleaner demo_system = WaitSem" by code_simp+
  then show ?thesis using finished_threads_are_freed [OF demo_system_reach] by (simp add: work_list_def)
qed

text \<open>
  The mailbox call blocks instead of returning NULL, so the inner loop of the cleanup thread never ends:
  it waits for the semaphore once in its life.
\<close>

lemma semaphore_waited_once:
  "sys_reach malloc_ok cap y y' \<Longrightarrow> cleaner y \<noteq> WaitSem \<Longrightarrow> cleaner y' \<noteq> WaitSem"
proof (induction rule: sys_reach.induct)
  case (step y y1 y2)
  have "cleaner y2 \<noteq> WaitSem" if "cleaner y1 \<noteq> WaitSem"
    using step.hyps(2) that
    by (cases rule: sys_step.cases)
       (auto simp: spawn_def cleanup_put_def cleanup_post_def cleanup_thread_def
          split: prod.splits shell_error.splits if_splits cleaner.splits list.splits option.splits block.splits)
  with step show ?case by blast
qed


text \<open>
  The shell starts with its three threads when the six allocations for them succeed, and otherwise does not
  come up: the board is reset, or \<^verbatim>\<open>apcli_start\<close> returns when it was the init thread that failed.
\<close>

lemma plain_valid:
  "valid_args (plain_thread 5 cleanup_thread_fn ''Cleanup Thread'' None 0)"
  "valid_args (plain_thread 8 shell_init_thread_fn ''Init Thread'' None 0)"
  "valid_args (plain_thread 28 shelltask_fn ''Shell Shell'' (Some st_stack) SHELL_STACK_MAX)"
  by (simp_all add: valid_args_def plain_thread_def SHELL_STACK_MAX_def)

lemma shell_start_threads:
  assumes "\<forall>p \<ge> allocs s. heap s p = None" "\<forall>i < 6. malloc_ok (allocs s + i)"
  shows "\<exists>s'. apcli_start malloc_ok s = Up s' \<and> running s' = running s @ [allocs s, allocs s + 2, allocs s + 4]"
proof -
  have ok: "malloc_ok (allocs s)" "malloc_ok (Suc (allocs s))" "malloc_ok (allocs s + 2)" "malloc_ok (Suc (allocs s + 2))"
    "malloc_ok (allocs s + 4)" "malloc_ok (Suc (allocs s + 4))"
    using assms(2) [rule_format, of 0] assms(2) [rule_format, of 1] assms(2) [rule_format, of 2]
      assms(2) [rule_format, of 3] assms(2) [rule_format, of 4] assms(2) [rule_format, of 5]
    by (simp_all add: numeral_eq_Suc)
  obtain t1 s1 where s1: "shell_create_thread malloc_ok (plain_thread 5 cleanup_thread_fn ''Cleanup Thread'' None 0) s = (SHELL_OK, t1, s1)"
    "allocs s1 = allocs s + 2" "running s1 = running s @ [allocs s]" "\<forall>p \<ge> allocs s1. heap s1 p = None"
    using create_valid(1) [OF plain_valid(1), of s malloc_ok] assms(1) ok by fastforce
  obtain t2 s2 where s2: "shell_create_thread malloc_ok (plain_thread 8 shell_init_thread_fn ''Init Thread'' None 0) s1 = (SHELL_OK, t2, s2)"
    "allocs s2 = allocs s + 4" "running s2 = running s1 @ [allocs s1]" "\<forall>p \<ge> allocs s2. heap s2 p = None"
    using create_valid(1) [OF plain_valid(2), of s1 malloc_ok] s1(2,4) ok by fastforce
  obtain t3 s3 where s3: "shell_create_thread malloc_ok (plain_thread 28 shelltask_fn ''Shell Shell'' (Some st_stack) SHELL_STACK_MAX) s2
      = (SHELL_OK, t3, s3)" "running s3 = running s2 @ [allocs s2]"
    using create_valid(1) [OF plain_valid(3), of s2 malloc_ok] s2(2,4) ok by fastforce
  with s1 s2 show ?thesis
    by (simp add: apcli_start_def create_cleanup_thread_def create_shell_thread_def)
qed

end
