(* ===== verification/Ap_Main.thy ===== *)
theory Ap_Main
  imports Wan_Link Ap_Wlan Conf_Flash Shell_Threads
begin

text \<open>
  The access point itself: \<^verbatim>\<open>main\<close>, \<^verbatim>\<open>ecosap_start\<close> and \<^verbatim>\<open>ecosap_stop\<close> of \<^verbatim>\<open>ecosap/ecosap.c\<close> with the start functions of
  \<^verbatim>\<open>apconfig.c\<close>, \<^verbatim>\<open>aplan.c\<close>, \<^verbatim>\<open>apipfw.c\<close> and \<^verbatim>\<open>apwan.c\<close>.

  The shell threads, the configuration, the wireless start-up and the WAN are the models of the other theories; the packages
  that are not in the repository (bridge, VLAN, DHCP server, NAT start-up, \<^verbatim>\<open>apcli_stop\<close>) are calls \<open>Comp\<close> of the network stack
  parameter. The components IGMP, HTTPD, SNTP and DNS cache are configured out, as in the other theories, and
  \<^verbatim>\<open>show_nw_config\<close> only prints.

  The Ethernet driver writes \<^verbatim>\<open>eth0_flag\<close> and the PPP package \<^verbatim>\<open>is_ppp_up\<close> while \<^verbatim>\<open>main\<close> runs: a round of the main loop takes what
  they have written during its delay and what the driver writes while the round handles an event.
\<close>

section \<open>State\<close>

record ('k, 'f) ap =
  shell :: threads
  link :: "('k, 'f) wan"
  eth0_flag :: u8
  f_changed :: int

record events =
  flag_before :: "u8 option"
  flag_during :: "u8 option"
  ppp_before :: "int option"

definition call :: "('k, 'f) wan_env \<Rightarrow> kreq \<Rightarrow> ('k, 'f) wan \<Rightarrow> ('k, 'f) wan" where
  "call e r w = w\<lparr> eth0 := (eth0 w)\<lparr> world := snd (wan_kern e r (world (eth0 w))) \<rparr> \<rparr>"

section \<open>Start functions\<close>

definition apconfig_start :: "('k, 'f) wan_env \<Rightarrow> ('k, 'f) ap \<Rightarrow> ('k, 'f) ap cres" where
  "apconfig_start e a =
     bind_ok (ecosap_nw_default_start (cops (dhcp e)) (net (eth0 (link a)))) (\<lambda>n.
     Inr (a\<lparr> link := (link a)\<lparr> eth0 := (eth0 (link a))\<lparr> net := n \<rparr> \<rparr>, f_changed := 0 \<rparr>))"

definition aplan_start :: "'k ext_tools \<Rightarrow> ('k, 'f) wan_env \<Rightarrow> ('k, 'f) wan \<Rightarrow> ('k, 'f) wan cres" where
  "aplan_start tools e w =
     (let w1 = call e (Comp ''start_bridge_interface'' []) w; c = eth0 w1 in
      bind_ok (apwlan_init tools (net c) (world c)) (\<lambda>(_, k).
      Inr (call e (Comp ''ifconfig_cmd'' [Server_Int, inet_ntoa (inaddr_ip (bridge_conf (config (net c))))]) (w1\<lparr> eth0 := c\<lparr> world := k \<rparr> \<rparr>))))"

definition get_wan_ip :: "nat \<Rightarrow> ('k, 'f) wan_env \<Rightarrow> ('k, 'f) wan \<Rightarrow> ('k, 'f) wan option cres" where
  "get_wan_ip n e w =
     (let ke = wan_kern e; put = (\<lambda>k. w\<lparr> eth0 := (eth0 w)\<lparr> world := k \<rparr> \<rparr>) in
      case ke Socket (world (eth0 w)) of
        (Fail _, k) \<Rightarrow> Inr (Some (put k))
      | (Ok fd _, k) \<Rightarrow>
          if fd = - 1 then Inr (Some (put k))
          else case ke (Ioctl fd (SIOCSIFFLAGS ''eth0'' if_up)) k of
            (Fail _, k1) \<Rightarrow> Inr (Some (call e (Close fd) (put k1)))
          | (Ok _ _, k1) \<Rightarrow> bind_run (init_wan_interface n e (put k1)) (\<lambda>w1. Inr (Some (call e (Close fd) w1))))"

definition apwan_start :: "nat \<Rightarrow> ('k, 'f) wan_env \<Rightarrow> ('k, 'f) wan \<Rightarrow> ('k, 'f) wan option cres" where
  "apwan_start n e w = get_wan_ip n e w"

definition apipfw_start :: "('k, 'f) wan_env \<Rightarrow> ('k, 'f) wan \<Rightarrow> ('k, 'f) wan" where
  "apipfw_start e w = call e (Comp ''ecosap_nw_ipfw_nat_init'' []) w"

definition apdhcpd_start :: "('k, 'f) wan_env \<Rightarrow> ('k, 'f) wan \<Rightarrow> ('k, 'f) wan" where
  "apdhcpd_start e w = call e (Comp ''start_dhcp_server'' []) w"

text \<open>A call that is made only with VLANs.\<close>

definition if_vlan :: "('k, 'f) wan_env \<Rightarrow> string \<Rightarrow> ('k, 'f) wan \<Rightarrow> ('k, 'f) wan" where
  "if_vlan e f w = (if vlan_on (net (eth0 w)) then call e (Comp f []) w else w)"

definition start_after_shell :: "'k ext_tools \<Rightarrow> nat \<Rightarrow> ('k, 'f) wan_env \<Rightarrow> ('k, 'f) ap \<Rightarrow> ('k, 'f) ap option cres" where
  "start_after_shell tools n e a =
     bind_ok (apconfig_start e a) (\<lambda>a1.
     bind_ok (aplan_start tools e (if_vlan e ''apvlan_start'' (link a1))) (\<lambda>w2.
     let w3 = if_vlan e ''nw_set_port_mode'' (if_vlan e ''apvlan_wlan_start'' w2);
         w4 = (if dhcps_enable (dhcp_server_config (config (net (eth0 w3)))) \<noteq> 0 then apdhcpd_start e w3 else w3)
     in bind_run (apwan_start n e (apipfw_start e w4)) (\<lambda>w5. Inr (Some (a1\<lparr> link := w5 \<rparr>)))))"

text \<open>The shell resets the board when its threads cannot be created; the rest is not reached then.\<close>

definition ecosap_start :: "(nat \<Rightarrow> bool) \<Rightarrow> 'k ext_tools \<Rightarrow> nat \<Rightarrow> ('k, 'f) wan_env \<Rightarrow> ('k, 'f) ap \<Rightarrow> ('k, 'f) ap option cres" where
  "ecosap_start malloc_ok tools n e a = (case apcli_start malloc_ok (shell a) of
     Reset \<Rightarrow> Inr None
   | Up s \<Rightarrow> start_after_shell tools n e (a\<lparr> shell := s \<rparr>)
   | Returned s \<Rightarrow> start_after_shell tools n e (a\<lparr> shell := s \<rparr>))"

text \<open>Of the functions that \<^verbatim>\<open>ecosap_stop\<close> calls, only \<^verbatim>\<open>apcli_stop\<close> is not empty.\<close>

definition ecosap_stop :: "('k, 'f) wan_env \<Rightarrow> ('k, 'f) ap \<Rightarrow> ('k, 'f) ap" where
  "ecosap_stop e a = a\<lparr> link := call e (Comp ''apcli_stop'' []) (link a) \<rparr>"

section \<open>Main loop\<close>

text \<open>The condition that both branches of the loop test.\<close>

definition may_switch :: "('k, 'f) wan \<Rightarrow> bool" where
  "may_switch w \<longleftrightarrow> (let t = Connection_Type (config (net (eth0 w))) in
     (t \<noteq> conn_PPPoE \<and> is_ppp_up w = 0) \<or> (t = conn_PPPoE \<and> is_ppp_up w = - 1))"

definition main_round :: "nat \<Rightarrow> ('k, 'f) wan_env \<Rightarrow> events \<Rightarrow> ('k, 'f) ap \<Rightarrow> ('k, 'f) ap option cres" where
  "main_round n e ev a =
     (let flag = (case flag_before ev of None \<Rightarrow> eth0_flag a | Some v \<Rightarrow> v);
          w = (case ppp_before ev of None \<Rightarrow> link a | Some v \<Rightarrow> (link a)\<lparr> is_ppp_up := v \<rparr>);
          a1 = a\<lparr> link := w, eth0_flag := flag \<rparr>;
          arrive = (\<lambda>b. case flag_during ev of None \<Rightarrow> b | Some v \<Rightarrow> b\<lparr> eth0_flag := v \<rparr>)
      in if flag = 2 then
           if may_switch w then
             bind_ok (interface_down (wan_kern e) WAN (eth0 w)) (\<lambda>(_, c).
             let a2 = arrive (a1\<lparr> link := w\<lparr> eth0 := c \<rparr> \<rparr>)
             in Inr (Some (a2\<lparr> eth0_flag := 0, link := (link a2)\<lparr> eth0_up := False \<rparr> \<rparr>)))
           else Inr (Some a1)
         else if flag = 1 then
           if may_switch w then
             bind_run (apwan_start n e w) (\<lambda>w1.
             let a2 = arrive (a1\<lparr> link := w1 \<rparr>) in Inr (Some (a2\<lparr> eth0_flag := 0 \<rparr>)))
           else Inr (Some a1)
         else Inr (Some a1))"

text \<open>The loop for as many rounds as there are events; it has no end of its own.\<close>

fun main_loop :: "nat \<Rightarrow> ('k, 'f) wan_env \<Rightarrow> events list \<Rightarrow> ('k, 'f) ap \<Rightarrow> ('k, 'f) ap option cres" where
  "main_loop n e [] a = Inr (Some a)"
| "main_loop n e (ev # evs) a = bind_run (main_round n e ev a) (main_loop n e evs)"

definition main :: "(nat \<Rightarrow> bool) \<Rightarrow> 'k ext_tools \<Rightarrow> nat \<Rightarrow> ('k, 'f) wan_env \<Rightarrow> events list \<Rightarrow> ('k, 'f) ap \<Rightarrow> ('k, 'f) ap option cres" where
  "main malloc_ok tools n e evs a = bind_run (ecosap_start malloc_ok tools n e a) (main_loop n e evs)"

section \<open>The link going down and up\<close>

lemma interface_down_ok:
  assumes "accepting ke s" "length dev < IFNAMSIZ"
  obtains k where "interface_down ke dev c = Inr (True, (set_wan 0 c)\<lparr> world := k \<rparr>)"
proof -
  have s: "0 \<le> s" and ok: "\<exists>n d k'. ke r k = (Ok n d, k') \<and> (r = Socket \<longrightarrow> n = s)" for r k using assms(1) unfolding accepting_def by blast+
  obtain d k1 where 1: "ke Socket (world c) = (Ok s d, k1)" using ok [of Socket] by blast
  obtain n2 d2 k2 where 2: "ke (Ioctl s (SIOCGIFADDR dev)) k1 = (Ok n2 d2, k2)" using ok by blast
  obtain n3 d3 k3 where 3: "ke (Ioctl s (SIOCDIFADDR dev (overlay 0 (take 4 d2)))) k2 = (Ok n3 d3, k3)" using ok by blast
  have "succeeds (seqs [req ke FlushNat, ask ke DeleteDynRules])" using assms(1) by (auto intro!: succeeds_intros)
  then obtain k4 where 4: "seqs [req ke FlushNat, ask ke DeleteDynRules] k3 = Inr (True, k4)" by (rule succeedsE)
  have "drop_address ke dev s k1 = Inr (True, k3)" using assms(2) 2 3 by (simp add: drop_address_def req_def)
  then show thesis
    using that [of "snd (ke (Close s) k4)"] s 1 4 by (simp add: interface_down_def Let_def set_wan_def del: seqs.simps)
qed

text \<open>The connection is up with a lease of \<open>off\<close>; the configuration was \<open>st\<close> before.\<close>

definition leased :: "u32 \<Rightarrow> u32 \<Rightarrow> item list \<Rightarrow> 'f nw_state \<Rightarrow> ('k, 'f) wan \<Rightarrow> bool" where
  "leased yi srv off st w \<longleftrightarrow> eth0_up w \<and> pstate (eth0 w) = DHCPSTATE_BOUND \<and> \<not> in_init_wan w \<and> dhcp_mgt_thread w
     \<and> (\<exists>p. field32 p bp_yiaddr = yi \<and> field32 p bp_siaddr = srv \<and> net (eth0 w) = st\<lparr> config := (config st)\<lparr> WAN_config_addrs :=
          without_own (inaddr_ip (bridge_conf (config st))) (lease_config p off), wan_status := 1 \<rparr> \<rparr>)"

lemma apwan_start_up:
  assumes "ready e yi srv off" "dhcp_idle yi w"
  obtains w' where "apwan_start 5 e w = Inr (Some w')" "leased yi srv off (net (eth0 w)) w'"
proof -
  obtain s hw sent reply where peer: "peer (wan_kern e) s hw sent reply" using assms(1) unfolding ready_def by blast
  have s: "0 \<le> s" using peer by (simp add: peer_def)
  obtain d k1 where 1: "wan_kern e Socket (world (eth0 w)) = (Ok s d, k1)" using peer_requests(7) [OF peer] by blast
  obtain n2 d2 k2 where 2: "wan_kern e (Ioctl s (SIOCSIFFLAGS ''eth0'' if_up)) k1 = (Ok n2 d2, k2)"
    using peer_accepting [OF peer] unfolding accepting_def by blast
  let ?w = "w\<lparr> eth0 := (eth0 w)\<lparr> world := k2 \<rparr> \<rparr>"
  have "dhcp_idle yi ?w" using assms(2) by (simp add: dhcp_idle_def)
  from dhcp_connects [OF assms(1) this] obtain w1 where w1: "init_wan_interface 5 e ?w = Inr (Some w1)" "leased yi srv off (net (eth0 ?w)) w1"
    unfolding leased_def by metis
  have "apwan_start 5 e w = Inr (Some (call e (Close s) w1))"
    using s 1 2 w1(1) by (simp add: apwan_start_def get_wan_ip_def bind_run_def Let_def)
  moreover have "leased yi srv off (net (eth0 w)) (call e (Close s) w1)" using w1(2) by (simp add: leased_def call_def)
  ultimately show thesis by (rule that)
qed

lemma link_down_round:
  assumes "accepting (wan_kern e) s" "flag_before ev = Some 2" "ppp_before ev = None" "may_switch (link a)"
  obtains k where "main_round n e ev a = Inr (Some (a\<lparr> link := (link a)\<lparr> eth0 := (set_wan 0 (eth0 (link a)))\<lparr> world := k \<rparr>, eth0_up := False \<rparr>, eth0_flag := 0 \<rparr>))"
proof -
  have "length WAN < IFNAMSIZ" by (simp add: WAN_def IFNAMSIZ_def)
  then obtain k where "interface_down (wan_kern e) WAN (eth0 (link a)) = Inr (True, (set_wan 0 (eth0 (link a)))\<lparr> world := k \<rparr>)"
    using interface_down_ok [OF assms(1)] by blast
  then have "main_round n e ev a = Inr (Some (a\<lparr> link := (link a)\<lparr> eth0 := (set_wan 0 (eth0 (link a)))\<lparr> world := k \<rparr>, eth0_up := False \<rparr>, eth0_flag := 0 \<rparr>))"
    using assms(2-4) by (simp add: main_round_def Let_def split: option.splits)
  then show thesis by (rule that)
qed

lemma link_up_round:
  assumes "ready e yi srv off" "dhcp_idle yi (link a)" "is_ppp_up (link a) = 0" "flag_before ev = Some 1" "ppp_before ev = None"
  obtains w' where "main_round 5 e ev a = Inr (Some (a\<lparr> link := w', eth0_flag := 0 \<rparr>))" "leased yi srv off (net (eth0 (link a))) w'"
proof -
  obtain w' where w': "apwan_start 5 e (link a) = Inr (Some w')" "leased yi srv off (net (eth0 (link a))) w'"
    using apwan_start_up [OF assms(1,2)] .
  have "may_switch (link a)"
    using assms(2,3) by (simp add: may_switch_def dhcp_idle_def Let_def conn_DHCP_def conn_PPPoE_def)
  then have "main_round 5 e ev a = Inr (Some (a\<lparr> link := w', eth0_flag := 0 \<rparr>))"
    using assms(4,5) w'(1) by (simp add: main_round_def bind_run_def Let_def split: option.splits)
  then show thesis using w'(2) by (rule that)
qed

definition quiet_round :: events where
  "quiet_round = \<lparr> flag_before = None, flag_during = None, ppp_before = None \<rparr>"

lemma quiet_rounds:
  assumes "eth0_flag a = 0"
  shows "main_loop n e (replicate m quiet_round) a = Inr (Some a)"
proof -
  have "a\<lparr> eth0_flag := 0 \<rparr> = a" using assms by (cases a) simp
  then have "main_round n e quiet_round a = Inr (Some a)" using assms by (simp add: main_round_def quiet_round_def Let_def)
  then show ?thesis by (induction m) (simp_all add: bind_run_def)
qed

section \<open>Start-up\<close>

lemma call_keeps [simp]: "net (eth0 (call e r w)) = net (eth0 w)" "dhcp_idle yi (call e r w) \<longleftrightarrow> dhcp_idle yi w"
  by (simp_all add: call_def dhcp_idle_def)

lemma apwlan_init_total:
  assumes "wlan_ok (WLAN_config (config st))"
  obtains r k' where "apwlan_init tools st k = Inr (r, k')"
proof -
  obtain r k1 where "apwlan_start tools st k = Inr (r, k1)" using performs_start [OF assms] by (rule performsE)
  then show thesis using that by (cases "magic_num (WLAN_config (config st)) = CONFIG_WLAN_MAGIC_NUM") (simp_all add: apwlan_init_def)
qed

lemma aplan_start_total:
  assumes "wlan_ok (WLAN_config (config (net (eth0 w))))"
  obtains w' where "aplan_start tools e w = Inr w'" "net (eth0 w') = net (eth0 w)" "\<And>yi. dhcp_idle yi w' \<longleftrightarrow> dhcp_idle yi w"
proof -
  let ?w1 = "call e (Comp ''start_bridge_interface'' []) w"
  obtain r k where "apwlan_init tools (net (eth0 w)) (world (eth0 ?w1)) = Inr (r, k)" using apwlan_init_total [OF assms] .
  then have "aplan_start tools e w = Inr (call e (Comp ''ifconfig_cmd'' [Server_Int, inet_ntoa (inaddr_ip (bridge_conf (config (net (eth0 w)))))])
      (?w1\<lparr> eth0 := (eth0 ?w1)\<lparr> world := k \<rparr> \<rparr>))" by (simp add: aplan_start_def Let_def)
  then show thesis by (rule that) (simp_all add: dhcp_idle_def call_def)
qed

text \<open>The program when it starts: there is memory for the shell threads, nothing is up, and the buffers have their size.\<close>

definition powered_on :: "(nat \<Rightarrow> bool) \<Rightarrow> ('k, 'f) ap \<Rightarrow> bool" where
  "powered_on malloc_ok a \<longleftrightarrow> apcli_start malloc_ok (shell a) \<noteq> Reset \<and> \<not> eth0_up (link a) \<and> \<not> in_init_wan (link a) \<and> WAN_interface (link a) = WAN
     \<and> length (received (eth0 (link a))) = bootp_size \<and> length (xmit2 (eth0 (link a))) = bootp_size"

lemma start_connects:
  assumes "ready e yi srv off" "powered_on malloc_ok a" "ecosap_nw_default_start (cops (dhcp e)) (net (eth0 (link a))) = Inr st"
    and "wlan_ok (WLAN_config (config st))" "\<not> vlan_on st" "Connection_Type (config st) = conn_DHCP"
    and "issamesubnet (inet_ntoa yi) (inet_ntoa (inaddr_ip (bridge_conf (config st)))) = Inr False"
  obtains a' where "ecosap_start malloc_ok tools 5 e a = Inr (Some a')" "leased yi srv off st (link a')"
proof -
  obtain s where s: "ecosap_start malloc_ok tools 5 e a = start_after_shell tools 5 e (a\<lparr> shell := s \<rparr>)"
    using assms(2) by (cases "apcli_start malloc_ok (shell a)") (simp_all add: ecosap_start_def powered_on_def)
  define w1 where "w1 = (link a)\<lparr> eth0 := (eth0 (link a))\<lparr> net := st \<rparr> \<rparr>"
  have cfg: "apconfig_start e (a\<lparr> shell := s \<rparr>) = Inr (a\<lparr> shell := s, link := w1, f_changed := 0 \<rparr>)"
    using assms(3) by (simp add: apconfig_start_def w1_def)
  have n1: "net (eth0 w1) = st" by (simp add: w1_def)
  then have vlan: "if_vlan e f w = w" if "net (eth0 w) = st" for f w using assms(5) that by (simp add: if_vlan_def)
  have "dhcp_idle yi w1"
    using assms(2,5-7) by (simp add: dhcp_idle_def n1) (simp add: powered_on_def w1_def WAN_def IFNAMSIZ_def)
  with aplan_start_total [where tools = tools and e = e and w = w1] assms(4) n1 obtain w2 where
    w2: "aplan_start tools e w1 = Inr w2" "net (eth0 w2) = st" "dhcp_idle yi w2" by metis
  let ?w4 = "if dhcps_enable (dhcp_server_config (config (net (eth0 w2)))) \<noteq> 0 then apdhcpd_start e w2 else w2"
  have w4: "dhcp_idle yi (apipfw_start e ?w4)" "net (eth0 (apipfw_start e ?w4)) = st"
    using w2(2,3) by (simp_all add: apipfw_start_def apdhcpd_start_def)
  obtain w5 where w5: "apwan_start 5 e (apipfw_start e ?w4) = Inr (Some w5)" "leased yi srv off st w5"
    using apwan_start_up [OF assms(1) w4(1)] w4(2) by metis
  have "ecosap_start malloc_ok tools 5 e a = Inr (Some (a\<lparr> shell := s, link := w5, f_changed := 0 \<rparr>))"
    using cfg w2(1,2) w5(1) n1 by (simp add: s start_after_shell_def vlan Let_def bind_run_def split: if_splits)
  then show thesis by (rule that) (simp add: w5(2))
qed

section \<open>Properties\<close>

text \<open>
  (C15) The WAN follows its cable: when the link of a connection by DHCP goes down, the next round of the main loop takes the address away and
  marks the WAN as down, and when it comes up again, the following round obtains a new lease.
\<close>

theorem wan_follows_link:
  assumes "ready e yi srv off" "dhcp_idle yi ((link a)\<lparr> eth0_up := False \<rparr>)" "is_ppp_up (link a) = 0"
    and "down = quiet_round\<lparr> flag_before := Some 2 \<rparr>" "up = quiet_round\<lparr> flag_before := Some 1 \<rparr>"
  shows "\<exists>a1 a2. main_loop 5 e [down] a = Inr (Some a1) \<and> \<not> eth0_up (link a1) \<and> wan_status (config (net (eth0 (link a1)))) = 0
     \<and> main_loop 5 e [down, up] a = Inr (Some a2) \<and> leased yi srv off (net (set_wan 0 (eth0 (link a)))) (link a2) \<and> eth0_flag a2 = 0"
proof -
  obtain s hw sent reply where peer: "peer (wan_kern e) s hw sent reply" using assms(1) unfolding ready_def by blast
  have sw: "may_switch (link a)"
    using assms(2,3) by (simp add: may_switch_def dhcp_idle_def Let_def conn_DHCP_def conn_PPPoE_def)
  obtain k where k: "main_round 5 e down a = Inr (Some (a\<lparr> link := (link a)\<lparr> eth0 := (set_wan 0 (eth0 (link a)))\<lparr> world := k \<rparr>, eth0_up := False \<rparr>, eth0_flag := 0 \<rparr>))"
    by (rule link_down_round [OF peer_accepting [OF peer] _ _ sw, of down]) (simp_all add: assms(4) quiet_round_def)
  define a1 where "a1 = a\<lparr> link := (link a)\<lparr> eth0 := (set_wan 0 (eth0 (link a)))\<lparr> world := k \<rparr>, eth0_up := False \<rparr>, eth0_flag := 0 \<rparr>"
  have "dhcp_idle yi (link a1)" "is_ppp_up (link a1) = 0" using assms(2,3) by (simp_all add: a1_def dhcp_idle_def set_wan_def vlan_on_def)
  moreover have n1: "net (eth0 (link a1)) = net (set_wan 0 (eth0 (link a)))" by (simp add: a1_def)
  ultimately obtain w' where w': "main_round 5 e up a1 = Inr (Some (a1\<lparr> link := w', eth0_flag := 0 \<rparr>))" "leased yi srv off (net (set_wan 0 (eth0 (link a)))) w'"
    using link_up_round [OF assms(1), of a1 up] by (auto simp: assms(5) quiet_round_def)
  have "main_loop 5 e [down] a = Inr (Some a1)" "main_loop 5 e [down, up] a = Inr (Some (a1\<lparr> link := w', eth0_flag := 0 \<rparr>))"
    using k w'(1) by (simp_all add: a1_def [symmetric] bind_run_def)
  moreover have "\<not> eth0_up (link a1)" "wan_status (config (net (eth0 (link a1)))) = 0" by (simp_all add: a1_def set_wan_def)
  ultimately show ?thesis using w'(2) by auto
qed

definition demo_ap :: "'k \<Rightarrow> ('k, unit) ap" where
  "demo_ap k = \<lparr> shell = \<lparr> heap = (\<lambda>_. None), allocs = 0, shell_global_thnum = 0, running = [] \<rparr>, link = demo_wan k, eth0_flag = 0, f_changed = 0 \<rparr>"

theorem wan_follows_link_witness:
  "\<exists>a2. main_loop 5 (demo_wan_env (wire [2, 0, 0, 1, 2, 3] demo_server)) [quiet_round\<lparr> flag_before := Some 2 \<rparr>, quiet_round\<lparr> flag_before := Some 1 \<rparr>]
      (demo_ap []) = Inr (Some a2) \<and> eth0_up (link a2)"
proof -
  have "(demo_wan k)\<lparr> eth0_up := False \<rparr> = demo_wan k" for k :: "u8 list" by (simp add: demo_wan_def)
  then have "dhcp_idle 0x0a000007 ((link (demo_ap k))\<lparr> eth0_up := False \<rparr>)" "is_ppp_up (link (demo_ap k)) = 0" for k :: "u8 list"
    using demo_idle [of k] by (simp_all add: demo_ap_def) (simp add: demo_wan_def)
  from wan_follows_link [OF demo_ready this HOL.refl HOL.refl, of "[]"] show ?thesis unfolding leased_def by blast
qed

text \<open>
  A link event is lost when it arrives while the main loop handles another: if the cable comes back while the loop takes the
  interface down, the flag is overwritten, and the WAN stays down although the link is up, for as long as nothing else
  happens.
\<close>

theorem link_event_is_lost:
  assumes "accepting (wan_kern e) s" "may_switch (link a)" "ev = quiet_round\<lparr> flag_before := Some 2, flag_during := Some 1 \<rparr>"
  shows "\<exists>a'. main_loop n e (ev # replicate m quiet_round) a = Inr (Some a') \<and> \<not> eth0_up (link a') \<and> eth0_flag a' = 0"
proof -
  obtain k where "main_round n e ev a = Inr (Some (a\<lparr> link := (link a)\<lparr> eth0 := (set_wan 0 (eth0 (link a)))\<lparr> world := k \<rparr>, eth0_up := False \<rparr>, eth0_flag := 0 \<rparr>))"
    by (rule link_down_round [OF assms(1) _ _ assms(2), of ev n]) (simp_all add: assms(3) quiet_round_def)
  then show ?thesis using quiet_rounds [of "a\<lparr> link := (link a)\<lparr> eth0 := (set_wan 0 (eth0 (link a)))\<lparr> world := k \<rparr>, eth0_up := False \<rparr>, eth0_flag := 0 \<rparr>" n e m]
    by (simp add: bind_run_def)
qed

theorem link_event_is_lost_witness:
  "\<exists>a'. main_loop 5 (demo_wan_env yes_kernel) ((quiet_round\<lparr> flag_before := Some 2, flag_during := Some 1 \<rparr>) # replicate 1000 quiet_round) (demo_ap ())
     = Inr (Some a') \<and> \<not> eth0_up (link a')"
proof -
  have "accepting (wan_kern (demo_wan_env yes_kernel)) 3"
    by (simp add: accepting_def wan_kern_def demo_wan_env_def Dhcp_Graph.demo_env_def yes_kernel_def)
  moreover have "may_switch (link (demo_ap ()))"
    unfolding may_switch_def by (simp add: demo_ap_def demo_wan_def demo_config conn_DHCP_def conn_PPPoE_def Let_def)
  ultimately show ?thesis using link_event_is_lost [OF _ _ HOL.refl, of "demo_wan_env yes_kernel" 3 "demo_ap ()" 5 1000] by blast
qed


definition demo_flash_env :: "(u8 list, nor_chip flash_lib) wan_env" where
  "demo_flash_env = \<lparr> dhcp = \<lparr> kern = wire [2, 0, 0, 1, 2, 3] demo_server, cops = flash_conf_ops nor_chip_ops True, retry = 50,
     rsl = \<lparr> dividend = 1000000000, divisor = 100 \<rparr>, intf = WAN \<rparr>, nloop = 1 \<rparr>"

definition demo_boot :: "nor_chip flash_lib nw_state \<Rightarrow> (u8 list, nor_chip flash_lib) ap" where
  "demo_boot st = \<lparr> shell = \<lparr> heap = (\<lambda>_. None), allocs = 0, shell_global_thnum = 0, running = [] \<rparr>,
     link = \<lparr> eth0 = \<lparr> pstate = 0, res = [], lease = lease (demo_client 0 ()), received = replicate bootp_size 0, xmit2 = replicate bootp_size 0,
         xid = 0, tmr = tmr (demo_client 0 ()), seen_bootp_reply = False, msgtype = 0, net = st, world = [] \<rparr>,
       eth0_up = False, eth1_up = False, eth1_bootp_data = [], WAN_interface = WAN, is_ppp_up = 0, static_connection_up = False,
       in_init_wan = False, in_init_lan = False, loop_init = 0, dhcp_mgt_thread = False \<rparr>,
     eth0_flag = 0, f_changed = 0 \<rparr>"


text \<open>
  With VLANs the start runs into undefined behaviour: the name of the VLAN interface is copied into the string
  literal that \<^verbatim>\<open>WAN_interface\<close> points to, which is shorter than every such name.
\<close>

theorem vlan_name_overruns_literal:
  assumes "ecosap_read_nw_config (net (eth0 w)) = Inr st" "vlan_on st"
  shows "init_wan_interface n e (w\<lparr> eth0 := (eth0 w)\<lparr> net := st \<rparr> \<rparr>) = Inl OutOfBounds"
proof -
  have "vlan_flag (vlan_config (config (net (eth0 w)))) \<noteq> 0"
    using assms by (auto simp: ecosap_read_nw_config_def vlan_on_def Let_def split: if_splits)
  then have "5 \<le> length (VLAN1 st)"
    using assms by (auto simp: ecosap_read_nw_config_def VLAN1_def Let_def guard_c_eq split: if_splits)
  then show ?thesis using assms(2) by (simp add: init_wan_interface_def choose_interface_def guard_c_def Let_def)
qed

definition demo_vlan :: "(unit, unit) wan" where
  "demo_vlan = (demo_wan ())\<lparr> eth0 := (demo_client 0 ())\<lparr> net := (demo_net ())\<lparr> config := (config (demo_net ()))\<lparr> vlan_config :=
     (vlan_config (config (demo_net ())))\<lparr> vlan_flag := 1, inet_value := 4, iptv_value := 5 \<rparr> \<rparr> \<rparr> \<rparr> \<rparr>"

theorem vlan_name_overruns_literal_witness:
  "\<exists>st. ecosap_read_nw_config (net (eth0 demo_vlan)) = Inr st
     \<and> init_wan_interface 5 (demo_wan_env yes_kernel) (demo_vlan\<lparr> eth0 := (eth0 demo_vlan)\<lparr> net := st \<rparr> \<rparr>) = Inl OutOfBounds"
proof -
  have "show_int (sint (4 :: u32)) = ''4''" "show_int (sint (5 :: u32)) = ''5''" by code_simp+
  then obtain st where "ecosap_read_nw_config (net (eth0 demo_vlan)) = Inr st" "vlan_on st"
    by (simp add: ecosap_read_nw_config_def demo_vlan_def vlan_on_def guard_c_def Let_def)
  then show ?thesis using vlan_name_overruns_literal [of demo_vlan st 5 "demo_wan_env yes_kernel"] by blast
qed

end
