(* ===== verification/Shell_Tools.thy ===== *)
theory Shell_Tools
  imports Ap_Prelude
begin

text \<open>
  Tools of the shell: the number reader \<^verbatim>\<open>simple_strtoul\<close> (\<^verbatim>\<open>ecosap/shell/strtoul.c\<close>), the commands \<^verbatim>\<open>dump\<close>, \<^verbatim>\<open>sp\<close> and
  \<^verbatim>\<open>kill\<close> of \<^verbatim>\<open>builtin_commands.c\<close>, and \<^verbatim>\<open>uptime\<close> and \<^verbatim>\<open>date\<close> of \<^verbatim>\<open>bsp_commands.c\<close>.

  A command that prints is modelled by what it prints; the thread functions of the kernel and the clock are parameters.
\<close>

section \<open>Reading numbers\<close>

definition c_toupper :: "char \<Rightarrow> char" where
  "c_toupper c = (if c_islower c then char_of (code_of c - 32) else c)"

text \<open>The digit value, as a C \<^verbatim>\<open>unsigned long\<close>.\<close>

definition xdigit_val :: "char \<Rightarrow> u32" where
  "xdigit_val c = (if c_isdigit c then of_nat (code_of c) - 48 else of_nat (code_of (if c_islower c then c_toupper c else c)) - 65 + 10)"

fun strtoul_loop :: "u32 \<Rightarrow> u32 \<Rightarrow> string \<Rightarrow> u32 \<times> string" where
  "strtoul_loop base result [] = (result, [])"
| "strtoul_loop base result (c # cs) =
     (if c_isxdigit c \<and> xdigit_val c < base then strtoul_loop base (result * base + xdigit_val c) cs else (result, c # cs))"

definition strtoul_prefix :: "string \<Rightarrow> u32 \<Rightarrow> string \<times> u32" where
  "strtoul_prefix cp base = (case cp of
     c # cs \<Rightarrow>
       if c = CHR ''0'' then
         (case cs of
            x # h # hs \<Rightarrow> if x = CHR ''x'' \<and> c_isxdigit h then (h # hs, 16) else (cs, if base = 0 then 8 else base)
          | _ \<Rightarrow> (cs, if base = 0 then 8 else base))
       else (cp, base)
   | [] \<Rightarrow> (cp, base))"

text \<open>The value, modulo 2 to the 32, and the text behind it.\<close>

definition simple_strtoul :: "string \<Rightarrow> u32 \<Rightarrow> u32 \<times> string" where
  "simple_strtoul cp base = (case strtoul_prefix cp base of (cp1, base1) \<Rightarrow> strtoul_loop (if base1 = 0 then 10 else base1) 0 cp1)"

section \<open>Memory dump\<close>

text \<open>What is printed: an address, a byte in hexadecimal, a byte as a character, or filling.\<close>

datatype out = Addr nat | Hex nat | Asc nat | Blank

text \<open>The loop over the bytes from \<open>i\<close>; \<open>j\<close> is the number of bytes in the current line.\<close>

function dump_loop :: "nat \<Rightarrow> nat \<Rightarrow> nat \<Rightarrow> nat \<Rightarrow> (out list \<times> nat) cres" where
  "dump_loop len width i j =
     (if i < len then
        guard_c (i = 0 \<or> width \<noteq> 0) DivideByZero (
          let brk = (i \<noteq> 0 \<and> i mod width = 0);
              pre = (if brk then map Asc [i - width..<i] @ [Addr i] else []);
              j1 = (if brk then 0 else j)
          in bind_ok (dump_loop len width (i + 1) (j1 + 1)) (\<lambda>(os, j2). Inr (pre @ Hex i # os, j2)))
      else Inr ([], j))"
  by pat_completeness auto
termination by (relation "measure (\<lambda>(len, width, i, j). len - i)") auto

declare dump_loop.simps [simp del]

definition dump :: "nat \<Rightarrow> nat \<Rightarrow> out list cres" where
  "dump len width =
     bind_ok (dump_loop len width 0 0) (\<lambda>(os, j).
     Inr (Addr 0 # os @ (if j \<noteq> 0 then replicate (unat (of_nat width - of_nat j :: u32)) Blank @ map Asc [len - j..<len] else [])))"

text \<open>The number in an argument, \<open>None\<close> when something follows it.\<close>

definition number_arg :: "string \<Rightarrow> u32 option" where
  "number_arg s = (case simple_strtoul s 0 of (v, r) \<Rightarrow> if r = [] then Some v else None)"

text \<open>The command: the address and what is printed for it, \<open>None\<close> after a message. In the last line \<^verbatim>\<open>width - j\<close> is computed
  without a sign, so that a width of 0 wraps around.\<close>

definition hexdump :: "string list \<Rightarrow> (u32 \<times> out list) option cres" where
  "hexdump argv = (case argv of
     [a] \<Rightarrow> (case number_arg a of None \<Rightarrow> Inr None | Some buf \<Rightarrow> bind_ok (dump 100 16) (\<lambda>os. Inr (Some (buf, os))))
   | [a, l] \<Rightarrow>
       (case number_arg a of None \<Rightarrow> Inr None | Some buf \<Rightarrow>
        (case number_arg l of None \<Rightarrow> Inr None | Some len \<Rightarrow> bind_ok (dump (unat len) 16) (\<lambda>os. Inr (Some (buf, os)))))
   | [a, l, w] \<Rightarrow>
       (case number_arg a of None \<Rightarrow> Inr None | Some buf \<Rightarrow>
        (case number_arg l of None \<Rightarrow> Inr None | Some len \<Rightarrow>
         (case number_arg w of None \<Rightarrow> Inr None | Some width \<Rightarrow>
            bind_ok (dump (unat len) (unat width)) (\<lambda>os. Inr (Some (buf, os))))))
   | _ \<Rightarrow> Inr None)"

section \<open>Threads\<close>

text \<open>Calls of the kernel; \<open>thread_of\<close> gives the handle of a thread number, 0 for none.\<close>

datatype thread_call = Set_priority u32 u32 | Kill_thread u32 | Delete_thread u32

definition set_priority :: "(u32 \<Rightarrow> u32) \<Rightarrow> string list \<Rightarrow> thread_call list" where
  "set_priority thread_of argv = (case argv of
     a # p # _ \<Rightarrow>
       (let thandle = thread_of (fst (simple_strtoul a 10)); set_pri = fst (simple_strtoul p 0) in
        if sint set_pri > 32 \<or> sint set_pri < 1 \<or> thandle = 0 then [] else [Set_priority thandle set_pri])
   | _ \<Rightarrow> [])"

definition thread_kill :: "(u32 \<Rightarrow> u32) \<Rightarrow> string list \<Rightarrow> int \<times> thread_call list" where
  "thread_kill thread_of argv = (case argv of
     [a] \<Rightarrow> (let th = thread_of (fst (simple_strtoul a 10)) in if th = 0 then (- 1, []) else (0, [Kill_thread th, Delete_thread th]))
   | _ \<Rightarrow> (0, []))"

section \<open>Clock\<close>

definition uptime :: "u32 \<Rightarrow> u32 \<times> u32 \<times> u32 \<times> u32" where
  "uptime timer =
     (let day = timer div 86400; sec = timer mod 86400; hr = sec div 3600; sec = sec mod 3600; mn = sec div 60; sec = sec mod 60
      in (day, hr, mn, sec))"

text \<open>
  The buffer of ten characters on the stack that \<^verbatim>\<open>set_date\<close> and \<^verbatim>\<open>set_time\<close> copy into: \<open>None\<close> is a byte without a value.
  \<^verbatim>\<open>strncpy\<close> copies \<open>n\<close> characters, filling up with NUL when the text is shorter, and adds no NUL of its own.
\<close>

type_synonym buff = "char option list"

definition strncpy_buff :: "string \<Rightarrow> nat \<Rightarrow> buff \<Rightarrow> buff" where
  "strncpy_buff s n b = map Some (take n (s @ replicate n NUL)) @ drop n b"

text \<open>\<^verbatim>\<open>atoi\<close> on such a buffer reads up to the first character that ends the number.\<close>

fun buff_text :: "buff \<Rightarrow> string cres" where
  "buff_text [] = Inl OutOfBounds"
| "buff_text (None # b) = Inl UninitRead"
| "buff_text (Some c # b) = (if c_isdigit c then bind_ok (buff_text b) (\<lambda>s. Inr (c # s)) else Inr [])"

fun buff_atoi :: "buff \<Rightarrow> int cres" where
  "buff_atoi [] = Inl OutOfBounds"
| "buff_atoi (None # b) = Inl UninitRead"
| "buff_atoi (Some c # b) =
     (if c_isspace c then buff_atoi b
      else if c = CHR ''-'' \<or> c = CHR ''+'' then bind_ok (buff_text b) (\<lambda>s. Inr (atoi (c # s)))
      else bind_ok (buff_text (Some c # b)) (\<lambda>s. Inr (atoi s)))"

text \<open>The text from position \<open>i\<close>; behind its NUL there is nothing to read.\<close>

definition text_from :: "string \<Rightarrow> nat \<Rightarrow> string cres" where
  "text_from s i = guard_c (i \<le> length s) OutOfBounds (Inr (drop i s))"

definition numbers3 :: "nat \<Rightarrow> string \<Rightarrow> (int \<times> int \<times> int) cres" where
  "numbers3 last_n s =
     (let b1 = strncpy_buff s 2 (replicate 10 None) in
      bind_ok (buff_atoi b1) (\<lambda>x.
      bind_ok (text_from s 3) (\<lambda>s2. let b2 = strncpy_buff s2 2 b1 in
      bind_ok (buff_atoi b2) (\<lambda>y.
      bind_ok (text_from s 6) (\<lambda>s3. let b3 = strncpy_buff s3 last_n b2 in
      bind_ok (buff_atoi b3) (\<lambda>z. Inr (x, y, z)))))))"

text \<open>The fields of \<^verbatim>\<open>struct tm\<close> that are passed to \<^verbatim>\<open>mktime\<close>: year since 1900, month from 0 and day; hour, minute and second.\<close>

definition set_date :: "string \<Rightarrow> (int \<times> int \<times> int) cres" where
  "set_date s = bind_ok (numbers3 4 s) (\<lambda>(day, month, year). Inr (year - 1900, month - 1, day))"

definition set_time :: "string \<Rightarrow> (int \<times> int \<times> int) cres" where
  "set_time s = numbers3 2 s"

text \<open>The command: which setter runs and with which fields, or that the time or the usage is printed.\<close>

datatype date_action = Set_date "int \<times> int \<times> int" | Set_time "int \<times> int \<times> int" | Show_time | Date_usage | Nothing

definition char_at :: "string \<Rightarrow> nat \<Rightarrow> char cres" where
  "char_at s i = guard_c (i \<le> length s) OutOfBounds (Inr (if i < length s then s ! i else NUL))"

definition date :: "string list \<Rightarrow> date_action cres" where
  "date argv = (case argv of
     opt # arg # _ \<Rightarrow>
       bind_ok (char_at opt 0) (\<lambda>c0.
       bind_ok (if c0 = CHR ''-'' then char_at opt 1 else Inr NUL) (\<lambda>c1.
       if c0 = CHR ''-'' \<and> c1 = CHR ''s'' then
         bind_ok (char_at arg 2) (\<lambda>sep.
         if sep = CHR ''/'' then bind_ok (set_date arg) (\<lambda>d. Inr (Set_date d))
         else if sep = CHR '':'' then bind_ok (set_time arg) (\<lambda>t. Inr (Set_time t))
         else Inr Nothing)
       else Inr Date_usage))
   | _ \<Rightarrow> Inr Show_time)"


section \<open>Watchdog\<close>

text \<open>The calls of the watchdog driver; \<^verbatim>\<open>res\<close> only prints. The argument \<^verbatim>\<open>off\<close> restarts the count of the watchdog.\<close>

datatype wd_call = Watchdog_reset | Watchdog_start | Watchdog_reboot

definition watchdog_cmd :: "string list \<Rightarrow> wd_call list" where
  "watchdog_cmd argv = (case argv of
     [a] \<Rightarrow>
       if a = ''on'' then [Watchdog_reset, Watchdog_start]
       else if a = ''off'' then [Watchdog_reset]
       else if a = ''res'' then []
       else if a = ''reboot'' then [Watchdog_reboot]
       else []
   | _ \<Rightarrow> [])"

section \<open>Properties of the number reader\<close>

lemma xdigit_val_digit: "c_isdigit c \<Longrightarrow> xdigit_val c = of_nat (digit_val c)"
  by (simp add: xdigit_val_def digit_val_def c_isdigit_def of_nat_diff)

lemma digit_is_xdigit [simp]: "c_isdigit c \<Longrightarrow> c_isxdigit c"
  by (simp add: c_isxdigit_def)

lemma xdigit_val_less_10:
  assumes "c_isdigit c" shows "xdigit_val c < 10"
proof -
  have "digit_val c < 10" using assms by (rule digit_val_bound)
  then show ?thesis by (simp add: xdigit_val_digit assms word_less_nat_alt unsigned_of_nat take_bit_nat_eq_self)
qed

text \<open>The characters behind a number that end it.\<close>

definition ends_number :: "string \<Rightarrow> bool" where
  "ends_number s = (case s of [] \<Rightarrow> True | c # _ \<Rightarrow> \<not> c_isxdigit c \<and> c \<noteq> CHR ''x'')"

lemma strtoul_loop_digits:
  assumes "\<forall>c \<in> set ds. c_isdigit c" and "10 \<le> base" and "ends_number r"
  shows "strtoul_loop base acc (ds @ r) = (fold (\<lambda>c a. a * base + of_nat (digit_val c)) ds acc, r)"
  using assms(1)
proof (induction ds arbitrary: acc)
  case Nil
  then show ?case using assms(3) by (cases r) (auto simp: ends_number_def)
next
  case (Cons c cs)
  have "xdigit_val c < base" using Cons.prems assms(2) xdigit_val_less_10 [of c] by simp
  then show ?case using Cons by (simp add: xdigit_val_digit)
qed

lemma fold_digits_scan_dec:
  "\<forall>c \<in> set ds. c_isdigit c \<Longrightarrow>
     fold (\<lambda>c (a :: u32). a * 10 + of_nat (digit_val c)) ds (of_nat acc) = of_nat (scan_dec acc ds)"
proof (induction ds arbitrary: acc)
  case (Cons c cs)
  then show ?case using Cons.IH [of "acc * 10 + digit_val c"] by (simp add: algebra_simps)
qed simp

lemma strtoul_loop_dec:
  assumes "\<forall>c \<in> set ds. c_isdigit c" and "ends_number r"
  shows "strtoul_loop 10 0 (ds @ r) = (of_nat (scan_dec 0 ds), r)"
  using strtoul_loop_digits [OF assms(1) _ assms(2), of 10 0] fold_digits_scan_dec [OF assms(1), of 0] by simp


lemma prefix_kept:
  assumes "c # cs = show_nat n @ r" and "n \<noteq> 0"
  shows "strtoul_prefix (c # cs) base = (c # cs, base)"
proof -
  have "c = hd (show_nat n)" using assms(1) by (cases "show_nat n") auto
  then show ?thesis using assms(2) by (simp add: strtoul_prefix_def hd_show_nat)
qed

lemma prefix_zero: "ends_number r \<Longrightarrow> strtoul_prefix (CHR ''0'' # r) base = (r, if base = 0 then 8 else base)"
  by (auto simp: strtoul_prefix_def ends_number_def split: list.splits)

lemma strtoul_loop_stop: "ends_number r \<Longrightarrow> strtoul_loop base acc r = (acc, r)"
  by (cases r) (auto simp: ends_number_def)

text \<open>(C38) Reading what was printed: the decimal text of a number gives the number back (modulo 2 to the 32), in base 10 as in base 0,
  and the reader stops right behind it. The number 0 is read as an empty octal one, with the same result.\<close>

theorem strtoul_reads_back:
  assumes "ends_number r" and "base = 0 \<or> base = 10"
  shows "simple_strtoul (show_nat n @ r) base = (of_nat n, r)"
proof (cases "n = 0")
  case True
  have z: "show_nat 0 = ''0''" by (subst show_nat.simps) (simp add: digit_char_eq_0_iff)
  then show ?thesis using True assms(1) by (simp add: simple_strtoul_def prefix_zero strtoul_loop_stop)
next
  case False
  obtain c cs where s: "show_nat n @ r = c # cs" by (cases "show_nat n @ r") auto
  have "\<forall>c \<in> set (show_nat n). c_isdigit c" by (auto dest: show_nat_digits)
  from strtoul_loop_dec [OF this assms(1)] show ?thesis
    using prefix_kept [OF s [symmetric] False] s assms(2) by (auto simp: simple_strtoul_def)
qed

section \<open>Properties of the dump\<close>

text \<open>The offsets shown in hexadecimal, and those shown as characters.\<close>

definition hex_shown :: "out list \<Rightarrow> nat list" where
  "hex_shown os = concat (map (\<lambda>x. case x of Hex i \<Rightarrow> [i] | _ \<Rightarrow> []) os)"

definition asc_shown :: "out list \<Rightarrow> nat list" where
  "asc_shown os = concat (map (\<lambda>x. case x of Asc i \<Rightarrow> [i] | _ \<Rightarrow> []) os)"

lemma hex_shown_simps [simp]:
  "hex_shown [] = []" "hex_shown (Hex i # os) = i # hex_shown os" "hex_shown (Asc i # os) = hex_shown os"
  "hex_shown (Addr i # os) = hex_shown os" "hex_shown (Blank # os) = hex_shown os"
  "hex_shown (os @ ps) = hex_shown os @ hex_shown ps" "hex_shown (map Asc ns) = []" "hex_shown (replicate k Blank) = []"
  by (auto simp: hex_shown_def)

lemma asc_shown_simps [simp]:
  "asc_shown [] = []" "asc_shown (Hex i # os) = asc_shown os" "asc_shown (Asc i # os) = i # asc_shown os"
  "asc_shown (Addr i # os) = asc_shown os" "asc_shown (Blank # os) = asc_shown os"
  "asc_shown (os @ ps) = asc_shown os @ asc_shown ps" "asc_shown (replicate k Blank) = []"
  by (auto simp: asc_shown_def)

lemma asc_shown_map [simp]: "asc_shown (map Asc ns) = ns"
  by (induction ns) simp_all

text \<open>The line so far: \<open>j\<close> bytes, at most a full line, that begin at a multiple of the width.\<close>

definition line_inv :: "nat \<Rightarrow> nat \<Rightarrow> nat \<Rightarrow> bool" where
  "line_inv width i j \<longleftrightarrow> j \<le> i \<and> j \<le> width \<and> width dvd i - j \<and> (0 < i \<longrightarrow> 0 < j)"

lemma line_inv_full:
  assumes "line_inv width i j" and "i \<noteq> 0" and "i mod width = 0"
  shows "j = width"
proof -
  have "width dvd i" using assms(3) by (simp add: mod_eq_0_iff_dvd)
  moreover have "width dvd i - j" "j \<le> i" using assms(1) by (auto simp: line_inv_def)
  ultimately have "width dvd j" by (metis dvd_diff_nat diff_diff_cancel)
  then show ?thesis using assms(1,2) by (auto simp: line_inv_def dest: dvd_imp_le)
qed

lemma line_inv_step:
  assumes "line_inv width i j" and "0 < width"
  shows "line_inv width (i + 1) ((if i \<noteq> 0 \<and> i mod width = 0 then 0 else j) + 1)"
proof (cases "i \<noteq> 0 \<and> i mod width = 0")
  case True
  then show ?thesis using assms by (auto simp: line_inv_def mod_eq_0_iff_dvd)
next
  case False
  have "j \<noteq> width"
  proof
    assume "j = width"
    then have "width dvd i" "i \<noteq> 0" using assms by (auto simp: line_inv_def dvd_minus_self)
    then show False using False by simp
  qed
  then show ?thesis using False assms by (auto simp: line_inv_def)
qed

lemma upt_split: "a \<le> b \<Longrightarrow> b \<le> c \<Longrightarrow> [a..<c] = [a..<b] @ [b..<c]"
  using upt_add_eq_append [of a b "c - b"] by simp

lemma dump_loop_shows:
  assumes "line_inv width i j" and "0 < width" and "i \<le> len"
  shows "\<exists>os j2. dump_loop len width i j = Inr (os, j2) \<and> hex_shown os = [i..<len]
           \<and> asc_shown os = [i - j..<len - j2] \<and> line_inv width len j2 \<and> i - j \<le> len - j2"
  using assms
proof (induction len width i j rule: dump_loop.induct)
  case (1 len width i j)
  show ?case
  proof (cases "i < len")
    case False
    then have "i = len" using "1.prems" by simp
    then show ?thesis using "1.prems" by (simp add: dump_loop.simps [of len width])
  next
    case True
    define brk where "brk = (i \<noteq> 0 \<and> i mod width = 0)"
    define j1 where "j1 = (if brk then 0 else j)"
    have inv: "line_inv width (i + 1) (j1 + 1)"
      using line_inv_step [OF "1.prems"(1,2)] by (simp add: j1_def brk_def)
    have full: "brk \<Longrightarrow> j = width" using line_inv_full [OF "1.prems"(1)] by (simp add: brk_def)
    obtain os j2 where r: "dump_loop len width (i + 1) (j1 + 1) = Inr (os, j2)" "hex_shown os = [i + 1..<len]"
        "asc_shown os = [i + 1 - (j1 + 1)..<len - j2]" "line_inv width len j2" "i - j1 \<le> len - j2"
      using "1.IH" [OF True brk_def HOL.refl j1_def inv] True "1.prems"(2) by force
    have hx: "[i..<len] = i # [i + 1..<len]" using True by (simp add: upt_conv_Cons)
    have "[i - j..<len - j2] = (if brk then [i - width..<i] else []) @ [i - j1..<len - j2]"
      using full r(5) upt_split [of "i - width" i "len - j2"] by (auto simp: j1_def)
    moreover have "i - j \<le> len - j2" using r(5) by (auto simp: j1_def split: if_splits)
    moreover have "dump_loop len width i j = Inr ((if brk then map Asc [i - width..<i] @ [Addr i] else []) @ Hex i # os, j2)"
      using True "1.prems"(2) r(1) by (subst dump_loop.simps) (simp add: brk_def j1_def)
    ultimately show ?thesis using r hx by simp
  qed
qed


text \<open>\<^verbatim>\<open>dump\<close> with a line width other than 0 shows every byte once in hexadecimal and once as a character, in order.\<close>

theorem dump_shows_all:
  assumes "0 < width"
  shows "\<exists>os. dump len width = Inr os \<and> hex_shown os = [0..<len] \<and> asc_shown os = [0..<len]"
proof -
  have "line_inv width 0 0" by (simp add: line_inv_def)
  from dump_loop_shows [OF this assms, of len] obtain os j where
    r: "dump_loop len width 0 0 = Inr (os, j)" "hex_shown os = [0..<len]" "asc_shown os = [0..<len - j]" "line_inv width len j"
    by auto
  have "[0..<len] = [0..<len - j] @ [len - j..<len]" using upt_split [of 0 "len - j" len] by simp
  then show ?thesis using r by (auto simp: dump_def line_inv_def)
qed

lemma dump_width_0: "1 < len \<Longrightarrow> dump len 0 = Inl DivideByZero"
  by (simp add: dump_def dump_loop.simps [of len 0 0] dump_loop.simps [of len 0 "Suc 0"] guard_c_def)

text \<open>A priority is set only when it is between 1 and 32 and the thread exists; a text that is no number is the priority 0.\<close>

lemma set_priority_range:
  assumes "Set_priority t p \<in> set (set_priority thread_of argv)"
  shows "t \<noteq> 0 \<and> 1 \<le> sint p \<and> sint p \<le> 32"
  using assms by (auto simp: set_priority_def Let_def split: list.splits if_splits)

section \<open>Properties of the clock commands\<close>

lemma uptime_sum:
  assumes "uptime timer = (d, h, m, s)"
  shows "unat timer = unat d * 86400 + unat h * 3600 + unat m * 60 + unat s \<and> unat h < 24 \<and> unat m < 60 \<and> unat s < 60"
  using assms by (auto simp: uptime_def Let_def unat_div unat_mod)

lemma buff_two_digits:
  "c_isdigit a \<Longrightarrow> c_isdigit b \<Longrightarrow> buff_atoi (strncpy_buff (a # b # s) 2 (replicate 10 None)) = Inl UninitRead"
  by (simp add: strncpy_buff_def numeral_2_eq_2 eval_nat_numeral)

text \<open>Setting the date or the time in the documented form reads the number out of a buffer that was not terminated.\<close>

theorem date_reads_unset_bytes:
  assumes "c_isdigit a" and "c_isdigit b" and "sep = CHR ''/'' \<or> sep = CHR '':''"
  shows "date [''-s'', a # b # sep # s] = Inl UninitRead"
  using assms by (auto simp: date_def char_at_def set_date_def set_time_def numbers3_def buff_two_digits)



section \<open>Witnesses\<close>

theorem strtoul_reads_back_witness: "simple_strtoul (show_nat 4096 @ '' kb'') 0 = (4096, '' kb'')"
  using strtoul_reads_back [of "'' kb''" 0 4096] by (simp add: ends_number_def c_isxdigit_def c_isdigit_def code_of_def)

theorem dump_shows_all_witness: "\<exists>os. dump 100 16 = Inr os \<and> hex_shown os = [0..<100] \<and> asc_shown os = [0..<100]"
  using dump_shows_all [of 16 100] by simp

theorem date_reads_unset_bytes_witness: "date [''-s'', ''24/12/2017''] = Inl UninitRead"
  using date_reads_unset_bytes [of "CHR ''2''" "CHR ''4''" "CHR ''/''" "''12/2017''"] by (simp add: c_isdigit_def code_of_def)

end
