(* ===== verification/Ping_Cmd.thy ===== *)
theory Ping_Cmd
  imports Net_Setup
begin

text \<open>
  The shell command \<^verbatim>\<open>ping\<close> (\<^verbatim>\<open>ecosap/shell/ping.c\<close>): the Internet checksum, the echo requests and what is counted as an
  answer. The network stack and the clock are the kernel of \<^verbatim>\<open>Net_Setup\<close>; \<open>peer\<close> gives the address that \<^verbatim>\<open>recvfrom\<close>
  stores for the packet it has just delivered.
\<close>

section \<open>The Internet checksum\<close>

fun sum_words :: "u32 \<Rightarrow> u8 list \<Rightarrow> u32" where
  "sum_words s (a # b # bs) = sum_words (s + ucast (fst (get_u16 [a, b]))) bs"
| "sum_words s [a] = s + ucast (fst (get_u16 [a, 0]))"
| "sum_words s [] = s"

definition inet_cksum :: "u8 list \<Rightarrow> u16" where
  "inet_cksum bs =
     (let sum0 = sum_words 0 bs;
          sum1 = drop_bit 16 sum0 + (sum0 AND 0xffff);
          sum2 = sum1 + drop_bit 16 sum1
      in NOT (ucast sum2))"

section \<open>Packet buffers\<close>

text \<open>The buffers come from \<^verbatim>\<open>malloc\<close>: \<open>None\<close> is a byte that was never written.\<close>

type_synonym pbuf = "u8 option list"

definition MAX_PACKET :: nat where "MAX_PACKET = 4096"
definition MIN_PACKET :: nat where "MIN_PACKET = 64"
definition NUM_PINGS :: nat where "NUM_PINGS = 50"
definition UNIQUEID :: u16 where "UNIQUEID = 0x1234"

definition wr_bytes :: "pbuf \<Rightarrow> nat \<Rightarrow> u8 list \<Rightarrow> pbuf cres" where
  "wr_bytes p at bs = guard_c (at + length bs \<le> length p) OutOfBounds (Inr (take at p @ map Some bs @ drop (at + length bs) p))"

definition rd_bytes :: "pbuf \<Rightarrow> nat \<Rightarrow> nat \<Rightarrow> u8 list cres" where
  "rd_bytes p at n =
     guard_c (at + n \<le> length p) OutOfBounds (
     guard_c (None \<notin> set (take n (drop at p))) UninitRead (Inr (map the (take n (drop at p)))))"

definition put_u64 :: "64 word \<Rightarrow> u8 list" where
  "put_u64 w = put_u32 (ucast (drop_bit 32 w)) @ put_u32 (ucast w)"

definition get_u64 :: "u8 list \<Rightarrow> 64 word" where
  "get_u64 bs = push_bit 32 (ucast (fst (get_u32 bs))) OR ucast (fst (get_u32 (drop 4 bs)))"

text \<open>The loop that numbers the rest of the data.\<close>

function fill_data :: "pbuf \<Rightarrow> nat \<Rightarrow> nat \<Rightarrow> pbuf cres" where
  "fill_data p at i =
     (if i < MIN_PACKET then bind_ok (wr_bytes p at (put_u32 (of_nat i))) (\<lambda>p1. fill_data p1 (at + 4) (i + 4)) else Inr p)"
  by pat_completeness auto
termination by (relation "measure (\<lambda>(p, at, i). MIN_PACKET - i)") auto

declare fill_data.simps [simp del]

text \<open>The echo request in the buffer, with its checksum.\<close>

definition build_echo :: "pbuf \<Rightarrow> u16 \<Rightarrow> 64 word \<Rightarrow> pbuf cres" where
  "build_echo p0 seq now =
     bind_ok (wr_bytes p0 0 [8]) (\<lambda>p1.
     bind_ok (wr_bytes p1 1 [0]) (\<lambda>p2.
     bind_ok (wr_bytes p2 2 (put_u16 0)) (\<lambda>p3.
     bind_ok (wr_bytes p3 6 (put_u16 seq)) (\<lambda>p4.
     bind_ok (wr_bytes p4 4 (put_u16 UNIQUEID)) (\<lambda>p5.
     bind_ok (wr_bytes p5 8 (put_u64 now)) (\<lambda>p6.
     bind_ok (fill_data p6 16 8) (\<lambda>p7.
     bind_ok (rd_bytes p7 0 (MIN_PACKET + 8)) (\<lambda>bs.
     wr_bytes p7 2 (put_u16 (inet_cksum bs))))))))))"

section \<open>The command\<close>

text \<open>A line about an answer: the bytes of data, the sequence number and the time in milliseconds.\<close>

type_synonym reply_line = "int \<times> u16 \<times> int"

definition current_time :: "'k kernel \<Rightarrow> 'k \<Rightarrow> 64 word \<times> 'k" where
  "current_time kern k = (case kern Now k of (Ok t _, k') \<Rightarrow> (word_of_int t, k') | (Fail _, k') \<Rightarrow> (0, k'))"

text \<open>
  Whether the packet counts as an answer, and the line that is printed for it. The version of a short packet is read for the
  message. An answer with another identifier is reported, but goes on.
\<close>

definition show_icmp :: "pbuf \<Rightarrow> nat \<Rightarrow> u32 \<Rightarrow> u32 \<Rightarrow> 64 word \<Rightarrow> (bool \<times> reply_line option) cres" where
  "show_icmp pkt len from to tv =
     bind_ok (rd_bytes pkt 0 1) (\<lambda>v.
     if len < 20 \<or> drop_bit 4 (v ! 0) \<noteq> 4 then Inr (False, None)
     else
       bind_ok (rd_bytes pkt 20 1) (\<lambda>ty.
       if ty ! 0 \<noteq> 0 then Inr (False, None)
       else
         bind_ok (rd_bytes pkt 24 2) (\<lambda>ident.
         bind_ok (rd_bytes pkt 26 2) (\<lambda>sq.
         bind_ok (rd_bytes pkt 28 8) (\<lambda>tp.
         Inr (from = to, Some (int len - 28, fst (get_u16 sq), sint (ucast (tv - get_u64 tp) * 10 :: u32))))))))"

record 'k pinger =
  pkt1 :: pbuf
  pkt2 :: pbuf
  ok_recv :: nat
  bogus_recv :: nat
  lines_shown :: "reply_line list"
  pworld :: 'k

definition receive :: "u8 list \<Rightarrow> pbuf \<Rightarrow> pbuf" where
  "receive d p = map Some d @ drop (length d) p"

definition count_reply :: "bool \<times> reply_line option \<Rightarrow> 'k pinger \<Rightarrow> 'k pinger" where
  "count_reply r st =
     (let st1 = st\<lparr> lines_shown := lines_shown st @ (case snd r of None \<Rightarrow> [] | Some l \<Rightarrow> [l]) \<rparr> in
      if fst r then st1\<lparr> ok_recv := ok_recv st + 1 \<rparr> else st1\<lparr> bogus_recv := bogus_recv st + 1 \<rparr>)"

definition await_reply :: "'k kernel \<Rightarrow> ('k \<Rightarrow> u32) \<Rightarrow> int \<Rightarrow> u32 \<Rightarrow> 'k pinger \<Rightarrow> 'k pinger cres" where
  "await_reply kern peer s dest st = (case kern (RecvFrom s) (pworld st) of
     (Fail _, k) \<Rightarrow> Inr (st\<lparr> pworld := k \<rparr>)
   | (Ok _ data, k) \<Rightarrow>
       (let d = take MAX_PACKET data; p2 = receive d (pkt2 st); (tv, k1) = current_time kern k in
        bind_ok (show_icmp p2 (length d) (peer k) dest tv) (\<lambda>r.
        Inr (count_reply r (st\<lparr> pkt2 := p2, pworld := k1 \<rparr>)))))"

definition ping_round :: "'k kernel \<Rightarrow> ('k \<Rightarrow> u32) \<Rightarrow> int \<Rightarrow> u32 \<Rightarrow> nat \<Rightarrow> 'k pinger \<Rightarrow> 'k pinger cres" where
  "ping_round kern peer s dest seq st =
     (let (now, k1) = current_time kern (pworld st) in
      bind_ok (build_echo (pkt1 st) (of_nat seq) now) (\<lambda>p1.
      bind_ok (rd_bytes p1 0 (MIN_PACKET + 8)) (\<lambda>bs.
      case kern (SendTo s dest bs) k1 of
        (Fail _, k2) \<Rightarrow> Inr (st\<lparr> pkt1 := p1, pworld := k2 \<rparr>)
      | (Ok n _, k2) \<Rightarrow>
          (let st1 = st\<lparr> pkt1 := p1, pworld := k2 \<rparr> in if n < 0 then Inr st1 else await_reply kern peer s dest st1))))"

fun ping_rounds :: "'k kernel \<Rightarrow> ('k \<Rightarrow> u32) \<Rightarrow> int \<Rightarrow> u32 \<Rightarrow> nat list \<Rightarrow> 'k pinger \<Rightarrow> 'k pinger cres" where
  "ping_rounds kern peer s dest [] st = Inr st"
| "ping_rounds kern peer s dest (q # qs) st = bind_ok (ping_round kern peer s dest q st) (ping_rounds kern peer s dest qs)"

text \<open>The counts that are printed, \<open>None\<close> without memory; \<open>free\<close> at the end for each buffer that was allocated.\<close>

definition ping_host :: "'k kernel \<Rightarrow> ('k \<Rightarrow> u32) \<Rightarrow> int \<Rightarrow> u32 \<Rightarrow> 'k \<Rightarrow> ((nat \<times> nat \<times> reply_line list) option \<times> 'k) cres" where
  "ping_host kern peer s dest k = (case kern (Malloc MAX_PACKET) k of
     (Fail _, k1) \<Rightarrow> Inr (None, k1)
   | (Ok _ _, k1) \<Rightarrow> (case kern (Malloc MAX_PACKET) k1 of
       (Fail _, k2) \<Rightarrow> Inr (None, snd (kern Free k2))
     | (Ok _ _, k2) \<Rightarrow>
         bind_ok (ping_rounds kern peer s dest [0..<NUM_PINGS]
           \<lparr> pkt1 = replicate MAX_PACKET None, pkt2 = replicate MAX_PACKET None, ok_recv = 0, bogus_recv = 0, lines_shown = [],
              pworld = k2 \<rparr>) (\<lambda>st.
         Inr (Some (ok_recv st, bogus_recv st, lines_shown st), snd (kern Free (snd (kern Free (pworld st))))))))"

text \<open>The command: whether it returns \<^verbatim>\<open>SHELL_OK\<close>. \<^verbatim>\<open>getprotobyname\<close> is a call of another package.\<close>

definition ping_cmd :: "'k kernel \<Rightarrow> ('k \<Rightarrow> u32) \<Rightarrow> string list \<Rightarrow> 'k \<Rightarrow> (bool \<times> 'k) cres" where
  "ping_cmd kern peer argv k = (case argv of
     [a] \<Rightarrow> (case inet_aton a of
        None \<Rightarrow> Inr (False, k)
      | Some dest \<Rightarrow>
          bind_ok (req kern (Comp ''getprotobyname'' [''icmp'']) k) (\<lambda>(ok, k1).
          if \<not> ok then Inr (False, k1)
          else with_socket kern (\<lambda>s k2.
            bind_ok (req kern (Setsockopt s (SO_RCVTIMEO 2)) k2) (\<lambda>(set, k3).
            if \<not> set then Inr (False, k3) else bind_ok (ping_host kern peer s dest k3) (\<lambda>(_, k4). Inr (True, k4)))) k1))
   | _ \<Rightarrow> Inr (False, k))"


section \<open>The checksum verifies\<close>

text \<open>The sum of the words as a number.\<close>

fun wsum :: "u8 list \<Rightarrow> nat" where
  "wsum (a # b # bs) = 256 * unat a + unat b + wsum bs"
| "wsum [a] = 256 * unat a"
| "wsum [] = 0"

lemma u8_less: "unat (a :: u8) < 256"
proof -
  have "unat a < 2 ^ LENGTH(8)" by (rule unsigned_less)
  then show ?thesis by simp
qed

lemma u16_less: "unat (a :: u16) < 65536"
proof -
  have "unat a < 2 ^ LENGTH(16)" by (rule unsigned_less)
  then show ?thesis by simp
qed

lemma unat_get_u16: "unat (fst (get_u16 (a # b # bs))) = 256 * unat a + unat b"
proof -
  have "push_bit 8 (ucast a :: u16) AND ucast b = 0" by (rule bit_word_eqI) (auto simp: bit_simps dest: bit_imp_le_length)
  then have "fst (get_u16 (a # b # bs)) = push_bit 8 (ucast a) + ucast b" by (simp add: get_u16_def disjunctive_add_eq_or)
  moreover have "unat a mod 65536 = unat a" by (rule mod_less) (use u8_less [of a] in linarith)
  moreover have "unat b mod 65536 = unat b" by (rule mod_less) (use u8_less [of b] in linarith)
  moreover have "256 * unat a + unat b < 65536" using u8_less [of a] u8_less [of b] by linarith
  moreover have "256 * unat a < 65536" using u8_less [of a] by linarith
  ultimately show ?thesis by (simp add: unat_word_ariths push_bit_eq_mult unsigned_ucast_eq take_bit_eq_mod mult.commute)
qed

lemma wsum_bound: "wsum bs \<le> 65535 * ((length bs + 1) div 2)"
proof (induction bs rule: wsum.induct)
  case (1 a b bs)
  have "256 * unat a + unat b \<le> 65535" using u8_less [of a] u8_less [of b] by linarith
  then show ?case using 1 by simp
next
  case (2 a)
  have "256 * unat a \<le> 65535" using u8_less [of a] by linarith
  then show ?case by simp
qed simp

lemma unat_ucast_u16: "unat (ucast (w :: u16) :: u32) = unat w"
  by transfer simp

lemma unat_sum_words: "unat s + wsum bs < 2 ^ 32 \<Longrightarrow> unat (sum_words s bs) = unat s + wsum bs"
proof (induction s bs rule: sum_words.induct)
  case (1 s a b bs)
  have w: "unat (ucast (fst (get_u16 [a, b])) :: u32) = 256 * unat a + unat b"
    by (simp add: unat_ucast_u16 unat_get_u16)
  then have "unat (s + ucast (fst (get_u16 [a, b])) :: u32) = unat s + (256 * unat a + unat b)"
    using 1 by (simp add: unat_word_ariths)
  then show ?case using 1 by simp
next
  case (2 s a)
  have w: "unat (ucast (fst (get_u16 [a, 0])) :: u32) = 256 * unat a"
    by (simp add: unat_ucast_u16 unat_get_u16)
  then show ?case using 2 by (simp add: unat_word_ariths)
qed simp

lemma wsum_append: "even (length a) \<Longrightarrow> wsum (a @ b) = wsum a + wsum b"
  by (induction a rule: wsum.induct) auto

lemma wsum_put_u16 [simp]: "wsum (put_u16 w @ bs) = unat w + wsum bs"
proof -
  have "fst (get_u16 (put_u16 w @ [])) = w" by (simp only: lay_u16.get_put fst_conv)
  then have "unat w = 256 * unat (put_u16 w ! 0) + unat (put_u16 w ! 1)"
    using unat_get_u16 [of "put_u16 w ! 0" "put_u16 w ! 1" "[]"] by (simp add: put_u16_def)
  then show ?thesis by (simp add: put_u16_def)
qed

text \<open>Folding the carries back in twice keeps the remainder modulo 65535, and gives 0 only for 0.\<close>

definition folded :: "nat \<Rightarrow> nat" where
  "folded S = (let f = S div 65536 + S mod 65536 in (f + f div 65536) mod 65536)"

lemma folded_props:
  assumes "S < 2 ^ 32"
  shows "\<exists>k. S = 65535 * k + folded S" and "folded S = 0 \<longleftrightarrow> S = 0" and "folded S \<le> 65535"
proof -
  define q r where "q = S div 65536" and "r = S mod 65536"
  have S: "S = 65536 * q + r" and r: "r < 65536" by (simp_all add: q_def r_def)
  have q: "q < 65536" using S assms by simp
  have "folded S = (if q + r < 65536 then q + r else q + r - 65535)"
  proof (cases "q + r < 65536")
    case True
    then show ?thesis by (simp add: folded_def q_def r_def)
  next
    case False
    then have "(q + r) div 65536 = 1" using q r by simp
    moreover have "(q + r + 1) mod 65536 = q + r + 1 - 65536" using False q r by (simp add: mod_if)
    ultimately show ?thesis using False by (simp add: folded_def q_def [symmetric] r_def [symmetric])
  qed
  moreover have "S = 65535 * q + (q + r)" and "\<not> q + r < 65536 \<Longrightarrow> S = 65535 * (q + 1) + (q + r - 65535)"
    using S by simp_all
  ultimately show "\<exists>k. S = 65535 * k + folded S" "folded S = 0 \<longleftrightarrow> S = 0" "folded S \<le> 65535"
    using S q r by (metis, auto)
qed

lemma unat_not_u16: "unat (NOT (w :: u16)) = 65535 - unat w"
proof -
  have "NOT w = - 1 - w" by (simp add: not_eq_complement)
  moreover have "w \<le> - 1" by simp
  ultimately show ?thesis using unat_sub [of w "- 1"] by (simp add: unsigned_minus_1_eq_mask mask_eq_exp_minus_1)
qed

lemma unat_inet_cksum:
  assumes "wsum bs < 2 ^ 32"
  shows "unat (inet_cksum bs) = 65535 - folded (wsum bs)"
proof -
  define s0 where "s0 = sum_words 0 bs"
  define s1 where "s1 = drop_bit 16 s0 + (s0 AND 0xffff)"
  have 0: "unat s0 = wsum bs" using unat_sum_words [of 0 bs] assms by (simp add: s0_def)
  have low: "unat (s0 AND 0xffff) = wsum bs mod 65536"
  proof -
    have "s0 AND 0xffff = take_bit 16 s0" by (simp add: take_bit_eq_mask mask_eq_exp_minus_1)
    then have "unat (s0 AND 0xffff) = take_bit 16 (unat s0)" by (simp only: unsigned_take_bit_eq)
    then show ?thesis by (simp add: 0 take_bit_eq_mod)
  qed
  have high: "unat (drop_bit 16 s0) = wsum bs div 65536" by (simp add: unat_div 0 drop_bit_eq_div)
  have b: "wsum bs div 65536 < 65536" using assms by simp
  have 1: "unat s1 = wsum bs div 65536 + wsum bs mod 65536"
    using b mod_less_divisor [of 65536 "wsum bs"] by (simp add: s1_def unat_word_ariths low high)
  have 2: "unat (s1 + drop_bit 16 s1) = unat s1 + unat s1 div 65536"
    using 1 b mod_less_divisor [of 65536 "wsum bs"] by (simp add: unat_word_ariths unsigned_drop_bit_eq drop_bit_eq_div)
  have "unat (ucast (s1 + drop_bit 16 s1) :: u16) = folded (wsum bs)"
    by (simp add: unsigned_ucast_eq 2 1 folded_def Let_def take_bit_eq_mod)
  then show ?thesis by (simp add: inet_cksum_def Let_def s0_def [symmetric] s1_def [symmetric] unat_not_u16)
qed

text \<open>A checksum that is put into the place of two zero bytes at an even position makes the whole verify.\<close>

lemma cksum_verifies:
  assumes "even (length a)" and "length a + length b < 2 ^ 16"
  shows "inet_cksum (a @ put_u16 (inet_cksum (a @ put_u16 0 @ b)) @ b) = 0"
proof -
  define S where "S = wsum (a @ put_u16 0 @ b)"
  define c where "c = inet_cksum (a @ put_u16 0 @ b)"
  have "S \<le> 65535 * 32769" using wsum_bound [of "a @ put_u16 0 @ b"] assms(2)
    by (simp add: S_def put_u16_def)
  then have S: "S < 2 ^ 32 - 65536" by simp
  have c: "unat c = 65535 - folded S" using S unat_inet_cksum [of "a @ put_u16 0 @ b"] by (simp add: c_def S_def)
  have T: "wsum (a @ put_u16 c @ b) = S + unat c" using assms(1) by (simp add: S_def wsum_append)
  have T32: "S + unat c < 2 ^ 32" using S u16_less [of c] by simp
  obtain k where "S = 65535 * k + folded S" using folded_props(1) [of S] S by auto
  then have "S + unat c = 65535 * (k + 1)" using c folded_props(3) [of S] S by simp
  moreover obtain m where "S + unat c = 65535 * m + folded (S + unat c)" using folded_props(1) [OF T32] by blast
  ultimately have "65535 dvd folded (S + unat c)"
    by (metis dvd_add_right_iff dvd_triv_left)
  moreover have "folded (S + unat c) \<noteq> 0" using folded_props(2) [OF T32] \<open>S + unat c = 65535 * (k + 1)\<close> by simp
  ultimately have "folded (S + unat c) = 65535"
    using folded_props(3) [OF T32] dvd_imp_le [of 65535 "folded (S + unat c)"] by simp
  then have "unat (inet_cksum (a @ put_u16 c @ b)) = 0" using unat_inet_cksum [of "a @ put_u16 c @ b"] T T32 by simp
  then show ?thesis by (simp add: c_def unat_eq_0)
qed


section \<open>The echo requests\<close>

text \<open>The bytes of an echo request.\<close>

fun numbers_from :: "nat \<Rightarrow> nat \<Rightarrow> u8 list" where
  "numbers_from i 0 = []"
| "numbers_from i (Suc n) = put_u32 (of_nat i) @ numbers_from (i + 4) n"

definition echo_bytes :: "u16 \<Rightarrow> u16 \<Rightarrow> 64 word \<Rightarrow> u8 list" where
  "echo_bytes ck seq now = [8, 0] @ put_u16 ck @ put_u16 UNIQUEID @ put_u16 seq @ put_u64 now @ numbers_from 8 14"

definition echo_request :: "u16 \<Rightarrow> 64 word \<Rightarrow> u8 list" where
  "echo_request seq now = echo_bytes (inet_cksum (echo_bytes 0 seq now)) seq now"

lemma length_puts [simp]: "length (put_u16 w) = 2" "length (put_u32 v) = 4" "length (put_u64 x) = 8"
  by (simp_all add: put_u16_def put_u32_def put_u64_def)

lemma length_numbers_from [simp]: "length (numbers_from i n) = 4 * n"
  by (induction n arbitrary: i) simp_all

lemma length_echo_bytes [simp]: "length (echo_bytes ck seq now) = 72"
  by (simp add: echo_bytes_def)

lemma echo_request_verifies: "inet_cksum (echo_request seq now) = 0"
  using cksum_verifies [of "[8, 0]" "put_u16 UNIQUEID @ put_u16 seq @ put_u64 now @ numbers_from 8 14"]
  by (simp add: echo_request_def echo_bytes_def)

lemma wr_bytes_next:
  "at = length a \<Longrightarrow> length bs \<le> length r \<Longrightarrow> wr_bytes (map Some a @ r) at bs = Inr (map Some (a @ bs) @ drop (length bs) r)"
  by (simp add: wr_bytes_def)

lemma wr_bytes_swapped:
  assumes "at = length a" and "length x + length y \<le> length r"
  shows "bind_ok (wr_bytes (map Some a @ r) (at + length x) y) (\<lambda>p. bind_ok (wr_bytes p at x) f)
       = f (map Some (a @ x @ y) @ drop (length x + length y) r)"
  using assms by (simp add: wr_bytes_def min_def ac_simps)

lemma wr_bytes_inside:
  "at = length x \<Longrightarrow> length w = length y \<Longrightarrow> wr_bytes (map Some (x @ y @ z) @ r) at w = Inr (map Some (x @ w @ z) @ r)"
  by (simp add: wr_bytes_def)

lemma rd_bytes_front: "length a = n \<Longrightarrow> rd_bytes (map Some a @ r) 0 n = Inr a"
  by (auto simp: rd_bytes_def comp_def)

lemma fill_data_numbers:
  assumes "at = length a" and "4 * n \<le> length r" and "i + 4 * n = MIN_PACKET"
  shows "fill_data (map Some a @ r) at i = Inr (map Some (a @ numbers_from i n) @ drop (4 * n) r)"
  using assms
proof (induction n arbitrary: a r at i)
  case 0
  then show ?case by (simp add: fill_data.simps)
next
  case (Suc n)
  then show ?case
    using Suc.IH [of "at + 4" "a @ put_u32 (of_nat i)" "drop 4 r" "i + 4"]
    by (simp add: fill_data.simps [of "map Some a @ r"] wr_bytes_next add.commute)
qed

lemma build_echo_bytes:
  assumes "length p = MAX_PACKET"
  shows "build_echo p seq now = Inr (map Some (echo_request seq now) @ drop 72 p)"
proof -
  have r: "length (drop k p) = 4096 - k" for k using assms by (simp add: MAX_PACKET_def)
  let ?a = "[8, 0] @ put_u16 0 :: u8 list"
  have 1: "wr_bytes p 0 [8] = Inr (map Some [8] @ drop 1 p)" using wr_bytes_next [of 0 "[]" "[8]" p] r [of 0] by simp
  have 2: "wr_bytes (map Some [8] @ drop 1 p) 1 [0] = Inr (map Some [8, 0] @ drop 2 p)"
    using wr_bytes_next [of 1 "[8]" "[0]" "drop 1 p"] r by (simp add: numeral_2_eq_2)
  have 3: "wr_bytes (map Some [8, 0] @ drop 2 p) 2 (put_u16 0) = Inr (map Some ?a @ drop 4 p)"
    using wr_bytes_next [of 2 "[8, 0]" "put_u16 0" "drop 2 p"] r by simp
  let ?h = "?a @ put_u16 UNIQUEID @ put_u16 seq"
  have 4: "bind_ok (wr_bytes (map Some ?a @ drop 4 p) 6 (put_u16 seq)) (\<lambda>p. bind_ok (wr_bytes p 4 (put_u16 UNIQUEID)) f)
      = f (map Some ?h @ drop 8 p)" for f :: "pbuf \<Rightarrow> pbuf cres"
    using wr_bytes_swapped [of 4 ?a "put_u16 UNIQUEID" "put_u16 seq" "drop 4 p" f] r by simp
  have 5: "wr_bytes (map Some ?h @ drop 8 p) 8 (put_u64 now) = Inr (map Some (?h @ put_u64 now) @ drop 16 p)"
    using wr_bytes_next [of 8 ?h "put_u64 now" "drop 8 p"] r by simp
  have 6: "fill_data (map Some (?h @ put_u64 now) @ drop 16 p) 16 8 = Inr (map Some (echo_bytes 0 seq now) @ drop 72 p)"
    using fill_data_numbers [of 16 "?h @ put_u64 now" 14 "drop 16 p" 8] r by (simp add: MIN_PACKET_def echo_bytes_def)
  have 7: "rd_bytes (map Some (echo_bytes 0 seq now) @ drop 72 p) 0 (MIN_PACKET + 8) = Inr (echo_bytes 0 seq now)"
    by (rule rd_bytes_front) (simp add: MIN_PACKET_def)
  have 8: "wr_bytes (map Some (echo_bytes 0 seq now) @ drop 72 p) 2 (put_u16 ck) = Inr (map Some (echo_bytes ck seq now) @ drop 72 p)" for ck
    unfolding echo_bytes_def by (rule wr_bytes_inside) simp_all
  show ?thesis unfolding build_echo_def by (simp only: 1 2 3 4 5 6 7 8 bind_ok_Inr echo_request_def)
qed


section \<open>What ping sends and counts\<close>

definition sends :: "log \<Rightarrow> (int \<times> u32 \<times> u8 list) list" where
  "sends tr = concat (map (\<lambda>(r, _). case r of SendTo s d bs \<Rightarrow> [(s, d, bs)] | _ \<Rightarrow> []) tr)"

lemma sends_simps [simp]:
  "sends [] = []" "sends (tr @ tr') = sends tr @ sends tr'" "sends [(SendTo s d bs, x)] = [(s, d, bs)]"
  "sends [(Now, x)] = []" "sends [(RecvFrom i, x)] = []" "sends [(Malloc n, x)] = []" "sends [(Free, x)] = []"
  by (simp_all add: sends_def)

lemma clock_log:
  assumes "current_time (logged kern) (k, tr) = (t, k1)"
  shows "sends (snd k1) = sends tr"
  using assms by (auto simp: current_time_def logged_def split: prod.splits kres.splits)

lemma count_reply_keeps [simp]: "pkt1 (count_reply r st) = pkt1 st" "pworld (count_reply r st) = pworld st"
  by (simp_all add: count_reply_def Let_def)

lemma await_reply_log:
  assumes "await_reply (logged kern) peer s dest st = Inr st'"
  shows "pkt1 st' = pkt1 st \<and> sends (snd (pworld st')) = sends (snd (pworld st))"
proof -
  obtain k tr where w: "pworld st = (k, tr)" by fastforce
  obtain x k1 where x: "kern (RecvFrom s) k = (x, k1)" by fastforce
  show ?thesis
  proof (cases x)
    case (Fail e)
    then show ?thesis using assms x by (auto simp: await_reply_def logged_def w)
  next
    case (Ok n data)
    obtain tv k2 where c: "current_time (logged kern) (k1, tr @ [(RecvFrom s, x)]) = (tv, k2)" by (metis surj_pair)
    have "pkt1 st' = pkt1 st \<and> pworld st' = k2"
      using assms Ok x c by (auto simp: await_reply_def logged_def w cres_simps Let_def)
    then show ?thesis using clock_log [OF c] by (simp add: w)
  qed
qed

lemma ping_round_log:
  assumes "ping_round (logged kern) peer s dest q st = Inr st'" and "length (pkt1 st) = MAX_PACKET"
  shows "length (pkt1 st') = MAX_PACKET
       \<and> (\<exists>t. sends (snd (pworld st')) = sends (snd (pworld st)) @ [(s, dest, echo_request (of_nat q) t)])"
proof -
  obtain k tr where w: "pworld st = (k, tr)" by fastforce
  obtain t k1 tr1 where c: "current_time (logged kern) (k, tr) = (t, k1, tr1)" by (metis surj_pair)
  let ?bs = "echo_request (of_nat q) t"
  let ?p = "map Some ?bs @ drop 72 (pkt1 st)"
  have rd: "rd_bytes ?p 0 (MIN_PACKET + 8) = Inr ?bs" by (rule rd_bytes_front) (simp add: MIN_PACKET_def echo_request_def)
  obtain x k2 where x: "kern (SendTo s dest ?bs) k1 = (x, k2)" by fastforce
  let ?st = "st\<lparr> pkt1 := ?p, pworld := (k2, tr1 @ [(SendTo s dest ?bs, x)]) \<rparr>"
  have "st' = ?st \<or> await_reply (logged kern) peer s dest ?st = Inr st'"
    using assms(1) by (auto simp: ping_round_def w c build_echo_bytes [OF assms(2)] rd logged_def x cres_simps Let_def
        split: kres.splits if_splits)
  then have "pkt1 st' = ?p \<and> sends (snd (pworld st')) = sends tr1 @ [(s, dest, ?bs)]"
    using await_reply_log [of kern peer s dest ?st st'] by auto
  then show ?thesis using clock_log [OF c] assms(2) by (auto simp: w MAX_PACKET_def echo_request_def)
qed

lemma ping_rounds_log:
  assumes "ping_rounds (logged kern) peer s dest qs st = Inr st'" and "length (pkt1 st) = MAX_PACKET"
  shows "\<exists>ts. length ts = length qs
       \<and> sends (snd (pworld st')) = sends (snd (pworld st)) @ map2 (\<lambda>q t. (s, dest, echo_request (of_nat q) t)) qs ts"
  using assms
proof (induction qs arbitrary: st)
  case Nil
  then show ?case by simp
next
  case (Cons q qs)
  then obtain st1 where 1: "ping_round (logged kern) peer s dest q st = Inr st1" "ping_rounds (logged kern) peer s dest qs st1 = Inr st'"
    by (auto simp: cres_simps)
  obtain t where t: "length (pkt1 st1) = MAX_PACKET"
      "sends (snd (pworld st1)) = sends (snd (pworld st)) @ [(s, dest, echo_request (of_nat q) t)]"
    using ping_round_log [OF 1(1) Cons.prems(2)] by blast
  obtain ts where "length ts = length qs"
      "sends (snd (pworld st')) = sends (snd (pworld st1)) @ map2 (\<lambda>q t. (s, dest, echo_request (of_nat q) t)) qs ts"
    using Cons.IH [OF 1(2) t(1)] by blast
  then show ?case using t(2) by (intro exI [of _ "t # ts"]) simp
qed

text \<open>
  (C19) Whatever the network does, a \<^verbatim>\<open>ping\<close> that had memory and ran to its end has sent 50 packets to the address it was given: echo
  requests of 72 bytes numbered from 0, each with a checksum that verifies.
\<close>

theorem ping_sends_echo_requests:
  assumes "ping_host (logged kern) peer s dest (k, []) = Inr (Some counts, k', tr)"
  shows "\<exists>ts. length ts = NUM_PINGS \<and> sends tr = map2 (\<lambda>q t. (s, dest, echo_request (of_nat q) t)) [0..<NUM_PINGS] ts
       \<and> list_all (\<lambda>(_, _, bs). length bs = 72 \<and> inet_cksum bs = 0) (sends tr)"
proof -
  obtain x1 k1 where 1: "kern (Malloc MAX_PACKET) k = (x1, k1)" by fastforce
  obtain x2 k2 where 2: "kern (Malloc MAX_PACKET) k1 = (x2, k2)" by fastforce
  let ?tr = "[(Malloc MAX_PACKET, x1), (Malloc MAX_PACKET, x2)]"
  let ?st = "\<lparr> pkt1 = replicate MAX_PACKET None, pkt2 = replicate MAX_PACKET None, ok_recv = 0, bogus_recv = 0, lines_shown = [],
    pworld = (k2, ?tr) \<rparr>"
  obtain st' where run: "ping_rounds (logged kern) peer s dest [0..<NUM_PINGS] ?st = Inr st'"
      and fin: "(k', tr) = snd (logged kern Free (snd (logged kern Free (pworld st'))))"
    using assms 1 2 by (auto simp: ping_host_def logged_def cres_simps split: kres.splits)
  obtain ts where ts: "length ts = NUM_PINGS"
      "sends (snd (pworld st')) = sends ?tr @ map2 (\<lambda>q t. (s, dest, echo_request (of_nat q) t)) [0..<NUM_PINGS] ts"
    using ping_rounds_log [OF run] by auto
  moreover have "sends tr = sends (snd (pworld st'))"
    using fin by (cases "pworld st'") (auto simp: logged_def split: prod.splits)
  moreover have "sends ?tr = []" by (simp add: sends_def)
  ultimately have sent: "sends tr = map2 (\<lambda>q t. (s, dest, echo_request (of_nat q) t)) [0..<NUM_PINGS] ts" by simp
  have "list_all (\<lambda>(_, _, bs). length bs = 72 \<and> inet_cksum bs = 0) (sends tr)"
    unfolding sent by (auto simp: list_all_iff echo_request_verifies) (simp add: echo_request_def)
  then show ?thesis using ts(1) sent by blast
qed

text \<open>
  A network in which every packet is accepted and every wait ends with an echo reply from the address that is pinged, of any
  identifier and sequence number.
\<close>

definition answering :: "'k kernel \<Rightarrow> ('k \<Rightarrow> u32) \<Rightarrow> int \<Rightarrow> u32 \<Rightarrow> bool" where
  "answering kern peer s dest \<longleftrightarrow>
     (\<forall>n k. \<exists>a b k'. kern (Malloc n) k = (Ok a b, k'))
   \<and> (\<forall>d bs k. \<exists>a b k'. kern (SendTo s d bs) k = (Ok a b, k') \<and> 0 \<le> a)
   \<and> (\<forall>k. \<exists>n data k'. kern (RecvFrom s) k = (Ok n data, k') \<and> peer k' = dest
        \<and> 36 \<le> length data \<and> length data \<le> MAX_PACKET \<and> drop_bit 4 (data ! 0) = 4 \<and> data ! 20 = 0)"

lemma rd_received:
  assumes "at + n \<le> length d"
  shows "rd_bytes (receive d p) at n = Inr (take n (drop at d))"
  using assms by (auto simp: rd_bytes_def receive_def take_map drop_map comp_def)

lemma show_reply:
  assumes "36 \<le> length d" "drop_bit 4 (d ! 0) = 4" "d ! 20 = 0"
  shows "\<exists>l. show_icmp (receive d p) (length d) from to tv = Inr (from = to, Some l)"
  using assms by (auto simp: show_icmp_def rd_received)

lemma answered_round:
  assumes "answering kern peer s dest" and "length (pkt1 st) = MAX_PACKET"
  shows "\<exists>st'. ping_round kern peer s dest q st = Inr st' \<and> ok_recv st' = ok_recv st + 1 \<and> bogus_recv st' = bogus_recv st
       \<and> length (pkt1 st') = MAX_PACKET"
proof -
  obtain t k1 where c: "current_time kern (pworld st) = (t, k1)" by (metis surj_pair)
  let ?bs = "echo_request (of_nat q) t"
  let ?p = "map Some ?bs @ drop 72 (pkt1 st)"
  have rd: "rd_bytes ?p 0 (MIN_PACKET + 8) = Inr ?bs" by (rule rd_bytes_front) (simp add: MIN_PACKET_def echo_request_def)
  obtain a b k2 where x: "kern (SendTo s dest ?bs) k1 = (Ok a b, k2)" "0 \<le> a" using assms(1) by (meson answering_def)
  obtain n d k3 where r: "kern (RecvFrom s) k2 = (Ok n d, k3)" "peer k3 = dest" "36 \<le> length d" "length d \<le> MAX_PACKET"
      "drop_bit 4 (d ! 0) = 4" "d ! 20 = 0" using assms(1) by (meson answering_def)
  obtain tv k4 where c2: "current_time kern k3 = (tv, k4)" by (metis surj_pair)
  obtain l where l: "show_icmp (receive d (pkt2 st)) (length d) dest dest tv = Inr (True, Some l)"
    using show_reply [OF r(3,5,6), of "pkt2 st" dest dest tv] by auto
  have "\<not> a < 0" using x(2) by simp
  then show ?thesis using assms(2) r(4)
    by (simp add: ping_round_def c build_echo_bytes rd x(1) await_reply_def r(1,2) c2 l count_reply_def Let_def min_def)
      (simp add: echo_request_def MAX_PACKET_def)
qed

lemma answered_rounds:
  assumes "answering kern peer s dest" and "length (pkt1 st) = MAX_PACKET"
  shows "\<exists>st'. ping_rounds kern peer s dest qs st = Inr st' \<and> ok_recv st' = ok_recv st + length qs \<and> bogus_recv st' = bogus_recv st"
  using assms(2)
proof (induction qs arbitrary: st)
  case (Cons q qs)
  obtain st1 where 1: "ping_round kern peer s dest q st = Inr st1" "ok_recv st1 = ok_recv st + 1" "bogus_recv st1 = bogus_recv st"
      "length (pkt1 st1) = MAX_PACKET" using answered_round [OF assms(1) Cons.prems] by blast
  show ?case using Cons.IH [OF 1(4)] 1 by auto
qed simp

lemma answered_host:
  assumes "answering kern peer s dest"
  shows "\<exists>ls k'. ping_host kern peer s dest k = Inr (Some (NUM_PINGS, 0, ls), k')"
proof -
  obtain a b k1 where 1: "kern (Malloc MAX_PACKET) k = (Ok a b, k1)" using assms by (meson answering_def)
  obtain c d k2 where 2: "kern (Malloc MAX_PACKET) k1 = (Ok c d, k2)" using assms by (meson answering_def)
  let ?st = "\<lparr> pkt1 = replicate MAX_PACKET None, pkt2 = replicate MAX_PACKET None, ok_recv = 0, bogus_recv = 0, lines_shown = [],
    pworld = k2 \<rparr>"
  obtain st' where "ping_rounds kern peer s dest [0..<NUM_PINGS] ?st = Inr st'" "ok_recv st' = NUM_PINGS" "bogus_recv st' = 0"
    using answered_rounds [OF assms, of ?st "[0..<NUM_PINGS]"] by auto
  then show ?thesis by (simp add: ping_host_def 1 2)
qed

text \<open>With such a network the report is 50 answers and nothing bad: an answer to another program's request, which only differs in
  its identifier, is counted like one's own.\<close>

theorem ping_counts_any_reply:
  assumes "answering kern peer s dest"
  shows "\<exists>ls k'. ping_host kern peer s dest k = Inr (Some (NUM_PINGS, 0, ls), k')"
  using assms by (rule answered_host)

text \<open>A reply of 37 bytes from 10.0.0.1 with the identifier \<^verbatim>\<open>0x9999\<close>, and a network that always delivers it.\<close>

definition foreign_reply :: "u8 list" where
  "foreign_reply = 0x45 # replicate 19 0 @ [0, 0, 0, 0, 0x99, 0x99, 0, 7] @ replicate 9 0"

definition echo_kernel :: "unit kernel" where
  "echo_kernel r k = (case r of RecvFrom _ \<Rightarrow> (Ok 37 foreign_reply, k) | _ \<Rightarrow> (Ok 0 [], k))"

lemma echo_kernel_answers: "answering echo_kernel (\<lambda>_. 0x0a000001) 3 0x0a000001"
  by (simp add: answering_def echo_kernel_def foreign_reply_def MAX_PACKET_def nth_append)

lemma logged_echo_answers: "answering (logged echo_kernel) (\<lambda>_. 0x0a000001) 3 0x0a000001"
  by (simp add: answering_def logged_def echo_kernel_def foreign_reply_def MAX_PACKET_def nth_append)

theorem ping_sends_echo_requests_witness:
  "\<exists>counts k' tr ts. ping_host (logged echo_kernel) (\<lambda>_. 0x0a000001) 3 0x0a000001 ((), []) = Inr (Some counts, k', tr)
     \<and> length ts = 50 \<and> sends tr = map2 (\<lambda>q t. (3, 0x0a000001, echo_request (of_nat q) t)) [0..<50] ts"
proof -
  obtain ls k' tr where run: "ping_host (logged echo_kernel) (\<lambda>_. 0x0a000001) 3 0x0a000001 ((), []) = Inr (Some (NUM_PINGS, 0, ls), k', tr)"
    using answered_host [OF logged_echo_answers, of "((), [])"] by (metis surj_pair)
  then show ?thesis using ping_sends_echo_requests [OF run] unfolding NUM_PINGS_def by blast
qed

theorem ping_counts_any_reply_witness:
  "\<exists>ls k'. ping_host echo_kernel (\<lambda>_. 0x0a000001) 3 0x0a000001 () = Inr (Some (50, 0, ls), k')"
  using ping_counts_any_reply [OF echo_kernel_answers, of "()"] by (simp add: NUM_PINGS_def)

end
