(* ===== verification/Flash_Admin.thy ===== *)
theory Flash_Admin
  imports Flash_Io
begin

text \<open>
  The rest of the flash library for the board's device: the geometry queries, the locks that a caller holds over several
  operations, and the texts of the errors (\<^verbatim>\<open>packages/io/flash/current/src/flash.c\<close>). The block locks of the chip are compiled out,
  as the driver has none.
\<close>

section \<open>Geometry\<close>

record flash_info =
  info_start :: u32
  info_end :: u32
  num_block_infos :: nat
  infos :: "(u32 \<times> u32) list"

definition info_of :: "flash_dev \<Rightarrow> flash_info" where
  "info_of dev = \<lparr> info_start = dev_start dev, info_end = dev_end dev, num_block_infos = length (block_info dev), infos = block_info dev \<rparr>"

text \<open>\<open>Inl\<close> is the status, with nothing stored.\<close>

definition cyg_flash_get_info :: "'h flash_lib \<Rightarrow> u32 \<Rightarrow> int + flash_info" where
  "cyg_flash_get_info st Nth =
     (if \<not> lib_init st then Inl CYG_FLASH_ERR_NOT_INIT
      else if Nth = 0 \<and> dev_init (fdev st) then Inr (info_of (fdev st))
      else Inl CYG_FLASH_ERR_INVALID)"

definition cyg_flash_get_info_addr :: "'h flash_lib \<Rightarrow> u32 \<Rightarrow> int + flash_info" where
  "cyg_flash_get_info_addr st flash_base = (case find_dev st flash_base of Inl stat \<Rightarrow> Inl stat | Inr dev \<Rightarrow> Inr (info_of dev))"

section \<open>Locks over a range\<close>

text \<open>The recursive call for what lies past the device would wait for the lock that is held already, if it found the device again.\<close>

definition cyg_flash_mutex_lock :: "u32 \<Rightarrow> u32 \<Rightarrow> 'h flash_lib \<Rightarrow> (int \<times> 'h flash_lib) cres" where
  "cyg_flash_mutex_lock from len st = (case find_dev st from of
     Inl stat \<Rightarrow> Inr (stat, st)
   | Inr dev \<Rightarrow>
       guard_c (\<not> flock st) Diverges
         (if len > dev_end dev + 1 - from then
            (case find_dev st (dev_end dev + 1) of
               Inl stat \<Rightarrow> Inr (stat, st\<lparr> flock := stat = CYG_FLASH_ERR_OK \<rparr>)
             | Inr _ \<Rightarrow> Inl Diverges)
          else Inr (CYG_FLASH_ERR_OK, st\<lparr> flock := True \<rparr>)))"

text \<open>The rest of the range is locked, not unlocked; when that fails the device is locked again.\<close>

definition cyg_flash_mutex_unlock :: "u32 \<Rightarrow> u32 \<Rightarrow> 'h flash_lib \<Rightarrow> (int \<times> 'h flash_lib) cres" where
  "cyg_flash_mutex_unlock from len st = (case find_dev st from of
     Inl stat \<Rightarrow> Inr (stat, st)
   | Inr dev \<Rightarrow>
       (let st1 = st\<lparr> flock := False \<rparr> in
        if len > dev_end dev + 1 - from then
          bind_ok (cyg_flash_mutex_lock (dev_end dev + 1) (len - (dev_end dev + 1 - from)) st1) (\<lambda>(stat, st2).
          if stat \<noteq> CYG_FLASH_ERR_OK then guard_c (\<not> flock st2) Diverges (Inr (stat, st2\<lparr> flock := True \<rparr>)) else Inr (stat, st2))
        else Inr (CYG_FLASH_ERR_OK, st1)))"

section \<open>Texts\<close>

definition cyg_flash_errmsg :: "int \<Rightarrow> string" where
  "cyg_flash_errmsg err =
     (if err = 0 then ''No error - operation complete''
      else if err = 9 then ''Device is in erase suspend state''
      else if err = 10 then ''Device is in program suspend state''
      else if err = 1 then ''Invalid FLASH address''
      else if err = 2 then ''Error trying to erase''
      else if err = 3 then ''Error trying to lock/unlock''
      else if err = 4 then ''Error trying to program''
      else if err = 5 then ''Generic error''
      else if err = 6 then ''Device/region is write-protected''
      else if err = 7 then ''FLASH sub-system not initialized''
      else if err = 11 then ''Data verify failed after operation''
      else if err = 12 then ''Driver timed out waiting for device''
      else if err = 13 then ''Driver does not support device''
      else if err = 14 then ''Device reports low voltage''
      else ''Unknown error'')"

section \<open>Properties\<close>

lemma flock_kept [simp]: "find_dev (st\<lparr> flock := b \<rparr>) a = find_dev st a"
  by (simp add: find_dev_def)

lemma find_dev_ready: "lib_ready st \<Longrightarrow> find_dev st from = Inr dev \<Longrightarrow> dev = board_dev"
  by (auto simp: find_dev_def lib_ready_def split: if_splits)

lemma past_board: "lib_ready st \<Longrightarrow> find_dev st (dev_end board_dev + 1) = Inl CYG_FLASH_ERR_INVALID"
  by (simp add: find_dev_def lib_ready_def) (simp add: board_defs)


text \<open>Asking by number and asking by any address of the device give the same geometry.\<close>

lemma info_by_address:
  assumes "find_dev st a = Inr dev"
  shows "cyg_flash_get_info_addr st a = cyg_flash_get_info st 0"
  using assms by (auto simp: cyg_flash_get_info_addr_def cyg_flash_get_info_def find_dev_def split: if_splits)

text \<open>Each code of \<^verbatim>\<open>flash.h\<close> has a text of its own, but for \<^verbatim>\<open>CYG_FLASH_ERR_HWR\<close>, 8, which reads like an unknown one.\<close>

lemma errmsg_distinct: "distinct (map cyg_flash_errmsg [0..14])"
  by (simp add: cyg_flash_errmsg_def upto_rec1)

lemma errmsg_hwr: "cyg_flash_errmsg 8 = cyg_flash_errmsg 15"
  by (simp add: cyg_flash_errmsg_def)


end
