(* ===== verification/Fw_Upgrade.thy ===== *)
theory Fw_Upgrade
  imports Flash_Admin Conf_Flash Cli_Commands
begin

text \<open>
  The commands that write the flash directly: the firmware upgrade (\<^verbatim>\<open>_ftp_get\<close> of \<^verbatim>\<open>ecosap/shell/ftpclient.c\<close> with
  \<^verbatim>\<open>upgrade\<close> of \<^verbatim>\<open>bsp_commands.c\<close>) and the test commands \<^verbatim>\<open>fwconfig\<close> and \<^verbatim>\<open>frconfig\<close>. The FTP client and the firewall calls that
  let it through are parameters; what \<^verbatim>\<open>ftp_get\<close> returns is cut at the size of the buffer it is given, as it promises.
\<close>

definition ECOS_IMAGE_BASE :: u32 where "ECOS_IMAGE_BASE = 0x9f009000"
definition IMAGESIZE :: nat where "IMAGESIZE = 20"

record 'n ftp_ops =
  ftp_get :: "string \<Rightarrow> string \<Rightarrow> string \<Rightarrow> string \<Rightarrow> nat \<Rightarrow> 'n \<Rightarrow> (int \<times> u8 list) \<times> 'n"
  ipfw_add_ftp_rules :: "'n \<Rightarrow> 'n"
  ipfw_del_ftp_rules :: "'n \<Rightarrow> 'n"

text \<open>The text in a buffer, up to its NUL; \<open>None\<close> is a byte without a value.\<close>

fun buf_text :: "u8 option list \<Rightarrow> string cres" where
  "buf_text [] = Inl OutOfBounds"
| "buf_text (None # b) = Inl UninitRead"
| "buf_text (Some x # b) = (if x = 0 then Inr [] else bind_ok (buf_text b) (\<lambda>s. Inr (char_of_byte x # s)))"

definition filled :: "nat \<Rightarrow> u8 list \<Rightarrow> u8 option list" where
  "filled n d = map Some d @ replicate (n - length d) None"

text \<open>
  Both files are also printed as texts: the file \<^verbatim>\<open>size\<close> before the buffer is terminated, and the image. An image that is
  shorter than its announced size leaves bytes of the buffer unset, which are programmed.
\<close>

definition ftp_get_image ::
  "'h nor_ops \<Rightarrow> 'n ftp_ops \<Rightarrow> (nat \<Rightarrow> bool) \<Rightarrow> string \<Rightarrow> string \<Rightarrow> string \<Rightarrow> 'n \<Rightarrow> 'h flash_lib \<Rightarrow> (int \<times> 'n \<times> 'h flash_lib) cres" where
  "ftp_get_image ops F malloc_ok srv usr pw n st =
     (let ((ret, d), n2) = ftp_get F srv usr pw ''size'' IMAGESIZE (ipfw_add_ftp_rules F n) in
      if ret \<le> 0 then Inr (- 1, n2, st)
      else
        (let ftpbuf = filled IMAGESIZE (take IMAGESIZE d) in
         bind_ok (buf_text ftpbuf) (\<lambda>_.
         bind_ok (buf_text (ftpbuf[IMAGESIZE - 1 := Some 0])) (\<lambda>s.
         let size = fst (strtoul10 s) in
         if \<not> malloc_ok (unat size) then Inr (- 1, n2, st)
         else
           (let ((ret2, d2), n3) = ftp_get F srv usr pw ''image'' (unat (size + 10)) n2; img = take (unat (size + 10)) d2 in
            guard_c (length img \<le> unat size) OutOfBounds (
            if ret2 \<le> 0 then Inr (- 1, n3, st)
            else
              bind_ok (buf_text (filled (unat size) img)) (\<lambda>_.
              let n4 = ipfw_del_ftp_rules F n3; (ret3, st1) = cyg_flash_init ops st in
              if ret3 \<noteq> 0 then Inr (ret3, n4, st1)
              else
                bind_ok (cyg_flash_erase ops ECOS_IMAGE_BASE size st1) (\<lambda>(ret4, st2).
                if ret4 \<noteq> 0 then Inr (ret4, n4, st2)
                else
                  guard_c (length img = unat size) UninitRead (
                  bind_ok (cyg_flash_program ops ECOS_IMAGE_BASE img size st2) (\<lambda>(ret5, st3).
                  Inr (ret5, n4, st3)))))))))))"

definition download_update ::
  "'h nor_ops \<Rightarrow> 'n ftp_ops \<Rightarrow> (nat \<Rightarrow> bool) \<Rightarrow> string list \<Rightarrow> 'n \<Rightarrow> 'h flash_lib \<Rightarrow> (int \<times> 'n \<times> 'h flash_lib) cres" where
  "download_update ops F malloc_ok argv n st = (case argv of
     [srv, usr, pw] \<Rightarrow> ftp_get_image ops F malloc_ok srv usr pw n st
   | _ \<Rightarrow> Inr (SHELL_INVALID_ARGUMENT, n, st))"


section \<open>The test commands\<close>

text \<open>\<^verbatim>\<open>set\<close> (\<^verbatim>\<open>fwconfig\<close>) stores a text in the configuration sector and compares the result with its length; \<^verbatim>\<open>get\<close>
  (\<^verbatim>\<open>frconfig\<close>) prints what is there.\<close>

definition fwconfig_set :: "'h nor_ops \<Rightarrow> bool \<Rightarrow> string option \<Rightarrow> 'h flash_lib \<Rightarrow> (int \<times> 'h flash_lib) cres" where
  "fwconfig_set ops malloc_ok arg st = (case arg of
     None \<Rightarrow> Inr (SHELL_INVALID_ARGUMENT, st)
   | Some s \<Rightarrow>
       bind_ok (cyg_flash_setconf ops malloc_ok (map byte_of_char s) 0 st) (\<lambda>(len, st1).
       Inr (if int (length s) \<noteq> len then SHELL_INVALID_ARGUMENT else SHELL_OK, st1)))"

definition frconfig_get :: "'h nor_ops \<Rightarrow> bool \<Rightarrow> 'h flash_lib \<Rightarrow> (string option \<times> 'h flash_lib) cres" where
  "frconfig_get ops malloc_ok st =
     (if \<not> malloc_ok then Inr (None, st)
      else
        bind_ok (cyg_flash_getconf ops 119 0 st) (\<lambda>(ret, bytes, st1).
        if ret \<noteq> 0 then Inr (None, st1)
        else bind_ok (buf_text (filled 120 bytes)) (\<lambda>s. Inr (Some s, st1))))"

text \<open>The address of an interface, in both copies of the configuration.\<close>

fun set_bytes :: "nat \<Rightarrow> u8 list \<Rightarrow> u8 list \<Rightarrow> u8 list cres" where
  "set_bytes i [] m = Inr m"
| "set_bytes i (b # bs) m = guard_c (i < length m) OutOfBounds (set_bytes (i + 1) bs (m[i := b]))"

definition cyg_flash_setmac :: "'f conf_ops \<Rightarrow> u8 list \<Rightarrow> nat \<Rightarrow> 'f nw_state \<Rightarrow> (int \<times> 'f nw_state) cres" where
  "cyg_flash_setmac cops data which st =
     guard_c (6 \<le> length data) OutOfBounds (
     bind_ok (set_bytes (which * 6) (take 6 data) (mac_addr (config st))) (\<lambda>m1.
     bind_ok (set_bytes (which * 6) (take 6 data) (mac_addr (new_config st))) (\<lambda>m2.
     bind_ok (write_nw_flash cops (st\<lparr> config := (config st)\<lparr> mac_addr := m1 \<rparr>, new_config := (new_config st)\<lparr> mac_addr := m2 \<rparr> \<rparr>))
       (\<lambda>(_, st1). Inr (0, st1)))))"

section \<open>Erasing and programming a range\<close>

definition erased_range :: "nat \<Rightarrow> nat \<Rightarrow> (nat \<Rightarrow> u8) \<Rightarrow> nat \<Rightarrow> u8" where
  "erased_range a n m i = (if a \<le> i \<and> i < a + n then 0xFF else m i)"

text \<open>The address of a sector.\<close>

definition sector :: "nat \<Rightarrow> u32" where
  "sector k = ATHR_FLASH_START + of_nat (4096 * k)"

lemma sector_Suc: "sector k + 4096 = sector (Suc k)"
  by (simp add: sector_def algebra_simps)

lemma sector_offset: "k < 4096 \<Longrightarrow> unat (sector k - ATHR_FLASH_START) = 4096 * k"
  unfolding sector_def by (simp add: unat_of_nat_small del: of_nat_mult)

lemma sector_base: "k < 4096 \<Longrightarrow> unat (sector k - CFG_FLASH_BASE) = 4096 * k"
  using sector_offset [of k] by (simp add: ATHR_FLASH_START_def CFG_FLASH_BASE_def)

lemma sector_24:
  assumes "k < 4096" shows "unat (sector k) mod 2 ^ 24 = 4096 * k"
proof -
  have k: "4096 * k < 2 ^ 24" using assms by simp
  have "unat (sector k) = 0x9f000000 + 4096 * k"
    unfolding sector_def ATHR_FLASH_START_def
    by (subst unat_word_ariths) (use k in \<open>simp add: unat_of_nat_small del: of_nat_mult\<close>)
  then have "unat (sector k) = 4096 * k + 159 * 2 ^ 24" by simp
  then show ?thesis using k by (simp only: mod_mult_self1 mod_less)
qed

lemma sector_block:
  assumes "k < 256" shows "flash_block_size board_dev (sector k) = 4096"
proof -
  have "unat (sector k - ATHR_FLASH_START) < 0x100000" using sector_offset [of k] assms by simp
  then have "sector k - ATHR_FLASH_START < 0x100000" by (simp add: word_less_nat_alt)
  then show ?thesis by (simp add: flash_block_size_def board_defs)
qed

lemma erase_sector_range: "erase_sector (4096 * k) m = erased_range (4096 * k) 4096 m"
proof (rule ext)
  fix i
  have "i div 4096 = k \<longleftrightarrow> 4096 * k \<le> i \<and> i < 4096 * k + 4096" by linarith
  then show "erase_sector (4096 * k) m i = erased_range (4096 * k) 4096 m i"
    by (simp add: erase_sector_def erased_range_def)
qed

lemma erased_range_0: "erased_range a 0 m = m"
  by (rule ext) (auto simp: erased_range_def)

lemma erased_range_join: "erased_range (a + n) p (erased_range a n m) = erased_range a (n + p) m"
  by (rule ext) (auto simp: erased_range_def)


text \<open>The place of the image.\<close>

lemma image_sector: "ECOS_IMAGE_BASE = sector 9"
  by (simp add: ECOS_IMAGE_BASE_def sector_def board_defs)

lemma image_dev: "lib_ready st \<Longrightarrow> find_dev st ECOS_IMAGE_BASE = Inr board_dev"
  by (simp add: find_dev_def lib_ready_def) (simp add: board_defs ECOS_IMAGE_BASE_def)

lemma image_block: "flash_block_begin ECOS_IMAGE_BASE board_dev = Inr ECOS_IMAGE_BASE"
  using sector_block [of 9] by (simp add: flash_block_begin_def image_sector) (simp add: board_defs sector_def)

lemma image_fits:
  assumes "n \<le> 247 * 4096"
  shows "\<not> dev_end board_dev + 1 - ECOS_IMAGE_BASE < (of_nat n :: u32)"
  using assms by (simp add: board_defs ECOS_IMAGE_BASE_def word_less_nat_alt unat_of_nat_small)

lemma image_count:
  assumes "n \<le> 247 * 4096"
  shows "clip_end board_dev ECOS_IMAGE_BASE (of_nat n) + 1 - ECOS_IMAGE_BASE = (of_nat n :: u32)"
  using image_fits [OF assms] by (simp add: clip_end_def)

context nor_flash
begin

lemma mapped_read_sector:
  assumes "quiet s m" "k < 256"
  shows "mapped_read ops s (sector k) 4096 = map (\<lambda>i. m (4096 * k + i)) [0..<4096]"
  using assms sector_offset [of k] by (simp add: mapped_read_def quiet_def)

lemma sector_already_erased:
  assumes "\<forall>b \<in> set (map (\<lambda>i. m (4096 * k + i)) [0..<4096]). b = 0xFF"
  shows "erased_range (4096 * k) 4096 m = m"
proof (rule ext)
  fix i
  have "m i = 0xFF" if "4096 * k \<le> i" "i < 4096 * k + 4096"
    using assms that by (auto dest!: bspec [of _ _ "i - 4096 * k"])
  then show "erased_range (4096 * k) 4096 m i = m i" by (simp add: erased_range_def)
qed

text \<open>One round of the erase loop.\<close>

lemma erase_one:
  assumes "quiet s m" "k < 256"
  shows "\<exists>s1. (if \<forall>b \<in> set (mapped_read ops s (sector k) 4096). b = 0xFF then Inr (CYG_FLASH_ERR_OK, s)
                else of_chip (qca953x_erase_block ops (sector k) s)) = Inr (0, s1)
       \<and> quiet s1 (erased_range (4096 * k) 4096 m)"
proof (cases "\<forall>b \<in> set (mapped_read ops s (sector k) 4096). b = 0xFF")
  case True
  then show ?thesis using assms sector_already_erased [of m k] by (simp add: mapped_read_sector CYG_FLASH_ERR_OK_def)
next
  case False
  obtain s1 where "qca953x_erase_block ops (sector k) s = Some (0, s1)" "quiet s1 (erase_sector (4096 * k) m)"
    using qca953x_erase_block_effect [OF assms(1), of "sector k"] sector_24 [of k] assms(2) by auto
  then show ?thesis by (simp only: if_not_P [OF False] of_chip_def erase_sector_range option.case) blast
qed

lemma erase_loop_effect:
  assumes "quiet s m" "k + j \<le> 256" "cnt \<le> 4096 * j" "j = 0 \<or> 4096 * (j - 1) < cnt"
  shows "\<exists>s1. erase_loop ops board_dev (sector k) (of_nat cnt) s = Inr (0, s1) \<and> quiet s1 (erased_range (4096 * k) (4096 * j) m)"
  using assms
proof (induction j arbitrary: k cnt s m)
  case 0
  then show ?case by (simp add: erase_loop.simps [of _ _ _ 0] CYG_FLASH_ERR_OK_def erased_range_0)
next
  case (Suc j)
  have k: "k < 256" using Suc.prems(2) by simp
  have cnt: "0 < cnt" "cnt \<le> 0x100000" using Suc.prems(2,3,4) by auto
  have u: "unat (of_nat cnt :: u32) = cnt" using cnt by (intro unat_of_nat_small) simp
  have nz: "(of_nat cnt :: u32) \<noteq> 0" using u cnt(1) by (metis less_numeral_extra(3) unat_0)
  obtain s1 where s1: "(if \<forall>b \<in> set (mapped_read ops s (sector k) 4096). b = 0xFF then Inr (CYG_FLASH_ERR_OK, s)
        else of_chip (qca953x_erase_block ops (sector k) s)) = Inr (0, s1)" "quiet s1 (erased_range (4096 * k) 4096 m)"
    using erase_one [OF Suc.prems(1) k] by blast
  have left: "(if (of_nat cnt :: u32) < 4096 then 4096 else of_nat cnt) - 4096 = (of_nat (cnt - 4096) :: u32)"
    using u by (auto simp: word_less_nat_alt of_nat_diff not_less)
  have n4: "unat (4096 :: u32) = 4096" by simp
  have step: "erase_loop ops board_dev (sector k) (of_nat cnt) s
      = erase_loop ops board_dev (sector (Suc k)) (of_nat (cnt - 4096)) s1"
    by (subst erase_loop.simps) (simp only: Let_def nz sector_block [OF k] n4 if_False s1(1) left sector_Suc
        sum.case prod.case, simp add: CYG_FLASH_ERR_OK_def)
  have more: "j = 0 \<or> 4096 * (j - 1) < cnt - 4096" using Suc.prems(4) by (cases j) auto
  have few: "cnt - 4096 \<le> 4096 * j" using Suc.prems(3) by simp
  obtain s2 where "erase_loop ops board_dev (sector (Suc k)) (of_nat (cnt - 4096)) s1 = Inr (0, s2)"
      "quiet s2 (erased_range (4096 * Suc k) (4096 * j) (erased_range (4096 * k) 4096 m))"
    using Suc.IH [OF s1(2) _ few more, of "Suc k"] Suc.prems by auto
  then show ?case using erased_range_join [of "4096 * k" 4096 "4096 * j" m] step by (simp add: add.commute)
qed

lemma write_loop_effect:
  assumes "quiet s m" "k + j \<le> 256" "length ram \<le> 4096 * j" "j = 0 \<or> 4096 * (j - 1) < length ram"
  shows "\<exists>s1. write_loop ops board_dev (sector k) ram (of_nat (length ram)) 0 s = Inr (0, s1)
       \<and> quiet s1 (program_bytes (4096 * k) ram m)"
  using assms
proof (induction j arbitrary: k ram s m)
  case 0
  then show ?case by (simp add: write_loop.simps [of _ _ _ _ 0] CYG_FLASH_ERR_OK_def program_bytes_Nil)
next
  case (Suc j)
  let ?n = "min (length ram) 4096"
  have k: "k < 256" using Suc.prems(2) by simp
  have len: "0 < length ram" "length ram \<le> 0x100000" using Suc.prems(2,3,4) by auto
  have u: "unat (of_nat (length ram) :: u32) = length ram" using len by (intro unat_of_nat_small) simp
  have nz: "(of_nat (length ram) :: u32) \<noteq> 0" using u len(1) by (metis less_numeral_extra(3) unat_0)
  have w: "(if (4096 :: u32) - 0 < (of_nat (length ram) :: u32) then 4096 - 0 else of_nat (length ram)) = (of_nat ?n :: u32)"
    using u by (auto simp: word_less_nat_alt min_def)
  have un: "unat (of_nat ?n :: u32) = ?n" by (intro unat_of_nat_small) simp
  have nz2: "(of_nat ?n :: u32) \<noteq> 0" using un len(1) by (metis min_less_iff_conj less_numeral_extra(3) unat_0 zero_less_numeral)
  have fits: "4096 * k + min (length ram) 4096 \<le> 16777216" using k by linarith
  obtain s1 where s1: "qca953x_program ops (sector k) (take ?n ram) s = Some (0, s1)" "quiet s1 (program_bytes (4096 * k) (take ?n ram) m)"
    using qca953x_program_effect [OF Suc.prems(1), of "sector k" "take ?n ram"] sector_base [of k] k fits by auto
  have step: "write_loop ops board_dev (sector k) ram (of_nat (length ram)) 0 s
      = write_loop ops board_dev (sector k + of_nat ?n) (drop ?n ram) (of_nat (length ram) - of_nat ?n) 0 s1"
    by (subst write_loop.simps) (simp only: Let_def nz sector_block [OF k] w un nz2 if_False s1(1) of_chip_def option.case
        sum.case prod.case, simp add: CYG_FLASH_ERR_OK_def)
  have left: "(of_nat (length ram) - of_nat ?n :: u32) = of_nat (length (drop ?n ram))" by (simp add: of_nat_diff)
  show ?case
  proof (cases "length ram \<le> 4096")
    case True
    then show ?thesis using step left s1(2) by (simp add: write_loop.simps [of _ _ _ _ 0] CYG_FLASH_ERR_OK_def)
  next
    case False
    then have n: "?n = 4096" by simp
    have more: "j = 0 \<or> 4096 * (j - 1) < length (drop ?n ram)" using Suc.prems(4) n by (cases j) auto
    have few: "length (drop ?n ram) \<le> 4096 * j" using Suc.prems(3) n by simp
    obtain s2 where "write_loop ops board_dev (sector (Suc k)) (drop ?n ram) (of_nat (length (drop ?n ram))) 0 s1 = Inr (0, s2)"
        "quiet s2 (program_bytes (4096 * Suc k) (drop ?n ram) (program_bytes (4096 * k) (take ?n ram) m))"
      using Suc.IH [OF s1(2) _ few more, of "Suc k"] Suc.prems False by auto
    then show ?thesis
      using step left False program_bytes_append [of "4096 * k" "take 4096 ram" "drop 4096 ram" m] by (simp add: n sector_Suc add.commute)
  qed
qed

lemma erase_image:
  assumes "lib_ready st" "quiet (fspi st) m" "0 < n" "n \<le> 247 * 4096"
  shows "\<exists>st'. cyg_flash_erase ops ECOS_IMAGE_BASE (of_nat n) st = Inr (0, st') \<and> lib_ready st'
     \<and> quiet (fspi st') (erased_range 0x9000 (4096 * ((n + 4095) div 4096)) m)"
proof -
  obtain s1 where s1: "erase_loop ops board_dev ECOS_IMAGE_BASE (of_nat n) (fspi st) = Inr (0, s1)"
      "quiet s1 (erased_range 0x9000 (4096 * ((n + 4095) div 4096)) m)"
    using erase_loop_effect [OF assms(2), of 9 "(n + 4095) div 4096" n] assms(3,4) unfolding image_sector by fastforce
  then show ?thesis using assms(1) image_fits [OF assms(4)]
    by (simp add: cyg_flash_erase_def image_dev image_block image_count [OF assms(4)] next_device_def Let_def conf_defs)
      (simp add: lib_ready_def)
qed

lemma program_image:
  assumes "lib_ready st" "quiet (fspi st) m" "0 < length ram" "length ram \<le> 247 * 4096"
  shows "\<exists>st'. cyg_flash_program ops ECOS_IMAGE_BASE ram (of_nat (length ram)) st = Inr (0, st') \<and> lib_ready st'
     \<and> quiet (fspi st') (program_bytes 0x9000 ram m)"
proof -
  obtain s1 where s1: "write_loop ops board_dev ECOS_IMAGE_BASE ram (of_nat (length ram)) 0 (fspi st) = Inr (0, s1)"
      "quiet s1 (program_bytes 0x9000 ram m)"
    using write_loop_effect [OF assms(2), of 9 "(length ram + 4095) div 4096" ram] assms(3,4) unfolding image_sector by fastforce
  then show ?thesis using assms(1) image_fits [OF assms(4)]
    by (simp add: cyg_flash_program_def image_dev image_block image_count [OF assms(4)] next_device_def Let_def conf_defs)
      (simp add: lib_ready_def)
qed

end

section \<open>An upgrade\<close>

lemma buf_text_cstr: "is_cstr s \<Longrightarrow> buf_text (map Some (map byte_of_char s @ [0]) @ r) = Inr s"
  by (induction s) (auto simp: is_cstr_def byte_of_char_0)

lemma buf_text_ends: "0 \<in> set d \<Longrightarrow> \<exists>s. buf_text (map Some d @ r) = Inr s"
  by (induction d) auto

lemma filled_text:
  assumes "is_cstr s" "Suc (length s) < n"
  shows "buf_text (filled n (map byte_of_char s @ [0])) = Inr s"
    and "buf_text ((filled n (map byte_of_char s @ [0]))[n - 1 := Some 0]) = Inr s"
proof -
  let ?d = "map byte_of_char s @ [0]"
  show "buf_text (filled n ?d) = Inr s" using buf_text_cstr [OF assms(1)] by (simp add: filled_def)
  have "(filled n ?d)[n - 1 := Some 0] = map Some ?d @ (replicate (n - length ?d) None)[n - 1 - length ?d := Some 0]"
    unfolding filled_def list_update_append using assms(2) by auto
  then show "buf_text ((filled n ?d)[n - 1 := Some 0]) = Inr s" using buf_text_cstr [OF assms(1)] by simp
qed

lemma show_nat_cstr: "is_cstr (show_nat n)"
  unfolding is_cstr_def using show_nat_digits [of NUL n] isdigit_not_NUL by blast

lemma strtoul10_show_nat: "n < 2 ^ 32 \<Longrightarrow> fst (strtoul10 (show_nat n)) = of_nat n"
proof -
  assume n: "n < 2 ^ 32"
  obtain c cs where s: "show_nat n = c # cs" by (cases "show_nat n") auto
  then have "c_isdigit c" using show_nat_digits [of c n] by simp
  moreover have "dec_val (c # cs) = n" using dec_val_show_nat [of n] s by metis
  ultimately show ?thesis using n unfolding s by (simp add: strtoul10_def Let_def)
qed

text \<open>The announcement of a size, and how it is read.\<close>

definition size_file :: "nat \<Rightarrow> u8 list" where
  "size_file n = map byte_of_char (show_nat n) @ [0]"

lemma size_file_read:
  assumes "n \<le> 2000000"
  shows "take 20 (size_file n) = size_file n"
    and "buf_text (filled 20 (size_file n)) = Inr (show_nat n)"
    and "buf_text ((filled 20 (size_file n))[19 := Some 0]) = Inr (show_nat n)"
    and "fst (strtoul10 (show_nat n)) = of_nat n"
    and "unat (of_nat n :: u32) = n"
    and "unat (of_nat n + 10 :: u32) = n + 10"
proof -
  have len: "length (show_nat n) \<le> 7" using length_show_nat_pow [of n 6] assms by simp
  then show "take 20 (size_file n) = size_file n" by (simp add: size_file_def)
  show "buf_text (filled 20 (size_file n)) = Inr (show_nat n)" "buf_text ((filled 20 (size_file n))[19 := Some 0]) = Inr (show_nat n)"
    using filled_text [OF show_nat_cstr, of n 20] len by (simp_all add: size_file_def)
  show "fst (strtoul10 (show_nat n)) = of_nat n" using strtoul10_show_nat [of n] assms by simp
  show "unat (of_nat n :: u32) = n" "unat (of_nat n + 10 :: u32) = n + 10"
    using assms unat_of_nat_small [of n, where ?'a = 32] unat_of_nat_small [of "n + 10", where ?'a = 32] by simp_all
qed

lemma program_erased:
  assumes "i < length d" "length d \<le> n"
  shows "program_bytes a d (erased_range a n m) (a + i) = d ! i"
proof -
  have "0xFF AND d ! i = d ! i"
  proof -
    have "(0xFF :: u8) = - 1" by simp
    then show ?thesis by (simp only: and.left_neutral)
  qed
  then show ?thesis using assms by (simp add: program_bytes_def erased_range_def)
qed

lemma program_erased_outside:
  assumes "i < a \<or> a + n \<le> i" "length d \<le> n"
  shows "program_bytes a d (erased_range a n m) i = m i"
  using assms by (auto simp: program_bytes_def erased_range_def)

text \<open>
  (C18) An upgrade from a server that announces the size of the image as a terminated text and delivers the image returns 0 with the
  image in flash from \<^verbatim>\<open>ECOS_IMAGE_BASE\<close>; the flash before it and behind its last sector is as it was, and the firewall rules of the
  transfer are gone.
\<close>

theorem upgrade_writes_image:
  assumes "nor_flash ops wel busy" and "lib_wf st" and "nor_flash.quiet ops busy (fspi st) m"
    and "ftp_get F srv usr pw ''size'' 20 (ipfw_add_ftp_rules F n) = ((rs, size_file (length img)), n2)" "0 < rs"
    and "ftp_get F srv usr pw ''image'' (length img + 10) n2 = ((ri, img), n3)" "0 < ri"
    and "malloc_ok (length img)" and "0 \<in> set img" and "length img \<le> 247 * 4096"
  shows "\<exists>st'. download_update ops F malloc_ok [srv, usr, pw] n st = Inr (0, ipfw_del_ftp_rules F n3, st')
     \<and> (\<forall>i < length img. mem_at ops (chip (fspi st')) (0x9000 + i) = img ! i)
     \<and> (\<forall>i. i < 0x9000 \<or> 0x9000 + 4096 * ((length img + 4095) div 4096) \<le> i \<longrightarrow> mem_at ops (chip (fspi st')) i = m i)"
proof -
  let ?L = "length img"
  have pos: "0 < ?L" using assms(9) by (cases img) auto
  have "?L \<le> 2000000" using assms(10) by simp
  note sz = size_file_read [OF this]
  obtain t where t: "buf_text (filled ?L img) = Inr t" using buf_text_ends [OF assms(9), of "[]"] by (auto simp: filled_def)
  obtain st1 where st1: "cyg_flash_init ops st = (0, st1)" "lib_ready st1" "nor_flash.quiet ops busy (fspi st1) m"
    using flash_init_wf [OF assms(2), of ops] assms(3) nor_flash.qca953x_init_effect [OF assms(1,3)] by auto
  let ?m = "erased_range 0x9000 (4096 * ((?L + 4095) div 4096)) m"
  obtain st2 where st2: "cyg_flash_erase ops ECOS_IMAGE_BASE (of_nat ?L) st1 = Inr (0, st2)" "lib_ready st2"
      "nor_flash.quiet ops busy (fspi st2) ?m"
    using nor_flash.erase_image [OF assms(1) st1(2,3) pos assms(10)] by blast
  obtain st3 where st3: "cyg_flash_program ops ECOS_IMAGE_BASE img (of_nat ?L) st2 = Inr (0, st3)"
      "nor_flash.quiet ops busy (fspi st3) (program_bytes 0x9000 img ?m)"
    using nor_flash.program_image [OF assms(1) st2(2,3) pos assms(10)] by blast
  have "download_update ops F malloc_ok [srv, usr, pw] n st = Inr (0, ipfw_del_ftp_rules F n3, st3)"
    using assms(4-8) by (simp add: download_update_def ftp_get_image_def IMAGESIZE_def sz t st1 st2 st3 Let_def)
  moreover have "mem_at ops (chip (fspi st3)) = program_bytes 0x9000 img ?m"
    using st3(2) nor_flash.quiet_def [OF assms(1)] by blast
  moreover have "?L \<le> 4096 * ((?L + 4095) div 4096)" by linarith
  ultimately show ?thesis using program_erased [of _ img _ "0x9000" m] program_erased_outside [of _ "0x9000" _ img m] by auto
qed


text \<open>
  The image may be up to ten bytes longer than announced: the download is given room for \<^verbatim>\<open>size + 10\<close> bytes in a buffer of
  \<^verbatim>\<open>size\<close>, and such an image is written past its end.
\<close>

theorem long_image_overflows_heap:
  assumes "ftp_get F srv usr pw ''size'' 20 (ipfw_add_ftp_rules F n) = ((rs, size_file sz), n2)" "0 < rs"
    and "ftp_get F srv usr pw ''image'' (sz + 10) n2 = ((ri, img), n3)"
    and "malloc_ok sz" and "sz < length img" and "sz \<le> 1000000"
  shows "download_update ops F malloc_ok [srv, usr, pw] n st = Inl OutOfBounds"
proof -
  have "\<not> min (length img) (sz + 10) \<le> sz" using assms(5) by simp
  then show ?thesis using assms(1-5) size_file_read [of sz] assms(6)
    by (simp add: download_update_def ftp_get_image_def IMAGESIZE_def Let_def guard_c_def)
qed

section \<open>The test commands\<close>

text \<open>\<^verbatim>\<open>fwconfig\<close> takes the error code 97, no memory, for the length of a text of 97 characters: nothing was stored, and it reports
  success.\<close>

theorem fwconfig_reports_false_success:
  assumes "lib_wf st" and "length s = 97"
  shows "\<exists>st'. fwconfig_set ops False (Some s) st = Inr (SHELL_OK, st') \<and> cyg_flash_init ops st = (0, st')"
proof -
  obtain st' where "cyg_flash_init ops st = (0, st')" using flash_init_wf [OF assms(1), of ops] by blast
  then show ?thesis using assms(2)
    by (simp add: fwconfig_set_def cyg_flash_setconf_def DOMAIN_MAX_def SECTOR_SIZE_def NOMEM_def)
qed

lemma set_bytes_ok: "i + length bs \<le> length m \<Longrightarrow> \<exists>m'. set_bytes i bs m = Inr m' \<and> length m' = length m"
proof (induction bs arbitrary: i m)
  case (Cons b bs)
  then show ?case using Cons.IH [of "i + 1" "m[i := b]"] by auto
qed simp

text \<open>The address of one of the four interfaces can be set, in a well-formed configuration, and the configuration is saved.\<close>

lemma setmac_saves:
  assumes "length (mac_addr (config st)) = 24" "length (mac_addr (new_config st)) = 24" "which < 4" "length data = 6"
  shows "\<exists>st1. cyg_flash_setmac cops data which st = bind_ok (write_nw_flash cops st1) (\<lambda>(_, st2). Inr (0, st2))
     \<and> length (mac_addr (new_config st1)) = 24"
proof -
  obtain m1 where m1: "set_bytes (which * 6) data (mac_addr (config st)) = Inr m1" "length m1 = 24"
    using set_bytes_ok [of "which * 6" data "mac_addr (config st)"] assms by auto
  obtain m2 where m2: "set_bytes (which * 6) data (mac_addr (new_config st)) = Inr m2" "length m2 = 24"
    using set_bytes_ok [of "which * 6" data "mac_addr (new_config st)"] assms by auto
  show ?thesis using assms(4)
    by (intro exI [of _ "st\<lparr> config := (config st)\<lparr> mac_addr := m1 \<rparr>, new_config := (new_config st)\<lparr> mac_addr := m2 \<rparr> \<rparr>"])
      (simp add: cyg_flash_setmac_def m1 m2)
qed

section \<open>Witnesses\<close>

text \<open>A server with an image of three bytes.\<close>

definition demo_ftp :: "u8 list \<Rightarrow> unit ftp_ops" where
  "demo_ftp img =
     \<lparr> ftp_get = (\<lambda>srv usr pw file room k. (if file = ''size'' then (2, size_file 3) else (3, img), k)),
       ipfw_add_ftp_rules = (\<lambda>k. k), ipfw_del_ftp_rules = (\<lambda>k. k) \<rparr>"

theorem upgrade_writes_image_witness:
  "\<exists>st'. download_update nor_chip_ops (demo_ftp [0xde, 0xad, 0]) (\<lambda>_. True) [''a'', ''b'', ''c''] () demo_flash = Inr (0, (), st')
     \<and> mem_at nor_chip_ops (chip (fspi st')) 0x9001 = 0xad \<and> mem_at nor_chip_ops (chip (fspi st')) 0 = 0"
proof -
  have "\<exists>st'. download_update nor_chip_ops (demo_ftp [0xde, 0xad, 0]) (\<lambda>_. True) [''a'', ''b'', ''c''] () demo_flash
        = Inr (0, ipfw_del_ftp_rules (demo_ftp [0xde, 0xad, 0]) (), st')
     \<and> (\<forall>i < length [0xde, 0xad, 0 :: u8]. mem_at nor_chip_ops (chip (fspi st')) (0x9000 + i) = [0xde, 0xad, 0] ! i)
     \<and> (\<forall>i. i < 0x9000 \<or> 0x9000 + 4096 * ((length [0xde, 0xad, 0 :: u8] + 4095) div 4096) \<le> i
           \<longrightarrow> mem_at nor_chip_ops (chip (fspi st')) i = (\<lambda>_. 0) i)"
    by (rule upgrade_writes_image [OF nor.nor_flash_axioms demo_flash_wf, where rs = 2 and ri = 3 and ?n2.0 = "()" and ?n3.0 = "()"])
      (simp_all add: demo_ftp_def numeral_3_eq_3)
  then show ?thesis by (fastforce simp: demo_ftp_def dest: spec [of _ 1])
qed

theorem long_image_overflows_heap_witness:
  "download_update nor_chip_ops (demo_ftp [1, 2, 3, 4]) (\<lambda>_. True) [''a'', ''b'', ''c''] () demo_flash = Inl OutOfBounds"
  by (rule long_image_overflows_heap [where sz = 3 and rs = 2 and ri = 3 and ?n2.0 = "()" and ?n3.0 = "()" and img = "[1, 2, 3, 4]"])
    (simp_all add: demo_ftp_def)

theorem fwconfig_reports_false_success_witness:
  "\<exists>st'. fwconfig_set nor_chip_ops False (Some (replicate 97 (CHR ''x''))) demo_flash = Inr (SHELL_OK, st')
     \<and> cyg_flash_init nor_chip_ops demo_flash = (0, st')"
  by (rule fwconfig_reports_false_success [OF demo_flash_wf(1)]) simp

end
