(* ===== verification/Spec2Isabelle.thy ===== *)
theory Spec2Isabelle
  imports Cli_Commands Serial_Ring Shell_Line Ap_Main Shell_Tools Ping_Cmd Fw_Upgrade
begin

text \<open>
  A model of the access point software that this repository adds to eCos for the QCA9531 (all paths below
  are under \<^verbatim>\<open>src/ecos\<close>), with the theorems that make it correct.

  \<^bold>\<open>The program.\<close> \<^verbatim>\<open>main\<close> (\<^verbatim>\<open>ecosap/ecosap.c\<close>) starts the parts of the access point in order and then follows the link of the WAN
  port. The configuration is loaded from a sector of the SPI flash, or set to defaults (\<^verbatim>\<open>ecosap_nw.c\<close>, \<^verbatim>\<open>shell/flash.c\<close>, the flash
  library \<^verbatim>\<open>packages/io/flash\<close> and its driver \<^verbatim>\<open>packages/devs/flash/mips/qca953x\<close>). The wireless interface is started by a script of
  tool calls (\<^verbatim>\<open>apwlan.c\<close>). The WAN interface is connected by DHCP, with fixed addresses or by PPPoE (\<^verbatim>\<open>network_support.c\<close>,
  \<^verbatim>\<open>dhcp_prot.c\<close>, \<^verbatim>\<open>dhcp_support.c\<close>, \<^verbatim>\<open>bootp_support.c\<close>, all in \<^verbatim>\<open>packages/net/common\<close>); a thread renews its lease. The serial console
  (\<^verbatim>\<open>devs/serial/mips/qca\<close>) feeds a line editor (\<^verbatim>\<open>shell/shelltask.c\<close>) that runs the commands of \<^verbatim>\<open>shell/cli_utils.c\<close>,
  \<^verbatim>\<open>shell/wlan_commands.c\<close> and their neighbours, some of them in threads of their own (\<^verbatim>\<open>shell_thread.c\<close>, \<^verbatim>\<open>thread_cleanup.c\<close>). The
  configuration commands check their arguments, change the new configuration and write it to flash, to take effect at
  the next start.

  \<^bold>\<open>Conventions.\<close> C integers are words of their width, C structures records, strings the characters before
  the NUL, buffers lists where their bytes matter. What C leaves undefined (an access outside an array, a
  NULL pointer, a variable without a value) is a result \<open>Inl\<close> with the reason, so that \<open>Inr\<close> in a conclusion
  says that none of it happens; a wait that never ends is the fault \<open>Diverges\<close>. Code that is not in the repository (the firewall,
  wireless and bridge tools, PPP, FTP, the flash chip, the UART) and the network stack are parameters; what a theorem needs of
  them is an assumption or a locale with the documented behaviour. The network stack is a function from requests to results
  with a state of its own (\<open>kernel\<close> in \<^verbatim>\<open>Net_Setup\<close>); \<open>logged\<close> adds the list of requests, on which theorems about sockets and
  packets are stated.

  \<^bold>\<open>Theories.\<close>
  \<^item> \<^verbatim>\<open>Ap_Prelude\<close>: machine types, results with faults, the C library functions the sources call.
  \<^item> \<^verbatim>\<open>Inet_Text\<close>: \<^verbatim>\<open>inet_aton\<close>, \<^verbatim>\<open>inet_ntoa\<close>; \<^verbatim>\<open>Ip_Checks\<close>: the validators of \<^verbatim>\<open>ecosap_nw.c\<close>. They accept exactly the
    texts they should, stay in bounds, and what they accept can be read.
  \<^item> \<^verbatim>\<open>Spi_Flash\<close>: the bit-banged driver down to pin writes, over a chip given by the locale \<open>nor_flash\<close>; \<^verbatim>\<open>Flash_Io\<close>: the flash
    library and the configuration sector; \<^verbatim>\<open>Flash_Admin\<close>: its locks and queries; \<^verbatim>\<open>Nw_Config\<close>: the configuration structures,
    their byte image (locale \<open>layout\<close>), load, save and defaults; \<^verbatim>\<open>Conf_Flash\<close> puts these together: a saved configuration
    survives a restart. \<^verbatim>\<open>Fw_Upgrade\<close>: a firmware image on its way from the FTP server into the flash.
  \<^item> \<^verbatim>\<open>Ipfw_Store\<close>: the five stored firewall rules, refined to a multiset; \<^verbatim>\<open>Cli_Commands\<close>: the configuration
    commands, all or nothing and type preserving over whole sessions.
  \<^item> \<^verbatim>\<open>Serial_Ring\<close>: the console interrupt and reader as a queue; \<^verbatim>\<open>Shell_Line\<close>: the line editor, its
    history and the splitting of a line into arguments; \<^verbatim>\<open>Shell_Threads\<close>: thread creation and the cleanup thread in
    every interleaving; \<^verbatim>\<open>Shell_Tools\<close>: numbers, dump, thread, clock and watchdog commands; \<^verbatim>\<open>Ping_Cmd\<close>: the checksum and the echo
    requests of \<^verbatim>\<open>ping\<close>.
  \<^item> \<^verbatim>\<open>Ap_Wlan\<close>: the wireless start and stop scripts against a reference list of calls, and the commands that configure them.
  \<^item> \<^verbatim>\<open>Dhcp_Options\<close>: the option area of a packet, with a reference decoder; \<^verbatim>\<open>Net_Setup\<close>: the set-up of an
    interface through the network stack.
  \<^item> \<^verbatim>\<open>Dhcp_Client\<close>: the states of \<^verbatim>\<open>do_dhcp\<close>, its packets, timer and lease; \<^verbatim>\<open>Dhcp_Graph\<close>: every round is a move of the state
    graph of RFC 2131 and a silent server is given up; \<^verbatim>\<open>Dhcp_Protocol\<close>: what the packets say, that an address is taken only
    on an acknowledgement, and that a server that follows the RFC gives a lease; \<^verbatim>\<open>Dhcp_Sockets\<close>: every socket is closed.
  \<^item> \<^verbatim>\<open>Wan_Link\<close>: \<^verbatim>\<open>init_wan_interface\<close>, \<^verbatim>\<open>interface_down\<close> and the thread that replaces an expired lease; \<^verbatim>\<open>Ap_Main\<close>: the start of the
    whole program and its main loop, over the configuration in flash, the wireless scripts and the DHCP client.

  \<^bold>\<open>Bounds and fuel.\<close> Loops over data end by structural recursion or a measure. The loop of the UART interrupt
  ends because the parameter delivers finitely many bytes. The loop of \<^verbatim>\<open>do_dhcp\<close> takes a number of rounds: with no answer 21 are
  enough whatever the retry limit, and an exchange with a server takes 5. The wait for attention of the management thread and
  the wait for PPP take numbers too; a result \<open>None\<close> says that they were used up, and the theorems about connections state that the
  number given is enough, or that none is. The main loop runs once for each event in a list, where an event may arrive before
  or during the work of a round.

  \<^bold>\<open>Not modelled.\<close> Functions that only print, the echo of the line editor and the commands that read a hardware register or
  print kernel statistics; \<^verbatim>\<open>ifconfig\<close> with its option parser, imported from BSD; the set-up of the UART's clock and pins. Configured out of
  this build are \<^verbatim>\<open>do_bootp\<close>, IPv6, PCMCIA, a WAN on \<^verbatim>\<open>eth1\<close>, IGMP, HTTPD, SNTP, the DNS cache and the block locks of the flash;
  \<^verbatim>\<open>init_all_network_interfaces\<close> has no caller in it. The imported packages of eCos (kernel, network stack, file systems, TFTP,
  other boards) are only called by this program.
\<close>

end
